(* ===== verification/Prelude.thy ===== *)
theory Prelude
  imports Main "HOL-Library.Char_ord" "HOL-Library.List_Lexorder"
begin

text \<open>
  Shared ground of the development: Go's byte slices and strings, its fixed-width signed
  integers with wrap-around, the sentinel errors of \<^verbatim>\<open>src/types/error.go\<close>, and programs that
  read and change a state and end in a value, an error or a panic.

  A Go \<^verbatim>\<open>[]byte\<close> and a Go \<^verbatim>\<open>string\<close> are both a list of 8-bit characters, so the conversions
  \<^verbatim>\<open>[]byte(s)\<close> and \<^verbatim>\<open>string(b)\<close> are the identity; the order on lists of characters imported here
  (lexicographic, a proper prefix is smaller) is that of \<^verbatim>\<open>bytes.Compare\<close>.
\<close>

type_synonym bytes = "char list"

named_theorems prog_simps \<open>equations that run a program step by step\<close>
named_theorems int_width \<open>facts about wrapped integers\<close>
named_theorems keys_simps \<open>facts about the layout of database keys\<close>

subsection \<open>Signed integers of a fixed width\<close>

definition i64 :: "int \<Rightarrow> int" where
  "i64 x = (x + 2 ^ 63) mod 2 ^ 64 - 2 ^ 63"

definition i32 :: "int \<Rightarrow> int" where
  "i32 x = (x + 2 ^ 31) mod 2 ^ 32 - 2 ^ 31"

definition is_i64 :: "int \<Rightarrow> bool" where
  "is_i64 x \<longleftrightarrow> - (2 ^ 63) \<le> x \<and> x < 2 ^ 63"

definition is_i32 :: "int \<Rightarrow> bool" where
  "is_i32 x \<longleftrightarrow> - (2 ^ 31) \<le> x \<and> x < 2 ^ 31"

lemma i64_id [int_width]: "is_i64 x \<Longrightarrow> i64 x = x"
  by (simp add: i64_def is_i64_def)

lemma i32_id [int_width]: "is_i32 x \<Longrightarrow> i32 x = x"
  by (simp add: i32_def is_i32_def)

lemma is_i64_i64 [simp]: "is_i64 (i64 x)"
  by (simp add: i64_def is_i64_def)

lemma is_i32_i32 [simp]: "is_i32 (i32 x)"
  by (simp add: i32_def is_i32_def)

lemma i64_eq_iff [int_width]: "i64 x = x \<longleftrightarrow> is_i64 x"
  using i64_id is_i64_i64 by metis

lemma i64_add_left: "i64 (i64 x + y) = i64 (x + y)"
proof -
  have "((x + 2 ^ 63) mod 2 ^ 64 + y) mod 2 ^ 64 = (x + 2 ^ 63 + y) mod (2 ^ 64 :: int)"
    by (rule mod_add_left_eq)
  then show ?thesis by (simp add: i64_def ac_simps)
qed

lemma i64_over:
  "2 ^ 63 \<le> x \<Longrightarrow> x < 2 ^ 63 + 2 ^ 64 \<Longrightarrow> i64 x = x - 2 ^ 64"
proof -
  assume a: "2 ^ 63 \<le> x" "x < 2 ^ 63 + 2 ^ 64"
  have "(x + 2 ^ 63) mod 2 ^ 64 = (x + 2 ^ 63 - 2 ^ 64) mod 2 ^ 64"
    by (rule minus_mod_self2 [symmetric])
  also have "\<dots> = x + 2 ^ 63 - 2 ^ 64"
    using a by simp
  finally show ?thesis
    by (simp add: i64_def)
qed

subsection \<open>Errors, outcomes and programs\<close>

datatype error =
    ErrNotFound | ErrAmount | ErrNoBalance | ErrSendSameToRecv | ErrNotAllowDeposit
  | ErrExecNameNotAllow | ErrSymbolNameNotAllow | ErrTypeAsset
  | ErrTxExist | ErrManyTx | ErrMemFull
  | ErrDisableRead | ErrDisableWrite
  | ErrCloneForkFrom | ErrCloneForkToExist
  | ErrNodeNotExist | ErrHashNotFound | ErrDataBaseDamage
  | ErrTxGroupCountLessThanTwo | ErrTxGroupEmpty | ErrTxGroupParaCount | ErrTxGroupParaMainMixed
  | ErrTxGroupFeeNotZero | ErrTxGroupHeader | ErrTxGroupCountBigThanMaxSize | ErrTxGroupCount
  | ErrTxGroupNext | ErrNomalTx | ErrTxMsgSizeTooBig | ErrTxFeeTooLow | ErrTxFeeTooHigh
  | ErrIndex | ErrHeaderNotSet | ErrTxExpire | ErrInvalidAddress | ErrEmptyTx | ErrDupTx
  | ErrNotSync | ErrSize | ErrSign | ErrCheckVersion | ErrCheckChecksum | ErrAddressChecksum
  | ErrPointerNotFound | ErrNotSetInTransaction | ErrMavlKeyNotStartWithMavl | ErrNoExecerInMavlKey
  | ErrLocalPrefix | ErrLocalKeyLen | ErrUnRegistedDriver | ErrUnknowDriver | ErrNotAllow
  | ErrActionNotSupport | ErrToAddrNotSameToExecAddr | ErrReRunGenesis | ErrNotAllowMemSetKey
  | ErrNotAllowMemSetLocalKey | ErrNotAllowKey | ErrBalanceLessThanTenTimesFee | ErrTxGroupNotSupport
  | ErrNoPrivilege | ErrBadConfigKey | ErrBadConfigOp | ErrExecPanic | ErrDecode | ErrTxGroupIndex | ErrTxGroupFormat
  | ErrAPIEnv | ErrQueueTimeout | ErrQueueChannelFull | ErrIsQueueClosed | ErrGrpc string
  | ErrPrevVersion | ErrVersion
  | ErrOther string

text \<open>
  A Go call ends in a value, in a non-nil error, or in a panic; each leaves the state it has
  reached. The string of a panic is the model's own label.
\<close>

datatype 'a outcome = Ret 'a | Err error | Panic string

type_synonym ('s, 'a) prog = "'s \<Rightarrow> 'a outcome \<times> 's"

definition ret :: "'a \<Rightarrow> ('s, 'a) prog" where
  "ret a s = (Ret a, s)"

definition fail :: "error \<Rightarrow> ('s, 'a) prog" where
  "fail e s = (Err e, s)"

definition panic :: "string \<Rightarrow> ('s, 'a) prog" where
  "panic m s = (Panic m, s)"

definition bind :: "('s, 'a) prog \<Rightarrow> ('a \<Rightarrow> ('s, 'b) prog) \<Rightarrow> ('s, 'b) prog" where
  "bind m f s =
     (case m s of
        (Ret a, s') \<Rightarrow> f a s'
      | (Err e, s') \<Rightarrow> (Err e, s')
      | (Panic p, s') \<Rightarrow> (Panic p, s'))"

text \<open>\<open>attempt m\<close> hands the error of \<open>m\<close> to the caller as a value (\<^verbatim>\<open>v, err := m()\<close>).\<close>

definition attempt :: "('s, 'a) prog \<Rightarrow> ('s, error + 'a) prog" where
  "attempt m s =
     (case m s of
        (Ret a, s') \<Rightarrow> (Ret (Inr a), s')
      | (Err e, s') \<Rightarrow> (Ret (Inl e), s')
      | (Panic p, s') \<Rightarrow> (Panic p, s'))"

text \<open>\<open>must m\<close> turns an error into a panic (\<^verbatim>\<open>if err != nil { panic(err) }\<close>).\<close>

definition must :: "('s, 'a) prog \<Rightarrow> ('s, 'a) prog" where
  "must m s =
     (case m s of
        (Ret a, s') \<Rightarrow> (Ret a, s')
      | (Err e, s') \<Rightarrow> (Panic ''err'', s')
      | (Panic p, s') \<Rightarrow> (Panic p, s'))"

fun forM :: "'a list \<Rightarrow> ('a \<Rightarrow> ('s, unit) prog) \<Rightarrow> ('s, unit) prog" where
  "forM [] f = ret ()"
| "forM (x # xs) f = bind (f x) (\<lambda>_. forM xs f)"

lemma ret_run [simp, prog_simps]: "ret a s = (Ret a, s)"
  by (simp add: ret_def)

lemma fail_run [simp, prog_simps]: "fail e s = (Err e, s)"
  by (simp add: fail_def)

lemma panic_run [simp, prog_simps]: "panic m s = (Panic m, s)"
  by (simp add: panic_def)

lemma bind_Ret [prog_simps]: "m s = (Ret a, s') \<Longrightarrow> bind m f s = f a s'"
  by (simp add: bind_def)

lemma bind_Err [prog_simps]: "m s = (Err e, s') \<Longrightarrow> bind m f s = (Err e, s')"
  by (simp add: bind_def)

lemma bind_Panic [prog_simps]: "m s = (Panic p, s') \<Longrightarrow> bind m f s = (Panic p, s')"
  by (simp add: bind_def)

lemma bind_ret [simp]: "bind (ret a) f = f a"
  by (simp add: bind_def fun_eq_iff)

lemma bind_fail [simp]: "bind (fail e) f = fail e"
  by (simp add: bind_def fun_eq_iff)

lemma bind_Pair_Ret [simp]: "bind (Pair (Ret a)) f = f a"
  by (simp add: bind_def fun_eq_iff)

lemma bind_Pair_Err [simp]: "bind (Pair (Err e)) f = Pair (Err e)"
  by (simp add: bind_def fun_eq_iff)

lemma bind_Pair_Panic [simp]: "bind (Pair (Panic p)) f = Pair (Panic p)"
  by (simp add: bind_def fun_eq_iff)

lemma bind_assoc: "bind (bind m f) g = bind m (\<lambda>x. bind (f x) g)"
  by (rule ext) (simp add: bind_def split: outcome.splits prod.splits)

lemma bind_eq_Ret:
  "bind m f s = (Ret b, t) \<longleftrightarrow> (\<exists>a s'. m s = (Ret a, s') \<and> f a s' = (Ret b, t))"
  by (auto simp: bind_def split: outcome.splits prod.splits)

lemma attempt_Ret [prog_simps]: "m s = (Ret a, s') \<Longrightarrow> attempt m s = (Ret (Inr a), s')"
  by (simp add: attempt_def)

lemma attempt_Err [prog_simps]: "m s = (Err e, s') \<Longrightarrow> attempt m s = (Ret (Inl e), s')"
  by (simp add: attempt_def)

lemma must_Ret [prog_simps]: "m s = (Ret a, s') \<Longrightarrow> must m s = (Ret a, s')"
  by (simp add: must_def)

lemma forM_append: "forM (xs @ ys) f = bind (forM xs f) (\<lambda>_. forM ys f)"
  by (induction xs) (simp_all add: bind_assoc)

text \<open>\<open>wp m P s\<close>: running \<open>m\<close> from \<open>s\<close> ends in an outcome and a state that satisfy \<open>P\<close>.\<close>

definition wp :: "('s, 'a) prog \<Rightarrow> ('a outcome \<Rightarrow> 's \<Rightarrow> bool) \<Rightarrow> 's \<Rightarrow> bool" where
  "wp m P s \<longleftrightarrow> (case m s of (r, s') \<Rightarrow> P r s')"

named_theorems wp_simps \<open>how \<open>wp\<close> computes on the constructors of programs\<close>

lemma wp_ret [wp_simps]: "wp (ret a) P s = P (Ret a) s"
  by (simp add: wp_def)

lemma wp_fail [wp_simps]: "wp (fail e) P s = P (Err e) s"
  by (simp add: wp_def)

lemma wp_panic [wp_simps]: "wp (panic p) P s = P (Panic p) s"
  by (simp add: wp_def)

lemma wp_bind [wp_simps]:
  "wp (bind m f) P s =
     wp m (\<lambda>r s'. case r of Ret a \<Rightarrow> wp (f a) P s' | Err e \<Rightarrow> P (Err e) s' | Panic p \<Rightarrow> P (Panic p) s') s"
  by (auto simp: wp_def bind_def split: prod.splits outcome.splits)

lemma wp_attempt [wp_simps]:
  "wp (attempt m) P s =
     wp m (\<lambda>r s'. case r of Ret a \<Rightarrow> P (Ret (Inr a)) s' | Err e \<Rightarrow> P (Ret (Inl e)) s'
                           | Panic p \<Rightarrow> P (Panic p) s') s"
  by (auto simp: wp_def attempt_def split: prod.splits outcome.splits)

lemma wp_must [wp_simps]:
  "wp (must m) P s =
     wp m (\<lambda>r s'. case r of Ret a \<Rightarrow> P (Ret a) s' | Err e \<Rightarrow> P (Panic ''err'') s'
                           | Panic p \<Rightarrow> P (Panic p) s') s"
  by (auto simp: wp_def must_def split: prod.splits outcome.splits)

lemma wp_if [wp_simps]: "wp (if b then m else n) P s = (if b then wp m P s else wp n P s)"
  by simp

lemma wp_mono: "wp m P s \<Longrightarrow> (\<And>r s'. P r s' \<Longrightarrow> Q r s') \<Longrightarrow> wp m Q s"
  by (auto simp: wp_def split: prod.splits)

lemma wp_run: "wp m P s \<Longrightarrow> m s = (r, s') \<Longrightarrow> P r s'"
  by (simp add: wp_def)

text \<open>Sequencing for calls that change no state of their own.\<close>

definition obind :: "'a outcome \<Rightarrow> ('a \<Rightarrow> 'b outcome) \<Rightarrow> 'b outcome" where
  "obind m f = (case m of Ret a \<Rightarrow> f a | Err e \<Rightarrow> Err e | Panic p \<Rightarrow> Panic p)"

definition of_sum :: "error + 'a \<Rightarrow> 'a outcome" where
  "of_sum r = (case r of Inl e \<Rightarrow> Err e | Inr a \<Rightarrow> Ret a)"

lemma obind_simps [simp]:
  "obind (Ret a) f = f a" "obind (Err e) f = Err e" "obind (Panic p) f = Panic p"
  by (simp_all add: obind_def)

lemma of_sum_simps [simp]: "of_sum (Inl e) = Err e" "of_sum (Inr a) = Ret a"
  by (simp_all add: of_sum_def)

subsection \<open>Lists and sums the components share\<close>

lemma append_eq_append_sep:
  assumes "c \<notin> set xs" and "c \<notin> set ys" and "xs @ c # us = ys @ c # vs"
  shows "xs = ys \<and> us = vs"
  using assms by (induction xs arbitrary: ys) (auto simp: Cons_eq_append_conv)

lemma sum_update_in:
  fixes f :: "'a \<Rightarrow> int"
  assumes "finite A" and "a \<in> A"
  shows "sum (f(a := v)) A = sum f A - f a + v"
proof -
  have "sum (f(a := v)) A = v + sum f (A - {a})"
    using assms by (subst sum.remove [of A a]) (auto intro: sum.cong)
  moreover have "sum f A = f a + sum f (A - {a})"
    using assms by (rule sum.remove)
  ultimately show ?thesis by simp
qed

lemma sum_update_out:
  fixes f :: "'a \<Rightarrow> int"
  assumes "a \<notin> A"
  shows "sum (f(a := v)) A = sum f A"
  using assms by (intro sum.cong) auto

end
