(* ===== verification/KVStore.thy ===== *)
theory KVStore
  imports Prelude
begin

text \<open>
  The interface \<^verbatim>\<open>KV\<close> of \<^verbatim>\<open>src/common/db/db.go\<close> (\<^verbatim>\<open>Get\<close>, \<^verbatim>\<open>Set\<close>, \<^verbatim>\<open>Begin\<close>, \<^verbatim>\<open>Commit\<close>,
  \<^verbatim>\<open>Rollback\<close>) as a record of methods over a provider's state, and its contract in two locales:
  \<open>kv_store\<close> says what a read returns after a write, \<open>kv_tx\<close> adds the memory transaction. A nil
  value passed to \<^verbatim>\<open>Set\<close> is \<open>None\<close>. The lemmas of the locales are what clients of the interface
  (the account database) rest on; the providers interpret them.
\<close>

record 's KV =
  kvGet :: "bytes \<Rightarrow> ('s, bytes) prog"
  kvSet :: "bytes \<Rightarrow> bytes option \<Rightarrow> ('s, unit) prog"
  kvBegin :: "('s, unit) prog"
  kvCommit :: "('s, unit) prog"
  kvRollback :: "('s, unit) prog"

text \<open>A client's calls between two transaction marks; read errors are the client's business.\<close>

datatype kvop = OpGet bytes | OpSet bytes bytes

fun kv_exec :: "'s KV \<Rightarrow> kvop list \<Rightarrow> ('s, unit) prog" where
  "kv_exec kv [] = ret ()"
| "kv_exec kv (OpGet k # ops) = bind (attempt (kvGet kv k)) (\<lambda>_. kv_exec kv ops)"
| "kv_exec kv (OpSet k v # ops) = bind (kvSet kv k (Some v)) (\<lambda>_. kv_exec kv ops)"

text \<open>The effect of the calls on a plain map.\<close>

fun kv_effect :: "kvop list \<Rightarrow> (bytes \<Rightarrow> bytes option) \<Rightarrow> bytes \<Rightarrow> bytes option" where
  "kv_effect [] m = m"
| "kv_effect (OpGet k # ops) m = kv_effect ops m"
| "kv_effect (OpSet k v # ops) m = kv_effect ops (m(k \<mapsto> v))"

locale kv_store =
  fixes kv :: "'s KV"
    and view :: "'s \<Rightarrow> bytes \<Rightarrow> bytes option"
    and inv :: "'s \<Rightarrow> bool"
  assumes get_Some:
      "inv s \<Longrightarrow> view s k = Some v \<Longrightarrow>
         \<exists>s'. kvGet kv k s = (Ret v, s') \<and> inv s' \<and> view s' = view s"
    and get_None:
      "inv s \<Longrightarrow> view s k = None \<Longrightarrow>
         \<exists>e s'. kvGet kv k s = (Err e, s') \<and> inv s' \<and> view s' = view s"
    and set_Some:
      "inv s \<Longrightarrow> \<exists>s'. kvSet kv k (Some v) s = (Ret (), s') \<and> inv s' \<and> view s' = (view s)(k \<mapsto> v)"
begin

lemma get_attempt:
  assumes "inv s"
  shows "\<exists>r s'. attempt (kvGet kv k) s = (Ret r, s') \<and> inv s' \<and> view s' = view s \<and>
           (case view s k of Some v \<Rightarrow> r = Inr v | None \<Rightarrow> \<exists>e. r = Inl e)"
proof (cases "view s k")
  case None
  from get_None [OF assms None] obtain e s'
    where "kvGet kv k s = (Err e, s')" "inv s'" "view s' = view s" by blast
  with None show ?thesis by (simp add: attempt_Err)
next
  case (Some v)
  from get_Some [OF assms Some] obtain s'
    where "kvGet kv k s = (Ret v, s')" "inv s'" "view s' = view s" by blast
  with Some show ?thesis by (simp add: attempt_Ret)
qed

lemma exec_view:
  assumes "inv s"
  shows "\<exists>s'. kv_exec kv ops s = (Ret (), s') \<and> inv s' \<and> view s' = kv_effect ops (view s)"
  using assms
proof (induction ops arbitrary: s)
  case (Cons op ops)
  show ?case
  proof (cases op)
    case (OpGet k)
    obtain r s' where "attempt (kvGet kv k) s = (Ret r, s')" "inv s'" "view s' = view s"
      using get_attempt [OF Cons.prems] by blast
    with Cons.IH [of s'] OpGet show ?thesis by (simp add: bind_Ret)
  next
    case (OpSet k v)
    obtain s' where "kvSet kv k (Some v) s = (Ret (), s')" "inv s'" "view s' = (view s)(k \<mapsto> v)"
      using set_Some [OF Cons.prems] by blast
    with Cons.IH [of s'] OpSet show ?thesis by (simp add: bind_Ret fun_upd_def)
  qed
qed simp

end

locale kv_tx = kv_store kv view inv
  for kv :: "'s KV" and view :: "'s \<Rightarrow> bytes \<Rightarrow> bytes option" and inv :: "'s \<Rightarrow> bool" +
  fixes base :: "'s \<Rightarrow> bytes \<Rightarrow> bytes option"
    and in_tx :: "'s \<Rightarrow> bool"
  assumes get_frame:
      "inv s \<Longrightarrow> base (snd (kvGet kv k s)) = base s \<and> in_tx (snd (kvGet kv k s)) = in_tx s"
    and set_frame:
      "inv s \<Longrightarrow> in_tx s \<Longrightarrow>
         base (snd (kvSet kv k (Some v) s)) = base s \<and> in_tx (snd (kvSet kv k (Some v) s))"
    and outside: "inv s \<Longrightarrow> \<not> in_tx s \<Longrightarrow> view s = base s"
    and begin_tx:
      "inv s \<Longrightarrow> \<exists>s'. kvBegin kv s = (Ret (), s') \<and> inv s' \<and> in_tx s' \<and>
                        view s' = base s \<and> base s' = base s"
    and rollback_tx:
      "inv s \<Longrightarrow> \<exists>s'. kvRollback kv s = (Ret (), s') \<and> inv s' \<and> \<not> in_tx s' \<and>
                        view s' = base s \<and> base s' = base s"
    and commit_tx:
      "inv s \<Longrightarrow> in_tx s \<Longrightarrow> \<exists>s'. kvCommit kv s = (Ret (), s') \<and> inv s' \<and> \<not> in_tx s' \<and>
                        view s' = view s \<and> base s' = view s"
begin

lemma exec_frame:
  assumes "inv s" and "in_tx s" and "kv_exec kv ops s = (r, s')"
  shows "base s' = base s \<and> in_tx s'"
  using assms
proof (induction ops arbitrary: s)
  case (Cons op ops)
  show ?case
  proof (cases op)
    case (OpGet k)
    obtain r1 s1 where "attempt (kvGet kv k) s = (Ret r1, s1)" "inv s1"
      using get_attempt [OF Cons.prems(1)] by blast
    moreover from this have "s1 = snd (kvGet kv k s)"
      by (auto simp: attempt_def split: prod.splits outcome.splits)
    ultimately show ?thesis
      using Cons get_frame [OF Cons.prems(1), of k] OpGet by (simp add: bind_Ret)
  next
    case (OpSet k v)
    obtain s1 where "kvSet kv k (Some v) s = (Ret (), s1)" "inv s1"
      using set_Some [OF Cons.prems(1)] by blast
    then show ?thesis
      using Cons set_frame [OF Cons.prems(1,2), of k v] OpSet by (simp add: bind_Ret)
  qed
qed simp

lemma begin_exec:
  assumes "inv s"
  shows "\<exists>s'. bind (kvBegin kv) (\<lambda>_. kv_exec kv ops) s = (Ret (), s') \<and> inv s' \<and> in_tx s' \<and>
              view s' = kv_effect ops (base s) \<and> base s' = base s"
proof -
  obtain s1 where s1: "kvBegin kv s = (Ret (), s1)" "inv s1" "in_tx s1"
      "view s1 = base s" "base s1 = base s"
    using begin_tx [OF assms] by blast
  obtain s2 where s2: "kv_exec kv ops s1 = (Ret (), s2)" "inv s2" "view s2 = kv_effect ops (view s1)"
    using exec_view [OF s1(2)] by blast
  with exec_frame [OF s1(2,3) s2(1)] s1 show ?thesis
    by (auto simp: bind_Ret)
qed

lemma tx_rollback:
  assumes "inv s" and "\<not> in_tx s"
  shows "\<exists>s'. bind (kvBegin kv) (\<lambda>_. bind (kv_exec kv ops) (\<lambda>_. kvRollback kv)) s = (Ret (), s') \<and>
              inv s' \<and> \<not> in_tx s' \<and> view s' = view s"
proof -
  obtain s1 where s1: "bind (kvBegin kv) (\<lambda>_. kv_exec kv ops) s = (Ret (), s1)" "inv s1"
      "base s1 = base s"
    using begin_exec [OF assms(1)] by blast
  with rollback_tx [OF s1(2)] outside [OF assms] show ?thesis
    by (auto simp: bind_assoc [symmetric] bind_Ret)
qed

lemma tx_commit:
  assumes "inv s" and "\<not> in_tx s"
  shows "\<exists>s'. bind (kvBegin kv) (\<lambda>_. bind (kv_exec kv ops) (\<lambda>_. kvCommit kv)) s = (Ret (), s') \<and>
              inv s' \<and> \<not> in_tx s' \<and> view s' = kv_effect ops (view s)"
proof -
  obtain s1 where s1: "bind (kvBegin kv) (\<lambda>_. kv_exec kv ops) s = (Ret (), s1)" "inv s1" "in_tx s1"
      "view s1 = kv_effect ops (base s)"
    using begin_exec [OF assms(1)] by blast
  with commit_tx [OF s1(2,3)] outside [OF assms] show ?thesis
    by (auto simp: bind_assoc [symmetric] bind_Ret)
qed

end

end
