(* ===== verification/Account.thy ===== *)
theory Account
  imports KVStore
begin

text \<open>
  The account database of \<^verbatim>\<open>src/account\<close> (\<^verbatim>\<open>account.go\<close>, \<^verbatim>\<open>execaccount.go\<close>, \<^verbatim>\<open>genesis.go\<close>): coins of
  one asset held by addresses, and by addresses inside contracts, where they can be frozen.
  The operations are programs over the state of the key-value store the database was given
  (\<open>db\<close>); amounts are Go \<^verbatim>\<open>int64\<close>, so every sum and difference is wrapped with \<open>i64\<close>. The protobuf
  library (\<^verbatim>\<open>types.Encode\<close>, \<^verbatim>\<open>types.Decode\<close>) is the record \<open>codec\<close>; the node's configuration and the
  address hash are \<open>chain_env\<close>; the queue API of the query functions is passed as functions.
\<close>

subsection \<open>Messages\<close>

record Account =
  Currency :: int
  Balance :: int
  Frozen :: int
  Addr :: string

datatype LogMsg =
    ReceiptAccountTransfer Account Account
  | ReceiptExecAccountTransfer string Account Account
  | ReceiptAccountMint Account Account
  | ReceiptAccountBurn Account Account

record KeyValue =
  Key :: bytes
  Val :: "bytes option"

record ReceiptLog =
  LogTy :: int
  Log :: bytes

record Receipt =
  Ty :: int
  KV :: "KeyValue list"
  Logs :: "ReceiptLog list"

record codec =
  Encode :: "Account \<Rightarrow> bytes"
  Decode :: "bytes \<Rightarrow> Account option"
  EncodeLog :: "LogMsg \<Rightarrow> bytes"

record chain_env =
  GetMinerExecs :: "string list"
  ExecName :: "string \<Rightarrow> string"
  ExecAddress :: "string \<Rightarrow> string"

abbreviation (input) TyLogTransfer :: int where "TyLogTransfer \<equiv> 3"
abbreviation (input) TyLogDeposit :: int where "TyLogDeposit \<equiv> 5"
abbreviation (input) TyLogExecTransfer :: int where "TyLogExecTransfer \<equiv> 6"
abbreviation (input) TyLogExecWithdraw :: int where "TyLogExecWithdraw \<equiv> 7"
abbreviation (input) TyLogExecDeposit :: int where "TyLogExecDeposit \<equiv> 8"
abbreviation (input) TyLogExecFrozen :: int where "TyLogExecFrozen \<equiv> 9"
abbreviation (input) TyLogExecActive :: int where "TyLogExecActive \<equiv> 10"
abbreviation (input) TyLogGenesisTransfer :: int where "TyLogGenesisTransfer \<equiv> 11"
abbreviation (input) TyLogGenesisDeposit :: int where "TyLogGenesisDeposit \<equiv> 12"
abbreviation (input) TyLogMint :: int where "TyLogMint \<equiv> 14"
abbreviation (input) TyLogBurn :: int where "TyLogBurn \<equiv> 15"
abbreviation (input) ExecOk :: int where "ExecOk \<equiv> 2"

definition MaxCoin :: int where
  "MaxCoin = 100000000000000000"

definition MaxTokenBalance :: int where
  "MaxTokenBalance = 900 * 100000000 * 100000000"

definition CheckAmount :: "int \<Rightarrow> bool" where
  "CheckAmount amount = (if amount \<le> 0 \<or> amount \<ge> MaxCoin then False else True)"

definition newAccount :: "string \<Rightarrow> Account" where
  "newAccount addr = \<lparr>Currency = 0, Balance = 0, Frozen = 0, Addr = addr\<rparr>"

subsection \<open>The database and its keys (account.go)\<close>

record 's AccDB =
  db :: "'s KV"
  accountKeyPerfix :: bytes
  execAccountKeyPerfix :: bytes
  execer :: string
  symbol :: string
  accountKeyBuffer :: bytes
  pb :: codec

definition symbolPrefix :: "string \<Rightarrow> string \<Rightarrow> string" where
  "symbolPrefix exec symb = ''mavl-'' @ exec @ ''-'' @ symb @ ''-''"

definition symbolExecPrefix :: "string \<Rightarrow> string \<Rightarrow> string" where
  "symbolExecPrefix exec symb = ''mavl-'' @ exec @ ''-'' @ symb @ ''-exec''"

definition newAccountDB :: "'s KV \<Rightarrow> codec \<Rightarrow> string \<Rightarrow> 's AccDB" where
  "newAccountDB kv c prefix =
     \<lparr>db = kv, accountKeyPerfix = prefix, execAccountKeyPerfix = prefix @ ''exec-'',
      execer = '''', symbol = '''', accountKeyBuffer = prefix, pb = c\<rparr>"

definition SetDB :: "'s AccDB \<Rightarrow> 's KV \<Rightarrow> 's AccDB" where
  "SetDB acc kv = acc\<lparr>db := kv\<rparr>"

definition NewCoinsAccount :: "'s KV \<Rightarrow> codec \<Rightarrow> string \<Rightarrow> 's AccDB" where
  "NewCoinsAccount kv c coinSymbol = newAccountDB kv c (''mavl-coins-'' @ coinSymbol @ ''-'')"

definition NewAccountDB :: "codec \<Rightarrow> string \<Rightarrow> string \<Rightarrow> 's KV \<Rightarrow> error + 's AccDB" where
  "NewAccountDB c exec symb kv =
     (if CHR ''-'' \<in> set exec then Inl ErrExecNameNotAllow
      else if CHR ''-'' \<in> set symb then Inl ErrSymbolNameNotAllow
      else Inr (SetDB ((newAccountDB kv c (symbolPrefix exec symb))\<lparr>execer := exec, symbol := symb\<rparr>) kv))"

text \<open>
  The read key reuses a buffer: the buffer is cut back to the length of the prefix and the
  address appended, so its first bytes are the prefix at every call.
\<close>

definition accountReadKey :: "'s AccDB \<Rightarrow> string \<Rightarrow> bytes" where
  "accountReadKey acc addr = take (length (accountKeyPerfix acc)) (accountKeyBuffer acc) @ addr"

definition AccountKey :: "'s AccDB \<Rightarrow> string \<Rightarrow> bytes" where
  "AccountKey acc address = accountKeyPerfix acc @ address"

definition execAccountKey :: "'s AccDB \<Rightarrow> string \<Rightarrow> string \<Rightarrow> bytes" where
  "execAccountKey acc address execaddr = execAccountKeyPerfix acc @ execaddr @ '':'' @ address"

definition LoadAccount :: "'s AccDB \<Rightarrow> string \<Rightarrow> ('s, Account) prog" where
  "LoadAccount acc addr =
     bind (attempt (kvGet (db acc) (accountReadKey acc addr)))
       (\<lambda>r. case r of
              Inl _ \<Rightarrow> ret (newAccount addr)
            | Inr value \<Rightarrow>
                (case Decode (pb acc) value of None \<Rightarrow> panic ''decode'' | Some acc1 \<Rightarrow> ret acc1))"

definition GetKVSet :: "'s AccDB \<Rightarrow> Account \<Rightarrow> KeyValue list" where
  "GetKVSet acc acc1 = [\<lparr>Key = AccountKey acc (Addr acc1), Val = Some (Encode (pb acc) acc1)\<rparr>]"

definition SaveKVSet :: "'s AccDB \<Rightarrow> KeyValue list \<Rightarrow> ('s, unit) prog" where
  "SaveKVSet acc kvs = forM kvs (\<lambda>kv. must (kvSet (db acc) (Key kv) (Val kv)))"

definition SaveAccount :: "'s AccDB \<Rightarrow> Account \<Rightarrow> ('s, unit) prog" where
  "SaveAccount acc acc1 =
     forM (GetKVSet acc acc1) (\<lambda>kv. must (kvSet (db acc) (Key kv) (Val kv)))"

fun LoadAccountsDB :: "'s AccDB \<Rightarrow> string list \<Rightarrow> ('s, Account list) prog" where
  "LoadAccountsDB acc [] = ret []"
| "LoadAccountsDB acc (addr # addrs) =
     bind (LoadAccount acc addr) (\<lambda>acc1. bind (LoadAccountsDB acc addrs) (\<lambda>accs. ret (acc1 # accs)))"

subsection \<open>Transfer, deposit, mint and burn (account.go)\<close>

definition CheckTransfer :: "'s AccDB \<Rightarrow> string \<Rightarrow> string \<Rightarrow> int \<Rightarrow> ('s, unit) prog" where
  "CheckTransfer acc from to amount =
     (if \<not> CheckAmount amount then fail ErrAmount
      else bind (LoadAccount acc from)
        (\<lambda>accFrom. if i64 (Balance accFrom - amount) < 0 then fail ErrNoBalance else ret ()))"

definition transferReceipt ::
  "'s AccDB \<Rightarrow> KeyValue list \<Rightarrow> KeyValue list \<Rightarrow> LogMsg \<Rightarrow> LogMsg \<Rightarrow> Receipt" where
  "transferReceipt acc fromkv tokv receiptFrom receiptTo =
     \<lparr>Ty = ExecOk, KV = fromkv @ tokv,
      Logs = [\<lparr>LogTy = TyLogTransfer, Log = EncodeLog (pb acc) receiptFrom\<rparr>,
              \<lparr>LogTy = TyLogTransfer, Log = EncodeLog (pb acc) receiptTo\<rparr>]\<rparr>"

definition Transfer :: "'s AccDB \<Rightarrow> string \<Rightarrow> string \<Rightarrow> int \<Rightarrow> ('s, Receipt) prog" where
  "Transfer acc from to amount =
     (if \<not> CheckAmount amount then fail ErrAmount
      else bind (LoadAccount acc from) (\<lambda>accFrom. bind (LoadAccount acc to) (\<lambda>accTo.
        if Addr accFrom = Addr accTo then fail ErrSendSameToRecv
        else if i64 (Balance accFrom - amount) \<ge> 0 then
          (let accFrom' = accFrom\<lparr>Balance := i64 (Balance accFrom - amount)\<rparr>;
               accTo' = accTo\<lparr>Balance := i64 (Balance accTo + amount)\<rparr>;
               fromkv = GetKVSet acc accFrom';
               tokv = GetKVSet acc accTo'
           in bind (SaveKVSet acc fromkv) (\<lambda>_. bind (SaveKVSet acc tokv) (\<lambda>_.
                ret (transferReceipt acc fromkv tokv
                       (ReceiptAccountTransfer accFrom accFrom')
                       (ReceiptAccountTransfer accTo accTo')))))
        else fail ErrNoBalance)))"

definition depositBalance :: "'s AccDB \<Rightarrow> string \<Rightarrow> int \<Rightarrow> ('s, Receipt) prog" where
  "depositBalance acc execaddr amount =
     (if \<not> CheckAmount amount then fail ErrAmount
      else bind (LoadAccount acc execaddr) (\<lambda>copyacc.
        let acc1 = copyacc\<lparr>Balance := i64 (Balance copyacc + amount)\<rparr>;
            kv = GetKVSet acc acc1
        in bind (SaveKVSet acc kv) (\<lambda>_.
             ret \<lparr>Ty = ExecOk, KV = kv,
                  Logs = [\<lparr>LogTy = TyLogDeposit,
                           Log = EncodeLog (pb acc) (ReceiptAccountTransfer copyacc acc1)\<rparr>]\<rparr>)))"

definition safeAdd :: "int \<Rightarrow> int \<Rightarrow> error + int" where
  "safeAdd bal amount =
     (if i64 (bal + amount) < amount \<or> i64 (bal + amount) > MaxTokenBalance then Inl ErrAmount
      else Inr (i64 (bal + amount)))"

definition mintReceipt :: "'s AccDB \<Rightarrow> KeyValue list \<Rightarrow> LogMsg \<Rightarrow> Receipt" where
  "mintReceipt acc kv receipt =
     \<lparr>Ty = ExecOk, KV = kv, Logs = [\<lparr>LogTy = TyLogMint, Log = EncodeLog (pb acc) receipt\<rparr>]\<rparr>"

definition Mint :: "'s AccDB \<Rightarrow> string \<Rightarrow> int \<Rightarrow> ('s, Receipt) prog" where
  "Mint acc addr amount =
     (if \<not> CheckAmount amount then fail ErrAmount
      else bind (LoadAccount acc addr) (\<lambda>copyAcc.
        case safeAdd (Balance copyAcc) amount of
          Inl err \<Rightarrow> fail err
        | Inr bal \<Rightarrow>
            (let accTo = copyAcc\<lparr>Balance := bal\<rparr>;
                 kv = GetKVSet acc accTo
             in bind (SaveKVSet acc kv) (\<lambda>_. ret (mintReceipt acc kv (ReceiptAccountMint copyAcc accTo))))))"

definition burnReceipt :: "'s AccDB \<Rightarrow> KeyValue list \<Rightarrow> LogMsg \<Rightarrow> Receipt" where
  "burnReceipt acc kv receipt =
     \<lparr>Ty = ExecOk, KV = kv, Logs = [\<lparr>LogTy = TyLogBurn, Log = EncodeLog (pb acc) receipt\<rparr>]\<rparr>"

definition Burn :: "'s AccDB \<Rightarrow> string \<Rightarrow> int \<Rightarrow> ('s, Receipt) prog" where
  "Burn acc addr amount =
     (if \<not> CheckAmount amount then fail ErrAmount
      else bind (LoadAccount acc addr) (\<lambda>copyAcc.
        if Balance copyAcc < amount then fail ErrNoBalance
        else
          (let accTo = copyAcc\<lparr>Balance := i64 (Balance copyAcc - amount)\<rparr>;
               kv = GetKVSet acc accTo
           in bind (SaveKVSet acc kv) (\<lambda>_. ret (burnReceipt acc kv (ReceiptAccountBurn copyAcc accTo))))))"

subsection \<open>Coins inside contracts (execaccount.go)\<close>

definition LoadExecAccount :: "'s AccDB \<Rightarrow> string \<Rightarrow> string \<Rightarrow> ('s, Account) prog" where
  "LoadExecAccount acc addr execaddr =
     bind (attempt (kvGet (db acc) (execAccountKey acc addr execaddr)))
       (\<lambda>r. case r of
              Inl _ \<Rightarrow> ret (newAccount addr)
            | Inr value \<Rightarrow>
                (case Decode (pb acc) value of None \<Rightarrow> panic ''decode'' | Some acc1 \<Rightarrow> ret acc1))"

definition GetExecKVSet :: "'s AccDB \<Rightarrow> string \<Rightarrow> Account \<Rightarrow> KeyValue list" where
  "GetExecKVSet acc execaddr acc1 =
     [\<lparr>Key = execAccountKey acc (Addr acc1) execaddr, Val = Some (Encode (pb acc) acc1)\<rparr>]"

definition SaveExecAccount :: "'s AccDB \<Rightarrow> string \<Rightarrow> Account \<Rightarrow> ('s, unit) prog" where
  "SaveExecAccount acc execaddr acc1 =
     forM (GetExecKVSet acc execaddr acc1) (\<lambda>kv. must (kvSet (db acc) (Key kv) (Val kv)))"

definition mergeReceipt :: "Receipt \<Rightarrow> Receipt \<Rightarrow> Receipt" where
  "mergeReceipt receipt receipt2 =
     receipt\<lparr>Logs := Logs receipt @ Logs receipt2, KV := KV receipt @ KV receipt2\<rparr>"

definition execReceipt ::
  "'s AccDB \<Rightarrow> int \<Rightarrow> Account \<Rightarrow> string \<Rightarrow> Account \<Rightarrow> Receipt" where
  "execReceipt acc ty acc1 execaddr prev =
     \<lparr>Ty = ExecOk, KV = GetExecKVSet acc execaddr acc1,
      Logs = [\<lparr>LogTy = ty,
               Log = EncodeLog (pb acc) (ReceiptExecAccountTransfer execaddr prev acc1)\<rparr>]\<rparr>"

definition execReceipt2 ::
  "'s AccDB \<Rightarrow> Account \<Rightarrow> Account \<Rightarrow> string \<Rightarrow> Account \<Rightarrow> Account \<Rightarrow> Receipt" where
  "execReceipt2 acc acc1 acc2 execaddr prev1 prev2 =
     \<lparr>Ty = ExecOk, KV = GetExecKVSet acc execaddr acc1 @ GetExecKVSet acc execaddr acc2,
      Logs = [\<lparr>LogTy = TyLogExecTransfer,
               Log = EncodeLog (pb acc) (ReceiptExecAccountTransfer execaddr prev1 acc1)\<rparr>,
              \<lparr>LogTy = TyLogExecTransfer,
               Log = EncodeLog (pb acc) (ReceiptExecAccountTransfer execaddr prev2 acc2)\<rparr>]\<rparr>"

definition ExecFrozen :: "'s AccDB \<Rightarrow> string \<Rightarrow> string \<Rightarrow> int \<Rightarrow> ('s, Receipt) prog" where
  "ExecFrozen acc addr execaddr amount =
     (if addr = execaddr then fail ErrSendSameToRecv
      else if \<not> CheckAmount amount then fail ErrAmount
      else bind (LoadExecAccount acc addr execaddr) (\<lambda>copyacc.
        if i64 (Balance copyacc - amount) < 0 then fail ErrNoBalance
        else
          (let acc1 = copyacc\<lparr>Balance := i64 (Balance copyacc - amount),
                              Frozen := i64 (Frozen copyacc + amount)\<rparr>
           in bind (SaveExecAccount acc execaddr acc1) (\<lambda>_.
                ret (execReceipt acc TyLogExecFrozen acc1 execaddr copyacc)))))"

definition ExecActive :: "'s AccDB \<Rightarrow> string \<Rightarrow> string \<Rightarrow> int \<Rightarrow> ('s, Receipt) prog" where
  "ExecActive acc addr execaddr amount =
     (if addr = execaddr then fail ErrSendSameToRecv
      else if \<not> CheckAmount amount then fail ErrAmount
      else bind (LoadExecAccount acc addr execaddr) (\<lambda>copyacc.
        if i64 (Frozen copyacc - amount) < 0 then fail ErrNoBalance
        else
          (let acc1 = copyacc\<lparr>Balance := i64 (Balance copyacc + amount),
                              Frozen := i64 (Frozen copyacc - amount)\<rparr>
           in bind (SaveExecAccount acc execaddr acc1) (\<lambda>_.
                ret (execReceipt acc TyLogExecActive acc1 execaddr copyacc)))))"

definition ExecTransfer ::
  "'s AccDB \<Rightarrow> string \<Rightarrow> string \<Rightarrow> string \<Rightarrow> int \<Rightarrow> ('s, Receipt) prog" where
  "ExecTransfer acc from to execaddr amount =
     (if from = to then fail ErrSendSameToRecv
      else if \<not> CheckAmount amount then fail ErrAmount
      else bind (LoadExecAccount acc from execaddr) (\<lambda>copyaccFrom.
        bind (LoadExecAccount acc to execaddr) (\<lambda>copyaccTo.
        if i64 (Balance copyaccFrom - amount) < 0 then fail ErrNoBalance
        else
          (let accFrom = copyaccFrom\<lparr>Balance := i64 (Balance copyaccFrom - amount)\<rparr>;
               accTo = copyaccTo\<lparr>Balance := i64 (Balance copyaccTo + amount)\<rparr>
           in bind (SaveExecAccount acc execaddr accFrom) (\<lambda>_.
              bind (SaveExecAccount acc execaddr accTo) (\<lambda>_.
                ret (execReceipt2 acc accFrom accTo execaddr copyaccFrom copyaccTo)))))))"

definition ExecTransferFrozen ::
  "'s AccDB \<Rightarrow> string \<Rightarrow> string \<Rightarrow> string \<Rightarrow> int \<Rightarrow> ('s, Receipt) prog" where
  "ExecTransferFrozen acc from to execaddr amount =
     (if from = to then fail ErrSendSameToRecv
      else if \<not> CheckAmount amount then fail ErrAmount
      else bind (LoadExecAccount acc from execaddr) (\<lambda>copyaccFrom.
        bind (LoadExecAccount acc to execaddr) (\<lambda>copyaccTo.
        if i64 (Frozen copyaccFrom - amount) < 0 then fail ErrNoBalance
        else
          (let accFrom = copyaccFrom\<lparr>Frozen := i64 (Frozen copyaccFrom - amount)\<rparr>;
               accTo = copyaccTo\<lparr>Balance := i64 (Balance copyaccTo + amount)\<rparr>
           in bind (SaveExecAccount acc execaddr accFrom) (\<lambda>_.
              bind (SaveExecAccount acc execaddr accTo) (\<lambda>_.
                ret (execReceipt2 acc accFrom accTo execaddr copyaccFrom copyaccTo)))))))"

definition ExecDeposit :: "'s AccDB \<Rightarrow> string \<Rightarrow> string \<Rightarrow> int \<Rightarrow> ('s, Receipt) prog" where
  "ExecDeposit acc addr execaddr amount =
     (if addr = execaddr then fail ErrSendSameToRecv
      else if \<not> CheckAmount amount then fail ErrAmount
      else bind (LoadExecAccount acc addr execaddr) (\<lambda>copyacc.
        let acc1 = copyacc\<lparr>Balance := i64 (Balance copyacc + amount)\<rparr>
        in bind (SaveExecAccount acc execaddr acc1) (\<lambda>_.
             ret (execReceipt acc TyLogExecDeposit acc1 execaddr copyacc))))"

definition ExecWithdraw :: "'s AccDB \<Rightarrow> string \<Rightarrow> string \<Rightarrow> int \<Rightarrow> ('s, Receipt) prog" where
  "ExecWithdraw acc execaddr addr amount =
     (if addr = execaddr then fail ErrSendSameToRecv
      else if \<not> CheckAmount amount then fail ErrAmount
      else bind (LoadExecAccount acc addr execaddr) (\<lambda>copyacc.
        if i64 (Balance copyacc - amount) < 0 then fail ErrNoBalance
        else
          (let acc1 = copyacc\<lparr>Balance := i64 (Balance copyacc - amount)\<rparr>
           in bind (SaveExecAccount acc execaddr acc1) (\<lambda>_.
                ret (execReceipt acc TyLogExecWithdraw acc1 execaddr copyacc)))))"

definition lower_execDepositFrozen ::
  "'s AccDB \<Rightarrow> string \<Rightarrow> string \<Rightarrow> int \<Rightarrow> ('s, Receipt) prog" where
  "lower_execDepositFrozen acc addr execaddr amount =
     (if addr = execaddr then fail ErrSendSameToRecv
      else if \<not> CheckAmount amount then fail ErrAmount
      else bind (LoadExecAccount acc addr execaddr) (\<lambda>copyacc.
        let acc1 = copyacc\<lparr>Frozen := i64 (Frozen copyacc + amount)\<rparr>
        in bind (SaveExecAccount acc execaddr acc1) (\<lambda>_.
             ret (execReceipt acc TyLogExecDeposit acc1 execaddr copyacc))))"

definition ExecIssueCoins :: "chain_env \<Rightarrow> 's AccDB \<Rightarrow> string \<Rightarrow> int \<Rightarrow> ('s, Receipt) prog" where
  "ExecIssueCoins env acc execaddr amount =
     (if \<not> (\<exists>exec \<in> set (GetMinerExecs env). ExecAddress env (ExecName env exec) = execaddr)
      then fail ErrNotAllowDeposit
      else depositBalance acc execaddr amount)"

definition ExecDepositFrozen ::
  "chain_env \<Rightarrow> 's AccDB \<Rightarrow> string \<Rightarrow> string \<Rightarrow> int \<Rightarrow> ('s, Receipt) prog" where
  "ExecDepositFrozen env acc addr execaddr amount =
     (if addr = execaddr then fail ErrSendSameToRecv
      else bind (ExecIssueCoins env acc execaddr amount) (\<lambda>receipt1.
        bind (lower_execDepositFrozen acc addr execaddr amount) (\<lambda>receipt2.
          ret (mergeReceipt receipt1 receipt2))))"

definition TransferToExec :: "'s AccDB \<Rightarrow> string \<Rightarrow> string \<Rightarrow> int \<Rightarrow> ('s, Receipt) prog" where
  "TransferToExec acc from to amount =
     bind (Transfer acc from to amount) (\<lambda>receipt.
       bind (must (ExecDeposit acc from to amount)) (\<lambda>receipt2.
         ret (mergeReceipt receipt receipt2)))"

definition TransferWithdraw :: "'s AccDB \<Rightarrow> string \<Rightarrow> string \<Rightarrow> int \<Rightarrow> ('s, Receipt) prog" where
  "TransferWithdraw acc from to amount =
     bind (CheckTransfer acc to from amount) (\<lambda>_.
       bind (ExecWithdraw acc to from amount) (\<lambda>receipt.
         bind (must (Transfer acc to from amount)) (\<lambda>receipt2.
           ret (mergeReceipt receipt receipt2))))"

subsection \<open>Genesis (genesis.go)\<close>

definition genesisReceipt :: "'s AccDB \<Rightarrow> Account \<Rightarrow> LogMsg \<Rightarrow> Receipt" where
  "genesisReceipt acc accTo receiptTo =
     \<lparr>Ty = ExecOk, KV = GetKVSet acc accTo,
      Logs = [\<lparr>LogTy = TyLogGenesisTransfer, Log = EncodeLog (pb acc) receiptTo\<rparr>]\<rparr>"

definition GenesisInit :: "'s AccDB \<Rightarrow> string \<Rightarrow> int \<Rightarrow> ('s, Receipt) prog" where
  "GenesisInit acc addr amount =
     bind (LoadAccount acc addr) (\<lambda>copyto.
       case safeAdd (Balance copyto) amount of
         Inl err \<Rightarrow> fail err
       | Inr bal \<Rightarrow>
           (let accTo = copyto\<lparr>Balance := bal\<rparr>
            in bind (SaveAccount acc accTo) (\<lambda>_.
                 ret (genesisReceipt acc accTo (ReceiptAccountTransfer copyto accTo)))))"

definition GenesisInitExec :: "'s AccDB \<Rightarrow> string \<Rightarrow> int \<Rightarrow> string \<Rightarrow> ('s, Receipt) prog" where
  "GenesisInitExec acc addr amount execaddr =
     bind (LoadAccount acc execaddr) (\<lambda>copyto.
       case safeAdd (Balance copyto) amount of
         Inl err \<Rightarrow> fail err
       | Inr bal \<Rightarrow>
           (let accTo = copyto\<lparr>Balance := bal\<rparr>
            in bind (SaveAccount acc accTo) (\<lambda>_.
                 bind (must (ExecDeposit acc addr execaddr amount)) (\<lambda>receipt2.
                   ret (mergeReceipt (genesisReceipt acc accTo (ReceiptAccountTransfer copyto accTo))
                          (receipt2\<lparr>Ty := TyLogGenesisDeposit\<rparr>))))))"

end
