(* ===== verification/StoreList.thy ===== *)
theory StoreList
  imports Account
begin

text \<open>
  Range queries on the state store: the callbacks of \<^verbatim>\<open>src/system/store/base.go\<close> (\<^verbatim>\<open>StorelistQuery\<close>)
  and \<^verbatim>\<open>src/types/types.go\<close> (\<^verbatim>\<open>ReplyGetTotalCoins\<close>) that the store runs over the entries of a key
  range in ascending order, stopping when a callback answers true. The iteration of the concrete
  store is the list of entries it visits.
\<close>

record StoreList =
  slStateHash :: bytes
  slStart :: bytes
  slEnd :: bytes
  slSuffix :: bytes
  slCount :: int
  slMode :: int

record StoreListReply =
  rpStart :: bytes
  rpEnd :: bytes
  rpSuffix :: bytes
  rpCount :: int
  rpNum :: int
  rpMode :: int
  rpNextKey :: "bytes option"
  rpKeys :: "bytes list"
  rpValues :: "bytes list"

text \<open>Calling back on each entry until the callback answers true.\<close>

fun iterate :: "('r \<Rightarrow> bytes \<Rightarrow> bytes \<Rightarrow> bool \<times> 'r) \<Rightarrow> (bytes \<times> bytes) list \<Rightarrow> 'r \<Rightarrow> 'r" where
  "iterate cb [] r = r"
| "iterate cb ((k, v) # es) r = (case cb r k v of (stop, r') \<Rightarrow> if stop then r' else iterate cb es r')"

definition NewStoreListQuery :: "StoreList \<Rightarrow> StoreListReply" where
  "NewStoreListQuery req =
     \<lparr>rpStart = slStart req, rpEnd = slEnd req, rpSuffix = slSuffix req, rpCount = slCount req,
      rpNum = 0, rpMode = slMode req, rpNextKey = None, rpKeys = [], rpValues = []\<rparr>"

definition IterateCallBack :: "StoreListReply \<Rightarrow> bytes \<Rightarrow> bytes \<Rightarrow> bool \<times> StoreListReply" where
  "IterateCallBack t key val =
     (if rpMode t = 1 then
        (if rpNum t \<ge> rpCount t then (True, t\<lparr>rpNextKey := Some key\<rparr>)
         else (False, t\<lparr>rpNum := i64 (rpNum t + 1), rpKeys := rpKeys t @ [key],
                        rpValues := rpValues t @ [val]\<rparr>))
      else if rpMode t = 2 then
        (if length key > length (rpSuffix t) then
           (if drop (length key - length (rpSuffix t)) key = rpSuffix t then
              (let t' = t\<lparr>rpNum := i64 (rpNum t + 1), rpKeys := rpKeys t @ [key],
                          rpValues := rpValues t @ [val]\<rparr>
               in if rpNum t' \<ge> rpCount t' then (True, t'\<lparr>rpNextKey := Some key\<rparr>) else (False, t'))
            else (False, t))
         else (False, t))
      else (True, t))"

text \<open>\<open>entries h start until\<close> stands for the entries the store visits for a half-open key range.\<close>

definition Run :: "(bytes \<Rightarrow> bytes \<Rightarrow> bytes \<Rightarrow> (bytes \<times> bytes) list) \<Rightarrow> StoreList \<Rightarrow> StoreListReply" where
  "Run entries req =
     iterate IterateCallBack (entries (slStateHash req) (slStart req) (slEnd req)) (NewStoreListQuery req)"

record ReplyGetTotalCoins =
  tcCount :: int
  tcNum :: int
  tcAmount :: int
  tcNextKey :: "bytes option"

definition IterateRangeByStateHash ::
  "codec \<Rightarrow> ReplyGetTotalCoins \<Rightarrow> bytes \<Rightarrow> bytes \<Rightarrow> bool \<times> ReplyGetTotalCoins" where
  "IterateRangeByStateHash c t key val =
     (case Decode c val of
        None \<Rightarrow> (True, t)
      | Some acc \<Rightarrow>
          if tcNum t \<ge> tcCount t then (True, t\<lparr>tcNextKey := Some key\<rparr>)
          else (False, t\<lparr>tcNum := i64 (tcNum t + 1), tcAmount := i64 (tcAmount t + Balance acc)\<rparr>))"

definition StoreGetTotalCoins ::
  "codec \<Rightarrow> (bytes \<Rightarrow> bytes \<Rightarrow> bytes \<Rightarrow> (bytes \<times> bytes) list) \<Rightarrow> bytes \<Rightarrow> bytes \<Rightarrow> bytes \<Rightarrow> int \<Rightarrow>
   ReplyGetTotalCoins" where
  "StoreGetTotalCoins c entries h start until n =
     iterate (IterateRangeByStateHash c) (entries h start until)
       \<lparr>tcCount = n, tcNum = 0, tcAmount = 0, tcNextKey = None\<rparr>"

text \<open>The entries of an ascending table in a half-open range, as every store visits them.\<close>

definition range_of :: "(bytes \<times> bytes) list \<Rightarrow> bytes \<Rightarrow> bytes \<Rightarrow> (bytes \<times> bytes) list" where
  "range_of tab start until = filter (\<lambda>(k, v). start \<le> k \<and> k < until) tab"

subsection \<open>Pages of a range in mode 1\<close>

lemma iterate_mode1:
  assumes "rpMode t = 1" and "0 \<le> rpNum t" and "rpNum t \<le> rpCount t" and "rpCount t < 2 ^ 63"
  shows "iterate IterateCallBack es t =
           (let m = nat (rpCount t - rpNum t)
            in t\<lparr>rpNum := rpNum t + int (min m (length es)),
                 rpKeys := rpKeys t @ map fst (take m es),
                 rpValues := rpValues t @ map snd (take m es),
                 rpNextKey := (if m < length es then Some (fst (es ! m)) else rpNextKey t)\<rparr>)"
  using assms
proof (induction es arbitrary: t)
  case Nil
  then show ?case by simp
next
  case (Cons e es)
  obtain k v where e: "e = (k, v)" by fastforce
  show ?case
  proof (cases "rpNum t \<ge> rpCount t")
    case True
    with Cons.prems show ?thesis by (simp add: e IterateCallBack_def)
  next
    case False
    define m where "m = nat (rpCount t - (rpNum t + 1))"
    have m: "nat (rpCount t - rpNum t) = Suc m" using False by (simp add: m_def)
    have "i64 (rpNum t + 1) = rpNum t + 1"
      using Cons.prems False by (intro i64_id) (simp add: is_i64_def)
    then have "iterate IterateCallBack (e # es) t =
        iterate IterateCallBack es (t\<lparr>rpNum := rpNum t + 1, rpKeys := rpKeys t @ [k], rpValues := rpValues t @ [v]\<rparr>)"
      using Cons.prems False by (simp add: e IterateCallBack_def)
    also have "\<dots> = (let m = nat (rpCount t - rpNum t) in t\<lparr>rpNum := rpNum t + int (min m (length (e # es))),
                 rpKeys := rpKeys t @ map fst (take m (e # es)),
                 rpValues := rpValues t @ map snd (take m (e # es)),
                 rpNextKey := (if m < length (e # es) then Some (fst ((e # es) ! m)) else rpNextKey t)\<rparr>)"
      using Cons.prems False
      by (subst Cons.IH) (auto simp: m m_def [symmetric] Let_def e add.assoc)
    finally show ?thesis .
  qed
qed

lemma range_of_drop:
  assumes "sorted_wrt (<) (map fst tab)" and "m < length (range_of tab a b)"
  shows "drop m (range_of tab a b) = range_of tab (fst (range_of tab a b ! m)) b"
proof -
  let ?R = "range_of tab a b"
  have s: "sorted_wrt (\<lambda>x y. fst x < fst y) tab"
    using assms(1) by (simp add: sorted_wrt_map)
  then have sR: "sorted_wrt (\<lambda>x y. fst x < fst y) ?R"
    by (simp add: range_of_def sorted_wrt_filter)
  let ?k = "fst (?R ! m)"
  have k: "?R ! m \<in> set ?R" using assms(2) by (rule nth_mem)
  then have ak: "a \<le> ?k" by (auto simp: range_of_def)
  have "range_of tab ?k b = filter (\<lambda>(k, v). ?k \<le> k) ?R"
    unfolding range_of_def filter_filter using ak
    by (intro filter_cong) (auto simp: range_of_def [symmetric])
  also have "\<dots> = filter (\<lambda>(k, v). ?k \<le> k) (take m ?R @ drop m ?R)"
    by simp
  also have "\<dots> = drop m ?R"
  proof -
    have "\<not> ?k \<le> fst x" if "x \<in> set (take m ?R)" for x
    proof -
      from that obtain i where "i < m" "x = ?R ! i" using assms(2) by (auto simp: in_set_conv_nth)
      then show ?thesis using sorted_wrt_nth_less [OF sR, of i m] assms(2) by simp
    qed
    then have "filter (\<lambda>(k, v). ?k \<le> k) (take m ?R) = []"
      by (auto simp: filter_empty_conv)
    moreover have "?k \<le> fst x" if x: "x \<in> set (drop m ?R)" for x
    proof -
      from x obtain i where i: "i < length ?R - m" "x = ?R ! (m + i)"
        by (auto simp: in_set_conv_nth)
      then have "m + i < length ?R" using assms(2) by linarith
      then show ?thesis
        using sorted_wrt_nth_less [OF sR, of m "m + i"] i(2) by (cases "i = 0") (simp_all add: less_imp_le)
    qed
    then have "filter (\<lambda>(k, v). ?k \<le> k) (drop m ?R) = drop m ?R"
      by (auto simp: filter_id_conv)
    ultimately show ?thesis by (simp only: filter_append append_Nil)
  qed
  finally show ?thesis by simp
qed

text \<open>
  C23. In range mode (mode 1) pages partition the range: a page of at most \<open>n\<close> entries followed
  by the range that starts at its \<^verbatim>\<open>NextKey\<close> is the whole range, in order, with nothing lost or
  repeated; \<^verbatim>\<open>NextKey\<close> is absent exactly when the page holds the whole range.
\<close>

theorem storelist_range_pages:
  assumes "sorted_wrt (<) (map fst tab)" and "slMode req = 1" and "0 \<le> slCount req" and "slCount req < 2 ^ 63"
  shows "let rep = Run (\<lambda>h. range_of tab) req; R = range_of tab (slStart req) (slEnd req)
         in zip (rpKeys rep) (rpValues rep) @
              (case rpNextKey rep of None \<Rightarrow> [] | Some k \<Rightarrow> range_of tab k (slEnd req)) = R \<and>
            length (rpKeys rep) = min (nat (slCount req)) (length R) \<and>
            (rpNextKey rep = None \<longleftrightarrow> length R \<le> nat (slCount req))"
proof -
  let ?R = "range_of tab (slStart req) (slEnd req)"
  let ?n = "nat (slCount req)"
  have rep: "Run (\<lambda>h. range_of tab) req =
      (NewStoreListQuery req)\<lparr>rpNum := int (min ?n (length ?R)), rpKeys := map fst (take ?n ?R),
         rpValues := map snd (take ?n ?R),
         rpNextKey := (if ?n < length ?R then Some (fst (?R ! ?n)) else None)\<rparr>"
    unfolding Run_def using assms(2-4)
    by (subst iterate_mode1) (simp_all add: NewStoreListQuery_def Let_def)
  show ?thesis
  proof (cases "?n < length ?R")
    case True
    have "take ?n ?R @ range_of tab (fst (?R ! ?n)) (slEnd req) = ?R"
      using range_of_drop [OF assms(1) True] by (metis append_take_drop_id)
    with True show ?thesis by (simp add: rep zip_map_fst_snd)
  qed (simp add: rep zip_map_fst_snd)
qed

theorem storelist_range_pages_witness:
  "zip (rpKeys (Run (\<lambda>h. range_of [(''a'', ''1''), (''b'', ''2''), (''c'', ''3'')])
        \<lparr>slStateHash = [], slStart = ''a'', slEnd = ''z'', slSuffix = [], slCount = 2, slMode = 1\<rparr>))
       (rpValues (Run (\<lambda>h. range_of [(''a'', ''1''), (''b'', ''2''), (''c'', ''3'')])
        \<lparr>slStateHash = [], slStart = ''a'', slEnd = ''z'', slSuffix = [], slCount = 2, slMode = 1\<rparr>)) @
     [(''c'', ''3'')] = [(''a'', ''1''), (''b'', ''2''), (''c'', ''3'')]"
  using storelist_range_pages [of "[(''a'', ''1''), (''b'', ''2''), (''c'', ''3'')]"
     "\<lparr>slStateHash = [], slStart = ''a'', slEnd = ''z'', slSuffix = [], slCount = 2, slMode = 1\<rparr>"]
  by (simp add: Let_def Run_def range_of_def IterateCallBack_def NewStoreListQuery_def i64_def
      less_char_def less_eq_char_def)

subsection \<open>Pages in mode 2\<close>

definition matches :: "bytes \<Rightarrow> bytes \<times> bytes \<Rightarrow> bool" where
  "matches suffix e \<longleftrightarrow>
     length (fst e) > length suffix \<and> drop (length (fst e) - length suffix) (fst e) = suffix"

lemma iterate_mode2:
  assumes "rpMode t = 2" and "0 \<le> rpNum t" and "rpNum t < rpCount t" and "rpCount t < 2 ^ 63"
  shows "iterate IterateCallBack es t =
           (let m = nat (rpCount t - rpNum t); F = filter (matches (rpSuffix t)) es
            in t\<lparr>rpNum := rpNum t + int (min m (length F)),
                 rpKeys := rpKeys t @ map fst (take m F),
                 rpValues := rpValues t @ map snd (take m F),
                 rpNextKey := (if m \<le> length F then Some (fst (F ! (m - 1))) else rpNextKey t)\<rparr>)"
  using assms
proof (induction es arbitrary: t)
  case Nil
  then show ?case by simp
next
  case (Cons e es)
  obtain k v where e: "e = (k, v)" by fastforce
  let ?t = "t\<lparr>rpNum := rpNum t + 1, rpKeys := rpKeys t @ [k], rpValues := rpValues t @ [v]\<rparr>"
  have i: "i64 (rpNum t + 1) = rpNum t + 1"
    using Cons.prems by (intro i64_id) (simp add: is_i64_def)
  consider (skip) "\<not> matches (rpSuffix t) e" | (last) "matches (rpSuffix t) e" "rpNum t + 1 \<ge> rpCount t"
    | (more) "matches (rpSuffix t) e" "rpNum t + 1 < rpCount t" by linarith
  then show ?case
  proof cases
    case skip
    then have "iterate IterateCallBack (e # es) t = iterate IterateCallBack es t"
      using Cons.prems by (auto simp: e IterateCallBack_def matches_def)
    with skip Cons.IH [OF Cons.prems] show ?thesis by simp
  next
    case last
    then have "rpCount t = rpNum t + 1" using Cons.prems by simp
    with last Cons.prems i show ?thesis
      by (simp add: e IterateCallBack_def matches_def Let_def)
  next
    case more
    define m where "m = nat (rpCount t - (rpNum t + 1)) - 1"
    have m: "nat (rpCount t - rpNum t) = Suc (Suc m)" "nat (rpCount t - (rpNum t + 1)) = Suc m"
      using more by (simp_all add: m_def)
    have "iterate IterateCallBack (e # es) t = iterate IterateCallBack es ?t"
      using more Cons.prems i by (simp add: e IterateCallBack_def matches_def Let_def)
    also have "\<dots> = (let F = filter (matches (rpSuffix t)) es
        in ?t\<lparr>rpNum := rpNum t + 1 + int (min (Suc m) (length F)),
              rpKeys := rpKeys t @ [k] @ map fst (take (Suc m) F),
              rpValues := rpValues t @ [v] @ map snd (take (Suc m) F),
              rpNextKey := (if Suc m \<le> length F then Some (fst (F ! m)) else rpNextKey t)\<rparr>)"
      using Cons.prems more m(2) by (subst Cons.IH) (simp_all add: Let_def)
    finally show ?thesis
      using more m(1) by (simp add: Let_def e)
  qed
qed

lemma Run_mode2:
  assumes "slMode req = 2" and "0 < slCount req" and "slCount req < 2 ^ 63"
  shows "Run (\<lambda>h. range_of tab) req =
      (let n = nat (slCount req); F = filter (matches (slSuffix req)) (range_of tab (slStart req) (slEnd req))
       in (NewStoreListQuery req)\<lparr>rpNum := int (min n (length F)), rpKeys := map fst (take n F),
            rpValues := map snd (take n F),
            rpNextKey := (if n \<le> length F then Some (fst (F ! (n - 1))) else None)\<rparr>)"
  unfolding Run_def using assms by (subst iterate_mode2) (simp_all add: NewStoreListQuery_def Let_def)

text \<open>
  In suffix mode (mode 2) \<^verbatim>\<open>NextKey\<close> is the key of the last entry of a full page, not of the
  first entry after it: when a page is full, asking for the next page from \<^verbatim>\<open>NextKey\<close> (with room
  for one entry or more) returns that entry a second time, as its first.
\<close>

theorem storelist_suffix_page_repeats:
  assumes "sorted_wrt (<) (map fst tab)" and "slMode req = 2" and "0 < slCount req" and "slCount req < 2 ^ 63"
    and "rpNextKey (Run (\<lambda>h. range_of tab) req) = Some k"
  shows "\<exists>ks ks'. rpKeys (Run (\<lambda>h. range_of tab) req) = ks @ [k] \<and>
                  rpKeys (Run (\<lambda>h. range_of tab) (req\<lparr>slStart := k\<rparr>)) = k # ks'"
proof -
  define tab' where "tab' = filter (matches (slSuffix req)) tab"
  have F: "filter (matches (slSuffix req)) (range_of tab a b) = range_of tab' a b" for a b
    by (simp add: range_of_def tab'_def conj_commute)
  have sorted: "sorted_wrt (<) (map fst tab')"
    using assms(1) by (simp add: tab'_def sorted_wrt_map sorted_wrt_filter)
  define n where "n = nat (slCount req) - 1"
  have n: "nat (slCount req) = Suc n" using assms(3) by (simp add: n_def)
  let ?R = "range_of tab' (slStart req) (slEnd req)"
  have rep: "Suc n \<le> length ?R" "k = fst (?R ! n)"
    "rpKeys (Run (\<lambda>h. range_of tab) req) = map fst (take (Suc n) ?R)"
    using assms(5) Run_mode2 [OF assms(2-4), of tab] by (auto simp: Let_def F n split: if_splits)
  have "range_of tab' k (slEnd req) = drop n ?R"
    using range_of_drop [OF sorted, of n "slStart req" "slEnd req"] rep(1,2) by simp
  also have "\<dots> = ?R ! n # drop (Suc n) ?R"
    using rep(1) by (simp add: Cons_nth_drop_Suc)
  finally have "rpKeys (Run (\<lambda>h. range_of tab) (req\<lparr>slStart := k\<rparr>)) = k # map fst (take n (drop (Suc n) ?R))"
    using Run_mode2 [of "req\<lparr>slStart := k\<rparr>" tab] assms(2-4) rep(2) by (simp add: Let_def F n)
  moreover have "rpKeys (Run (\<lambda>h. range_of tab) req) = map fst (take n ?R) @ [k]"
    using rep by (simp add: take_Suc_conv_app_nth)
  ultimately show ?thesis by blast
qed

theorem storelist_suffix_page_repeats_witness:
  "\<exists>ks ks'. rpKeys (Run (\<lambda>h. range_of [(''e1:x'', ''1''), (''e2:x'', ''2''), (''e3:x'', ''3'')])
       \<lparr>slStateHash = [], slStart = ''e'', slEnd = ''f'', slSuffix = ''x'', slCount = 2, slMode = 2\<rparr>) = ks @ [''e2:x''] \<and>
     rpKeys (Run (\<lambda>h. range_of [(''e1:x'', ''1''), (''e2:x'', ''2''), (''e3:x'', ''3'')])
       \<lparr>slStateHash = [], slStart = ''e2:x'', slEnd = ''f'', slSuffix = ''x'', slCount = 2, slMode = 2\<rparr>) = ''e2:x'' # ks'"
  using storelist_suffix_page_repeats [of "[(''e1:x'', ''1''), (''e2:x'', ''2''), (''e3:x'', ''3'')]"
     "\<lparr>slStateHash = [], slStart = ''e'', slEnd = ''f'', slSuffix = ''x'', slCount = 2, slMode = 2\<rparr>" "''e2:x''"]
  by (simp add: Run_def range_of_def IterateCallBack_def NewStoreListQuery_def i64_def
      less_char_def less_eq_char_def)

end
