(* ===== verification/Ledger.thy ===== *)
theory Ledger
  imports Account
begin

text \<open>
  What the account database promises, with no keys, no encoding and no store: a ledger gives
  every address its account (\<open>coins\<close>) and every contract the accounts held inside it (\<open>held\<close>).
  Each operation of \<^verbatim>\<open>src/account\<close> is a guarded update of two accounts. The lemmas here are the
  arithmetic ones: no sequence of operations creates coins (except the ones that issue them),
  makes an amount negative or wraps it, and a contract's address always owns at least what the
  contract owes to the accounts inside it.
\<close>

record ledger =
  coins :: "string \<Rightarrow> Account"
  held :: "string \<Rightarrow> string \<Rightarrow> Account"

definition credit :: "string \<Rightarrow> int \<Rightarrow> ledger \<Rightarrow> ledger" where
  "credit a n l =
     l\<lparr>coins := (coins l)(a := (coins l a)\<lparr>Balance := i64 (Balance (coins l a) + n)\<rparr>)\<rparr>"

definition held_update :: "string \<Rightarrow> string \<Rightarrow> Account \<Rightarrow> ledger \<Rightarrow> ledger" where
  "held_update e a x l = l\<lparr>held := (held l)(e := (held l e)(a := x))\<rparr>"

definition hcredit :: "string \<Rightarrow> string \<Rightarrow> int \<Rightarrow> ledger \<Rightarrow> ledger" where
  "hcredit e a n l =
     held_update e a ((held l e a)\<lparr>Balance := i64 (Balance (held l e a) + n)\<rparr>) l"

definition hfreeze :: "string \<Rightarrow> string \<Rightarrow> int \<Rightarrow> ledger \<Rightarrow> ledger" where
  "hfreeze e a n l =
     held_update e a ((held l e a)\<lparr>Frozen := i64 (Frozen (held l e a) + n)\<rparr>) l"

lemmas ledger_simps = credit_def hcredit_def hfreeze_def held_update_def

text \<open>\<open>guarded cs f l\<close>: the first violated condition gives the error, else the update happens.\<close>

fun guarded :: "(bool \<times> error) list \<Rightarrow> (ledger \<Rightarrow> ledger) \<Rightarrow> (ledger, unit) prog" where
  "guarded [] f l = (Ret (), f l)"
| "guarded ((bad, e) # cs) f l = (if bad then (Err e, l) else guarded cs f l)"

definition lTransfer :: "string \<Rightarrow> string \<Rightarrow> int \<Rightarrow> (ledger, unit) prog" where
  "lTransfer from to n l =
     guarded [(\<not> CheckAmount n, ErrAmount), (from = to, ErrSendSameToRecv),
           (i64 (Balance (coins l from) - n) < 0, ErrNoBalance)]
       (\<lambda>l. credit to n (credit from (- n) l)) l"

definition lMint :: "string \<Rightarrow> int \<Rightarrow> (ledger, unit) prog" where
  "lMint a n l =
     guarded [(\<not> CheckAmount n, ErrAmount),
           (i64 (Balance (coins l a) + n) < n \<or> i64 (Balance (coins l a) + n) > MaxTokenBalance, ErrAmount)]
       (credit a n) l"

definition lBurn :: "string \<Rightarrow> int \<Rightarrow> (ledger, unit) prog" where
  "lBurn a n l =
     guarded [(\<not> CheckAmount n, ErrAmount), (Balance (coins l a) < n, ErrNoBalance)] (credit a (- n)) l"

definition lExecFrozen :: "string \<Rightarrow> string \<Rightarrow> int \<Rightarrow> (ledger, unit) prog" where
  "lExecFrozen a e n l =
     guarded [(a = e, ErrSendSameToRecv), (\<not> CheckAmount n, ErrAmount),
           (i64 (Balance (held l e a) - n) < 0, ErrNoBalance)]
       (\<lambda>l. hfreeze e a n (hcredit e a (- n) l)) l"

definition lExecActive :: "string \<Rightarrow> string \<Rightarrow> int \<Rightarrow> (ledger, unit) prog" where
  "lExecActive a e n l =
     guarded [(a = e, ErrSendSameToRecv), (\<not> CheckAmount n, ErrAmount),
           (i64 (Frozen (held l e a) - n) < 0, ErrNoBalance)]
       (\<lambda>l. hfreeze e a (- n) (hcredit e a n l)) l"

definition lExecTransfer :: "string \<Rightarrow> string \<Rightarrow> string \<Rightarrow> int \<Rightarrow> (ledger, unit) prog" where
  "lExecTransfer from to e n l =
     guarded [(from = to, ErrSendSameToRecv), (\<not> CheckAmount n, ErrAmount),
           (i64 (Balance (held l e from) - n) < 0, ErrNoBalance)]
       (\<lambda>l. hcredit e to n (hcredit e from (- n) l)) l"

definition lExecTransferFrozen :: "string \<Rightarrow> string \<Rightarrow> string \<Rightarrow> int \<Rightarrow> (ledger, unit) prog" where
  "lExecTransferFrozen from to e n l =
     guarded [(from = to, ErrSendSameToRecv), (\<not> CheckAmount n, ErrAmount),
           (i64 (Frozen (held l e from) - n) < 0, ErrNoBalance)]
       (\<lambda>l. hcredit e to n (hfreeze e from (- n) l)) l"

definition lExecDeposit :: "string \<Rightarrow> string \<Rightarrow> int \<Rightarrow> (ledger, unit) prog" where
  "lExecDeposit a e n l =
     guarded [(a = e, ErrSendSameToRecv), (\<not> CheckAmount n, ErrAmount)] (hcredit e a n) l"

definition lExecWithdraw :: "string \<Rightarrow> string \<Rightarrow> int \<Rightarrow> (ledger, unit) prog" where
  "lExecWithdraw e a n l =
     guarded [(a = e, ErrSendSameToRecv), (\<not> CheckAmount n, ErrAmount),
           (i64 (Balance (held l e a) - n) < 0, ErrNoBalance)] (hcredit e a (- n)) l"

definition miner :: "chain_env \<Rightarrow> string \<Rightarrow> bool" where
  "miner env e \<longleftrightarrow> (\<exists>x \<in> set (GetMinerExecs env). ExecAddress env (ExecName env x) = e)"

definition lExecIssueCoins :: "chain_env \<Rightarrow> string \<Rightarrow> int \<Rightarrow> (ledger, unit) prog" where
  "lExecIssueCoins env e n l =
     guarded [(\<not> miner env e, ErrNotAllowDeposit), (\<not> CheckAmount n, ErrAmount)] (credit e n) l"

definition lExecDepositFrozen :: "chain_env \<Rightarrow> string \<Rightarrow> string \<Rightarrow> int \<Rightarrow> (ledger, unit) prog" where
  "lExecDepositFrozen env a e n l =
     guarded [(a = e, ErrSendSameToRecv), (\<not> miner env e, ErrNotAllowDeposit), (\<not> CheckAmount n, ErrAmount)]
       (\<lambda>l. hfreeze e a n (credit e n l)) l"

text \<open>A transfer into a contract moves the coins and books them; a withdrawal does the reverse.\<close>

definition lTransferToExec :: "string \<Rightarrow> string \<Rightarrow> int \<Rightarrow> (ledger, unit) prog" where
  "lTransferToExec from e n l =
     guarded [(\<not> CheckAmount n, ErrAmount), (from = e, ErrSendSameToRecv),
           (i64 (Balance (coins l from) - n) < 0, ErrNoBalance)]
       (\<lambda>l. hcredit e from n (credit e n (credit from (- n) l))) l"

definition lTransferWithdraw :: "string \<Rightarrow> string \<Rightarrow> int \<Rightarrow> (ledger, unit) prog" where
  "lTransferWithdraw a e n l =
     guarded [(\<not> CheckAmount n, ErrAmount), (i64 (Balance (coins l e) - n) < 0, ErrNoBalance),
           (a = e, ErrSendSameToRecv), (i64 (Balance (held l e a) - n) < 0, ErrNoBalance)]
       (\<lambda>l. credit a n (credit e (- n) (hcredit e a (- n) l))) l"

lemmas ledger_specs =
  lTransfer_def lMint_def lBurn_def lExecFrozen_def lExecActive_def lExecTransfer_def
  lExecTransferFrozen_def lExecDeposit_def lExecWithdraw_def lExecIssueCoins_def
  lExecDepositFrozen_def lTransferToExec_def lTransferWithdraw_def

text \<open>The operations a contract calls, as data.\<close>

datatype acc_op =
    AccTransfer string string int
  | AccToExec string string int
  | AccWithdraw string string int
  | AccFrozen string string int
  | AccActive string string int
  | AccExecTransfer string string string int
  | AccExecTransferFrozen string string string int
  | AccDepositFrozen string string int
  | AccIssue string int
  | AccMint string int
  | AccBurn string int

fun lstep :: "chain_env \<Rightarrow> acc_op \<Rightarrow> (ledger, unit) prog" where
  "lstep env (AccTransfer a b n) = lTransfer a b n"
| "lstep env (AccToExec a e n) = lTransferToExec a e n"
| "lstep env (AccWithdraw a e n) = lTransferWithdraw a e n"
| "lstep env (AccFrozen a e n) = lExecFrozen a e n"
| "lstep env (AccActive a e n) = lExecActive a e n"
| "lstep env (AccExecTransfer a b e n) = lExecTransfer a b e n"
| "lstep env (AccExecTransferFrozen a b e n) = lExecTransferFrozen a b e n"
| "lstep env (AccDepositFrozen a e n) = lExecDepositFrozen env a e n"
| "lstep env (AccIssue e n) = lExecIssueCoins env e n"
| "lstep env (AccMint a n) = lMint a n"
| "lstep env (AccBurn a n) = lBurn a n"

text \<open>The addresses of an operation, and the coins it issues or destroys when it succeeds.\<close>

fun op_addrs :: "acc_op \<Rightarrow> string set" where
  "op_addrs (AccTransfer a b n) = {a, b}"
| "op_addrs (AccToExec a e n) = {a, e}"
| "op_addrs (AccWithdraw a e n) = {a, e}"
| "op_addrs (AccFrozen a e n) = {a, e}"
| "op_addrs (AccActive a e n) = {a, e}"
| "op_addrs (AccExecTransfer a b e n) = {a, b, e}"
| "op_addrs (AccExecTransferFrozen a b e n) = {a, b, e}"
| "op_addrs (AccDepositFrozen a e n) = {a, e}"
| "op_addrs (AccIssue e n) = {e}"
| "op_addrs (AccMint a n) = {a}"
| "op_addrs (AccBurn a n) = {a}"

fun op_issued :: "acc_op \<Rightarrow> int" where
  "op_issued (AccDepositFrozen a e n) = (if CheckAmount n then n else 0)"
| "op_issued (AccIssue e n) = (if CheckAmount n then n else 0)"
| "op_issued (AccMint a n) = (if CheckAmount n then n else 0)"
| "op_issued _ = 0"

fun op_burnt :: "acc_op \<Rightarrow> int" where
  "op_burnt (AccBurn a n) = n"
| "op_burnt _ = 0"

text \<open>
  \<open>op_ok E op\<close> for the set \<open>E\<close> of contract addresses: the contract of the operation is one of
  them, and coins leave a contract's address only through a withdrawal (nobody holds the key of
  a contract's address).
\<close>

fun op_ok :: "string set \<Rightarrow> acc_op \<Rightarrow> bool" where
  "op_ok E (AccTransfer a b n) \<longleftrightarrow> a \<notin> E"
| "op_ok E (AccToExec a e n) \<longleftrightarrow> a \<notin> E \<and> e \<in> E"
| "op_ok E (AccWithdraw a e n) \<longleftrightarrow> e \<in> E"
| "op_ok E (AccFrozen a e n) \<longleftrightarrow> e \<in> E"
| "op_ok E (AccActive a e n) \<longleftrightarrow> e \<in> E"
| "op_ok E (AccExecTransfer a b e n) \<longleftrightarrow> e \<in> E"
| "op_ok E (AccExecTransferFrozen a b e n) \<longleftrightarrow> e \<in> E"
| "op_ok E (AccDepositFrozen a e n) \<longleftrightarrow> e \<in> E"
| "op_ok E (AccIssue e n) \<longleftrightarrow> True"
| "op_ok E (AccMint a n) \<longleftrightarrow> True"
| "op_ok E (AccBurn a n) \<longleftrightarrow> a \<notin> E"

subsection \<open>Non-negative amounts with a bounded total\<close>

definition bounded :: "('a \<Rightarrow> int) \<Rightarrow> int \<Rightarrow> bool" where
  "bounded f t \<longleftrightarrow> (\<forall>a. 0 \<le> f a) \<and> (\<forall>A. finite A \<longrightarrow> sum f A \<le> t)"

lemma bounded_nonneg: "bounded f t \<Longrightarrow> 0 \<le> f a"
  by (simp add: bounded_def)

lemma bounded_le: "bounded f t \<Longrightarrow> f a \<le> t"
  unfolding bounded_def by (drule conjunct2, drule spec [of _ "{a}"]) simp

lemma bounded_le2: "bounded f t \<Longrightarrow> a \<noteq> b \<Longrightarrow> f a + f b \<le> t"
  unfolding bounded_def by (drule conjunct2, drule spec [of _ "{a, b}"]) simp

lemma bounded_mono: "bounded f t \<Longrightarrow> t \<le> t' \<Longrightarrow> bounded f t'"
  by (auto simp: bounded_def intro: order_trans)

lemma bounded_add:
  assumes "bounded f t" and "0 \<le> n"
  shows "bounded (f(a := f a + n)) (t + n)"
  unfolding bounded_def
proof (intro conjI allI impI)
  fix A :: "'a set" assume A: "finite A"
  then have "sum f A \<le> t" using assms by (simp add: bounded_def)
  then show "sum (f(a := f a + n)) A \<le> t + n"
    using A assms(2) by (cases "a \<in> A") (simp_all add: sum_update_in sum_update_out del: fun_upd_apply)
qed (use assms in \<open>auto simp: bounded_def add_nonneg_nonneg\<close>)

lemma bounded_sub:
  assumes "bounded f t" and "0 \<le> n" and "n \<le> f a"
  shows "bounded (f(a := f a - n)) (t - n)"
  unfolding bounded_def
proof (intro conjI allI impI)
  fix A :: "'a set" assume A: "finite A"
  then have "sum f A \<le> t" "sum f (insert a A) \<le> t" using assms by (simp_all add: bounded_def)
  then show "sum (f(a := f a - n)) A \<le> t - n"
    using A assms by (cases "a \<in> A") (simp_all add: sum_update_in sum_update_out del: fun_upd_apply)
qed (use assms in \<open>auto simp: bounded_def\<close>)

lemma bounded_move:
  assumes "bounded f t" and "0 \<le> n" and "n \<le> f a" and "a \<noteq> b"
  shows "bounded (f(a := f a - n, b := f b + n)) t"
  using bounded_add [OF bounded_sub [OF assms(1-3)] assms(2), of b] assms(4)
  by (simp add: fun_upd_def)


subsection \<open>Solvency\<close>

definition cb :: "ledger \<Rightarrow> string \<Rightarrow> int" where
  "cb l a = Balance (coins l a)"

definition hb :: "ledger \<Rightarrow> string \<Rightarrow> string \<Rightarrow> int" where
  "hb l e a = Balance (held l e a) + Frozen (held l e a)"

text \<open>
  No amount is negative, all coins together are at most \<open>t\<close>, and the address of every contract
  in \<open>E\<close> owns at least the sum of what the accounts inside the contract hold, frozen or not.
\<close>

definition solvent :: "string set \<Rightarrow> int \<Rightarrow> ledger \<Rightarrow> bool" where
  "solvent E t l \<longleftrightarrow>
     bounded (cb l) t \<and> (\<forall>e\<in>E. bounded (hb l e) (cb l e)) \<and>
     (\<forall>e a. 0 \<le> Balance (held l e a) \<and> 0 \<le> Frozen (held l e a))"

lemma cb_credit:
  "is_i64 (cb l a + n) \<Longrightarrow> cb (credit a n l) = (cb l)(a := cb l a + n)"
  by (rule ext) (simp add: cb_def credit_def i64_id)

lemma cb_held [simp]:
  "cb (hcredit e a n l) = cb l" "cb (hfreeze e a n l) = cb l"
  by (simp_all add: cb_def ledger_simps fun_eq_iff)

lemma held_credit [simp]: "held (credit a n l) = held l" "hb (credit a n l) = hb l"
  by (simp_all add: hb_def ledger_simps fun_eq_iff)

lemma hb_hcredit:
  "is_i64 (Balance (held l e a) + n) \<Longrightarrow>
     hb (hcredit e a n l) = (hb l)(e := (hb l e)(a := hb l e a + n))"
  by (intro ext) (simp add: hb_def ledger_simps i64_id)

lemma hb_hfreeze:
  "is_i64 (Frozen (held l e a) + n) \<Longrightarrow>
     hb (hfreeze e a n l) = (hb l)(e := (hb l e)(a := hb l e a + n))"
  by (intro ext) (simp add: hb_def ledger_simps i64_id)

lemma Balance_held_hcredit [simp]:
  "Balance (held (hcredit e a n l) e' a') =
     (if e' = e \<and> a' = a then i64 (Balance (held l e a) + n) else Balance (held l e' a'))"
  "Frozen (held (hcredit e a n l) e' a') = Frozen (held l e' a')"
  "Balance (held (hfreeze e a n l) e' a') = Balance (held l e' a')"
  "Frozen (held (hfreeze e a n l) e' a') =
     (if e' = e \<and> a' = a then i64 (Frozen (held l e a) + n) else Frozen (held l e' a'))"
  by (simp_all add: ledger_simps)

lemma CheckAmount_pos: "CheckAmount n \<Longrightarrow> 0 < n \<and> n < 2 ^ 57"
  by (simp add: CheckAmount_def MaxCoin_def split: if_splits)

lemma i64_sub_nonneg: "0 \<le> x \<Longrightarrow> x < 2 ^ 63 \<Longrightarrow> 0 < n \<Longrightarrow> n < 2 ^ 57 \<Longrightarrow> i64 (x - n) = x - n"
  by (rule i64_id) (simp add: is_i64_def)

text \<open>What a solvent ledger with at most \<open>2 ^ 63 - 1\<close> coins says of single amounts.\<close>

lemma solvent_amounts:
  assumes "solvent E t l" and "t < 2 ^ 63"
  shows "0 \<le> cb l a" and "cb l a < 2 ^ 63" and "0 \<le> Balance (held l e a)" and "0 \<le> Frozen (held l e a)"
    and "e \<in> E \<Longrightarrow> Balance (held l e a) + Frozen (held l e a) \<le> cb l e"
proof -
  show "0 \<le> cb l a" "cb l a < 2 ^ 63"
    using assms bounded_nonneg [of "cb l" t a] bounded_le [of "cb l" t a] by (auto simp: solvent_def)
  show "0 \<le> Balance (held l e a)" "0 \<le> Frozen (held l e a)"
    using assms by (auto simp: solvent_def)
  show "Balance (held l e a) + Frozen (held l e a) \<le> cb l e" if "e \<in> E"
    using assms that bounded_le [of "hb l e" "cb l e" a] by (auto simp: solvent_def hb_def)
qed

lemma solvent_move_coins:
  assumes l: "solvent E t l" and t: "t < 2 ^ 63" and ab: "a \<noteq> b"
    and n: "0 < n" "n \<le> cb l a"
    and a: "a \<in> E \<Longrightarrow> bounded (hb l a) (cb l a - n)"
  shows "solvent E t (credit b n (credit a (- n) l))"
    and "cb (credit b n (credit a (- n) l)) = (cb l)(a := cb l a - n, b := cb l b + n)"
proof -
  have le: "0 \<le> cb l a" "0 \<le> cb l b" "cb l a + cb l b \<le> t"
    using l ab bounded_le2 [of "cb l" t a b] by (auto simp: solvent_def bounded_def)
  have "cb (credit a (- n) l) = (cb l)(a := cb l a - n)"
    using le n t by (subst cb_credit) (auto simp: is_i64_def)
  then show cb: "cb (credit b n (credit a (- n) l)) = (cb l)(a := cb l a - n, b := cb l b + n)"
    using le n t ab by (subst cb_credit) (auto simp: is_i64_def)
  show "solvent E t (credit b n (credit a (- n) l))"
    unfolding solvent_def cb
    using l n a ab bounded_move [of "cb l" t n a b] by (auto simp: solvent_def intro: bounded_mono)
qed

lemma solvent_issue:
  assumes l: "solvent E t l" and t: "t + n < 2 ^ 63" and n: "0 < n"
  shows "solvent E (t + n) (credit a n l)" and "cb (credit a n l) = (cb l)(a := cb l a + n)"
proof -
  have le: "0 \<le> cb l a" "cb l a \<le> t"
    using l bounded_le [of "cb l" t a] by (auto simp: solvent_def bounded_def)
  show cb: "cb (credit a n l) = (cb l)(a := cb l a + n)"
    using le n t by (subst cb_credit) (auto simp: is_i64_def)
  show "solvent E (t + n) (credit a n l)"
    unfolding solvent_def cb
    using l n bounded_add [of "cb l" t n a] by (auto simp: solvent_def intro: bounded_mono)
qed

lemma solvent_burn:
  assumes l: "solvent E t l" and t: "t < 2 ^ 63" and n: "0 < n" "n \<le> cb l a" and a: "a \<notin> E"
  shows "solvent E t (credit a (- n) l)" and "cb (credit a (- n) l) = (cb l)(a := cb l a - n)"
proof -
  have le: "0 \<le> cb l a" "cb l a \<le> t"
    using l bounded_le [of "cb l" t a] by (auto simp: solvent_def bounded_def)
  show cb: "cb (credit a (- n) l) = (cb l)(a := cb l a - n)"
    using le n t by (subst cb_credit) (auto simp: is_i64_def)
  show "solvent E t (credit a (- n) l)"
    unfolding solvent_def cb
    using l n a bounded_mono [OF bounded_sub [of "cb l" t n a], of t] by (auto simp: solvent_def)
qed

text \<open>
  Changes inside one contract: the new accounts are non-negative and their total grew by no
  more than the contract's own balance leaves room for.
\<close>

lemma solvent_held:
  assumes l: "solvent E t l" and cb: "cb l' = cb l"
    and other: "\<And>e'. e' \<noteq> e \<Longrightarrow> held l' e' = held l e'"
    and e: "bounded (hb l' e) (cb l e)"
    and pos: "\<And>a. 0 \<le> Balance (held l' e a) \<and> 0 \<le> Frozen (held l' e a)"
  shows "solvent E t l'"
proof -
  have "hb l' e' = hb l e'" if "e' \<noteq> e" for e'
    using other [OF that] by (simp add: hb_def fun_eq_iff)
  then have "bounded (hb l' e') (cb l' e')" if "e' \<in> E" for e'
    using l e that by (cases "e' = e") (auto simp: solvent_def cb)
  moreover have "0 \<le> Balance (held l' e' a) \<and> 0 \<le> Frozen (held l' e' a)" for e' a
    using l pos other by (cases "e' = e") (auto simp: solvent_def)
  ultimately show ?thesis
    using l cb by (simp add: solvent_def)
qed


lemma solvent_mono: "solvent E t l \<Longrightarrow> t \<le> t' \<Longrightarrow> solvent E t' l"
  by (auto simp: solvent_def intro: bounded_mono)

lemma held_other [simp]:
  "e' \<noteq> e \<Longrightarrow> held (hcredit e a n l) e' = held l e'"
  "e' \<noteq> e \<Longrightarrow> held (hfreeze e a n l) e' = held l e'"
  by (simp_all add: ledger_simps)

text \<open>The updates of the operations inside a contract keep a ledger solvent.\<close>

lemma solvent_freeze:
  assumes l: "solvent E t l" and t: "t < 2 ^ 63" and e: "e \<in> E"
    and n: "0 < n" "n \<le> Balance (held l e a)"
  shows "solvent E t (hfreeze e a n (hcredit e a (- n) l))"
    and "hb (hfreeze e a n (hcredit e a (- n) l)) = hb l"
proof -
  note amt = solvent_amounts(2) [OF l t, of e] solvent_amounts(3,4) [OF l t, of e a] solvent_amounts(5) [OF l t e, of a]
  have i: "is_i64 (Balance (held l e a) - n)" "is_i64 (Frozen (held l e a) + n)"
    using amt n by (auto simp: is_i64_def)
  then show hb: "hb (hfreeze e a n (hcredit e a (- n) l)) = hb l"
    by (intro ext) (simp add: hb_def i64_id)
  show "solvent E t (hfreeze e a n (hcredit e a (- n) l))"
    using l e n i amt(2,3) by (intro solvent_held [OF l, of _ e]) (auto simp: hb i64_id solvent_def)
qed

lemma solvent_active:
  assumes l: "solvent E t l" and t: "t < 2 ^ 63" and e: "e \<in> E"
    and n: "0 < n" "n \<le> Frozen (held l e a)"
  shows "solvent E t (hfreeze e a (- n) (hcredit e a n l))"
    and "hb (hfreeze e a (- n) (hcredit e a n l)) = hb l"
proof -
  note amt = solvent_amounts(2) [OF l t, of e] solvent_amounts(3,4) [OF l t, of e a] solvent_amounts(5) [OF l t e, of a]
  have i: "is_i64 (Balance (held l e a) + n)" "is_i64 (Frozen (held l e a) - n)"
    using amt n by (auto simp: is_i64_def)
  then show hb: "hb (hfreeze e a (- n) (hcredit e a n l)) = hb l"
    by (intro ext) (simp add: hb_def i64_id)
  show "solvent E t (hfreeze e a (- n) (hcredit e a n l))"
    using l e n i amt(2,3) by (intro solvent_held [OF l, of _ e]) (auto simp: hb i64_id solvent_def)
qed

lemma solvent_move_held:
  assumes l: "solvent E t l" and t: "t < 2 ^ 63" and e: "e \<in> E" and ab: "a \<noteq> b"
    and n: "0 < n"
    and l1: "l1 = hcredit e a (- n) l \<and> n \<le> Balance (held l e a) \<or>
             l1 = hfreeze e a (- n) l \<and> n \<le> Frozen (held l e a)"
  shows "solvent E t (hcredit e b n l1)"
    and "hb (hcredit e b n l1) = (hb l)(e := (hb l e)(a := hb l e a - n, b := hb l e b + n))"
proof -
  have le: "hb l e a + hb l e b \<le> cb l e"
    using l e ab by (auto simp: solvent_def intro: bounded_le2)
  note amt = solvent_amounts(2) [OF l t, of e] solvent_amounts(3,4) [OF l t, of e a]
    solvent_amounts(3,4) [OF l t, of e b]
  have bounds: "n \<le> hb l e a" using l1 amt by (auto simp: hb_def)
  have i: "is_i64 (Balance (held l e b) + n)" "Balance (held l1 e b) = Balance (held l e b)"
    using amt n le l1 ab by (auto simp: is_i64_def hb_def)
  have "hb l1 = (hb l)(e := (hb l e)(a := hb l e a - n))"
    using l1
  proof (elim disjE conjE)
    assume "l1 = hcredit e a (- n) l" "n \<le> Balance (held l e a)"
    with amt n le hb_hcredit [of l e a "- n"] show ?thesis by (auto simp: is_i64_def hb_def)
  next
    assume "l1 = hfreeze e a (- n) l" "n \<le> Frozen (held l e a)"
    with amt n le hb_hfreeze [of l e a "- n"] show ?thesis by (auto simp: is_i64_def hb_def)
  qed
  then show hb: "hb (hcredit e b n l1) = (hb l)(e := (hb l e)(a := hb l e a - n, b := hb l e b + n))"
    using i ab by (subst hb_hcredit) (auto simp: fun_eq_iff)
  have "bounded (hb (hcredit e b n l1) e) (cb l e)"
    unfolding hb using l e bounds n ab bounded_move [of "hb l e" "cb l e" n a b] by (auto simp: solvent_def)
  moreover have "n \<le> Balance (held l e a) \<Longrightarrow> is_i64 (Balance (held l e a) - n)"
      "n \<le> Frozen (held l e a) \<Longrightarrow> is_i64 (Frozen (held l e a) - n)"
    using amt n le by (auto simp: is_i64_def hb_def)
  with l1 i amt n have "0 \<le> Balance (held (hcredit e b n l1) e x) \<and> 0 \<le> Frozen (held (hcredit e b n l1) e x)" for x
    using solvent_amounts(3,4) [OF l t, of e x] by (auto simp: i64_id)
  ultimately show "solvent E t (hcredit e b n l1)"
    using l1 by (intro solvent_held [OF l, of _ e]) auto
qed

lemma solvent_book:
  assumes l: "solvent E t l" and t: "t < 2 ^ 63" and e: "e \<in> E" and n: "0 < n"
    and room: "bounded (hb l e) (cb l e - n)"
    and l1: "l1 = hcredit e a n l \<or> l1 = hfreeze e a n l"
  shows "solvent E t l1" and "hb l1 = (hb l)(e := (hb l e)(a := hb l e a + n))"
proof -
  note amt = solvent_amounts(2) [OF l t, of e] solvent_amounts(3,4) [OF l t, of e a]
  have le: "hb l e a \<le> cb l e - n" using room by (rule bounded_le)
  have i: "is_i64 (Balance (held l e a) + n)" "is_i64 (Frozen (held l e a) + n)"
    using amt n le by (auto simp: is_i64_def hb_def)
  with l1 show hb: "hb l1 = (hb l)(e := (hb l e)(a := hb l e a + n))"
    by (auto simp: hb_hcredit hb_hfreeze)
  have "bounded (hb l1 e) (cb l e)"
    using bounded_add [OF room, of n a] n by (simp add: hb)
  then show "solvent E t l1"
    using l1 i n amt solvent_amounts(3,4) [OF l t]
    by (intro solvent_held [OF l, of _ e]) (auto simp: i64_id)
qed

lemma solvent_unbook:
  assumes l: "solvent E t l" and t: "t < 2 ^ 63" and e: "e \<in> E" and n: "0 < n" "n \<le> Balance (held l e a)"
  shows "solvent E t (hcredit e a (- n) l)" and "bounded (hb (hcredit e a (- n) l) e) (cb l e - n)"
    and "hb (hcredit e a (- n) l) = (hb l)(e := (hb l e)(a := hb l e a - n))"
proof -
  note amt = solvent_amounts(2) [OF l t, of e] solvent_amounts(3,4) [OF l t, of e a]
    solvent_amounts(5) [OF l t e, of a]
  have i: "is_i64 (Balance (held l e a) - n)" using amt n by (auto simp: is_i64_def)
  then show hb: "hb (hcredit e a (- n) l) = (hb l)(e := (hb l e)(a := hb l e a - n))"
    by (simp add: hb_hcredit)
  show b: "bounded (hb (hcredit e a (- n) l) e) (cb l e - n)"
    using bounded_sub [of "hb l e" "cb l e" n a] l e n amt by (auto simp: hb solvent_def hb_def)
  show "solvent E t (hcredit e a (- n) l)"
    using bounded_mono [OF b] i n amt solvent_amounts(3,4) [OF l t]
    by (intro solvent_held [OF l, of _ e]) (auto simp: i64_id)
qed


subsection \<open>Steps of the ledger\<close>

lemma guarded_Ret:
  "guarded cs f l = (Ret u, l') \<longleftrightarrow> (\<forall>c \<in> set cs. \<not> fst c) \<and> l' = f l"
  by (induction cs f l rule: guarded.induct) auto

lemma guarded_outcome:
  "guarded cs f l = (Ret (), f l) \<or> (\<exists>e. guarded cs f l = (Err e, l))"
  by (induction cs f l rule: guarded.induct) auto

lemma op_issued_nonneg [simp]: "0 \<le> op_issued op"
  by (cases op) (simp_all add: CheckAmount_def)

lemma lstep_outcome: "fst (lstep env op l) = Ret () \<or> (\<exists>e. lstep env op l = (Err e, l))"
  by (cases op) (simp_all add: ledger_specs)

definition accounted :: "acc_op \<Rightarrow> ledger \<Rightarrow> ledger \<Rightarrow> bool" where
  "accounted op l l' \<longleftrightarrow>
     (\<forall>A. finite A \<and> op_addrs op \<subseteq> A \<longrightarrow>
            sum (cb l') A = sum (cb l) A + op_issued op - op_burnt op)"

lemma accounted_move:
  assumes "cb l' = (cb l)(a := cb l a - n, b := cb l b + n)" and "a \<noteq> b"
    and "a \<in> op_addrs op" and "b \<in> op_addrs op" and "op_issued op = op_burnt op"
  shows "accounted op l l'"
  using assms by (simp add: accounted_def sum_update_in subset_iff fun_upd_other del: fun_upd_apply)

lemma accounted_add:
  assumes "cb l' = (cb l)(a := cb l a + (op_issued op - op_burnt op))" and "a \<in> op_addrs op"
  shows "accounted op l l'"
  using assms by (auto simp: accounted_def sum_update_in subset_iff simp del: fun_upd_apply)

lemma enough_funds:
  "CheckAmount n \<Longrightarrow> 0 \<le> x \<Longrightarrow> x < 2 ^ 63 \<Longrightarrow> \<not> i64 (x - n) < 0 \<Longrightarrow> 0 < n \<and> n \<le> x"
  using CheckAmount_pos [of n] i64_sub_nonneg [of x n] by auto

lemma held_range:
  assumes "solvent E t l" and "t < 2 ^ 63" and "e \<in> E"
  shows "0 \<le> Balance (held l e a)" "Balance (held l e a) < 2 ^ 63"
    "0 \<le> Frozen (held l e a)" "Frozen (held l e a) < 2 ^ 63"
  using solvent_amounts(2) [OF assms(1,2), of e] solvent_amounts(3,4) [OF assms(1,2), of e a]
    solvent_amounts(5) [OF assms, of a] by auto

lemma step_AccTransfer:
  assumes l: "solvent E t l" and ok: "op_ok E op" and t: "t + op_issued op < 2 ^ 63"
    and step: "lstep env op l = (Ret (), l')" and AccTransfer: "op = AccTransfer a b n"
  shows "solvent E (t + op_issued op) l' \<and> accounted op l l'"
proof -
  from AccTransfer step have g: "CheckAmount n" "a \<noteq> b" "\<not> i64 (Balance (coins l a) - n) < 0"
    and l': "l' = credit b n (credit a (- n) l)"
    by (simp_all add: lTransfer_def guarded_Ret del: guarded.simps)
  from g AccTransfer t have n: "0 < n" "n \<le> cb l a" and t': "t < 2 ^ 63"
    using enough_funds [OF g(1) _ _ g(3)] solvent_amounts(1,2) [OF l, of a] by (auto simp: cb_def)
  note m = solvent_move_coins [OF l t' g(2) n]
  show ?thesis
    using m(1) ok accounted_move [OF m(2), of op] g(2) AccTransfer l' by simp
qed

lemma step_AccToExec:
  assumes l: "solvent E t l" and ok: "op_ok E op" and t: "t + op_issued op < 2 ^ 63"
    and step: "lstep env op l = (Ret (), l')" and AccToExec: "op = AccToExec a e n"
  shows "solvent E (t + op_issued op) l' \<and> accounted op l l'"
proof -
  from AccToExec step have g: "CheckAmount n" "a \<noteq> e" "\<not> i64 (Balance (coins l a) - n) < 0"
    and l': "l' = hcredit e a n (credit e n (credit a (- n) l))"
    by (simp_all add: lTransferToExec_def guarded_Ret del: guarded.simps)
  from g AccToExec t have n: "0 < n" "n \<le> cb l a" and t': "t < 2 ^ 63"
    using enough_funds [OF g(1) _ _ g(3)] solvent_amounts(1,2) [OF l, of a] by (auto simp: cb_def)
  have m: "solvent E t (credit e n (credit a (- n) l))"
      "cb (credit e n (credit a (- n) l)) = (cb l)(a := cb l a - n, e := cb l e + n)"
    using solvent_move_coins [OF l t' g(2) n] ok AccToExec by auto
  have "bounded (hb l e) (cb l e)" using l ok AccToExec by (auto simp: solvent_def)
  then have "solvent E t l'"
    using solvent_book(1) [OF m(1) t' _ n(1), of e l' a] m(2) l' ok AccToExec by auto
  moreover have "cb l' = (cb l)(a := cb l a - n, e := cb l e + n)" using m(2) l' by simp
  ultimately show ?thesis using accounted_move [of l' l a n e op] g(2) AccToExec by simp
qed

lemma step_AccWithdraw:
  assumes l: "solvent E t l" and ok: "op_ok E op" and t: "t + op_issued op < 2 ^ 63"
    and step: "lstep env op l = (Ret (), l')" and AccWithdraw: "op = AccWithdraw a e n"
  shows "solvent E (t + op_issued op) l' \<and> accounted op l l'"
proof -
  from AccWithdraw step have g: "CheckAmount n" "a \<noteq> e" "\<not> i64 (Balance (held l e a) - n) < 0"
    and l': "l' = credit a n (credit e (- n) (hcredit e a (- n) l))"
    by (simp_all add: lTransferWithdraw_def guarded_Ret del: guarded.simps)
  have t': "t < 2 ^ 63" and e: "e \<in> E" using t ok AccWithdraw by auto
  have n: "0 < n" "n \<le> Balance (held l e a)" "n \<le> cb l e"
    using enough_funds [OF g(1) _ _ g(3)] held_range [OF l t' e, of a]
      solvent_amounts(4,5) [OF l t', of e a] e by auto
  note u = solvent_unbook [OF l t' e n(1,2)]
  have "solvent E t l'" "cb l' = (cb l)(e := cb l e - n, a := cb l a + n)"
    using solvent_move_coins [OF u(1) t', of e a n] u(2) n g(2) l' by auto
  then show ?thesis using accounted_move [of l' l e n a op] g(2) AccWithdraw by simp
qed

lemma step_AccFrozen:
  assumes l: "solvent E t l" and ok: "op_ok E op" and t: "t + op_issued op < 2 ^ 63"
    and step: "lstep env op l = (Ret (), l')" and AccFrozen: "op = AccFrozen a e n"
  shows "solvent E (t + op_issued op) l' \<and> accounted op l l'"
proof -
  from AccFrozen step have g: "CheckAmount n" "\<not> i64 (Balance (held l e a) - n) < 0"
    and l': "l' = hfreeze e a n (hcredit e a (- n) l)"
    by (simp_all add: lExecFrozen_def guarded_Ret del: guarded.simps)
  have t': "t < 2 ^ 63" and e: "e \<in> E" using t ok AccFrozen by auto
  have n: "0 < n" "n \<le> Balance (held l e a)"
    using enough_funds [OF g(1) _ _ g(2)] held_range [OF l t' e, of a] by auto
  show ?thesis
    using solvent_freeze [OF l t' e n] l' AccFrozen by (auto simp: accounted_def)
qed

lemma step_AccActive:
  assumes l: "solvent E t l" and ok: "op_ok E op" and t: "t + op_issued op < 2 ^ 63"
    and step: "lstep env op l = (Ret (), l')" and AccActive: "op = AccActive a e n"
  shows "solvent E (t + op_issued op) l' \<and> accounted op l l'"
proof -
  from AccActive step have g: "CheckAmount n" "\<not> i64 (Frozen (held l e a) - n) < 0"
    and l': "l' = hfreeze e a (- n) (hcredit e a n l)"
    by (simp_all add: lExecActive_def guarded_Ret del: guarded.simps)
  have t': "t < 2 ^ 63" and e: "e \<in> E" using t ok AccActive by auto
  have n: "0 < n" "n \<le> Frozen (held l e a)"
    using enough_funds [OF g(1) _ _ g(2)] held_range [OF l t' e, of a] by auto
  show ?thesis
    using solvent_active [OF l t' e n] l' AccActive by (auto simp: accounted_def)
qed

lemma step_AccExecTransfer:
  assumes l: "solvent E t l" and ok: "op_ok E op" and t: "t + op_issued op < 2 ^ 63"
    and step: "lstep env op l = (Ret (), l')" and AccExecTransfer: "op = AccExecTransfer a b e n"
  shows "solvent E (t + op_issued op) l' \<and> accounted op l l'"
proof -
  from AccExecTransfer step have g: "CheckAmount n" "a \<noteq> b" "\<not> i64 (Balance (held l e a) - n) < 0"
    and l': "l' = hcredit e b n (hcredit e a (- n) l)"
    by (simp_all add: lExecTransfer_def guarded_Ret del: guarded.simps)
  have t': "t < 2 ^ 63" and e: "e \<in> E" using t ok AccExecTransfer by auto
  have n: "0 < n" "n \<le> Balance (held l e a)"
    using enough_funds [OF g(1) _ _ g(3)] held_range [OF l t' e, of a] by auto
  show ?thesis
    using solvent_move_held [OF l t' e g(2) n(1)] n l' AccExecTransfer by (auto simp: accounted_def)
qed

lemma step_AccExecTransferFrozen:
  assumes l: "solvent E t l" and ok: "op_ok E op" and t: "t + op_issued op < 2 ^ 63"
    and step: "lstep env op l = (Ret (), l')" and AccExecTransferFrozen: "op = AccExecTransferFrozen a b e n"
  shows "solvent E (t + op_issued op) l' \<and> accounted op l l'"
proof -
  from AccExecTransferFrozen step have g: "CheckAmount n" "a \<noteq> b" "\<not> i64 (Frozen (held l e a) - n) < 0"
    and l': "l' = hcredit e b n (hfreeze e a (- n) l)"
    by (simp_all add: lExecTransferFrozen_def guarded_Ret del: guarded.simps)
  have t': "t < 2 ^ 63" and e: "e \<in> E" using t ok AccExecTransferFrozen by auto
  have n: "0 < n" "n \<le> Frozen (held l e a)"
    using enough_funds [OF g(1) _ _ g(3)] held_range [OF l t' e, of a] by auto
  show ?thesis
    using solvent_move_held [OF l t' e g(2) n(1)] n l' AccExecTransferFrozen by (auto simp: accounted_def)
qed

lemma step_AccDepositFrozen:
  assumes l: "solvent E t l" and ok: "op_ok E op" and t: "t + op_issued op < 2 ^ 63"
    and step: "lstep env op l = (Ret (), l')" and AccDepositFrozen: "op = AccDepositFrozen a e n"
  shows "solvent E (t + op_issued op) l' \<and> accounted op l l'"
proof -
  from AccDepositFrozen step have g: "CheckAmount n" and l': "l' = hfreeze e a n (credit e n l)"
    by (simp_all add: lExecDepositFrozen_def guarded_Ret del: guarded.simps)
  have n: "0 < n" and t': "t + n < 2 ^ 63" and e: "e \<in> E"
    using g t ok AccDepositFrozen CheckAmount_pos [of n] by auto
  note i = solvent_issue [OF l t' n, of e]
  have "bounded (hb l e) (cb l e)" using l e by (auto simp: solvent_def)
  then have "solvent E (t + n) l'"
    using solvent_book(1) [OF i(1) t' e n, of l' a] i(2) l' by auto
  moreover have "cb l' = (cb l)(e := cb l e + n)" using i(2) l' by simp
  ultimately show ?thesis using accounted_add [of l' l e op] g AccDepositFrozen by simp
qed

lemma step_AccIssue:
  assumes l: "solvent E t l" and ok: "op_ok E op" and t: "t + op_issued op < 2 ^ 63"
    and step: "lstep env op l = (Ret (), l')" and AccIssue: "op = AccIssue e n"
  shows "solvent E (t + op_issued op) l' \<and> accounted op l l'"
proof -
  from AccIssue step have g: "CheckAmount n" and l': "l' = credit e n l"
    by (simp_all add: lExecIssueCoins_def guarded_Ret del: guarded.simps)
  with AccIssue t have "solvent E (t + n) l'" "cb l' = (cb l)(e := cb l e + n)"
    using solvent_issue [OF l, of n e] CheckAmount_pos [of n] by auto
  then show ?thesis using accounted_add [of l' l e op] g AccIssue by simp
qed

lemma step_AccMint:
  assumes l: "solvent E t l" and ok: "op_ok E op" and t: "t + op_issued op < 2 ^ 63"
    and step: "lstep env op l = (Ret (), l')" and AccMint: "op = AccMint a n"
  shows "solvent E (t + op_issued op) l' \<and> accounted op l l'"
proof -
  from AccMint step have g: "CheckAmount n" and l': "l' = credit a n l"
    by (simp_all add: lMint_def guarded_Ret del: guarded.simps)
  with AccMint t have "solvent E (t + n) l'" "cb l' = (cb l)(a := cb l a + n)"
    using solvent_issue [OF l, of n a] CheckAmount_pos [of n] by auto
  then show ?thesis using accounted_add [of l' l a op] g AccMint by simp
qed

lemma step_AccBurn:
  assumes l: "solvent E t l" and ok: "op_ok E op" and t: "t + op_issued op < 2 ^ 63"
    and step: "lstep env op l = (Ret (), l')" and AccBurn: "op = AccBurn a n"
  shows "solvent E (t + op_issued op) l' \<and> accounted op l l'"
proof -
  from AccBurn step have g: "CheckAmount n" "n \<le> cb l a" and l': "l' = credit a (- n) l"
    by (simp_all add: lBurn_def guarded_Ret cb_def del: guarded.simps)
  with AccBurn t ok have "solvent E t l'" "cb l' = (cb l)(a := cb l a - n)"
    using solvent_burn [OF l, of n a] CheckAmount_pos [of n] by auto
  then show ?thesis using accounted_add [of l' l a op] g AccBurn by simp
qed

lemma lstep_Ret:
  assumes "solvent E t l" and "op_ok E op" and "t + op_issued op < 2 ^ 63"
    and "lstep env op l = (Ret (), l')"
  shows "solvent E (t + op_issued op) l' \<and> accounted op l l'"
  by (cases op)
    (erule step_AccTransfer [OF assms]
      step_AccToExec [OF assms]
      step_AccWithdraw [OF assms]
      step_AccFrozen [OF assms]
      step_AccActive [OF assms]
      step_AccExecTransfer [OF assms]
      step_AccExecTransferFrozen [OF assms]
      step_AccDepositFrozen [OF assms]
      step_AccIssue [OF assms]
      step_AccMint [OF assms]
      step_AccBurn [OF assms])+

end
