(* ===== verification/AccountRefine.thy ===== *)
theory AccountRefine
  imports Ledger
begin

text \<open>
  The account database refines the ledger. \<open>ledger_of acc v\<close> is the ledger a key-value view
  \<open>v\<close> stores under the keys of \<open>acc\<close>. In the locale \<open>account_db\<close>, over any store that satisfies
  \<open>kv_store\<close> and any encoding that can be decoded, every operation of \<^verbatim>\<open>src/account\<close> ends with the
  outcome the ledger operation prescribes, leaves a store that holds the ledger prescribed, and
  returns a receipt whose key-value list, replayed on the old view, gives the new one.
\<close>

text \<open>A Go string of ASCII characters; a string's length is a non-negative \<^verbatim>\<open>int\<close>.\<close>

definition ascii :: "string \<Rightarrow> bool" where
  "ascii x \<longleftrightarrow> length x < 2 ^ 63 \<and> (\<forall>c \<in> set x. (of_char c :: nat) < 128)"

text \<open>An address: ASCII, without the separators \<open>-\<close> and \<open>:\<close> of the database keys.\<close>

definition addr_ok :: "string \<Rightarrow> bool" where
  "addr_ok a \<longleftrightarrow> ascii a \<and> CHR ''-'' \<notin> set a \<and> CHR '':'' \<notin> set a"

definition wf_account :: "Account \<Rightarrow> bool" where
  "wf_account x \<longleftrightarrow> is_i32 (Currency x) \<and> is_i64 (Balance x) \<and> is_i64 (Frozen x) \<and> ascii (Addr x)"

definition ledger_of :: "'s AccDB \<Rightarrow> (bytes \<Rightarrow> bytes option) \<Rightarrow> ledger" where
  "ledger_of acc v =
     \<lparr>coins = (\<lambda>a. if addr_ok a then
                     (case v (AccountKey acc a) of
                        None \<Rightarrow> newAccount a
                      | Some b \<Rightarrow> the (Decode (pb acc) b))
                   else newAccount a),
      held = (\<lambda>e a. if addr_ok e \<and> addr_ok a then
                     (case v (execAccountKey acc a e) of
                        None \<Rightarrow> newAccount a
                      | Some b \<Rightarrow> the (Decode (pb acc) b))
                   else newAccount a)\<rparr>"

text \<open>What is stored under an address's key is the encoding of an account of that address.\<close>

definition stores :: "codec \<Rightarrow> bytes option \<Rightarrow> string \<Rightarrow> bool" where
  "stores c v a \<longleftrightarrow>
     (case v of None \<Rightarrow> True | Some b \<Rightarrow> (\<exists>x. Decode c b = Some x \<and> wf_account x \<and> Addr x = a))"

definition accdb_ok :: "'s AccDB \<Rightarrow> (bytes \<Rightarrow> bytes option) \<Rightarrow> bool" where
  "accdb_ok acc v \<longleftrightarrow>
     (\<forall>a. addr_ok a \<longrightarrow> stores (pb acc) (v (AccountKey acc a)) a) \<and>
     (\<forall>e a. addr_ok e \<longrightarrow> addr_ok a \<longrightarrow> stores (pb acc) (v (execAccountKey acc a e)) a)"

definition replay :: "KeyValue list \<Rightarrow> (bytes \<Rightarrow> bytes option) \<Rightarrow> bytes \<Rightarrow> bytes option" where
  "replay kvs v = fold (\<lambda>kv w. w(Key kv := Val kv)) kvs v"

definition own_keys :: "'s AccDB \<Rightarrow> KeyValue list \<Rightarrow> bool" where
  "own_keys acc kvs \<longleftrightarrow> (\<forall>kv \<in> set kvs. \<exists>k. Key kv = accountKeyPerfix acc @ k)"

text \<open>
  \<open>implements q acc v r v'\<close>: ending with \<open>r\<close> and the view \<open>v'\<close> is what the ledger operation
  \<open>q\<close> asks for from \<open>v\<close>; the receipt holds exactly the changes, all under keys of \<open>acc\<close>.
\<close>

definition implements ::
  "(ledger, unit) prog \<Rightarrow> 's AccDB \<Rightarrow> (bytes \<Rightarrow> bytes option) \<Rightarrow> Receipt outcome \<Rightarrow>
   (bytes \<Rightarrow> bytes option) \<Rightarrow> bool" where
  "implements q acc v r v' \<longleftrightarrow>
     accdb_ok acc v' \<and> ledger_of acc v' = snd (q (ledger_of acc v)) \<and>
     (case r of
        Ret receipt \<Rightarrow> fst (q (ledger_of acc v)) = Ret () \<and> v' = replay (KV receipt) v \<and>
                     own_keys acc (KV receipt)
      | Err e \<Rightarrow> fst (q (ledger_of acc v)) = Err e \<and> v' = v
      | Panic _ \<Rightarrow> False)"

definition simulates ::
  "'s AccDB \<Rightarrow> ('s \<Rightarrow> bytes \<Rightarrow> bytes option) \<Rightarrow> ('s \<Rightarrow> bool) \<Rightarrow> ('s, Receipt) prog \<Rightarrow>
   (ledger, unit) prog \<Rightarrow> bool" where
  "simulates acc view good m q \<longleftrightarrow>
     (\<forall>s. good s \<longrightarrow> accdb_ok acc (view s) \<longrightarrow>
          wp m (\<lambda>r s'. good s' \<and> implements q acc (view s) r (view s')) s)"

lemma wp_simulates:
  assumes "simulates acc view good m q" and "good s" and "accdb_ok acc (view s)"
    and "\<And>r s'. good s' \<Longrightarrow> implements q acc (view s) r (view s') \<Longrightarrow> P r s'"
  shows "wp m P s"
  using assms by (auto simp: simulates_def intro: wp_mono)

text \<open>The calls a contract makes, one after the other; an error of one is returned to the contract.\<close>

fun acc_step :: "chain_env \<Rightarrow> 's AccDB \<Rightarrow> acc_op \<Rightarrow> ('s, Receipt) prog" where
  "acc_step env acc (AccTransfer a b n) = Transfer acc a b n"
| "acc_step env acc (AccToExec a e n) = TransferToExec acc a e n"
| "acc_step env acc (AccWithdraw a e n) = TransferWithdraw acc a e n"
| "acc_step env acc (AccFrozen a e n) = ExecFrozen acc a e n"
| "acc_step env acc (AccActive a e n) = ExecActive acc a e n"
| "acc_step env acc (AccExecTransfer a b e n) = ExecTransfer acc a b e n"
| "acc_step env acc (AccExecTransferFrozen a b e n) = ExecTransferFrozen acc a b e n"
| "acc_step env acc (AccDepositFrozen a e n) = ExecDepositFrozen env acc a e n"
| "acc_step env acc (AccIssue e n) = ExecIssueCoins env acc e n"
| "acc_step env acc (AccMint a n) = Mint acc a n"
| "acc_step env acc (AccBurn a n) = Burn acc a n"

fun acc_run :: "chain_env \<Rightarrow> 's AccDB \<Rightarrow> acc_op list \<Rightarrow> ('s, unit) prog" where
  "acc_run env acc [] = ret ()"
| "acc_run env acc (op # ops) = bind (attempt (acc_step env acc op)) (\<lambda>_. acc_run env acc ops)"

definition lGenesisInit :: "string \<Rightarrow> int \<Rightarrow> (ledger, unit) prog" where
  "lGenesisInit a n l =
     guarded [(i64 (Balance (coins l a) + n) < n \<or> i64 (Balance (coins l a) + n) > MaxTokenBalance,
               ErrAmount)] (credit a n) l"

subsection \<open>Keys\<close>

lemma AccountKey_inj [simp]: "AccountKey acc a = AccountKey acc b \<longleftrightarrow> a = b"
  by (simp add: AccountKey_def)

lemma execAccountKey_inj:
  assumes "addr_ok e" and "addr_ok e'"
  shows "execAccountKey acc a e = execAccountKey acc a' e' \<longleftrightarrow> a = a' \<and> e = e'"
  using assms append_eq_append_sep [of "CHR '':''" e e' a a']
  by (auto simp: execAccountKey_def addr_ok_def)

lemma keys_disjoint:
  assumes "execAccountKeyPerfix acc = accountKeyPerfix acc @ ''exec-''" and "addr_ok a"
  shows "AccountKey acc a \<noteq> execAccountKey acc b e"
proof
  assume "AccountKey acc a = execAccountKey acc b e"
  then have "a = ''exec-'' @ e @ '':'' @ b"
    using assms(1) by (simp add: AccountKey_def execAccountKey_def)
  with assms(2) show False by (simp add: addr_ok_def)
qed

lemma newAccount_simps [simp]:
  "Addr (newAccount a) = a" "Balance (newAccount a) = 0" "Frozen (newAccount a) = 0"
  by (simp_all add: newAccount_def)

lemma wf_newAccount: "addr_ok a \<Longrightarrow> wf_account (newAccount a)"
  by (simp add: wf_account_def newAccount_def is_i32_def is_i64_def addr_ok_def)

lemma wf_update [simp]:
  "wf_account x \<Longrightarrow> wf_account (x\<lparr>Balance := i64 n\<rparr>)"
  "wf_account x \<Longrightarrow> wf_account (x\<lparr>Frozen := i64 n\<rparr>)"
  "wf_account x \<Longrightarrow> wf_account (x\<lparr>Balance := i64 n, Frozen := i64 m\<rparr>)"
  by (simp_all add: wf_account_def)

lemma accdb_ok_accounts:
  assumes "accdb_ok acc v"
  shows "addr_ok a \<Longrightarrow> wf_account (coins (ledger_of acc v) a) \<and> Addr (coins (ledger_of acc v) a) = a"
    and "addr_ok e \<Longrightarrow> addr_ok a \<Longrightarrow>
           wf_account (held (ledger_of acc v) e a) \<and> Addr (held (ledger_of acc v) e a) = a"
  using assms
  by (fastforce simp: accdb_ok_def stores_def ledger_of_def wf_newAccount split: option.splits)+

lemma GenesisInitExec_seq:
  "GenesisInitExec acc a n e =
     bind (GenesisInit acc e n) (\<lambda>r. bind (must (ExecDeposit acc a e n)) (\<lambda>r2. ret (mergeReceipt r r2)))"
  by (rule ext) (simp add: GenesisInitExec_def GenesisInit_def bind_def Let_def mergeReceipt_def
      split: prod.split outcome.split sum.split)

subsection \<open>The operations over any store\<close>

locale proto =
  fixes enc :: "Account \<Rightarrow> bytes" and dec :: "bytes \<Rightarrow> Account option"
  assumes round_trip: "wf_account x \<Longrightarrow> dec (enc x) = Some x"

locale account_db = kv_store "db acc" view inv + proto "Encode (pb acc)" "Decode (pb acc)"
  for acc :: "'s AccDB" and view :: "'s \<Rightarrow> bytes \<Rightarrow> bytes option" and inv :: "'s \<Rightarrow> bool" +
  assumes exec_prefix: "execAccountKeyPerfix acc = accountKeyPerfix acc @ ''exec-''"
    and key_buffer: "take (length (accountKeyPerfix acc)) (accountKeyBuffer acc) = accountKeyPerfix acc"
begin

lemma read_key: "accountReadKey acc a = AccountKey acc a"
  by (simp add: accountReadKey_def AccountKey_def key_buffer)

lemma wp_Get:
  assumes "inv s"
    and "\<And>s' r. inv s' \<Longrightarrow> view s' = view s \<Longrightarrow>
           (case view s k of Some v \<Rightarrow> r = Inr v | None \<Rightarrow> \<exists>e. r = Inl e) \<Longrightarrow> P (Ret r) s'"
  shows "wp (attempt (kvGet (db acc) k)) P s"
  using get_attempt [OF assms(1), of k] assms(2) by (auto simp: wp_def)

lemma wp_Set:
  assumes "inv s" and "\<And>s'. inv s' \<Longrightarrow> view s' = (view s)(k \<mapsto> v) \<Longrightarrow> P (Ret ()) s'"
  shows "wp (kvSet (db acc) k (Some v)) P s"
  using set_Some [OF assms(1), of k v] assms(2) by (auto simp: wp_def)

lemma wp_LoadAccount:
  assumes "inv s" and "accdb_ok acc (view s)" and a: "addr_ok a"
    and P: "\<And>s'. inv s' \<Longrightarrow> view s' = view s \<Longrightarrow> P (Ret (coins (ledger_of acc (view s)) a)) s'"
  shows "wp (LoadAccount acc a) P s"
proof -
  have "stores (pb acc) (view s (AccountKey acc a)) a"
    using assms by (simp add: accdb_ok_def)
  then show ?thesis
    unfolding LoadAccount_def wp_bind read_key using a P
    by (intro wp_Get [OF assms(1)])
      (auto simp: wp_simps stores_def ledger_of_def split: option.splits sum.splits)
qed

lemma wp_LoadExecAccount:
  assumes "inv s" and "accdb_ok acc (view s)" and a: "addr_ok a" "addr_ok e"
    and P: "\<And>s'. inv s' \<Longrightarrow> view s' = view s \<Longrightarrow> P (Ret (held (ledger_of acc (view s)) e a)) s'"
  shows "wp (LoadExecAccount acc a e) P s"
proof -
  have "stores (pb acc) (view s (execAccountKey acc a e)) a"
    using assms by (simp add: accdb_ok_def)
  then show ?thesis
    unfolding LoadExecAccount_def wp_bind using a P
    by (intro wp_Get [OF assms(1)])
      (auto simp: wp_simps stores_def ledger_of_def split: option.splits sum.splits)
qed

lemma store_coins:
  assumes "accdb_ok acc v" and "wf_account x" and "addr_ok (Addr x)"
  shows "accdb_ok acc (v(AccountKey acc (Addr x) \<mapsto> Encode (pb acc) x))"
    and "ledger_of acc (v(AccountKey acc (Addr x) \<mapsto> Encode (pb acc) x)) =
         (ledger_of acc v)\<lparr>coins := (coins (ledger_of acc v))(Addr x := x)\<rparr>"
  using assms round_trip keys_disjoint [OF exec_prefix assms(3)]
  by (auto simp: accdb_ok_def stores_def ledger_of_def fun_eq_iff eq_commute [of "execAccountKey _ _ _"])

lemma store_held:
  assumes "accdb_ok acc v" and "wf_account x" and "addr_ok (Addr x)" and "addr_ok e"
  shows "accdb_ok acc (v(execAccountKey acc (Addr x) e \<mapsto> Encode (pb acc) x))"
    and "ledger_of acc (v(execAccountKey acc (Addr x) e \<mapsto> Encode (pb acc) x)) =
         held_update e (Addr x) x (ledger_of acc v)"
  using assms round_trip keys_disjoint [OF exec_prefix]
  by (auto simp: accdb_ok_def stores_def ledger_of_def held_update_def fun_eq_iff execAccountKey_inj)

lemma wp_SaveKVSet:
  assumes "inv s" and "\<And>s'. inv s' \<Longrightarrow> view s' = replay (GetKVSet acc x) (view s) \<Longrightarrow> P (Ret ()) s'"
  shows "wp (SaveKVSet acc (GetKVSet acc x)) P s"
  using assms(2)
  by (auto simp: SaveKVSet_def GetKVSet_def replay_def wp_simps intro!: wp_Set [OF assms(1)])

lemma wp_SaveAccount:
  assumes "inv s" and "\<And>s'. inv s' \<Longrightarrow> view s' = replay (GetKVSet acc x) (view s) \<Longrightarrow> P (Ret ()) s'"
  shows "wp (SaveAccount acc x) P s"
  using wp_SaveKVSet [OF assms(1), of x P] assms(2) by (simp add: SaveAccount_def SaveKVSet_def)

lemma wp_SaveExecAccount:
  assumes "inv s" and "\<And>s'. inv s' \<Longrightarrow> view s' = replay (GetExecKVSet acc e x) (view s) \<Longrightarrow> P (Ret ()) s'"
  shows "wp (SaveExecAccount acc e x) P s"
  using assms(2)
  by (auto simp: SaveExecAccount_def GetExecKVSet_def replay_def wp_simps intro!: wp_Set [OF assms(1)])

lemma replay_append [simp]: "replay (xs @ ys) v = replay ys (replay xs v)"
  by (simp add: replay_def)

lemma replay_coins:
  assumes "accdb_ok acc v" and "wf_account x" and "addr_ok (Addr x)"
  shows "accdb_ok acc (replay (GetKVSet acc x) v)"
    and "ledger_of acc (replay (GetKVSet acc x) v) =
         (ledger_of acc v)\<lparr>coins := (coins (ledger_of acc v))(Addr x := x)\<rparr>"
  using store_coins [OF assms] by (simp_all add: replay_def GetKVSet_def)

lemma replay_held:
  assumes "accdb_ok acc v" and "wf_account x" and "addr_ok (Addr x)" and "addr_ok e"
  shows "accdb_ok acc (replay (GetExecKVSet acc e x) v)"
    and "ledger_of acc (replay (GetExecKVSet acc e x) v) = held_update e (Addr x) x (ledger_of acc v)"
  using store_held [OF assms] by (simp_all add: replay_def GetExecKVSet_def)

lemma own_keys_simps [simp]:
  "own_keys acc (GetKVSet acc x)" "own_keys acc (GetExecKVSet acc e x)"
  "own_keys acc (xs @ ys) \<longleftrightarrow> own_keys acc xs \<and> own_keys acc ys"
  by (auto simp: own_keys_def GetKVSet_def GetExecKVSet_def AccountKey_def execAccountKey_def exec_prefix)

lemmas wp_access = wp_LoadAccount wp_LoadExecAccount wp_SaveKVSet wp_SaveAccount wp_SaveExecAccount

lemmas refine_simps = wp_simps Let_def implements_def replay_coins replay_held accdb_ok_accounts

lemma sim_Transfer:
  assumes "addr_ok a" and "addr_ok b"
  shows "simulates acc view inv (Transfer acc a b n) (lTransfer a b n)"
  using assms unfolding simulates_def
  by (auto simp: Transfer_def refine_simps lTransfer_def credit_def transferReceipt_def
      intro!: wp_access)

lemma sim_depositBalance:
  assumes "addr_ok e" and "miner env e"
  shows "simulates acc view inv (depositBalance acc e n) (lExecIssueCoins env e n)"
  using assms unfolding simulates_def
  by (auto simp: depositBalance_def refine_simps lExecIssueCoins_def credit_def intro!: wp_access)

lemma sim_ExecIssueCoins:
  assumes "addr_ok e"
  shows "simulates acc view inv (ExecIssueCoins env acc e n) (lExecIssueCoins env e n)"
proof (cases "miner env e")
  case True
  with sim_depositBalance [OF assms True] show ?thesis
    by (simp add: ExecIssueCoins_def miner_def)
next
  case False
  then show ?thesis
    by (auto simp: simulates_def ExecIssueCoins_def lExecIssueCoins_def refine_simps miner_def)
qed

lemma sim_Mint:
  assumes "addr_ok a"
  shows "simulates acc view inv (Mint acc a n) (lMint a n)"
  using assms unfolding simulates_def
  by (auto simp: Mint_def refine_simps lMint_def credit_def mintReceipt_def safeAdd_def intro!: wp_access)

lemma sim_Burn:
  assumes "addr_ok a"
  shows "simulates acc view inv (Burn acc a n) (lBurn a n)"
  using assms unfolding simulates_def
  by (auto simp: Burn_def refine_simps lBurn_def credit_def burnReceipt_def intro!: wp_access)

lemma sim_ExecFrozen:
  assumes "addr_ok a" and "addr_ok e"
  shows "simulates acc view inv (ExecFrozen acc a e n) (lExecFrozen a e n)"
  using assms unfolding simulates_def
  by (auto simp: ExecFrozen_def refine_simps lExecFrozen_def ledger_simps execReceipt_def
      intro!: wp_access)

lemma sim_ExecActive:
  assumes "addr_ok a" and "addr_ok e"
  shows "simulates acc view inv (ExecActive acc a e n) (lExecActive a e n)"
  using assms unfolding simulates_def
  by (auto simp: ExecActive_def refine_simps lExecActive_def ledger_simps execReceipt_def
      intro!: wp_access)

lemma sim_ExecTransfer:
  assumes "addr_ok a" and "addr_ok b" and "addr_ok e"
  shows "simulates acc view inv (ExecTransfer acc a b e n) (lExecTransfer a b e n)"
  using assms unfolding simulates_def
  by (auto simp: ExecTransfer_def refine_simps lExecTransfer_def ledger_simps execReceipt2_def
      intro!: wp_access)

lemma sim_ExecTransferFrozen:
  assumes "addr_ok a" and "addr_ok b" and "addr_ok e"
  shows "simulates acc view inv (ExecTransferFrozen acc a b e n) (lExecTransferFrozen a b e n)"
  using assms unfolding simulates_def
  by (auto simp: ExecTransferFrozen_def refine_simps lExecTransferFrozen_def ledger_simps
      execReceipt2_def intro!: wp_access)

lemma sim_ExecDeposit:
  assumes "addr_ok a" and "addr_ok e"
  shows "simulates acc view inv (ExecDeposit acc a e n) (lExecDeposit a e n)"
  using assms unfolding simulates_def
  by (auto simp: ExecDeposit_def refine_simps lExecDeposit_def ledger_simps execReceipt_def
      intro!: wp_access)

lemma sim_ExecWithdraw:
  assumes "addr_ok a" and "addr_ok e"
  shows "simulates acc view inv (ExecWithdraw acc e a n) (lExecWithdraw e a n)"
  using assms unfolding simulates_def
  by (auto simp: ExecWithdraw_def refine_simps lExecWithdraw_def ledger_simps execReceipt_def
      intro!: wp_access)

lemma sim_execDepositFrozen:
  assumes "addr_ok a" and "addr_ok e"
  shows "simulates acc view inv (lower_execDepositFrozen acc a e n)
           (guarded [(a = e, ErrSendSameToRecv), (\<not> CheckAmount n, ErrAmount)] (hfreeze e a n))"
  using assms unfolding simulates_def
  by (auto simp: lower_execDepositFrozen_def refine_simps ledger_simps execReceipt_def
      intro!: wp_access)

text \<open>
  The composed operations. The second call of each cannot fail once the first has succeeded,
  which is why the code may turn its error into a panic.
\<close>

lemma sim_seq:
  assumes m: "simulates acc view inv m q" and m': "simulates acc view inv m' q'"
    and never: "\<And>l l1. q l = (Ret (), l1) \<Longrightarrow> fst (q' l1) = Ret ()"
    and k: "k = m' \<or> k = must m'"
  shows "simulates acc view inv (bind m (\<lambda>r. bind k (\<lambda>r2. ret (mergeReceipt r r2))))
           (bind q (\<lambda>_. q'))"
  unfolding simulates_def
proof (intro allI impI, subst wp_bind, rule wp_simulates [OF m])
  fix s r s1
  assume s1: "inv s1" "implements q acc (view s) r (view s1)"
  let ?post = "\<lambda>r s'. inv s' \<and> implements (bind q (\<lambda>_. q')) acc (view s) r (view s')"
  show "case r of Ret a \<Rightarrow> wp (bind k (\<lambda>r2. ret (mergeReceipt a r2))) ?post s1
              | Err e \<Rightarrow> ?post (Err e) s1 | Panic p \<Rightarrow> ?post (Panic p) s1"
  proof (cases r)
    case (Ret a)
    with s1(2) have q: "q (ledger_of acc (view s)) = (Ret (), ledger_of acc (view s1))"
      and ok: "accdb_ok acc (view s1)" and v: "view s1 = replay (KV a) (view s)" "own_keys acc (KV a)"
      by (auto simp: implements_def prod_eq_iff)
    have "wp m' (\<lambda>r s'. case r of Ret r2 \<Rightarrow> ?post (Ret (mergeReceipt a r2)) s' | _ \<Rightarrow> False) s1"
      using never [OF q] q v
      by (intro wp_simulates [OF m' s1(1) ok])
        (auto simp: implements_def bind_def mergeReceipt_def split: outcome.splits)
    then have "wp k (\<lambda>r s'. case r of Ret r2 \<Rightarrow> ?post (Ret (mergeReceipt a r2)) s' | _ \<Rightarrow> False) s1"
      using k by (auto simp: wp_must elim!: wp_mono split: outcome.splits)
    then show ?thesis
      using Ret by (auto simp: wp_simps elim!: wp_mono split: outcome.splits)
  qed (use s1 in \<open>auto simp: implements_def bind_def split: outcome.splits prod.splits\<close>)
qed

lemma sim_TransferToExec:
  assumes "addr_ok a" and "addr_ok e"
  shows "simulates acc view inv (TransferToExec acc a e n) (lTransferToExec a e n)"
proof -
  have "lTransferToExec a e n = bind (lTransfer a e n) (\<lambda>_. lExecDeposit a e n)"
    by (rule ext) (simp add: lTransferToExec_def lTransfer_def lExecDeposit_def bind_def)
  moreover have "lTransfer a e n l = (Ret (), l1) \<Longrightarrow> fst (lExecDeposit a e n l1) = Ret ()" for l l1
    by (simp add: lTransfer_def lExecDeposit_def split: if_splits)
  ultimately show ?thesis
    using sim_seq [OF sim_Transfer sim_ExecDeposit] assms unfolding TransferToExec_def by metis
qed

lemma sim_ExecDepositFrozen:
  assumes "addr_ok a" and "addr_ok e"
  shows "simulates acc view inv (ExecDepositFrozen env acc a e n) (lExecDepositFrozen env a e n)"
proof (cases "a = e")
  case True
  then show ?thesis
    by (auto simp: simulates_def ExecDepositFrozen_def lExecDepositFrozen_def refine_simps)
next
  case False
  let ?q = "guarded [(a = e, ErrSendSameToRecv), (\<not> CheckAmount n, ErrAmount)] (hfreeze e a n)"
  have "lExecDepositFrozen env a e n = bind (lExecIssueCoins env e n) (\<lambda>_. ?q)"
    using False by (intro ext) (simp add: lExecDepositFrozen_def lExecIssueCoins_def bind_def)
  moreover have "lExecIssueCoins env e n l = (Ret (), l1) \<Longrightarrow> fst (?q l1) = Ret ()" for l l1
    using False by (simp add: lExecIssueCoins_def split: if_splits)
  ultimately show ?thesis
    using sim_seq [OF sim_ExecIssueCoins [OF assms(2)] sim_execDepositFrozen [OF assms], of env n n] False
    unfolding ExecDepositFrozen_def by simp
qed

lemma sim_TransferWithdraw:
  assumes "addr_ok a" and "addr_ok e"
  shows "simulates acc view inv (TransferWithdraw acc a e n) (lTransferWithdraw a e n)"
proof -
  let ?m = "bind (CheckTransfer acc e a n) (\<lambda>_. ExecWithdraw acc e a n)"
  define q where "q = (\<lambda>l. guarded [(\<not> CheckAmount n, ErrAmount),
      (i64 (Balance (coins l e) - n) < 0, ErrNoBalance), (a = e, ErrSendSameToRecv),
      (i64 (Balance (held l e a) - n) < 0, ErrNoBalance)] (hcredit e a (- n)) l)"
  have m: "simulates acc view inv ?m q"
    unfolding simulates_def CheckTransfer_def using assms
    by (auto simp: wp_simps intro!: wp_LoadAccount wp_simulates [OF sim_ExecWithdraw])
      (auto simp: implements_def q_def lExecWithdraw_def split: outcome.splits if_splits)
  have "lTransferWithdraw a e n = bind q (\<lambda>_. lTransfer e a n)"
    by (rule ext) (simp add: q_def lTransferWithdraw_def lTransfer_def bind_def ledger_simps)
  moreover have "q l = (Ret (), l1) \<Longrightarrow> fst (lTransfer e a n l1) = Ret ()" for l l1
    by (auto simp: q_def lTransfer_def ledger_simps split: if_splits)
  ultimately show ?thesis
    using sim_seq [OF m sim_Transfer [OF assms(2,1)], of n] unfolding TransferWithdraw_def
    by (simp add: bind_assoc)
qed

lemma sim_GenesisInit:
  assumes "addr_ok a"
  shows "simulates acc view inv (GenesisInit acc a n) (lGenesisInit a n)"
  using assms unfolding simulates_def
  by (auto simp: GenesisInit_def refine_simps lGenesisInit_def credit_def genesisReceipt_def safeAdd_def
      intro!: wp_access)

text \<open>For amounts \<^verbatim>\<open>CheckAmount\<close> accepts and an owner other than the contract it does not panic.\<close>

lemma sim_GenesisInitExec:
  assumes "addr_ok a" and "addr_ok e" and "a \<noteq> e" and "CheckAmount n"
  shows "simulates acc view inv (GenesisInitExec acc a n e)
           (bind (lGenesisInit e n) (\<lambda>_. lExecDeposit a e n))"
  unfolding GenesisInitExec_seq using assms
  by (intro sim_seq [OF sim_GenesisInit sim_ExecDeposit]) (auto simp: lExecDeposit_def)

text \<open>In the other cases the deposit fails after the credit has been stored.\<close>

lemma wp_GenesisInitExec_panic:
  assumes "inv s" and "accdb_ok acc (view s)" and "addr_ok a" and "addr_ok e"
    and b: "safeAdd (Balance (coins (ledger_of acc (view s)) e)) n = Inr b" and "a = e \<or> \<not> CheckAmount n"
  shows "wp (GenesisInitExec acc a n e)
           (\<lambda>r s'. (\<exists>p. r = Panic p) \<and> Balance (coins (ledger_of acc (view s')) e) = b) s"
  unfolding GenesisInitExec_seq wp_bind
proof (rule wp_simulates [OF sim_GenesisInit [OF assms(4)] assms(1,2)])
  fix r s1
  assume s1: "inv s1" "implements (lGenesisInit e n) acc (view s) r (view s1)"
  with b obtain receipt where r: "r = Ret receipt"
    and l1: "Balance (coins (ledger_of acc (view s1)) e) = b" "accdb_ok acc (view s1)"
    by (cases r) (auto simp: implements_def lGenesisInit_def safeAdd_def credit_def split: if_splits)
  have "fst (lExecDeposit a e n l) \<noteq> Ret ()" for l
    using assms(6) by (auto simp: lExecDeposit_def)
  with l1 have "wp (ExecDeposit acc a e n) (\<lambda>r s'. (\<exists>x. r = Err x) \<and> Balance (coins (ledger_of acc (view s')) e) = b) s1"
    by (intro wp_simulates [OF sim_ExecDeposit [OF assms(3,4)] s1(1)])
      (auto simp: implements_def split: outcome.splits)
  then show "case r of Ret a' \<Rightarrow> wp (must (ExecDeposit acc a e n)) (\<lambda>r s'. case r of
        Ret r2 \<Rightarrow> wp (ret (mergeReceipt a' r2)) (\<lambda>r s'. (\<exists>p. r = Panic p) \<and> Balance (coins (ledger_of acc (view s')) e) = b) s'
      | Err x \<Rightarrow> (\<exists>p. Err x = Panic p) \<and> Balance (coins (ledger_of acc (view s')) e) = b
      | Panic x \<Rightarrow> (\<exists>p. Panic x = Panic p) \<and> Balance (coins (ledger_of acc (view s')) e) = b) s1
    | Err x \<Rightarrow> (\<exists>p. Err x = Panic p) \<and> Balance (coins (ledger_of acc (view s1)) e) = b
    | Panic x \<Rightarrow> (\<exists>p. Panic x = Panic p) \<and> Balance (coins (ledger_of acc (view s1)) e) = b"
    unfolding r by (auto simp: wp_must elim!: wp_mono)
qed

lemma sim_step:
  assumes "\<And>a. a \<in> op_addrs op \<Longrightarrow> addr_ok a"
  shows "simulates acc view inv (acc_step env acc op) (lstep env op)"
  using assms
  by (cases op)
    (auto intro!: sim_Transfer sim_TransferToExec sim_TransferWithdraw sim_ExecFrozen sim_ExecActive
      sim_ExecTransfer sim_ExecTransferFrozen sim_ExecDepositFrozen sim_ExecIssueCoins sim_Mint sim_Burn)

lemma step_solvent:
  assumes "inv s" and "accdb_ok acc (view s)" and "\<And>a. a \<in> op_addrs op \<Longrightarrow> addr_ok a"
    and "op_ok E op" and "solvent E t (ledger_of acc (view s))" and "t + op_issued op < 2 ^ 63"
  shows "wp (acc_step env acc op) (\<lambda>r s'. (\<forall>p. r \<noteq> Panic p) \<and> inv s' \<and> accdb_ok acc (view s') \<and>
           solvent E (t + op_issued op) (ledger_of acc (view s')) \<and>
           (\<forall>receipt. r = Ret receipt \<longrightarrow> accounted op (ledger_of acc (view s)) (ledger_of acc (view s')))) s"
proof (rule wp_simulates [OF sim_step assms(1,2)])
  fix r s' assume s': "inv s'" "implements (lstep env op) acc (view s) r (view s')"
  have "solvent E (t + op_issued op) (ledger_of acc (view s))"
    using assms(5) by (rule solvent_mono) simp
  moreover have "solvent E (t + op_issued op) (ledger_of acc (view s')) \<and>
      accounted op (ledger_of acc (view s)) (ledger_of acc (view s'))" if "r = Ret receipt" for receipt
    using s' that by (intro lstep_Ret [OF assms(5,4,6), of env]) (auto simp: implements_def intro!: prod_eqI)
  ultimately show "(\<forall>p. r \<noteq> Panic p) \<and> inv s' \<and> accdb_ok acc (view s') \<and>
      solvent E (t + op_issued op) (ledger_of acc (view s')) \<and>
      (\<forall>receipt. r = Ret receipt \<longrightarrow> accounted op (ledger_of acc (view s)) (ledger_of acc (view s')))"
    using s' by (cases r) (auto simp: implements_def)
qed (use assms in auto)

lemma run_solvent:
  assumes "inv s" and "accdb_ok acc (view s)" and "solvent E t (ledger_of acc (view s))"
    and "\<And>op. op \<in> set ops \<Longrightarrow> op_ok E op \<and> (\<forall>a \<in> op_addrs op. addr_ok a)"
    and "t + (\<Sum>op \<leftarrow> ops. op_issued op) < 2 ^ 63"
  shows "wp (acc_run env acc ops) (\<lambda>r s'. r = Ret () \<and> inv s' \<and> accdb_ok acc (view s') \<and>
           solvent E (t + (\<Sum>op \<leftarrow> ops. op_issued op)) (ledger_of acc (view s'))) s"
  using assms
proof (induction ops arbitrary: s t)
  case (Cons op ops)
  have nonneg: "0 \<le> (\<Sum>op \<leftarrow> ops. op_issued op)"
    by (intro sum_list_nonneg) auto
  have "wp (acc_step env acc op) (\<lambda>r s'. (\<forall>p. r \<noteq> Panic p) \<and> inv s' \<and> accdb_ok acc (view s') \<and>
      solvent E (t + op_issued op) (ledger_of acc (view s'))) s"
    using Cons.prems nonneg by (intro wp_mono [OF step_solvent [of s op E t env]]) auto
  then show ?case
    unfolding acc_run.simps wp_bind wp_attempt
  proof (rule wp_mono, goal_cases)
    case (1 r s')
    then have "wp (acc_run env acc ops) (\<lambda>r s'. r = Ret () \<and> inv s' \<and> accdb_ok acc (view s') \<and>
        solvent E (t + op_issued op + (\<Sum>op \<leftarrow> ops. op_issued op)) (ledger_of acc (view s'))) s'"
      using Cons.prems by (intro Cons.IH) auto
    with 1 show ?case by (auto simp: add.assoc split: outcome.split)
  qed
qed (simp add: wp_simps)

end

end
