(* ===== verification/Varint.thy ===== *)
theory Varint
  imports Prelude
begin

text \<open>
  Variable-length integers of the protobuf wire format, as the encoders and decoders of the
  messages use them: seven bits a byte, least significant first, at most ten bytes.
\<close>

fun appendVarint :: "nat \<Rightarrow> bytes" where
  "appendVarint v = (if v < 128 then [char_of v] else char_of (v mod 128 + 128) # appendVarint (v div 128))"

declare appendVarint.simps [simp del]

text \<open>\<open>decode_at i\<close> reads the varint from its \<open>i\<close>-th byte on; the tenth byte holds only one bit.\<close>

fun decode_at :: "nat \<Rightarrow> bytes \<Rightarrow> (nat \<times> bytes) option" where
  "decode_at i [] = None"
| "decode_at i (c # b) =
     (let y = of_char c in
      if i = 9 then (if y < 2 then Some (y, b) else None)
      else if y < 128 then Some (y, b)
      else (case decode_at (Suc i) b of None \<Rightarrow> None | Some (x, r) \<Rightarrow> Some (y - 128 + 128 * x, r)))"

definition decodeVarint :: "bytes \<Rightarrow> (nat \<times> bytes) option" where
  "decodeVarint b = decode_at 0 b"

definition u64 :: "int \<Rightarrow> nat" where
  "u64 v = nat (v mod 2 ^ 64)"

lemma decode_at_shorter: "decode_at i b = Some (v, r) \<Longrightarrow> length r < length b"
  by (induction i b arbitrary: v r rule: decode_at.induct)
    (fastforce simp: Let_def split: if_splits option.splits)+

lemma decodeVarint_shorter: "decodeVarint b = Some (v, r) \<Longrightarrow> length r < length b"
  by (simp add: decodeVarint_def decode_at_shorter)

lemma appendVarint_less: "v < 128 \<Longrightarrow> appendVarint v = [char_of v]"
  by (simp add: appendVarint.simps)

lemma appendVarint_more:
  "\<not> v < 128 \<Longrightarrow> appendVarint v = char_of (v mod 128 + 128) # appendVarint (v div 128)"
  by (subst appendVarint.simps) simp

lemma of_char_low: "v < 128 \<Longrightarrow> of_char (char_of (v::nat)) = v"
  by (simp add: of_char_of)

lemma of_char_high: "of_char (char_of (v mod 128 + 128)) = (v mod 128 + 128 :: nat)"
proof -
  have "v mod 128 + 128 < 256" using mod_less_divisor [of 128 v] by linarith
  then show ?thesis by (simp only: of_char_of mod_less)
qed

lemma decode_at_append:
  "i \<le> 9 \<Longrightarrow> v < 2 ^ (64 - 7 * i) \<Longrightarrow> decode_at i (appendVarint v @ r) = Some (v, r)"
proof (induction v arbitrary: i rule: less_induct)
  case (less v)
  show ?case
  proof (cases "v < 128")
    case True
    then show ?thesis
      using less.prems by (cases "i = 9") (simp_all add: appendVarint_less of_char_low Let_def)
  next
    case False
    with less.prems have i: "i < 9"
      by (cases "i = 9") auto
    have e: "64 - 7 * i = 7 + (64 - 7 * Suc i)" using i by simp
    from less.prems(2) have "v < 2 ^ 7 * 2 ^ (64 - 7 * Suc i)"
      unfolding e power_add .
    then have "v div 128 < 2 ^ (64 - 7 * Suc i)"
      by (simp add: less_mult_imp_div_less mult.commute)
    then have "decode_at (Suc i) (appendVarint (v div 128) @ r) = Some (v div 128, r)"
      using False i by (intro less.IH) auto
    then show ?thesis
      using False i by (simp add: appendVarint_more of_char_high Let_def)
  qed
qed

lemma decodeVarint_append: "v < 2 ^ 64 \<Longrightarrow> decodeVarint (appendVarint v @ r) = Some (v, r)"
  by (simp add: decodeVarint_def decode_at_append)

lemma u64_less: "u64 v < 2 ^ 64"
  by (simp add: u64_def nat_less_iff)

lemma decodeVarint_u64: "decodeVarint (appendVarint (u64 v) @ r) = Some (u64 v, r)"
  by (rule decodeVarint_append [OF u64_less])

lemma i64_u64: "is_i64 v \<Longrightarrow> i64 (int (u64 v)) = v"
proof -
  assume v: "is_i64 v"
  have "i64 (int (u64 v)) = i64 v"
    by (simp add: u64_def i64_def mod_add_left_eq)
  with v show ?thesis by (simp add: i64_id)
qed

lemma i32_u64: "is_i32 v \<Longrightarrow> i32 (int (u64 v)) = v"
proof -
  assume v: "is_i32 v"
  have "(v mod 2 ^ 64 + 2 ^ 31) mod 2 ^ 32 = (v mod 2 ^ 64 mod 2 ^ 32 + 2 ^ 31) mod (2 ^ 32 :: int)"
    by (simp only: mod_add_left_eq)
  also have "v mod 2 ^ 64 mod 2 ^ 32 = v mod (2 ^ 32 :: int)"
    by (rule mod_mod_cancel) simp
  finally have "i32 (int (u64 v)) = i32 v"
    by (simp add: u64_def i32_def mod_add_left_eq)
  with v show ?thesis by (simp add: i32_id)
qed

end
