(* ===== verification/Utf8.thy ===== *)
theory Utf8
  imports Prelude
begin

text \<open>
  UTF-8, as \<^verbatim>\<open>utf8.ValidString\<close> of Go's library checks it; the protobuf library refuses a string field
  that is not valid.
\<close>

definition cont :: "char \<Rightarrow> bool" where
  "cont c \<longleftrightarrow> (of_char c :: nat) div 64 = 2"

fun utf8_valid :: "bytes \<Rightarrow> bool" where
  "utf8_valid [] = True"
| "utf8_valid (c # b) =
     (let x = (of_char c :: nat) in
      if x < 128 then utf8_valid b
      else (case b of
              c1 # b1 \<Rightarrow>
                (let y = (of_char c1 :: nat) in
                 if 194 \<le> x \<and> x \<le> 223 then cont c1 \<and> utf8_valid b1
                 else (case b1 of
                         c2 # b2 \<Rightarrow>
                           if 224 \<le> x \<and> x \<le> 239 then
                             cont c1 \<and> (x = 224 \<longrightarrow> 160 \<le> y) \<and> (x = 237 \<longrightarrow> y \<le> 159) \<and>
                             cont c2 \<and> utf8_valid b2
                           else (case b2 of
                                   c3 # b3 \<Rightarrow>
                                     240 \<le> x \<and> x \<le> 244 \<and> cont c1 \<and> (x = 240 \<longrightarrow> 144 \<le> y) \<and>
                                     (x = 244 \<longrightarrow> y \<le> 143) \<and> cont c2 \<and> cont c3 \<and> utf8_valid b3
                                 | [] \<Rightarrow> False)
                       | [] \<Rightarrow> False))
            | [] \<Rightarrow> False))"

end
