(* ===== verification/Wire.thy ===== *)
theory Wire
  imports AccountRefine Varint Utf8
begin

text \<open>
  The protobuf wire format of the message \<^verbatim>\<open>Account\<close> (\<^verbatim>\<open>src/types/account.pb.go\<close>: fields 1 to 3 are
  varints, field 4 a UTF-8 string; a field with its default value is not written). The protobuf
  library itself is third-party code; this theory gives the concrete encoding with which the
  parameter \<open>codec\<close> of the account database is instantiated, and shows that it satisfies
  \<open>proto\<close>. Unknown fields of the four length-delimited kinds are skipped; groups, which no
  message of the program uses, are refused.
\<close>

definition put_int :: "nat \<Rightarrow> int \<Rightarrow> bytes" where
  "put_int tag v = (if v = 0 then [] else appendVarint tag @ appendVarint (u64 v))"

definition put_string :: "nat \<Rightarrow> string \<Rightarrow> bytes" where
  "put_string tag v = (if v = [] then [] else appendVarint tag @ appendVarint (length v) @ v)"

definition Account_Marshal :: "Account \<Rightarrow> bytes" where
  "Account_Marshal a = put_int 8 (Currency a) @ put_int 16 (Balance a) @ put_int 24 (Frozen a) @
     put_string 34 (Addr a)"

definition skip_field :: "nat \<Rightarrow> bytes \<Rightarrow> bytes option" where
  "skip_field wire b =
     (if wire = 0 then map_option snd (decodeVarint b)
      else if wire = 5 then (if length b < 4 then None else Some (drop 4 b))
      else if wire = 1 then (if length b < 8 then None else Some (drop 8 b))
      else if wire = 2 then
        (case decodeVarint b of
           None \<Rightarrow> None
         | Some (m, r) \<Rightarrow> if length r < m then None else Some (drop m r))
      else None)"

text \<open>One field: \<open>None\<close> for an error, else the account, whether the string was valid, and the rest.\<close>

definition get_field :: "Account \<Rightarrow> bytes \<Rightarrow> (Account \<times> bool \<times> bytes) option" where
  "get_field a b =
     (case decodeVarint b of
        None \<Rightarrow> None
      | Some (x, b1) \<Rightarrow>
          if x \<in> {8, 16, 24} then
            (case decodeVarint b1 of
               None \<Rightarrow> None
             | Some (v, b2) \<Rightarrow>
                 Some (if x = 8 then a\<lparr>Currency := i32 (int v)\<rparr>
                       else if x = 16 then a\<lparr>Balance := i64 (int v)\<rparr>
                       else a\<lparr>Frozen := i64 (int v)\<rparr>, True, b2))
          else if x = 34 then
            (case decodeVarint b1 of
               None \<Rightarrow> None
             | Some (n, b2) \<Rightarrow>
                 if n > length b2 then None
                 else Some (a\<lparr>Addr := take n b2\<rparr>, utf8_valid (take n b2), drop n b2))
          else map_option (\<lambda>r. (a, True, r)) (skip_field (x mod 8) b1))"

lemma skip_field_shorter: "skip_field w b = Some r \<Longrightarrow> length r \<le> length b"
  by (auto simp: skip_field_def split: if_splits option.splits dest!: decodeVarint_shorter)

lemma get_field_shorter: "get_field a b = Some (a', ok, r) \<Longrightarrow> length r < length b"
  by (auto simp: get_field_def split: if_splits option.splits
      dest!: decodeVarint_shorter skip_field_shorter) arith+

function get_fields :: "Account \<Rightarrow> bool \<Rightarrow> bytes \<Rightarrow> Account option" where
  "get_fields a ok b =
     (if b = [] then (if ok then Some a else None)
      else (case get_field a b of None \<Rightarrow> None | Some (a', ok', r) \<Rightarrow> get_fields a' (ok \<and> ok') r))"
  by pat_completeness auto
termination by (relation "measure (\<lambda>(a, ok, b). length b)") (auto dest: get_field_shorter)

declare get_fields.simps [simp del]

definition Account_Unmarshal :: "bytes \<Rightarrow> Account option" where
  "Account_Unmarshal b = get_fields (newAccount '''') True b"

subsection \<open>Round trip\<close>

lemma utf8_ascii: "ascii b \<Longrightarrow> utf8_valid b"
  by (induction b) (auto simp: ascii_def)

lemma get_fields_step:
  "get_field a b = Some (a', ok', r) \<Longrightarrow> get_fields a ok b = get_fields a' (ok \<and> ok') r"
  by (subst get_fields.simps) (auto simp: get_field_def decodeVarint_def)

lemma get_field_int:
  assumes "is_i64 v" and "t \<in> {8, 16, 24}"
  shows "get_field a (appendVarint t @ appendVarint (u64 v) @ r) =
      Some (if t = 8 then a\<lparr>Currency := i32 (int (u64 v))\<rparr>
            else if t = 16 then a\<lparr>Balance := v\<rparr> else a\<lparr>Frozen := v\<rparr>, True, r)"
  using assms by (auto simp: get_field_def decodeVarint_append decodeVarint_u64 i64_u64)

lemma Account_default:
  "Currency a = 0 \<Longrightarrow> a\<lparr>Currency := 0\<rparr> = a" "Balance a = 0 \<Longrightarrow> a\<lparr>Balance := 0\<rparr> = a"
  "Frozen a = 0 \<Longrightarrow> a\<lparr>Frozen := 0\<rparr> = a"
  by (cases a; simp)+

lemma get_put_int:
  assumes "is_i64 v"
  shows "is_i32 v \<Longrightarrow> Currency a = 0 \<Longrightarrow>
           get_fields a ok (put_int 8 v @ r) = get_fields (a\<lparr>Currency := v\<rparr>) ok r"
    and "Balance a = 0 \<Longrightarrow> get_fields a ok (put_int 16 v @ r) = get_fields (a\<lparr>Balance := v\<rparr>) ok r"
    and "Frozen a = 0 \<Longrightarrow> get_fields a ok (put_int 24 v @ r) = get_fields (a\<lparr>Frozen := v\<rparr>) ok r"
proof -
  note step = get_fields_step [OF get_field_int [OF assms, of _ a r], of _ ok]
  show "is_i32 v \<Longrightarrow> Currency a = 0 \<Longrightarrow>
      get_fields a ok (put_int 8 v @ r) = get_fields (a\<lparr>Currency := v\<rparr>) ok r"
    using step [of 8] by (cases "v = 0") (simp_all add: put_int_def i32_u64 Account_default)
  show "Balance a = 0 \<Longrightarrow> get_fields a ok (put_int 16 v @ r) = get_fields (a\<lparr>Balance := v\<rparr>) ok r"
    using step [of 16] by (cases "v = 0") (simp_all add: put_int_def Account_default)
  show "Frozen a = 0 \<Longrightarrow> get_fields a ok (put_int 24 v @ r) = get_fields (a\<lparr>Frozen := v\<rparr>) ok r"
    using step [of 24] by (cases "v = 0") (simp_all add: put_int_def Account_default)
qed

lemma get_put_string:
  assumes "ascii v" and "Addr a = ''''"
  shows "get_fields a True (put_string 34 v) = Some (a\<lparr>Addr := v\<rparr>)"
proof (cases "v = ''''")
  case True
  with assms(2) show ?thesis by (simp add: put_string_def get_fields.simps)
next
  case False
  then have "get_field a (put_string 34 v) = Some (a\<lparr>Addr := v\<rparr>, True, [])"
    using assms by (simp add: put_string_def get_field_def decodeVarint_append utf8_ascii ascii_def)
  then show ?thesis by (simp add: get_fields_step) (simp add: get_fields.simps)
qed

lemma Account_round_trip: "wf_account x \<Longrightarrow> Account_Unmarshal (Account_Marshal x) = Some x"
  by (cases x) (simp add: Account_Unmarshal_def Account_Marshal_def wf_account_def get_put_int
      get_put_string newAccount_def is_i32_def is_i64_def)

definition wire_codec :: "(LogMsg \<Rightarrow> bytes) \<Rightarrow> codec" where
  "wire_codec logs = \<lparr>Encode = Account_Marshal, Decode = Account_Unmarshal, EncodeLog = logs\<rparr>"

interpretation wire: proto "Encode (wire_codec logs)" "Decode (wire_codec logs)" for logs
  by unfold_locales (simp add: wire_codec_def Account_round_trip)

end
