(* ===== verification/Forks.thy ===== *)
theory Forks
  imports Prelude
begin

text \<open>
  The fork table of \<^verbatim>\<open>src/types/fork.go\<close>: for every chain title a map from fork names to the
  height at which the fork becomes active. The methods of \<^verbatim>\<open>Forks\<close> that change the table are
  programs over it; those that read it return an outcome, since a missing entry of the title
  \<^verbatim>\<open>local\<close> panics. The lemmas show that a fork, once active, stays active, that the table is
  written once per name, and what the built-in configurations activate.
\<close>

record Forks =
  forks :: "string \<rightharpoonup> (string \<rightharpoonup> int)"

definition MaxHeight :: int where
  "MaxHeight = 10000000000000000"

definition checkKey :: "string \<Rightarrow> (Forks, unit) prog" where
  "checkKey key = (if CHR ''.'' \<in> set key then panic ''name must not have dot'' else ret ())"

definition replaceFork :: "string \<Rightarrow> string \<Rightarrow> int \<Rightarrow> (Forks, unit) prog" where
  "replaceFork title key height f =
     (case forks f title of
        None \<Rightarrow> panic ''replace a not exist title'' f
      | Some item \<Rightarrow>
          (case item key of
             None \<Rightarrow> panic ''replace a not exist key'' f
           | Some _ \<Rightarrow> ret () (f\<lparr>forks := (forks f)(title \<mapsto> item(key \<mapsto> height))\<rparr>)))"

definition setFork :: "string \<Rightarrow> string \<Rightarrow> int \<Rightarrow> (Forks, unit) prog" where
  "setFork title key height f =
     (let f1 = (if forks f title = None
                then f\<lparr>forks := (forks f)(title \<mapsto> Map.empty)\<rparr> else f);
          item = the (forks f1 title)
      in case item key of
           Some _ \<Rightarrow> panic ''set dup fork'' f1
         | None \<Rightarrow> ret () (f1\<lparr>forks := (forks f1)(title \<mapsto> item(key \<mapsto> height))\<rparr>))"

definition SetFork :: "string \<Rightarrow> string \<Rightarrow> int \<Rightarrow> (Forks, unit) prog" where
  "SetFork title key height = bind (checkKey key) (\<lambda>_. setFork title key height)"

definition ReplaceFork :: "string \<Rightarrow> string \<Rightarrow> int \<Rightarrow> (Forks, unit) prog" where
  "ReplaceFork title key height = bind (checkKey key) (\<lambda>_. replaceFork title key height)"

definition SetDappFork :: "string \<Rightarrow> string \<Rightarrow> string \<Rightarrow> int \<Rightarrow> (Forks, unit) prog" where
  "SetDappFork title dapp key height =
     bind (checkKey key) (\<lambda>_. setFork title (dapp @ ''.'' @ key) height)"

definition ReplaceDappFork :: "string \<Rightarrow> string \<Rightarrow> string \<Rightarrow> int \<Rightarrow> (Forks, unit) prog" where
  "ReplaceDappFork title dapp key height =
     bind (checkKey key) (\<lambda>_. replaceFork title (dapp @ ''.'' @ key) height)"

definition GetFork :: "Forks \<Rightarrow> string \<Rightarrow> string \<Rightarrow> int outcome" where
  "GetFork f title key =
     (case forks f title of
        None \<Rightarrow> (if title = ''local'' then Panic ''title not exisit'' else Ret MaxHeight)
      | Some forkitem \<Rightarrow>
          (case forkitem key of
             None \<Rightarrow> (if title = ''local'' then Panic ''key not exisit'' else Ret MaxHeight)
           | Some height \<Rightarrow> Ret height))"

definition HasFork :: "Forks \<Rightarrow> string \<Rightarrow> string \<Rightarrow> bool" where
  "HasFork f title key =
     (case forks f title of
        None \<Rightarrow> False
      | Some forkitem \<Rightarrow> (case forkitem key of None \<Rightarrow> False | Some _ \<Rightarrow> True))"

definition GetDappFork :: "Forks \<Rightarrow> string \<Rightarrow> string \<Rightarrow> string \<Rightarrow> int outcome" where
  "GetDappFork f title app key = GetFork f title (app @ ''.'' @ key)"

definition Clone :: "string \<Rightarrow> string \<Rightarrow> (Forks, unit) prog" where
  "Clone from to f =
     (case forks f from of
        None \<Rightarrow> fail ErrCloneForkFrom f
      | Some forkitem \<Rightarrow>
          (case forks f to of
             Some _ \<Rightarrow> fail ErrCloneForkToExist f
           | None \<Rightarrow> ret () (f\<lparr>forks := (forks f)(to \<mapsto> forkitem)\<rparr>)))"

definition SetAllFork :: "string \<Rightarrow> int \<Rightarrow> (Forks, unit) prog" where
  "SetAllFork title height f =
     (case forks f title of
        None \<Rightarrow> ret () f
      | Some forkitem \<Rightarrow>
          ret () (f\<lparr>forks := (forks f)(title \<mapsto>
                     (\<lambda>k. case forkitem k of None \<Rightarrow> None | Some _ \<Rightarrow> Some height))\<rparr>))"

definition CloneZero :: "string \<Rightarrow> string \<Rightarrow> (Forks, unit) prog" where
  "CloneZero from to = bind (Clone from to) (\<lambda>_. SetAllFork to 0)"

definition CloneMaxHeight :: "string \<Rightarrow> string \<Rightarrow> (Forks, unit) prog" where
  "CloneMaxHeight from to = bind (Clone from to) (\<lambda>_. SetAllFork to MaxHeight)"

definition GetAll :: "Forks \<Rightarrow> string \<Rightarrow> (string \<rightharpoonup> int) option" where
  "GetAll f title = forks f title"

definition IsFork :: "Forks \<Rightarrow> string \<Rightarrow> int \<Rightarrow> string \<Rightarrow> bool outcome" where
  "IsFork f title height fork =
     (case GetFork f title fork of
        Ret ifork \<Rightarrow> Ret (height = -1 \<or> height \<ge> ifork)
      | Err e \<Rightarrow> Err e
      | Panic p \<Rightarrow> Panic p)"

definition IsDappFork :: "Forks \<Rightarrow> string \<Rightarrow> int \<Rightarrow> string \<Rightarrow> string \<Rightarrow> bool outcome" where
  "IsDappFork f title height dapp fork = IsFork f title height (dapp @ ''.'' @ fork)"

definition IsEnableFork :: "Forks \<Rightarrow> string \<Rightarrow> int \<Rightarrow> string \<Rightarrow> bool \<Rightarrow> bool outcome" where
  "IsEnableFork f title height fork enable =
     (if \<not> enable then Ret False else IsFork f title height fork)"

subsection \<open>The built-in configurations\<close>

definition testNetForks :: "(string \<times> int) list" where
  "testNetForks =
     [(''ForkChainParamV1'', 110000), (''ForkChainParamV2'', 1692674),
      (''ForkCheckTxDup'', 75260), (''ForkBlockHash'', 209186),
      (''ForkMinerTime'', 350000), (''ForkTransferExec'', 408400),
      (''ForkExecKey'', 408400), (''ForkWithdraw'', 480000),
      (''ForkTxGroup'', 408400), (''ForkResetTx0'', 453400),
      (''ForkExecRollback'', 706531), (''ForkTxHeight'', 806578),
      (''ForkCheckBlockTime'', 1200000), (''ForkMultiSignAddress'', 1298600),
      (''ForkStateDBSet'', 1572391), (''ForkBlockCheck'', 1560000),
      (''ForkLocalDBAccess'', 1572391), (''ForkTxGroupPara'', 1687250),
      (''ForkBase58AddressCheck'', 1800000)]"

definition SetTestNetFork :: "(Forks, unit) prog" where
  "SetTestNetFork = forM testNetForks (\<lambda>(k, h). SetFork ''chain33'' k h)"

definition setLocalFork :: "(Forks, unit) prog" where
  "setLocalFork =
     bind (must (CloneZero ''chain33'' ''local''))
       (\<lambda>_. ReplaceFork ''local'' ''ForkBlockHash'' 1)"

definition setForkForPara :: "string \<Rightarrow> (Forks, unit) prog" where
  "setForkForPara paraName =
     bind (attempt (CloneZero ''chain33'' paraName))
       (\<lambda>_. ReplaceFork paraName ''ForkBlockHash'' 1)"

definition newForks :: Forks where
  "newForks = \<lparr>forks = Map.empty\<rparr>"

subsection \<open>Reading and writing the table\<close>

text \<open>What the table says of one name: the table as a map on pairs.\<close>

definition fork_at :: "Forks \<Rightarrow> string \<Rightarrow> string \<Rightarrow> int option" where
  "fork_at f title key = (case forks f title of None \<Rightarrow> None | Some item \<Rightarrow> item key)"

lemma GetFork_fork_at:
  "GetFork f title key =
     (case fork_at f title key of
        Some h \<Rightarrow> Ret h
      | None \<Rightarrow> (if title = ''local'' then (if forks f title = None
                    then Panic ''title not exisit'' else Panic ''key not exisit'')
                 else Ret MaxHeight))"
  by (simp add: GetFork_def fork_at_def split: option.splits)

lemma HasFork_fork_at: "HasFork f title key \<longleftrightarrow> fork_at f title key \<noteq> None"
  by (simp add: HasFork_def fork_at_def split: option.splits)

lemma fork_at_setFork:
  assumes "setFork title key h f = (r, f')"
  shows "fork_at f' t k =
           (if t = title \<and> k = key \<and> fork_at f title key = None then Some h else fork_at f t k)"
    and "r = Ret () \<longleftrightarrow> fork_at f title key = None"
  using assms
  by (auto simp: setFork_def fork_at_def Let_def split: option.splits if_splits)

lemma fork_at_replaceFork:
  assumes "replaceFork title key h f = (r, f')"
  shows "fork_at f' t k =
           (if t = title \<and> k = key \<and> fork_at f title key \<noteq> None then Some h else fork_at f t k)"
    and "r = Ret () \<longleftrightarrow> fork_at f title key \<noteq> None"
  using assms
  by (auto simp: replaceFork_def fork_at_def split: option.splits if_splits)

lemma fork_at_CloneZero:
  assumes "CloneZero from to f = (Ret (), f')"
  shows "fork_at f' t k =
           (if t = to then map_option (\<lambda>_. 0) (fork_at f from k) else fork_at f t k)"
  using assms
  by (auto simp: CloneZero_def Clone_def SetAllFork_def fork_at_def bind_def
           split: option.splits outcome.splits prod.splits if_splits)

text \<open>A list of new, dot-free, distinct names is entered completely and nothing else changes.\<close>

lemma forM_SetFork:
  assumes "distinct (map fst kvs)"
    and "\<forall>k \<in> set (map fst kvs). CHR ''.'' \<notin> set k \<and> fork_at f title k = None"
  shows "\<exists>f'. forM kvs (\<lambda>(k, h). SetFork title k h) f = (Ret (), f') \<and>
              (\<forall>t k. fork_at f' t k =
                 (if t = title then (case map_of kvs k of None \<Rightarrow> fork_at f t k | Some h \<Rightarrow> Some h)
                  else fork_at f t k)) \<and>
              (kvs \<noteq> [] \<longrightarrow> forks f' title \<noteq> None) \<and>
              (\<forall>t. t \<noteq> title \<longrightarrow> forks f' t = forks f t)"
  using assms
proof (induction kvs arbitrary: f)
  case Nil
  then show ?case by simp
next
  case (Cons kv kvs)
  obtain k h where kv: "kv = (k, h)" by fastforce
  from Cons.prems kv have dot: "CHR ''.'' \<notin> set k" and new: "fork_at f title k = None" by auto
  obtain r f1 where f1: "setFork title k h f = (r, f1)" by fastforce
  with new have r: "r = Ret ()" using fork_at_setFork(2) by blast
  note at1 = fork_at_setFork(1) [OF f1, unfolded new]
  have some1: "forks f1 title \<noteq> None" and other1: "\<forall>t. t \<noteq> title \<longrightarrow> forks f1 t = forks f t"
    using f1 by (auto simp: setFork_def Let_def split: option.splits if_splits)
  have "\<forall>k' \<in> set (map fst kvs). CHR ''.'' \<notin> set k' \<and> fork_at f1 title k' = None"
    using Cons.prems kv at1 by (force simp: rev_image_eqI)
  with Cons.IH [of f1] Cons.prems kv obtain f' where
    f': "forM kvs (\<lambda>(k, h). SetFork title k h) f1 = (Ret (), f')"
    "\<forall>t k. fork_at f' t k =
        (if t = title then (case map_of kvs k of None \<Rightarrow> fork_at f1 t k | Some h \<Rightarrow> Some h)
         else fork_at f1 t k)"
    "kvs \<noteq> [] \<longrightarrow> forks f' title \<noteq> None" "\<forall>t. t \<noteq> title \<longrightarrow> forks f' t = forks f1 t"
    by auto
  have "map_of kvs k = None"
    using Cons.prems(1) kv by (simp add: map_of_eq_None_iff)
  then have "forM (kv # kvs) (\<lambda>(k, h). SetFork title k h) f = (Ret (), f')"
    using f1 r dot f'(1) by (simp add: kv SetFork_def checkKey_def bind_def)
  moreover have "forks f' title \<noteq> None"
    using f'(1,3) some1 by (cases kvs) auto
  moreover have "fork_at f' t k' =
      (if t = title then (case map_of (kv # kvs) k' of None \<Rightarrow> fork_at f t k' | Some h \<Rightarrow> Some h)
       else fork_at f t k')" for t k'
    using f'(2) at1 \<open>map_of kvs k = None\<close> kv by (auto split: option.splits)
  ultimately show ?case
    using f'(4) other1 by (intro exI [of _ f']) simp
qed

lemma testNetForks_ok:
  "distinct (map fst testNetForks)" "\<forall>k \<in> set (map fst testNetForks). CHR ''.'' \<notin> set k"
  by (simp_all add: testNetForks_def)

lemma IsFork_monotone:
  assumes "IsFork f title h k = Ret True" and "0 \<le> h" and "h \<le> h'"
  shows "IsFork f title h' k = Ret True"
  using assms by (auto simp: IsFork_def split: outcome.splits)


end
