(* ===== verification/StateDB.thy ===== *)
theory StateDB
  imports Forks KVStore
begin

text \<open>
  The state database of the executor, \<^verbatim>\<open>src/executor/statedb.go\<close>: a cache and a transaction
  cache over the store module. The store module is reached through the message queue; it is
  the field \<open>sdb_client\<close>, a function from a state hash and a key to the reply, and the MVCC
  table of \<^verbatim>\<open>SimpleMVCC\<close> is the pair of fields \<open>sdb_GetVersion\<close> and \<open>sdb_GetV\<close>. The model keeps the
  behaviour before and after the fork \<^verbatim>\<open>ForkExecRollback\<close>.
\<close>

datatype store_reply =
    SendErr error
  | WaitErr error
  | StoreReplyValue "bytes option list option"

record StateDB =
  sdb_cache :: "bytes \<rightharpoonup> bytes"
  sdb_txcache :: "(bytes \<rightharpoonup> bytes) option"
  sdb_keys :: "bytes list"
  sdb_intx :: bool
  sdb_client :: "(bytes \<Rightarrow> bytes \<Rightarrow> store_reply) option"
  sdb_stateHash :: bytes
  sdb_version :: int
  sdb_height :: int
  sdb_GetVersion :: "bytes \<Rightarrow> error + int"
  sdb_GetV :: "bytes \<Rightarrow> int \<Rightarrow> error + bytes"
  sdb_EnableMVCC :: bool

definition NewStateDB ::
  "(bytes \<Rightarrow> bytes \<Rightarrow> store_reply) option \<Rightarrow> bytes \<Rightarrow>
   (bytes \<Rightarrow> error + int) \<Rightarrow> (bytes \<Rightarrow> int \<Rightarrow> error + bytes) \<Rightarrow> (bool \<times> int) option \<Rightarrow> StateDB" where
  "NewStateDB cli hash getVersion getV opt =
     (let (enable, height) = (case opt of None \<Rightarrow> (False, 0) | Some o' \<Rightarrow> o')
      in \<lparr>sdb_cache = Map.empty, sdb_txcache = Some Map.empty, sdb_keys = [], sdb_intx = False,
          sdb_client = cli, sdb_stateHash = hash, sdb_version = -1, sdb_height = height,
          sdb_GetVersion = getVersion, sdb_GetV = getV, sdb_EnableMVCC = enable\<rparr>)"

definition enableMVCC :: "bytes option \<Rightarrow> (StateDB, unit) prog" where
  "enableMVCC hash s =
     (if sdb_EnableMVCC s then
        (let h = (case hash of None \<Rightarrow> sdb_stateHash s | Some h \<Rightarrow> h)
         in case sdb_GetVersion s h of
              Inr v \<Rightarrow> if v \<ge> 0 then ret () (s\<lparr>sdb_version := v\<rparr>)
                       else if sdb_height s > 0 then panic ''mvcc get version error'' s else ret () s
            | Inl e \<Rightarrow> if sdb_height s > 0 then panic ''mvcc get version error'' s else ret () s)
      else ret () s)"

text \<open>The test \<^verbatim>\<open>types.IsFork(s.height, "ForkExecRollback")\<close> on the fork table and title of the node.\<close>

definition isForkExecRollback :: "Forks \<Rightarrow> string \<Rightarrow> (StateDB, bool) prog" where
  "isForkExecRollback f title s = (IsFork f title (sdb_height s) ''ForkExecRollback'', s)"

definition sdb_resetTx :: "StateDB \<Rightarrow> StateDB" where
  "sdb_resetTx s = s\<lparr>sdb_intx := False, sdb_txcache := None, sdb_keys := []\<rparr>"

definition sdb_Begin :: "Forks \<Rightarrow> string \<Rightarrow> (StateDB, unit) prog" where
  "sdb_Begin f title s =
     (let s1 = s\<lparr>sdb_intx := True, sdb_keys := []\<rparr>
      in bind (isForkExecRollback f title)
           (\<lambda>b s2. if b then ret () (s2\<lparr>sdb_txcache := None\<rparr>) else ret () s2) s1)"

definition sdb_Rollback :: "(StateDB, unit) prog" where
  "sdb_Rollback s = ret () (sdb_resetTx s)"

definition sdb_Commit :: "Forks \<Rightarrow> string \<Rightarrow> (StateDB, unit) prog" where
  "sdb_Commit f title s =
     (let s1 = s\<lparr>sdb_cache := (case sdb_txcache s of None \<Rightarrow> sdb_cache s
                                                     | Some tx \<Rightarrow> sdb_cache s ++ tx),
                 sdb_intx := False, sdb_keys := []\<rparr>
      in bind (isForkExecRollback f title)
           (\<lambda>b s2. if b then ret () (sdb_resetTx s2) else ret () s2) s1)"

definition sdb_store_get :: "(bytes \<Rightarrow> bytes \<Rightarrow> store_reply) \<Rightarrow> bytes \<Rightarrow> (StateDB, bytes) prog" where
  "sdb_store_get cli key s =
     (case cli (sdb_stateHash s) key of
        SendErr e \<Rightarrow> fail e s
      | WaitErr e \<Rightarrow> panic ''no happen for ever'' s
      | StoreReplyValue None \<Rightarrow> fail ErrNotFound s
      | StoreReplyValue (Some []) \<Rightarrow> panic ''index out of range'' s
      | StoreReplyValue (Some (None # _)) \<Rightarrow> fail ErrNotFound s
      | StoreReplyValue (Some (Some value # _)) \<Rightarrow>
          ret value (s\<lparr>sdb_cache := (sdb_cache s)(key \<mapsto> value)\<rparr>))"

text \<open>The lookup in the transaction cache, when there is one.\<close>

definition sdb_txlookup :: "StateDB \<Rightarrow> bytes \<Rightarrow> bytes option" where
  "sdb_txlookup s key =
     (if sdb_intx s then (case sdb_txcache s of None \<Rightarrow> None | Some tx \<Rightarrow> tx key) else None)"

text \<open>The lookup behind both caches: the MVCC table when a version is known, else the store.\<close>

definition sdb_fallback :: "bytes \<Rightarrow> (StateDB, bytes) prog" where
  "sdb_fallback key s =
     (if sdb_version s \<ge> 0 then
        (case sdb_GetV s key (sdb_version s) of Inr data \<Rightarrow> ret data s | Inl e \<Rightarrow> fail e s)
      else
        (case sdb_client s of
           None \<Rightarrow> fail ErrNotFound s
         | Some cli \<Rightarrow> sdb_store_get cli key s))"

definition sdb_Get :: "bytes \<Rightarrow> (StateDB, bytes) prog" where
  "sdb_Get key s =
     (case sdb_txlookup s key of
        Some value \<Rightarrow> ret value s
      | None \<Rightarrow>
          (case sdb_cache s key of
             Some value \<Rightarrow> ret value s
           | None \<Rightarrow> sdb_fallback key s))"

definition sdb_StartTx :: "StateDB \<Rightarrow> StateDB" where
  "sdb_StartTx s = s\<lparr>sdb_keys := []\<rparr>"

definition sdb_GetSetKeys :: "StateDB \<Rightarrow> bytes list" where
  "sdb_GetSetKeys s = sdb_keys s"

definition setmap :: "(bytes \<rightharpoonup> bytes) \<Rightarrow> bytes \<Rightarrow> bytes option \<Rightarrow> (bytes \<rightharpoonup> bytes)" where
  "setmap data key value =
     (case value of None \<Rightarrow> data(key := None) | Some v \<Rightarrow> data(key \<mapsto> v))"

definition sdb_Set :: "bytes \<Rightarrow> bytes option \<Rightarrow> (StateDB, unit) prog" where
  "sdb_Set key value s =
     (if sdb_intx s then
        (let tx = (case sdb_txcache s of None \<Rightarrow> Map.empty | Some tx \<Rightarrow> tx)
         in ret () (s\<lparr>sdb_keys := sdb_keys s @ [key], sdb_txcache := Some (setmap tx key value)\<rparr>))
      else ret () (s\<lparr>sdb_cache := setmap (sdb_cache s) key value\<rparr>))"

fun sdb_BatchGet :: "bytes list \<Rightarrow> (StateDB, bytes option list) prog" where
  "sdb_BatchGet [] = ret []"
| "sdb_BatchGet (key # ks) =
     bind (attempt (sdb_Get key))
       (\<lambda>r. case r of
              Inl e \<Rightarrow> if e = ErrNotFound then bind (sdb_BatchGet ks) (\<lambda>vs. ret (None # vs))
                       else fail e
            | Inr v \<Rightarrow> bind (sdb_BatchGet ks) (\<lambda>vs. ret (Some v # vs)))"

definition StateDB_KV :: "Forks \<Rightarrow> string \<Rightarrow> StateDB KV" where
  "StateDB_KV f title =
     \<lparr>kvGet = sdb_Get, kvSet = sdb_Set, kvBegin = sdb_Begin f title,
      kvCommit = sdb_Commit f title, kvRollback = sdb_Rollback\<rparr>"

subsection \<open>What a state database shows\<close>

definition sdb_backing :: "StateDB \<Rightarrow> bytes \<Rightarrow> bytes option" where
  "sdb_backing s key =
     (if sdb_version s \<ge> 0 then
        (case sdb_GetV s key (sdb_version s) of Inr data \<Rightarrow> Some data | Inl _ \<Rightarrow> None)
      else case sdb_client s of
             None \<Rightarrow> None
           | Some cli \<Rightarrow>
               (case cli (sdb_stateHash s) key of
                  StoreReplyValue (Some (Some v # _)) \<Rightarrow> Some v
                | _ \<Rightarrow> None))"

definition sdb_base :: "StateDB \<Rightarrow> bytes \<Rightarrow> bytes option" where
  "sdb_base s key = (case sdb_cache s key of Some v \<Rightarrow> Some v | None \<Rightarrow> sdb_backing s key)"

definition sdb_view :: "StateDB \<Rightarrow> bytes \<Rightarrow> bytes option" where
  "sdb_view s key = (case sdb_txlookup s key of Some v \<Rightarrow> Some v | None \<Rightarrow> sdb_base s key)"

text \<open>
  What the code relies on of the store module (its comment: no happen for ever): a reply that
  was sent for arrives, and it holds an entry for the key that was asked for.
\<close>

definition store_answers :: "StateDB \<Rightarrow> bool" where
  "store_answers s \<longleftrightarrow>
     (case sdb_client s of
        None \<Rightarrow> True
      | Some cli \<Rightarrow>
          (\<forall>key. (\<forall>e. cli (sdb_stateHash s) key \<noteq> WaitErr e) \<and>
                 cli (sdb_stateHash s) key \<noteq> StoreReplyValue (Some [])))"

definition sdb_inv :: "Forks \<Rightarrow> string \<Rightarrow> StateDB \<Rightarrow> bool" where
  "sdb_inv f title s \<longleftrightarrow>
     store_answers s \<and> IsFork f title (sdb_height s) ''ForkExecRollback'' = Ret True"

lemmas sdb_defs = sdb_view_def sdb_base_def sdb_txlookup_def

lemma sdb_backing_update [simp]:
  "sdb_backing (s\<lparr>sdb_cache := c\<rparr>) = sdb_backing s"
  "sdb_backing (s\<lparr>sdb_txcache := t\<rparr>) = sdb_backing s"
  "sdb_backing (s\<lparr>sdb_keys := ks\<rparr>) = sdb_backing s"
  "sdb_backing (s\<lparr>sdb_intx := b\<rparr>) = sdb_backing s"
  by (simp_all add: sdb_backing_def fun_eq_iff cong: option.case_cong)

lemma store_answers_update [simp]:
  "store_answers (s\<lparr>sdb_cache := c\<rparr>) = store_answers s"
  "store_answers (s\<lparr>sdb_txcache := t\<rparr>) = store_answers s"
  "store_answers (s\<lparr>sdb_keys := ks\<rparr>) = store_answers s"
  "store_answers (s\<lparr>sdb_intx := b\<rparr>) = store_answers s"
  by (simp_all add: store_answers_def cong: option.case_cong)

text \<open>The lookup behind the caches returns what is stored there and at most fills the cache.\<close>

lemma sdb_fallback_run:
  assumes "store_answers s"
  shows "case sdb_backing s k of
           Some v \<Rightarrow> sdb_fallback k s = (Ret v, s) \<or>
                     sdb_fallback k s = (Ret v, s\<lparr>sdb_cache := (sdb_cache s)(k \<mapsto> v)\<rparr>)
         | None \<Rightarrow> \<exists>e. sdb_fallback k s = (Err e, s)"
  using assms
  by (auto simp: sdb_fallback_def sdb_store_get_def sdb_backing_def store_answers_def
           split: option.splits sum.splits store_reply.splits list.splits)

lemma sdb_base_fill [simp]:
  assumes "sdb_cache s k = None" and "sdb_backing s k = Some v"
  shows "sdb_base (s\<lparr>sdb_cache := (sdb_cache s)(k \<mapsto> v)\<rparr>) = sdb_base s"
  using assms by (simp add: sdb_base_def fun_eq_iff split: option.split)

lemma sdb_view_base:
  "sdb_base s' = sdb_base s \<Longrightarrow> sdb_txlookup s' = sdb_txlookup s \<Longrightarrow> sdb_view s' = sdb_view s"
  by (simp add: sdb_view_def fun_eq_iff split: option.split)

text \<open>A read returns what the database shows and changes nothing a client can see.\<close>

lemma sdb_Get_run:
  assumes "store_answers s"
  shows "\<exists>s'. (case sdb_view s k of Some v \<Rightarrow> sdb_Get k s = (Ret v, s')
                                | None \<Rightarrow> \<exists>e. sdb_Get k s = (Err e, s')) \<and>
              sdb_view s' = sdb_view s \<and> sdb_base s' = sdb_base s \<and> sdb_intx s' = sdb_intx s \<and>
              store_answers s' \<and> sdb_height s' = sdb_height s"
proof (cases "sdb_txlookup s k")
  case (Some v)
  with assms show ?thesis
    by (intro exI [of _ s]) (simp add: sdb_Get_def sdb_view_def)
next
  case tx: None
  show ?thesis
  proof (cases "sdb_cache s k")
    case (Some v)
    with tx assms show ?thesis
      by (intro exI [of _ s]) (simp add: sdb_Get_def sdb_view_def sdb_base_def)
  next
    case c: None
    from tx c have get: "sdb_Get k s = sdb_fallback k s" and view: "sdb_view s k = sdb_backing s k"
      by (simp_all add: sdb_Get_def sdb_view_def sdb_base_def)
    show ?thesis
    proof (cases "sdb_backing s k")
      case None
      with sdb_fallback_run [OF assms, of k] get view assms show ?thesis by auto
    next
      case (Some v)
      let ?s' = "s\<lparr>sdb_cache := (sdb_cache s)(k \<mapsto> v)\<rparr>"
      have "sdb_view ?s' = sdb_view s"
        using c Some by (intro sdb_view_base) (simp_all add: sdb_txlookup_def fun_eq_iff)
      with sdb_fallback_run [OF assms, of k] get view assms Some c show ?thesis by auto
    qed
  qed
qed

lemma sdb_Set_run:
  "\<exists>s'. sdb_Set k (Some v) s = (Ret (), s') \<and> sdb_view s' = (sdb_view s)(k \<mapsto> v) \<and>
        (sdb_intx s \<longrightarrow> sdb_base s' = sdb_base s) \<and> sdb_intx s' = sdb_intx s \<and>
        store_answers s' = store_answers s \<and> sdb_height s' = sdb_height s"
  by (auto simp: sdb_Set_def setmap_def sdb_defs Let_def fun_eq_iff split: option.splits)

interpretation sdb: kv_tx "StateDB_KV f title" sdb_view "sdb_inv f title" sdb_base sdb_intx
  for f title
proof unfold_locales
  fix s k v assume "sdb_inv f title s" and "sdb_view s k = Some v"
  with sdb_Get_run [of s k] show "\<exists>s'. kvGet (StateDB_KV f title) k s = (Ret v, s') \<and>
      sdb_inv f title s' \<and> sdb_view s' = sdb_view s"
    by (auto simp: StateDB_KV_def sdb_inv_def)
next
  fix s k assume "sdb_inv f title s" and "sdb_view s k = None"
  with sdb_Get_run [of s k] show "\<exists>e s'. kvGet (StateDB_KV f title) k s = (Err e, s') \<and>
      sdb_inv f title s' \<and> sdb_view s' = sdb_view s"
    by (fastforce simp: StateDB_KV_def sdb_inv_def)
next
  fix s k v assume "sdb_inv f title s"
  with sdb_Set_run [of k v s] show "\<exists>s'. kvSet (StateDB_KV f title) k (Some v) s = (Ret (), s') \<and>
      sdb_inv f title s' \<and> sdb_view s' = (sdb_view s)(k \<mapsto> v)"
    by (auto simp: StateDB_KV_def sdb_inv_def)
next
  fix s k assume "sdb_inv f title s"
  with sdb_Get_run [of s k] show "sdb_base (snd (kvGet (StateDB_KV f title) k s)) = sdb_base s \<and>
      sdb_intx (snd (kvGet (StateDB_KV f title) k s)) = sdb_intx s"
    by (auto simp: StateDB_KV_def sdb_inv_def split: option.splits)
next
  fix s k v assume "sdb_inv f title s" and "sdb_intx s"
  with sdb_Set_run [of k v s] show "sdb_base (snd (kvSet (StateDB_KV f title) k (Some v) s)) = sdb_base s \<and>
      sdb_intx (snd (kvSet (StateDB_KV f title) k (Some v) s))"
    by (auto simp: StateDB_KV_def)
next
  fix s assume "sdb_inv f title s" and "\<not> sdb_intx s"
  then show "sdb_view s = sdb_base s"
    by (simp add: sdb_view_def sdb_txlookup_def fun_eq_iff)
next
  fix s assume "sdb_inv f title s"
  then show "\<exists>s'. kvBegin (StateDB_KV f title) s = (Ret (), s') \<and> sdb_inv f title s' \<and>
      sdb_intx s' \<and> sdb_view s' = sdb_base s \<and> sdb_base s' = sdb_base s"
    by (auto simp: StateDB_KV_def sdb_Begin_def isForkExecRollback_def bind_def sdb_inv_def
        sdb_defs fun_eq_iff split: option.split)
next
  fix s assume "sdb_inv f title s"
  then show "\<exists>s'. kvRollback (StateDB_KV f title) s = (Ret (), s') \<and> sdb_inv f title s' \<and>
      \<not> sdb_intx s' \<and> sdb_view s' = sdb_base s \<and> sdb_base s' = sdb_base s"
    by (auto simp: StateDB_KV_def sdb_Rollback_def sdb_resetTx_def sdb_inv_def sdb_defs fun_eq_iff
        split: option.split)
next
  fix s assume "sdb_inv f title s" and "sdb_intx s"
  then show "\<exists>s'. kvCommit (StateDB_KV f title) s = (Ret (), s') \<and> sdb_inv f title s' \<and>
      \<not> sdb_intx s' \<and> sdb_view s' = sdb_view s \<and> sdb_base s' = sdb_view s"
    by (auto simp: StateDB_KV_def sdb_Commit_def sdb_resetTx_def isForkExecRollback_def bind_def
        sdb_inv_def sdb_defs fun_eq_iff map_add_def split: option.splits)
qed

subsection \<open>Transactions of the executor\<close>

text \<open>
  C3. From the fork \<^verbatim>\<open>ForkExecRollback\<close> on, the memory transaction of the state database is
  atomic: whatever reads and writes a client makes between \<^verbatim>\<open>Begin\<close> and \<^verbatim>\<open>Rollback\<close>, the database
  shows afterwards exactly what it showed before, and after \<^verbatim>\<open>Commit\<close> it shows exactly the
  writes, in their order, on top of what it showed before; no call fails or panics.
\<close>

theorem statedb_transaction:
  assumes "store_answers s" and "\<not> sdb_intx s"
    and "IsFork f title (sdb_height s) ''ForkExecRollback'' = Ret True"
  shows "(\<exists>s'. bind (sdb_Begin f title)
                (\<lambda>_. bind (kv_exec (StateDB_KV f title) ops) (\<lambda>_. sdb_Rollback)) s = (Ret (), s') \<and>
              \<not> sdb_intx s' \<and> sdb_view s' = sdb_view s) \<and>
         (\<exists>s'. bind (sdb_Begin f title)
                (\<lambda>_. bind (kv_exec (StateDB_KV f title) ops) (\<lambda>_. sdb_Commit f title)) s = (Ret (), s') \<and>
              \<not> sdb_intx s' \<and> sdb_view s' = kv_effect ops (sdb_view s))"
proof -
  have inv: "sdb_inv f title s"
    using assms by (simp add: sdb_inv_def)
  have kv: "kvBegin (StateDB_KV f title) = sdb_Begin f title"
    "kvRollback (StateDB_KV f title) = sdb_Rollback" "kvCommit (StateDB_KV f title) = sdb_Commit f title"
    by (simp_all add: StateDB_KV_def)
  from sdb.tx_rollback [OF inv assms(2), of ops] sdb.tx_commit [OF inv assms(2), of ops]
  show ?thesis by (auto simp: kv)
qed

text \<open>A database over a store that holds one key, on a chain whose forks are all active.\<close>

definition sdb_example :: StateDB where
  "sdb_example =
     NewStateDB (Some (\<lambda>h k. StoreReplyValue (Some [if k = ''a'' then Some ''1'' else None])))
       ''root'' (\<lambda>_. Inl ErrNotFound) (\<lambda>_ _. Inl ErrNotFound) (Some (False, 800000))"

definition forks_example :: Forks where
  "forks_example = snd (SetFork ''chain33'' ''ForkExecRollback'' 706531 newForks)"

lemma sdb_example_ok:
  "store_answers sdb_example" "\<not> sdb_intx sdb_example"
  "IsFork forks_example ''chain33'' (sdb_height sdb_example) ''ForkExecRollback'' = Ret True"
  by (simp_all add: store_answers_def sdb_example_def NewStateDB_def forks_example_def IsFork_def
      GetFork_def SetFork_def setFork_def checkKey_def newForks_def)

theorem statedb_transaction_witness:
  "(\<exists>s'. bind (sdb_Begin forks_example ''chain33'')
           (\<lambda>_. bind (kv_exec (StateDB_KV forks_example ''chain33'') [OpSet ''a'' ''2'', OpGet ''b''])
                  (\<lambda>_. sdb_Rollback)) sdb_example = (Ret (), s') \<and>
         \<not> sdb_intx s' \<and> sdb_view s' = sdb_view sdb_example) \<and>
   sdb_view sdb_example ''a'' = Some ''1''"
  using statedb_transaction [OF sdb_example_ok, of "[OpSet ''a'' ''2'', OpGet ''b'']"]
  by (simp add: sdb_defs sdb_backing_def sdb_example_def NewStateDB_def)

text \<open>
  Passing nil to \<^verbatim>\<open>Set\<close> inside a transaction drops only the transaction's own entry: the key
  then reads as its committed value (from the cache or the store), and committing does not
  remove it either. A nil write is a deletion only of keys the same transaction has written.
\<close>

theorem statedb_nil_write_in_tx:
  assumes "sdb_intx s" and "IsFork f title (sdb_height s) ''ForkExecRollback'' = Ret True"
  shows "\<exists>s' s''. sdb_Set key None s = (Ret (), s') \<and> sdb_Commit f title s' = (Ret (), s'') \<and>
           sdb_view s' = (sdb_view s)(key := sdb_base s key) \<and>
           sdb_view s'' = (sdb_view s)(key := sdb_base s key)"
proof -
  define tx where "tx = (case sdb_txcache s of None \<Rightarrow> Map.empty | Some tx \<Rightarrow> tx)"
  let ?s' = "s\<lparr>sdb_keys := sdb_keys s @ [key], sdb_txcache := Some (tx(key := None))\<rparr>"
  have set: "sdb_Set key None s = (Ret (), ?s')"
    using assms(1) by (simp add: sdb_Set_def setmap_def tx_def)
  have view: "sdb_view ?s' = (sdb_view s)(key := sdb_base s key)"
    using assms(1) by (auto simp: sdb_defs tx_def fun_eq_iff split: option.split)
  have "\<exists>s''. sdb_Commit f title ?s' = (Ret (), s'') \<and> sdb_view s'' = sdb_view ?s'"
    using assms
    by (auto simp: sdb_Commit_def sdb_resetTx_def isForkExecRollback_def bind_def sdb_defs
        fun_eq_iff map_add_def split: option.splits)
  with set view show ?thesis by auto
qed

theorem statedb_nil_write_in_tx_witness:
  "\<exists>s' s''. sdb_Set ''a'' None (sdb_example\<lparr>sdb_intx := True\<rparr>) = (Ret (), s') \<and>
     sdb_Commit forks_example ''chain33'' s' = (Ret (), s'') \<and>
     sdb_view s' ''a'' = Some ''1'' \<and> sdb_view s'' ''a'' = Some ''1''"
proof -
  have "sdb_base (sdb_example\<lparr>sdb_intx := True\<rparr>) ''a'' = Some ''1''"
    by (simp add: sdb_defs sdb_backing_def sdb_example_def NewStateDB_def)
  moreover have "IsFork forks_example ''chain33'' (sdb_height (sdb_example\<lparr>sdb_intx := True\<rparr>))
      ''ForkExecRollback'' = Ret True"
    using sdb_example_ok(3) by simp
  ultimately show ?thesis
    using statedb_nil_write_in_tx [of "sdb_example\<lparr>sdb_intx := True\<rparr>" forks_example "''chain33''" "''a''"]
    by auto
qed

text \<open>
  Before the fork the transaction cache survives a commit: a key written in a committed
  transaction and then overwritten outside a transaction reads, in the next transaction, as
  the stale value of the first.
\<close>

theorem statedb_prefork_stale_read:
  assumes "IsFork f title (sdb_height s) ''ForkExecRollback'' = Ret False"
  shows "fst (bind (sdb_Begin f title) (\<lambda>_. bind (sdb_Set key (Some v1)) (\<lambda>_.
           bind (sdb_Commit f title) (\<lambda>_. bind (sdb_Set key (Some v2)) (\<lambda>_.
           bind (sdb_Get key) (\<lambda>outside. bind (sdb_Begin f title) (\<lambda>_.
           bind (sdb_Get key) (\<lambda>inside. ret (outside, inside)))))))) s) = Ret (v2, v1)"
  using assms
  by (simp add: sdb_Begin_def sdb_Set_def sdb_Commit_def sdb_Get_def isForkExecRollback_def bind_def
      sdb_txlookup_def setmap_def Let_def)

theorem statedb_prefork_stale_read_witness:
  "fst (bind (sdb_Begin forks_example ''chain33'') (\<lambda>_. bind (sdb_Set ''a'' (Some ''2'')) (\<lambda>_.
           bind (sdb_Commit forks_example ''chain33'') (\<lambda>_. bind (sdb_Set ''a'' (Some ''3'')) (\<lambda>_.
           bind (sdb_Get ''a'') (\<lambda>outside. bind (sdb_Begin forks_example ''chain33'') (\<lambda>_.
           bind (sdb_Get ''a'') (\<lambda>inside. ret (outside, inside))))))))
        (sdb_example\<lparr>sdb_height := 100\<rparr>)) = Ret (''3'', ''2'')"
  by (rule statedb_prefork_stale_read)
    (simp add: forks_example_def IsFork_def GetFork_def SetFork_def setFork_def checkKey_def newForks_def)

end
