(* ===== verification/Assets.thy ===== *)
theory Assets
  imports Wire StateDB
begin

text \<open>
  The account database as the contracts use it: created by \<^verbatim>\<open>NewAccountDB\<close> over the executor's
  state database, with accounts in the protobuf wire format. The locale \<open>account_db\<close> is
  interpreted on it, and the properties of the component are stated on the code's own state.
\<close>

definition state_db :: "Forks \<Rightarrow> string \<Rightarrow> (LogMsg \<Rightarrow> bytes) \<Rightarrow> bytes \<Rightarrow> string \<Rightarrow> string \<Rightarrow> StateDB AccDB" where
  "state_db f title logs prefix exec symb =
     (newAccountDB (StateDB_KV f title) (wire_codec logs) prefix)\<lparr>execer := exec, symbol := symb\<rparr>"

interpretation adb: account_db "state_db f title logs prefix exec symb" sdb_view "sdb_inv f title"
  for f title logs prefix exec symb
proof -
  have db: "db (state_db f title logs prefix exec symb) = StateDB_KV f title"
    and pb: "pb (state_db f title logs prefix exec symb) = wire_codec logs"
    by (simp_all add: state_db_def newAccountDB_def)
  show "account_db (state_db f title logs prefix exec symb) sdb_view (sdb_inv f title)"
    unfolding account_db_def account_db_axioms_def db pb
    by (intro conjI sdb.kv_store_axioms wire.proto_axioms) (simp_all add: state_db_def newAccountDB_def)
qed

lemma NewAccountDB_state_db:
  assumes "NewAccountDB (wire_codec logs) exec symb (StateDB_KV f title) = Inr acc"
  shows "acc = state_db f title logs (symbolPrefix exec symb) exec symb \<and>
         CHR ''-'' \<notin> set exec \<and> CHR ''-'' \<notin> set symb"
  using assms
  by (simp add: NewAccountDB_def state_db_def SetDB_def newAccountDB_def split: if_splits)

text \<open>
  C1. Whatever sequence of calls contracts make on an asset's account database (transfers,
  deposits into and withdrawals from contracts, freezing, activating, transfers inside
  contracts, issuing by mining contracts, minting, burning), with nobody spending directly from a
  contract's address: no call panics, and afterwards again no balance is negative, all coins
  together are at most the initial total plus what was issued, and every contract's address
  owns at least what the contract owes to the accounts inside it. The total must fit an
  \<^verbatim>\<open>int64\<close>; then no sum of the code wraps.
\<close>

theorem account_calls_keep_solvency:
  assumes "NewAccountDB (wire_codec logs) exec symb (StateDB_KV f title) = Inr acc"
    and "sdb_inv f title s" and "accdb_ok acc (sdb_view s)"
    and "solvent E t (ledger_of acc (sdb_view s))"
    and "\<forall>op \<in> set ops. op_ok E op \<and> (\<forall>a \<in> op_addrs op. addr_ok a)"
    and "t + (\<Sum>op \<leftarrow> ops. op_issued op) < 2 ^ 63"
  shows "\<exists>s'. acc_run env acc ops s = (Ret (), s') \<and> sdb_inv f title s' \<and> accdb_ok acc (sdb_view s') \<and>
           solvent E (t + (\<Sum>op \<leftarrow> ops. op_issued op)) (ledger_of acc (sdb_view s'))"
proof -
  have acc: "acc = state_db f title logs (symbolPrefix exec symb) exec symb"
    using NewAccountDB_state_db [OF assms(1)] by simp
  have "wp (acc_run env acc ops) (\<lambda>r s'. r = Ret () \<and> sdb_inv f title s' \<and> accdb_ok acc (sdb_view s') \<and>
      solvent E (t + (\<Sum>op \<leftarrow> ops. op_issued op)) (ledger_of acc (sdb_view s'))) s"
    using assms unfolding acc by (intro adb.run_solvent) auto
  then show ?thesis
    by (auto simp: wp_def split: prod.splits)
qed

text \<open>An asset on the example state database, whose store holds no account yet.\<close>

definition asset_example :: "StateDB AccDB" where
  "asset_example =
     state_db forks_example ''chain33'' (\<lambda>_. []) (symbolPrefix ''token'' ''TEST'') ''token'' ''TEST''"

definition env_example :: chain_env where
  "env_example = \<lparr>GetMinerExecs = [''ticket''], ExecName = id, ExecAddress = id\<rparr>"

lemma asset_example_new:
  "NewAccountDB (wire_codec (\<lambda>_. [])) ''token'' ''TEST'' (StateDB_KV forks_example ''chain33'') =
   Inr asset_example"
  by (simp add: NewAccountDB_def asset_example_def state_db_def SetDB_def newAccountDB_def symbolPrefix_def)

lemma sdb_example_inv: "sdb_inv forks_example ''chain33'' sdb_example"
  using sdb_example_ok by (simp add: sdb_inv_def)

lemma sdb_example_view: "sdb_view sdb_example k = (if k = ''a'' then Some ''1'' else None)"
  by (simp add: sdb_defs sdb_backing_def sdb_example_def NewStateDB_def)

lemma asset_example_empty:
  "accdb_ok asset_example (sdb_view sdb_example)"
  "ledger_of asset_example (sdb_view sdb_example) = \<lparr>coins = newAccount, held = (\<lambda>e. newAccount)\<rparr>"
proof -
  have "AccountKey asset_example a \<noteq> ''a''" "execAccountKey asset_example a e \<noteq> ''a''" for a e
    by (simp_all add: AccountKey_def execAccountKey_def asset_example_def state_db_def newAccountDB_def
        symbolPrefix_def)
  then show "accdb_ok asset_example (sdb_view sdb_example)"
    "ledger_of asset_example (sdb_view sdb_example) = \<lparr>coins = newAccount, held = (\<lambda>e. newAccount)\<rparr>"
    by (simp_all add: accdb_ok_def stores_def ledger_of_def sdb_example_view fun_eq_iff)
qed

lemma solvent_empty: "solvent E 0 \<lparr>coins = newAccount, held = (\<lambda>e. newAccount)\<rparr>"
  by (simp add: solvent_def bounded_def cb_def hb_def)

lemma addr_ok_examples [simp]: "addr_ok ''alice''" "addr_ok ''bob''" "addr_ok ''ticket''"
  by (simp_all add: addr_ok_def ascii_def)

theorem account_calls_keep_solvency_witness:
  "\<exists>s'. acc_run env_example asset_example
          [AccMint ''alice'' 100, AccToExec ''alice'' ''ticket'' 60, AccFrozen ''alice'' ''ticket'' 10,
           AccDepositFrozen ''bob'' ''ticket'' 5] sdb_example = (Ret (), s') \<and>
        solvent {''ticket''} 105 (ledger_of asset_example (sdb_view s'))"
  using account_calls_keep_solvency [OF asset_example_new sdb_example_inv asset_example_empty(1),
    of "{''ticket''}" 0 "[AccMint ''alice'' 100, AccToExec ''alice'' ''ticket'' 60,
        AccFrozen ''alice'' ''ticket'' 10, AccDepositFrozen ''bob'' ''ticket'' 5]" env_example]
  by (auto simp: asset_example_empty solvent_empty CheckAmount_def MaxCoin_def)

text \<open>
  C2. Every call on an asset's account database does what the abstract ledger says, on every
  branch: it returns the ledger's error and changes nothing, or it succeeds, leaves the ledger
  prescribed, and its receipt lists exactly the changes: replaying the receipt's key-value
  pairs on what the database showed before gives what it shows after, and every key is one of
  this asset's.
\<close>

theorem account_call_refines_ledger:
  assumes "NewAccountDB (wire_codec logs) exec symb (StateDB_KV f title) = Inr acc"
    and "sdb_inv f title s" and "accdb_ok acc (sdb_view s)" and "\<forall>a \<in> op_addrs op. addr_ok a"
  shows "\<exists>r s'. acc_step env acc op s = (r, s') \<and> sdb_inv f title s' \<and>
           implements (lstep env op) acc (sdb_view s) r (sdb_view s')"
proof -
  have acc: "acc = state_db f title logs (symbolPrefix exec symb) exec symb"
    using NewAccountDB_state_db [OF assms(1)] by simp
  have "simulates acc sdb_view (sdb_inv f title) (acc_step env acc op) (lstep env op)"
    using assms(4) unfolding acc by (intro adb.sim_step) auto
  with assms(2,3) show ?thesis
    by (cases "acc_step env acc op s") (auto simp: simulates_def wp_def)
qed

theorem account_call_refines_ledger_witness:
  "\<exists>receipt s'. acc_step env_example asset_example (AccMint ''alice'' 100) sdb_example = (Ret receipt, s') \<and>
     sdb_view s' = replay (KV receipt) (sdb_view sdb_example) \<and>
     Balance (coins (ledger_of asset_example (sdb_view s')) ''alice'') = 100"
proof -
  have "lstep env_example (AccMint ''alice'' 100) \<lparr>coins = newAccount, held = (\<lambda>e. newAccount)\<rparr> =
      (Ret (), credit ''alice'' 100 \<lparr>coins = newAccount, held = (\<lambda>e. newAccount)\<rparr>)"
    by (simp add: lMint_def CheckAmount_def MaxCoin_def MaxTokenBalance_def i64_def)
  moreover have "Balance (coins (credit ''alice'' 100 \<lparr>coins = newAccount, held = (\<lambda>e. newAccount)\<rparr>) ''alice'') = 100"
    by (simp add: credit_def i64_def)
  moreover obtain r s' where "acc_step env_example asset_example (AccMint ''alice'' 100) sdb_example = (r, s')"
      "implements (lstep env_example (AccMint ''alice'' 100)) asset_example (sdb_view sdb_example) r (sdb_view s')"
    using account_call_refines_ledger [OF asset_example_new sdb_example_inv asset_example_empty(1),
      of "AccMint ''alice'' 100" env_example] by auto
  ultimately show ?thesis
    by (cases r) (auto simp: implements_def asset_example_empty(2))
qed

text \<open>
  C17. A successful call accounts for every coin: over any finite set of addresses that contains
  the ones the call names, the sum of the balances changes by exactly what the call issued or
  burnt, which for every call but mint, burn and the mining ones is nothing.
\<close>

theorem account_call_conserves_coins:
  assumes "NewAccountDB (wire_codec logs) exec symb (StateDB_KV f title) = Inr acc"
    and "sdb_inv f title s" and "accdb_ok acc (sdb_view s)" and "\<forall>a \<in> op_addrs op. addr_ok a"
    and "solvent E t (ledger_of acc (sdb_view s))" and "op_ok E op" and "t + op_issued op < 2 ^ 63"
    and "acc_step env acc op s = (Ret receipt, s')" and "finite A" and "op_addrs op \<subseteq> A"
  shows "(\<Sum>a\<in>A. Balance (coins (ledger_of acc (sdb_view s')) a)) =
         (\<Sum>a\<in>A. Balance (coins (ledger_of acc (sdb_view s)) a)) + op_issued op - op_burnt op"
proof -
  have acc: "acc = state_db f title logs (symbolPrefix exec symb) exec symb"
    using NewAccountDB_state_db [OF assms(1)] by simp
  have "wp (acc_step env acc op) (\<lambda>r s'. (\<forall>p. r \<noteq> Panic p) \<and> sdb_inv f title s' \<and> accdb_ok acc (sdb_view s') \<and>
      solvent E (t + op_issued op) (ledger_of acc (sdb_view s')) \<and>
      (\<forall>receipt. r = Ret receipt \<longrightarrow> accounted op (ledger_of acc (sdb_view s)) (ledger_of acc (sdb_view s')))) s"
    using assms unfolding acc by (intro adb.step_solvent) auto
  from wp_run [OF this assms(8)] have "accounted op (ledger_of acc (sdb_view s)) (ledger_of acc (sdb_view s'))"
    by blast
  with assms(9,10) have "sum (cb (ledger_of acc (sdb_view s'))) A =
      sum (cb (ledger_of acc (sdb_view s))) A + op_issued op - op_burnt op"
    by (simp add: accounted_def)
  then show ?thesis
    by (simp add: cb_def)
qed

lemma mint_example_step:
  "\<exists>receipt s'. acc_step env_example asset_example (AccMint ''alice'' 100) sdb_example = (Ret receipt, s')"
proof -
  obtain r s' where s': "acc_step env_example asset_example (AccMint ''alice'' 100) sdb_example = (r, s')"
    by fastforce
  have "simulates asset_example sdb_view (sdb_inv forks_example ''chain33'')
      (acc_step env_example asset_example (AccMint ''alice'' 100)) (lstep env_example (AccMint ''alice'' 100))"
    unfolding asset_example_def by (rule adb.sim_step) simp
  then have "implements (lstep env_example (AccMint ''alice'' 100)) asset_example (sdb_view sdb_example) r (sdb_view s')"
    using s' sdb_example_inv asset_example_empty(1) by (auto simp: simulates_def wp_def)
  then have "\<exists>receipt. r = Ret receipt"
    by (cases r) (auto simp: implements_def asset_example_empty(2) lMint_def CheckAmount_def MaxCoin_def
        MaxTokenBalance_def i64_def)
  with s' show ?thesis by blast
qed

theorem account_call_conserves_coins_witness:
  "\<exists>receipt s'. acc_step env_example asset_example (AccMint ''alice'' 100) sdb_example = (Ret receipt, s') \<and>
     (\<Sum>a\<in>{''alice'', ''bob''}. Balance (coins (ledger_of asset_example (sdb_view s')) a)) = 100"
proof -
  obtain receipt s' where
    s': "acc_step env_example asset_example (AccMint ''alice'' 100) sdb_example = (Ret receipt, s')"
    using mint_example_step by blast
  have "(\<Sum>a\<in>{''alice'', ''bob''}. Balance (coins (ledger_of asset_example (sdb_view s')) a)) =
     (\<Sum>a\<in>{''alice'', ''bob''}. Balance (coins (ledger_of asset_example (sdb_view sdb_example)) a)) +
       op_issued (AccMint ''alice'' 100) - op_burnt (AccMint ''alice'' 100)"
    by (rule account_call_conserves_coins [OF asset_example_new sdb_example_inv asset_example_empty(1)
        _ _ _ _ s', where E = "{}" and t = 0])
      (simp_all add: asset_example_empty(2) solvent_empty CheckAmount_def MaxCoin_def)
  with s' show ?thesis
    by (auto simp: asset_example_empty(2) CheckAmount_def MaxCoin_def)
qed

subsection \<open>Separation of assets\<close>

lemma symbolPrefix_disjoint:
  assumes "CHR ''-'' \<notin> set e1" and "CHR ''-'' \<notin> set s1" and "CHR ''-'' \<notin> set e2" and "CHR ''-'' \<notin> set s2"
    and "symbolPrefix e1 s1 @ x = symbolPrefix e2 s2 @ y"
  shows "e1 = e2 \<and> s1 = s2"
proof -
  have "e1 = e2 \<and> s1 @ CHR ''-'' # x = s2 @ CHR ''-'' # y"
    using assms by (intro append_eq_append_sep [of "CHR ''-''"]) (simp_all add: symbolPrefix_def)
  with append_eq_append_sep [of "CHR ''-''" s1 s2 x y] assms show ?thesis by simp
qed

lemma replay_other: "(\<And>kv. kv \<in> set kvs \<Longrightarrow> Key kv \<noteq> k) \<Longrightarrow> replay kvs v k = v k"
  unfolding replay_def by (induction kvs arbitrary: v) auto

text \<open>
  C10. Assets do not touch each other: for two account databases of different contract or symbol
  names on the same state database, a call on the first, whatever its outcome, leaves every
  account of the second, inside contracts too, exactly as it was.
\<close>

theorem assets_isolated:
  assumes "NewAccountDB (wire_codec logs) exec1 symb1 (StateDB_KV f title) = Inr acc1"
    and "NewAccountDB (wire_codec logs') exec2 symb2 (StateDB_KV f title) = Inr acc2"
    and "(exec1, symb1) \<noteq> (exec2, symb2)"
    and "sdb_inv f title s" and "accdb_ok acc1 (sdb_view s)" and "\<forall>a \<in> op_addrs op. addr_ok a"
    and "acc_step env acc1 op s = (r, s')"
  shows "ledger_of acc2 (sdb_view s') = ledger_of acc2 (sdb_view s)"
proof -
  note acc1 = NewAccountDB_state_db [OF assms(1)] and acc2 = NewAccountDB_state_db [OF assms(2)]
  have "simulates acc1 sdb_view (sdb_inv f title) (acc_step env acc1 op) (lstep env op)"
    using assms(6) unfolding acc1 [THEN conjunct1] by (intro adb.sim_step) auto
  with assms(4,5,7) have im: "implements (lstep env op) acc1 (sdb_view s) r (sdb_view s')"
    by (auto simp: simulates_def wp_def)
  have p: "accountKeyPerfix acc1 = symbolPrefix exec1 symb1" "accountKeyPerfix acc2 = symbolPrefix exec2 symb2"
    "execAccountKeyPerfix acc2 = symbolPrefix exec2 symb2 @ ''exec-''"
    using acc1 acc2 by (simp_all add: state_db_def newAccountDB_def)
  have "sdb_view s' (symbolPrefix exec2 symb2 @ k) = sdb_view s (symbolPrefix exec2 symb2 @ k)" for k
  proof (cases r)
    case (Ret receipt)
    with im have v: "sdb_view s' = replay (KV receipt) (sdb_view s)"
      and own: "\<forall>kv \<in> set (KV receipt). \<exists>k. Key kv = symbolPrefix exec1 symb1 @ k"
      by (auto simp: implements_def own_keys_def p(1))
    have "symbolPrefix exec1 symb1 @ x \<noteq> symbolPrefix exec2 symb2 @ k" for x
      using symbolPrefix_disjoint [of exec1 symb1 exec2 symb2 x k] acc1 acc2 assms(3) by auto
    with own show ?thesis
      unfolding v by (intro replay_other) metis
  qed (use im in \<open>auto simp: implements_def\<close>)
  then have "sdb_view s' (AccountKey acc2 a) = sdb_view s (AccountKey acc2 a)"
    "sdb_view s' (execAccountKey acc2 a e) = sdb_view s (execAccountKey acc2 a e)" for a e
    by (simp_all add: AccountKey_def execAccountKey_def p)
  then show ?thesis
    by (simp add: ledger_of_def cong: if_cong)
qed

theorem assets_isolated_witness:
  "\<exists>receipt s' acc2.
     acc_step env_example asset_example (AccMint ''alice'' 100) sdb_example = (Ret receipt, s') \<and>
     NewAccountDB (wire_codec (\<lambda>_. [])) ''token'' ''OTHER'' (StateDB_KV forks_example ''chain33'') = Inr acc2 \<and>
     ledger_of acc2 (sdb_view s') = ledger_of acc2 (sdb_view sdb_example)"
proof -
  obtain acc2 where acc2:
    "NewAccountDB (wire_codec (\<lambda>_. [])) ''token'' ''OTHER'' (StateDB_KV forks_example ''chain33'') = Inr acc2"
    by (simp add: NewAccountDB_def)
  obtain receipt s' where s':
    "acc_step env_example asset_example (AccMint ''alice'' 100) sdb_example = (Ret receipt, s')"
    using mint_example_step by blast
  from assets_isolated [OF asset_example_new acc2 _ sdb_example_inv asset_example_empty(1) _ s'] acc2 s'
  show ?thesis by auto
qed

subsection \<open>Freezing, minting, genesis\<close>

text \<open>
  \<^verbatim>\<open>safeAdd\<close>, which guards minting and genesis, succeeds exactly when the true sum of the two
  \<^verbatim>\<open>int64\<close> values is neither below the amount (that is, the balance is not negative) nor above
  \<^verbatim>\<open>MaxTokenBalance\<close>, and then returns the true sum: for every positive amount the test on wrapped
  sums catches every overflow.
\<close>

theorem safeAdd_exact:
  assumes "is_i64 bal" and "is_i64 amount" and "0 \<le> amount"
  shows "safeAdd bal amount =
           (if 0 \<le> bal \<and> bal + amount \<le> MaxTokenBalance then Inr (bal + amount) else Inl ErrAmount)"
proof (cases "bal + amount < 2 ^ 63")
  case True
  with assms have "is_i64 (bal + amount)" by (auto simp: is_i64_def)
  then show ?thesis by (auto simp: safeAdd_def i64_id)
next
  case False
  then have "i64 (bal + amount) = bal + amount - 2 ^ 64"
    using assms by (intro i64_over) (auto simp: is_i64_def)
  with False assms show ?thesis by (auto simp: safeAdd_def is_i64_def MaxTokenBalance_def)
qed

theorem safeAdd_exact_witness:
  "safeAdd (2 ^ 63 - 1) 100 = Inl ErrAmount \<and> safeAdd 5 100 = Inr 105 \<and> safeAdd (- 1) 100 = Inl ErrAmount"
  using safeAdd_exact [of "2 ^ 63 - 1" 100] safeAdd_exact [of 5 100] safeAdd_exact [of "- 1" 100]
  by (simp add: is_i64_def MaxTokenBalance_def)

lemma i64_sub_add: "is_i64 x \<Longrightarrow> i64 (i64 (x - n) + n) = x" "is_i64 x \<Longrightarrow> i64 (i64 (x + n) - n) = x"
  using i64_add_left [of "x - n" n] i64_add_left [of "x + n" "- n"] by (simp_all add: i64_id)

lemma ledger_freeze_active:
  assumes "lExecFrozen a e n l = (Ret (), l1)" and "is_i64 (Balance (held l e a))"
    and "is_i64 (Frozen (held l e a))" and "0 \<le> Frozen (held l e a)"
  shows "lExecActive a e n l1 = (Ret (), l)"
proof -
  from assms(1) have "CheckAmount n" "a \<noteq> e" and l1: "l1 = hfreeze e a n (hcredit e a (- n) l)"
    by (simp_all add: lExecFrozen_def split: if_splits)
  then show ?thesis
    using assms(2-4) i64_sub_add [of "Balance (held l e a)" n] i64_sub_add [of "Frozen (held l e a)" n]
    by (simp add: lExecActive_def ledger_simps fun_eq_iff)
qed

text \<open>
  Activating what was just frozen undoes the freezing exactly: when \<^verbatim>\<open>ExecFrozen\<close> succeeds, \<^verbatim>\<open>ExecActive\<close>
  with the same arguments succeeds as well and every account is again what it was.
\<close>

theorem frozen_active_inverse:
  assumes "NewAccountDB (wire_codec logs) exec symb (StateDB_KV f title) = Inr acc"
    and "sdb_inv f title s" and "accdb_ok acc (sdb_view s)" and "addr_ok a" and "addr_ok e"
    and "0 \<le> Frozen (held (ledger_of acc (sdb_view s)) e a)"
    and "ExecFrozen acc a e n s = (Ret receipt, s1)"
  shows "\<exists>receipt2 s2. ExecActive acc a e n s1 = (Ret receipt2, s2) \<and>
           ledger_of acc (sdb_view s2) = ledger_of acc (sdb_view s)"
proof -
  have acc: "acc = state_db f title logs (symbolPrefix exec symb) exec symb"
    using NewAccountDB_state_db [OF assms(1)] by simp
  have sim: "simulates acc sdb_view (sdb_inv f title) (ExecFrozen acc a e n) (lExecFrozen a e n)"
    "simulates acc sdb_view (sdb_inv f title) (ExecActive acc a e n) (lExecActive a e n)"
    unfolding acc by (intro adb.sim_ExecFrozen adb.sim_ExecActive assms(4,5))+
  have s1: "sdb_inv f title s1" "implements (lExecFrozen a e n) acc (sdb_view s) (Ret receipt) (sdb_view s1)"
    using sim(1) assms(2,3,7) by (auto simp: simulates_def wp_def)
  then have "accdb_ok acc (sdb_view s1)"
    and l1: "lExecFrozen a e n (ledger_of acc (sdb_view s)) = (Ret (), ledger_of acc (sdb_view s1))"
    by (auto simp: implements_def intro!: prod_eqI)
  moreover obtain r s2 where s2: "ExecActive acc a e n s1 = (r, s2)" by fastforce
  ultimately have "implements (lExecActive a e n) acc (sdb_view s1) r (sdb_view s2)"
    using sim(2) s1(1) by (auto simp: simulates_def wp_def)
  moreover have "lExecActive a e n (ledger_of acc (sdb_view s1)) = (Ret (), ledger_of acc (sdb_view s))"
    using accdb_ok_accounts(2) [OF assms(3,5,4)] assms(6)
    by (intro ledger_freeze_active [OF l1]) (simp_all add: wf_account_def)
  ultimately show ?thesis
    using s2 by (cases r) (auto simp: implements_def)
qed

text \<open>A state database over a store with any contents.\<close>

definition sdb_with :: "(bytes \<Rightarrow> bytes option) \<Rightarrow> StateDB" where
  "sdb_with v =
     NewStateDB (Some (\<lambda>h k. StoreReplyValue (Some [v k]))) ''root'' (\<lambda>_. Inl ErrNotFound)
       (\<lambda>_ _. Inl ErrNotFound) (Some (False, 800000))"

lemma sdb_with_ok: "sdb_inv forks_example ''chain33'' (sdb_with v)" "sdb_view (sdb_with v) = v"
proof -
  show "sdb_inv forks_example ''chain33'' (sdb_with v)"
    using sdb_example_ok(3)
    by (simp add: sdb_inv_def store_answers_def sdb_with_def NewStateDB_def sdb_example_def)
  show "sdb_view (sdb_with v) = v"
    by (rule ext) (simp add: sdb_defs sdb_backing_def sdb_with_def NewStateDB_def split: option.split)
qed

definition alice_in_ticket :: Account where
  "alice_in_ticket = \<lparr>Currency = 0, Balance = 50, Frozen = 0, Addr = ''alice''\<rparr>"

definition funded :: StateDB where
  "funded = sdb_with (Map.empty(execAccountKey asset_example ''alice'' ''ticket'' \<mapsto> Account_Marshal alice_in_ticket))"

lemma pb_asset_example: "Encode (pb asset_example) = Account_Marshal"
  by (simp add: asset_example_def state_db_def newAccountDB_def wire_codec_def)

lemma funded_ok:
  "sdb_inv forks_example ''chain33'' funded" "accdb_ok asset_example (sdb_view funded)"
  "held (ledger_of asset_example (sdb_view funded)) ''ticket'' ''alice'' = alice_in_ticket"
proof -
  show "sdb_inv forks_example ''chain33'' funded"
    by (simp add: funded_def sdb_with_ok)
  have "wf_account alice_in_ticket" "Addr alice_in_ticket = ''alice''"
    by (simp_all add: wf_account_def alice_in_ticket_def is_i32_def is_i64_def ascii_def)
  moreover have "accdb_ok asset_example Map.empty"
    by (simp add: accdb_ok_def stores_def)
  ultimately have
    "accdb_ok asset_example (Map.empty(execAccountKey asset_example ''alice'' ''ticket'' \<mapsto> Account_Marshal alice_in_ticket))"
    "ledger_of asset_example (Map.empty(execAccountKey asset_example ''alice'' ''ticket'' \<mapsto> Account_Marshal alice_in_ticket))
     = held_update ''ticket'' ''alice'' alice_in_ticket (ledger_of asset_example Map.empty)"
    using adb.store_held [of forks_example "''chain33''" "\<lambda>_. []" "symbolPrefix ''token'' ''TEST''" "''token''"
        "''TEST''" Map.empty alice_in_ticket "''ticket''", folded asset_example_def]
    by (simp_all add: pb_asset_example)
  then show "accdb_ok asset_example (sdb_view funded)"
    "held (ledger_of asset_example (sdb_view funded)) ''ticket'' ''alice'' = alice_in_ticket"
    by (simp_all add: funded_def sdb_with_ok held_update_def)
qed

lemma funded_freeze: "\<exists>receipt s'. ExecFrozen asset_example ''alice'' ''ticket'' 20 funded = (Ret receipt, s')"
proof -
  obtain r s' where s': "ExecFrozen asset_example ''alice'' ''ticket'' 20 funded = (r, s')" by fastforce
  have "simulates asset_example sdb_view (sdb_inv forks_example ''chain33'')
      (ExecFrozen asset_example ''alice'' ''ticket'' 20) (lExecFrozen ''alice'' ''ticket'' 20)"
    unfolding asset_example_def by (rule adb.sim_ExecFrozen) simp_all
  then have "implements (lExecFrozen ''alice'' ''ticket'' 20) asset_example (sdb_view funded) r (sdb_view s')"
    using s' funded_ok by (auto simp: simulates_def wp_def)
  then have "\<exists>receipt. r = Ret receipt"
    by (cases r) (auto simp: implements_def funded_ok lExecFrozen_def CheckAmount_def MaxCoin_def i64_def
        alice_in_ticket_def)
  with s' show ?thesis by blast
qed

theorem frozen_active_inverse_witness:
  "\<exists>receipt receipt2 s1 s2.
     ExecFrozen asset_example ''alice'' ''ticket'' 20 funded = (Ret receipt, s1) \<and>
     ExecActive asset_example ''alice'' ''ticket'' 20 s1 = (Ret receipt2, s2) \<and>
     ledger_of asset_example (sdb_view s2) = ledger_of asset_example (sdb_view funded)"
proof -
  obtain receipt s1 where s1: "ExecFrozen asset_example ''alice'' ''ticket'' 20 funded = (Ret receipt, s1)"
    using funded_freeze by blast
  from frozen_active_inverse [OF asset_example_new funded_ok(1,2) _ _ _ s1] s1 show ?thesis
    by (auto simp: funded_ok(3) alice_in_ticket_def)
qed

text \<open>
  \<^verbatim>\<open>GenesisInitExec\<close> credits the contract's address before it books the deposit inside the
  contract: for an amount that \<^verbatim>\<open>safeAdd\<close> accepts but \<^verbatim>\<open>CheckAmount\<close> refuses (from \<^verbatim>\<open>MaxCoin\<close> up,
  zero or negative), or for an owner that is the contract itself, it panics after the credit
  has been stored.
\<close>

theorem genesis_exec_panics:
  assumes "NewAccountDB (wire_codec logs) exec symb (StateDB_KV f title) = Inr acc"
    and "sdb_inv f title s" and "accdb_ok acc (sdb_view s)" and "addr_ok a" and "addr_ok e"
    and "safeAdd (Balance (coins (ledger_of acc (sdb_view s)) e)) n = Inr b"
    and "a = e \<or> \<not> CheckAmount n"
  shows "\<exists>p s'. GenesisInitExec acc a n e s = (Panic p, s') \<and>
           Balance (coins (ledger_of acc (sdb_view s')) e) = b"
proof -
  have acc: "acc = state_db f title logs (symbolPrefix exec symb) exec symb"
    using NewAccountDB_state_db [OF assms(1)] by simp
  have "wp (GenesisInitExec acc a n e)
      (\<lambda>r s'. (\<exists>p. r = Panic p) \<and> Balance (coins (ledger_of acc (sdb_view s')) e) = b) s"
    using assms(2-7) unfolding acc by (rule adb.wp_GenesisInitExec_panic)
  then show ?thesis
    by (auto simp: wp_def split: prod.splits)
qed

theorem genesis_exec_panics_witness:
  "\<exists>p s'. GenesisInitExec asset_example ''alice'' (2 * 10 ^ 17) ''ticket'' sdb_example = (Panic p, s') \<and>
     Balance (coins (ledger_of asset_example (sdb_view s')) ''ticket'') = 2 * 10 ^ 17"
  using genesis_exec_panics [OF asset_example_new sdb_example_inv asset_example_empty(1),
    of "''alice''" "''ticket''" "2 * 10 ^ 17" "2 * 10 ^ 17"]
  by (simp add: asset_example_empty(2) safeAdd_def i64_def MaxTokenBalance_def CheckAmount_def MaxCoin_def)

end
