(* ===== verification/AccountQuery.thy ===== *)
theory AccountQuery
  imports StoreList Assets "HOL-Library.Sublist"
begin

text \<open>
  The query functions of \<^verbatim>\<open>src/account\<close>, which read the accounts of a past or the latest state
  through the node's queue API. The API (an interface value of the code) is the record
  \<open>queue_api\<close>; address checks, hex decoding and the parachain prefix are in \<open>query_env\<close>.
\<close>

record queue_api =
  GetLastHeader :: "error + bytes"
  StoreGet :: "bytes \<Rightarrow> bytes list \<Rightarrow> error + bytes option list"
  apiStoreList :: "StoreList \<Rightarrow> error + StoreListReply"
  apiGetTotalCoins :: "bytes \<Rightarrow> bytes \<Rightarrow> bytes \<Rightarrow> int \<Rightarrow> error + ReplyGetTotalCoins"

record query_env =
  CheckAddress :: "string \<Rightarrow> bool"
  qExecAddress :: "string \<Rightarrow> string"
  GetParaExec :: "bytes \<Rightarrow> bytes"
  FromHex :: "string \<Rightarrow> error + bytes"

text \<open>The loop over the values of a reply; \<open>addrs[i]\<close> panics when there are more values than addresses.\<close>

fun decodeValues :: "codec \<Rightarrow> string list \<Rightarrow> bytes option list \<Rightarrow> Account list outcome" where
  "decodeValues c addrs [] = Ret []"
| "decodeValues c addrs (None # vs) =
     (case addrs of
        [] \<Rightarrow> Panic ''index out of range''
      | a # as \<Rightarrow> obind (decodeValues c as vs) (\<lambda>accs. Ret (newAccount a # accs)))"
| "decodeValues c addrs (Some v # vs) =
     (case Decode c v of
        None \<Rightarrow> Err (ErrOther ''decode'')
      | Some x \<Rightarrow> obind (decodeValues c (tl addrs) vs) (\<lambda>accs. Ret (x # accs)))"

definition loadAccountsHistory :: "'s AccDB \<Rightarrow> queue_api \<Rightarrow> string list \<Rightarrow> bytes \<Rightarrow> Account list outcome" where
  "loadAccountsHistory acc api addrs stateHash =
     obind (of_sum (StoreGet api stateHash (map (AccountKey acc) addrs)))
       (\<lambda>values. decodeValues (pb acc) addrs values)"

definition LoadAccounts :: "'s AccDB \<Rightarrow> queue_api \<Rightarrow> string list \<Rightarrow> Account list outcome" where
  "LoadAccounts acc api addrs =
     obind (of_sum (GetLastHeader api)) (\<lambda>h. loadAccountsHistory acc api addrs h)"

definition LoadExecAccountHistoryQueue ::
  "'s AccDB \<Rightarrow> queue_api \<Rightarrow> string \<Rightarrow> string \<Rightarrow> bytes \<Rightarrow> Account outcome" where
  "LoadExecAccountHistoryQueue acc api addr execaddr stateHash =
     obind (of_sum (StoreGet api stateHash [execAccountKey acc addr execaddr]))
       (\<lambda>values. case values of
          [] \<Rightarrow> Err ErrNotFound
        | None # _ \<Rightarrow> Ret (newAccount addr)
        | Some v # _ \<Rightarrow>
            (case Decode (pb acc) v of None \<Rightarrow> Err (ErrOther ''decode'') | Some x \<Rightarrow> Ret x))"

definition LoadExecAccountQueue :: "'s AccDB \<Rightarrow> queue_api \<Rightarrow> string \<Rightarrow> string \<Rightarrow> Account outcome" where
  "LoadExecAccountQueue acc api addr execaddr =
     obind (of_sum (GetLastHeader api)) (\<lambda>h. LoadExecAccountHistoryQueue acc api addr execaddr h)"

record ReqBalance =
  Addresses :: "string list"
  rbExecer :: string
  rbStateHash :: string
  AssetExec :: string

text \<open>The loop over the addresses of a contract query: an account that cannot be loaded is left out.\<close>

fun execBalances :: "(string \<Rightarrow> Account outcome) \<Rightarrow> string list \<Rightarrow> Account list outcome" where
  "execBalances load [] = Ret []"
| "execBalances load (a # as) =
     (case load a of
        Ret x \<Rightarrow> obind (execBalances load as) (\<lambda>xs. Ret (x # xs))
      | Err e \<Rightarrow> execBalances load as
      | Panic p \<Rightarrow> Panic p)"

definition GetBalance :: "query_env \<Rightarrow> 's AccDB \<Rightarrow> queue_api \<Rightarrow> ReqBalance \<Rightarrow> Account list outcome" where
  "GetBalance env acc api req =
     (if AssetExec req = GetParaExec env (rbExecer req) \<or> rbExecer req = '''' then
        (let exaddrs = map (\<lambda>a. if CheckAddress env a then a else qExecAddress env a) (Addresses req)
         in if rbStateHash req = '''' then LoadAccounts acc api exaddrs
            else obind (of_sum (FromHex env (rbStateHash req)))
                   (\<lambda>hash. loadAccountsHistory acc api exaddrs hash))
      else
        (let execaddress = qExecAddress env (rbExecer req)
         in if rbStateHash req = '''' then
              execBalances (\<lambda>a. LoadExecAccountQueue acc api a execaddress) (Addresses req)
            else if Addresses req = [] then Ret []
            else obind (of_sum (FromHex env (rbStateHash req)))
                   (\<lambda>hash. execBalances (\<lambda>a. LoadExecAccountHistoryQueue acc api a execaddress hash)
                             (Addresses req))))"

definition GetTotalCoins ::
  "queue_api \<Rightarrow> string \<Rightarrow> string \<Rightarrow> bytes \<Rightarrow> bytes option \<Rightarrow> int \<Rightarrow> error + ReplyGetTotalCoins" where
  "GetTotalCoins api exec symb stateHash startKey n =
     apiGetTotalCoins api stateHash
       (case startKey of None \<Rightarrow> symbolPrefix exec symb | Some k \<Rightarrow> k) (symbolExecPrefix exec symb) n"

text \<open>
  \<^verbatim>\<open>genPrefixEdge\<close>: the last byte below 255 is incremented; the bytes after it stay.
\<close>

fun incFrom :: "nat \<Rightarrow> bytes \<Rightarrow> bytes" where
  "incFrom 0 r = r"
| "incFrom (Suc i) r =
     (if (of_char (r ! i) :: nat) < 255 then r[i := char_of ((of_char (r ! i) :: nat) + 1)]
      else incFrom i r)"

definition genPrefixEdge :: "bytes \<Rightarrow> bytes" where
  "genPrefixEdge p = incFrom (length p) p"

record ExecBalanceItem =
  itExecAddr :: bytes
  itFrozen :: int
  itActive :: int

record ReplyGetExecBalance =
  ebAmount :: int
  ebAmountFrozen :: int
  ebAmountActive :: int
  ebNextKey :: "bytes option"
  ebItems :: "ExecBalanceItem list"

definition AddItem :: "codec \<Rightarrow> bytes \<Rightarrow> bytes \<Rightarrow> ReplyGetExecBalance \<Rightarrow> ReplyGetExecBalance" where
  "AddItem c execAddr val t =
     (case Decode c val of
        None \<Rightarrow> t
      | Some acc \<Rightarrow>
          t\<lparr>ebAmount := i64 (i64 (ebAmount t + Balance acc) + Frozen acc),
            ebAmountActive := i64 (ebAmountActive t + Balance acc),
            ebAmountFrozen := i64 (ebAmountFrozen t + Frozen acc),
            ebItems := ebItems t @ [\<lparr>itExecAddr = execAddr, itFrozen = Frozen acc, itActive = Balance acc\<rparr>]\<rparr>)"

text \<open>\<^verbatim>\<open>strings.Split\<close> with a one-character separator.\<close>

fun split_at :: "char \<Rightarrow> string \<Rightarrow> string list" where
  "split_at c [] = [[]]"
| "split_at c (x # xs) =
     (if x = c then [] # split_at c xs
      else (case split_at c xs of [] \<Rightarrow> [[x]] | p # ps \<Rightarrow> (x # p) # ps))"

text \<open>
  One record of the reply. With a contract address in the request (the prefix ends with a
  colon), the contract's address is cut out of the prefix by the length of the account address
  found in the key; slicing below index 0 panics.
\<close>

definition execBalanceRecord ::
  "codec \<Rightarrow> string \<Rightarrow> bytes \<Rightarrow> bytes \<Rightarrow> ReplyGetExecBalance \<Rightarrow> ReplyGetExecBalance outcome" where
  "execBalanceRecord c pre key val reply =
     (if \<not> prefix pre key then Err ErrTypeAsset
      else if suffix '':'' pre then
        (let addr = drop (length pre) key
         in if length pre < length addr + 1 then Panic ''slice bounds out of range''
            else Ret (AddItem c (drop (length pre - length addr - 1) (take (length pre - 1) pre)) val reply))
      else
        (let addrs = split_at (CHR '':'') (drop (length pre) key)
         in if length addrs \<noteq> 2 then Err ErrTypeAsset
            else Ret (AddItem c (addrs ! 0) val reply)))"

fun execBalanceRecords ::
  "codec \<Rightarrow> string \<Rightarrow> bytes list \<Rightarrow> bytes list \<Rightarrow> ReplyGetExecBalance \<Rightarrow> ReplyGetExecBalance outcome" where
  "execBalanceRecords c pre [] vs reply = Ret reply"
| "execBalanceRecords c pre (k # ks) vs reply =
     (case vs of
        [] \<Rightarrow> obind (execBalanceRecord c pre k [] reply) (\<lambda>_. Panic ''index out of range'')
      | v # vs' \<Rightarrow> obind (execBalanceRecord c pre k v reply) (execBalanceRecords c pre ks vs'))"

record ReqGetExecBalance =
  ebSymbol :: string
  ebStateHash :: bytes
  ebAddr :: bytes
  ebExecAddr :: bytes
  ebExecer :: string
  ebCount :: int
  ebNext :: bytes

definition execBalancePrefix :: "ReqGetExecBalance \<Rightarrow> string" where
  "execBalancePrefix req =
     (if length (ebExecAddr req) > 0
      then symbolExecPrefix (ebExecer req) (ebSymbol req) @ ''-'' @ ebExecAddr req @ '':''
      else symbolExecPrefix (ebExecer req) (ebSymbol req) @ ''-'')"

definition GetExecBalance :: "'s AccDB \<Rightarrow> queue_api \<Rightarrow> ReqGetExecBalance \<Rightarrow> ReplyGetExecBalance outcome" where
  "GetExecBalance acc api req =
     (let pre = execBalancePrefix req;
          lreq = \<lparr>slStateHash = ebStateHash req,
                  slStart = (if length (ebNext req) > 0 then ebNext req else pre),
                  slEnd = genPrefixEdge pre, slSuffix = ebAddr req, slCount = ebCount req, slMode = 2\<rparr>
      in case apiStoreList api lreq of
           Inl _ \<Rightarrow> Err ErrTypeAsset
         | Inr res \<Rightarrow>
             obind (execBalanceRecords (pb acc) pre (rpKeys res) (rpValues res)
                      \<lparr>ebAmount = 0, ebAmountFrozen = 0, ebAmountActive = 0, ebNextKey = None, ebItems = []\<rparr>)
               (\<lambda>reply. Ret (reply\<lparr>ebNextKey := rpNextKey res\<rparr>)))"

subsection \<open>Prefix ranges\<close>

lemma genPrefixEdge_snoc:
  "(of_char c :: nat) < 255 \<Longrightarrow> genPrefixEdge (q @ [c]) = q @ [char_of (Suc (of_char c))]"
  by (simp add: genPrefixEdge_def nth_append list_update_append)

lemma char_succ_less: "(of_char c :: nat) < 255 \<Longrightarrow> d < char_of (Suc (of_char c)) \<longleftrightarrow> d \<le> c"
proof -
  assume c: "(of_char c :: nat) < 255"
  then have "of_char (char_of (Suc (of_char c)) :: char) = Suc (of_char c)"
    by (simp only: of_char_of mod_less)
  then show ?thesis
    by (simp only: less_char_def less_eq_char_def less_Suc_eq_le)
qed

lemma snoc_range:
  assumes "(of_char c :: nat) < 255"
  shows "q @ [c] \<le> k \<and> k < q @ [char_of (Suc (of_char c))] \<longleftrightarrow> prefix (q @ [c]) k"
proof (induction q arbitrary: k)
  case Nil
  show ?case
    using assms by (cases k) (auto simp: char_succ_less)
next
  case (Cons x q)
  show ?case
  proof (cases k)
    case (Cons y ys)
    with Cons.IH [of ys] show ?thesis by (cases "x = y") (simp_all add: order_less_le)
  qed simp
qed

text \<open>
  \<^verbatim>\<open>genPrefixEdge\<close> turns a prefix search into a range search: for a prefix whose last byte is below
  255 (the prefixes of the program end in \<open>-\<close> or \<open>:\<close>), the keys from the prefix up to, not
  including, the edge are exactly the keys with that prefix.
\<close>

theorem prefix_edge_range:
  assumes "p \<noteq> []" and "(of_char (last p) :: nat) < 255"
  shows "p \<le> k \<and> k < genPrefixEdge p \<longleftrightarrow> prefix p k"
proof -
  obtain q c where p: "p = q @ [c]" using assms(1) by (cases p rule: rev_cases) auto
  with assms(2) have c: "(of_char c :: nat) < 255" by simp
  show ?thesis
    unfolding p genPrefixEdge_snoc [OF c] by (rule snoc_range [OF c])
qed

theorem prefix_edge_range_witness:
  "(''ab-'' \<le> ''ab-xy'' \<and> ''ab-xy'' < genPrefixEdge ''ab-'') \<and> \<not> (''ab-'' \<le> ''ab.'' \<and> ''ab.'' < genPrefixEdge ''ab-'')"
  using prefix_edge_range [of "''ab-''" "''ab-xy''"] prefix_edge_range [of "''ab-''" "''ab.''"] by simp

subsection \<open>Queries and the ledger\<close>

lemma decodeValues_ledger:
  assumes "accdb_ok acc v" and "\<forall>a \<in> set addrs. addr_ok a"
  shows "decodeValues (pb acc) addrs (map (\<lambda>a. v (AccountKey acc a)) addrs) =
         Ret (map (coins (ledger_of acc v)) addrs)"
  using assms(2)
proof (induction addrs)
  case (Cons a addrs)
  then have "stores (pb acc) (v (AccountKey acc a)) a" "addr_ok a"
    using assms(1) by (auto simp: accdb_ok_def)
  with Cons show ?case
    by (cases "v (AccountKey acc a)") (auto simp: stores_def ledger_of_def)
qed simp

text \<open>
  C24. Querying balances shows the ledger: when the store answers from the entries of a state,
  \<^verbatim>\<open>GetBalance\<close> for a past state returns, for every address, the account the ledger of that state
  gives it: its coins when no contract is named, what it holds inside the contract otherwise.
\<close>

theorem GetBalance_shows_ledger:
  assumes "accdb_ok acc v" and "\<forall>a \<in> set (Addresses req). addr_ok a \<and> CheckAddress env a"
    and "addr_ok (qExecAddress env (rbExecer req))"
    and "rbStateHash req \<noteq> ''''" and "FromHex env (rbStateHash req) = Inr h"
    and "\<forall>ks. StoreGet api h ks = Inr (map v ks)"
  shows "GetBalance env acc api req =
           Ret (map (if AssetExec req = GetParaExec env (rbExecer req) \<or> rbExecer req = ''''
                     then coins (ledger_of acc v)
                     else held (ledger_of acc v) (qExecAddress env (rbExecer req))) (Addresses req))"
proof (cases "AssetExec req = GetParaExec env (rbExecer req) \<or> rbExecer req = ''''")
  case True
  have "map (\<lambda>a. if CheckAddress env a then a else qExecAddress env a) (Addresses req) = Addresses req"
    using assms(2) by (simp add: map_idI)
  moreover have "map (v \<circ> AccountKey acc) (Addresses req) = map (\<lambda>a. v (AccountKey acc a)) (Addresses req)"
    by simp
  ultimately show ?thesis
    using True assms decodeValues_ledger [OF assms(1), of "Addresses req"]
    by (simp add: GetBalance_def Let_def loadAccountsHistory_def comp_def)
next
  case False
  let ?e = "qExecAddress env (rbExecer req)"
  have load: "LoadExecAccountHistoryQueue acc api a ?e h = Ret (held (ledger_of acc v) ?e a)"
    if "addr_ok a" for a
  proof -
    have "stores (pb acc) (v (execAccountKey acc a ?e)) a"
      using assms(1,3) that by (simp add: accdb_ok_def)
    then show ?thesis
      using that assms(3,6) unfolding LoadExecAccountHistoryQueue_def
      by (cases "v (execAccountKey acc a ?e)") (auto simp: stores_def ledger_of_def)
  qed
  have "execBalances (\<lambda>a. LoadExecAccountHistoryQueue acc api a ?e h) as = Ret (map (held (ledger_of acc v) ?e) as)"
    if "\<forall>a \<in> set as. addr_ok a" for as
    using that by (induction as) (simp_all add: load)
  then show ?thesis
    using False assms(2,4,5) by (simp add: GetBalance_def Let_def)
qed

theorem GetBalance_shows_ledger_witness:
  "GetBalance \<lparr>CheckAddress = (\<lambda>_. True), qExecAddress = id, GetParaExec = id, FromHex = Inr\<rparr> asset_example
     \<lparr>GetLastHeader = Inl ErrNotFound, StoreGet = (\<lambda>h ks. Inr (map (sdb_view funded) ks)),
      apiStoreList = (\<lambda>_. Inl ErrNotFound), apiGetTotalCoins = (\<lambda>_ _ _ _. Inl ErrNotFound)\<rparr>
     \<lparr>Addresses = [''alice''], rbExecer = ''ticket'', rbStateHash = ''00'', AssetExec = ''token''\<rparr> =
   Ret [\<lparr>Currency = 0, Balance = 50, Frozen = 0, Addr = ''alice''\<rparr>]"
  by (subst GetBalance_shows_ledger [OF funded_ok(2), where h = "''00''"])
    (simp_all add: funded_ok(3), simp add: alice_in_ticket_def)

lemma drop_take_prefix:
  assumes "length a \<le> length e"
  shows "drop (length (p @ e @ [c]) - length a - 1) (take (length (p @ e @ [c]) - 1) (p @ e @ [c])) =
         drop (length e - length a) e"
  using assms by simp

text \<open>
  In the answer to a query for one contract, \<^verbatim>\<open>GetExecBalance\<close> reports as the contract's address the
  last \<open>n\<close> characters of it, where \<open>n\<close> is the length of the account address: the right address
  only when the two addresses have the same length, a proper end of it when the account address is
  shorter.
\<close>

theorem exec_balance_record_address:
  assumes "length a \<le> length e"
  shows "execBalanceRecord c (symbolExecPrefix x s @ ''-'' @ e @ '':'')
             (symbolExecPrefix x s @ ''-'' @ e @ '':'' @ a) val reply =
           Ret (AddItem c (drop (length e - length a) e) val reply) \<and>
         (drop (length e - length a) e = e \<longleftrightarrow> length a = length e \<or> e = [])"
proof -
  let ?pre = "(symbolExecPrefix x s @ ''-'') @ e @ '':''"
  have key: "symbolExecPrefix x s @ ''-'' @ e @ '':'' @ a = ?pre @ a" by simp
  have "\<not> length ?pre < length a + 1" "suffix '':'' ?pre"
    using assms by (simp_all add: suffix_def)
  then have "execBalanceRecord c ?pre (?pre @ a) val reply = Ret (AddItem c (drop (length e - length a) e) val reply)"
    unfolding execBalanceRecord_def using drop_take_prefix [OF assms, of "symbolExecPrefix x s @ ''-''" "CHR '':''"]
    by simp
  moreover have "drop (length e - length a) e = e \<longleftrightarrow> length a = length e \<or> e = []"
    using assms by (metis diff_is_0_eq' drop0 drop_eq_Nil2 le_antisym length_drop diff_diff_cancel order_refl)
  ultimately show ?thesis unfolding key by simp
qed

theorem exec_balance_record_address_witness:
  "execBalanceRecord (wire_codec (\<lambda>_. [])) (symbolExecPrefix ''coins'' ''bty'' @ ''-'' @ ''ticket'' @ '':'')
     (symbolExecPrefix ''coins'' ''bty'' @ ''-'' @ ''ticket'' @ '':'' @ ''bob'') []
     \<lparr>ebAmount = 0, ebAmountFrozen = 0, ebAmountActive = 0, ebNextKey = None, ebItems = []\<rparr> =
   Ret (AddItem (wire_codec (\<lambda>_. [])) ''ket'' []
     \<lparr>ebAmount = 0, ebAmountFrozen = 0, ebAmountActive = 0, ebNextKey = None, ebItems = []\<rparr>)"
  using exec_balance_record_address [of "''bob''" "''ticket''" "wire_codec (\<lambda>_. [])" "''coins''" "''bty''" "[]"
    "\<lparr>ebAmount = 0, ebAmountFrozen = 0, ebAmountActive = 0, ebNextKey = None, ebItems = []\<rparr>"]
  by simp

end
