(* ===== verification/WireFormat.thy ===== *)
theory WireFormat
  imports Varint
begin

text \<open>
  The protobuf wire format as a list of fields: a field is its number and a varint or a byte
  string. Messages are written field by field and read back by \<open>wire_parse\<close>; a field with its
  default value is not written.
\<close>

datatype wval = VInt nat | VBytes bytes

fun put_field :: "nat \<times> wval \<Rightarrow> bytes" where
  "put_field (f, VInt v) = appendVarint (8 * f) @ appendVarint v"
| "put_field (f, VBytes b) = appendVarint (8 * f + 2) @ appendVarint (length b) @ b"

definition put_fields :: "(nat \<times> wval) list \<Rightarrow> bytes" where
  "put_fields fs = concat (map put_field fs)"

text \<open>One field; a fixed-width field is read as the bytes it takes, a group is refused.\<close>

definition get_one :: "bytes \<Rightarrow> ((nat \<times> wval) \<times> bytes) option" where
  "get_one b =
     (case decodeVarint b of
        None \<Rightarrow> None
      | Some (tag, b1) \<Rightarrow>
          if tag div 8 = 0 then None
          else if tag mod 8 = 0 then map_option (\<lambda>(v, b2). ((tag div 8, VInt v), b2)) (decodeVarint b1)
          else if tag mod 8 = 2 then
            (case decodeVarint b1 of
               None \<Rightarrow> None
             | Some (n, b2) \<Rightarrow> if n > length b2 then None else Some ((tag div 8, VBytes (take n b2)), drop n b2))
          else if tag mod 8 = 5 then (if length b1 < 4 then None else Some ((tag div 8, VBytes (take 4 b1)), drop 4 b1))
          else if tag mod 8 = 1 then (if length b1 < 8 then None else Some ((tag div 8, VBytes (take 8 b1)), drop 8 b1))
          else None)"

lemma get_one_shorter: "get_one b = Some (fv, r) \<Longrightarrow> length r < length b"
  by (auto simp: get_one_def split: option.splits if_splits dest!: decodeVarint_shorter) arith+

function wire_parse :: "bytes \<Rightarrow> (nat \<times> wval) list option" where
  "wire_parse b =
     (if b = [] then Some []
      else (case get_one b of None \<Rightarrow> None | Some (fv, r) \<Rightarrow> map_option (Cons fv) (wire_parse r)))"
  by pat_completeness auto
termination by (relation "measure length") (auto dest: get_one_shorter)

declare wire_parse.simps [simp del]

fun field_ok :: "nat \<times> wval \<Rightarrow> bool" where
  "field_ok (f, VInt v) \<longleftrightarrow> 0 < f \<and> f < 2 ^ 29 \<and> v < 2 ^ 64"
| "field_ok (f, VBytes b) \<longleftrightarrow> 0 < f \<and> f < 2 ^ 29 \<and> length b < 2 ^ 64"

lemma get_one_put: "field_ok fv \<Longrightarrow> get_one (put_field fv @ r) = Some (fv, r)"
proof (cases fv rule: put_field.cases)
  case (2 f b)
  have "(8 * f + 2) div 8 = f" "(8 * f + 2) mod 8 = 2" by presburger+
  moreover assume "field_ok fv"
  ultimately show ?thesis using 2 by (simp add: get_one_def decodeVarint_append del: add_2_eq_Suc')
qed (simp add: get_one_def decodeVarint_append)

lemma appendVarint_ne [simp]: "appendVarint v \<noteq> []"
  by (subst appendVarint.simps) simp

lemma put_field_ne [simp]: "put_field fv \<noteq> []"
  by (cases fv rule: put_field.cases) simp_all

lemma wire_parse_put: "list_all field_ok fs \<Longrightarrow> wire_parse (put_fields fs) = Some fs"
proof (induction fs)
  case (Cons fv fs)
  then show ?case
    by (subst wire_parse.simps) (simp add: put_fields_def get_one_put)
qed (simp add: put_fields_def wire_parse.simps)

definition opt_int :: "nat \<Rightarrow> int \<Rightarrow> (nat \<times> wval) list" where
  "opt_int f v = (if v = 0 then [] else [(f, VInt (u64 v))])"

definition opt_bytes :: "nat \<Rightarrow> bytes option \<Rightarrow> (nat \<times> wval) list" where
  "opt_bytes f b = (case b of None \<Rightarrow> [] | Some x \<Rightarrow> if x = [] then [] else [(f, VBytes x)])"

lemma field_ok_opt:
  "1 \<le> f \<Longrightarrow> f < 16 \<Longrightarrow> list_all field_ok (opt_int f v)"
  "1 \<le> f \<Longrightarrow> f < 16 \<Longrightarrow> (\<And>x. b = Some x \<Longrightarrow> length x < 2 ^ 64) \<Longrightarrow> list_all field_ok (opt_bytes f b)"
  using u64_less [of v] by (auto simp: opt_int_def opt_bytes_def split: option.splits)

end
