(* ===== verification/MavlTree.thy ===== *)
theory MavlTree
  imports Prelude
begin

text \<open>
  What the Merkle AVL tree of \<^verbatim>\<open>src/system/store/mavl/db\<close> is about, without nodes, hashes or a
  database: a binary tree whose leaves hold the key-value pairs in key order, every inner key
  being the smallest key of its right subtree, kept balanced by rotations. The node layer
  (\<open>MavlNode\<close>) refines the operations of this theory; their lemmas say that the tree is a finite
  map with logarithmic height.
\<close>

datatype mtree = Leaf bytes "bytes option" | Inner bytes mtree mtree

fun ht :: "mtree \<Rightarrow> int" where
  "ht (Leaf k v) = 0"
| "ht (Inner k l r) = max (ht l) (ht r) + 1"

fun sz :: "mtree \<Rightarrow> int" where
  "sz (Leaf k v) = 1"
| "sz (Inner k l r) = sz l + sz r"

fun leaves :: "mtree \<Rightarrow> (bytes \<times> bytes option) list" where
  "leaves (Leaf k v) = [(k, v)]"
| "leaves (Inner k l r) = leaves l @ leaves r"

definition keys :: "mtree \<Rightarrow> bytes set" where
  "keys t = fst ` set (leaves t)"

definition min_key :: "mtree \<Rightarrow> bytes" where
  "min_key t = fst (hd (leaves t))"

fun bst :: "mtree \<Rightarrow> bool" where
  "bst (Leaf k v) = True"
| "bst (Inner k l r) =
     (bst l \<and> bst r \<and> (\<forall>x \<in> keys l. x < k) \<and> (\<forall>x \<in> keys r. k \<le> x) \<and> k = min_key r)"

fun avl :: "mtree \<Rightarrow> bool" where
  "avl (Leaf k v) = True"
| "avl (Inner k l r) = (avl l \<and> avl r \<and> ht l - ht r \<in> {-1, 0, 1})"

definition to_map :: "mtree \<Rightarrow> bytes \<rightharpoonup> bytes option" where
  "to_map t = map_of (leaves t)"

subsection \<open>Operations\<close>

fun rotR :: "mtree \<Rightarrow> mtree" where
  "rotR (Inner k (Inner k2 a b) c) = Inner k2 a (Inner k b c)"
| "rotR t = t"

fun rotL :: "mtree \<Rightarrow> mtree" where
  "rotL (Inner k a (Inner k2 b c)) = Inner k2 (Inner k a b) c"
| "rotL t = t"

fun skew :: "mtree \<Rightarrow> int" where
  "skew (Leaf k v) = 0"
| "skew (Inner k l r) = ht l - ht r"

fun bal :: "mtree \<Rightarrow> mtree" where
  "bal (Leaf k v) = Leaf k v"
| "bal (Inner k l r) =
     (if ht l - ht r > 1 then rotR (Inner k (if skew l \<ge> 0 then l else rotL l) r)
      else if ht l - ht r < -1 then rotL (Inner k l (if skew r \<le> 0 then r else rotR r))
      else Inner k l r)"

fun ins :: "bytes \<Rightarrow> bytes option \<Rightarrow> mtree \<Rightarrow> mtree \<times> bool" where
  "ins k v (Leaf k' v') =
     (if k < k' then (Inner k' (Leaf k v) (Leaf k' v'), False)
      else if k = k' then (Leaf k v, True)
      else (Inner k (Leaf k' v') (Leaf k v), False))"
| "ins k v (Inner k' l r) =
     (if k < k' then
        (case ins k v l of (l', u) \<Rightarrow> (if u then Inner k' l' r else bal (Inner k' l' r), u))
      else
        (case ins k v r of (r', u) \<Rightarrow> (if u then Inner k' l r' else bal (Inner k' l r'), u)))"

text \<open>The remaining tree (none after the last leaf), the new smallest key if it changed, the value.\<close>

fun rem :: "bytes \<Rightarrow> mtree \<Rightarrow> (mtree option \<times> bytes option \<times> bytes option) option" where
  "rem k (Leaf k' v) = (if k = k' then Some (None, None, v) else None)"
| "rem k (Inner k' l r) =
     (if k < k' then
        (case rem k l of
           None \<Rightarrow> None
         | Some (None, nk, v) \<Rightarrow> Some (Some r, Some k', v)
         | Some (Some l', nk, v) \<Rightarrow> Some (Some (bal (Inner k' l' r)), nk, v))
      else
        (case rem k r of
           None \<Rightarrow> None
         | Some (None, nk, v) \<Rightarrow> Some (Some l, None, v)
         | Some (Some r', nk, v) \<Rightarrow>
             Some (Some (bal (Inner (case nk of None \<Rightarrow> k' | Some k'' \<Rightarrow> k'') l r')), None, v)))"

text \<open>The position of a key among the leaves, its value, and whether it is there.\<close>

fun look :: "bytes \<Rightarrow> mtree \<Rightarrow> int \<times> bytes option \<times> bool" where
  "look k (Leaf k' v) = (if k' = k then (0, v, True) else if k' < k then (1, None, False) else (0, None, False))"
| "look k (Inner k' l r) =
     (if k < k' then look k l else (case look k r of (i, v, e) \<Rightarrow> (i + sz l, v, e)))"

fun nth_leaf :: "int \<Rightarrow> mtree \<Rightarrow> (bytes \<times> bytes option) option" where
  "nth_leaf i (Leaf k v) = (if i = 0 then Some (k, v) else None)"
| "nth_leaf i (Inner k l r) = (if i < sz l then nth_leaf i l else nth_leaf (i - sz l) r)"

subsection \<open>Shape\<close>

lemma ht_nonneg [simp]: "0 \<le> ht t"
  by (induction t) auto

lemma ht_0_iff: "ht t = 0 \<longleftrightarrow> (\<exists>k v. t = Leaf k v)"
proof (cases t)
  case (Inner k l r)
  then have "1 \<le> ht t" by (simp add: le_max_iff_disj)
  with Inner show ?thesis by auto
qed simp

lemma sz_pos: "0 < sz t"
  by (induction t) auto

lemma sz_leaves: "sz t = int (length (leaves t))"
  by (induction t) auto

lemma leaves_ne [simp]: "leaves t \<noteq> []"
  by (induction t) auto

lemma keys_simps [simp]:
  "keys (Leaf k v) = {k}" "keys (Inner k l r) = keys l \<union> keys r"
  by (auto simp: keys_def)

lemma min_key_simps [simp]: "min_key (Leaf k v) = k" "min_key (Inner k l r) = min_key l"
  by (auto simp: min_key_def hd_append)

lemma min_key_in [simp]: "min_key t \<in> keys t"
  using hd_in_set [OF leaves_ne, of t] by (auto simp: min_key_def keys_def)

lemma min_key_le: "bst t \<Longrightarrow> x \<in> keys t \<Longrightarrow> min_key t \<le> x"
proof (induction t)
  case (Inner k l r)
  show ?case
  proof (cases "x \<in> keys l")
    case False
    then have "min_key l < k" "k \<le> x" using Inner.prems by auto
    then show ?thesis by simp
  qed (use Inner in auto)
qed simp

lemma bst_sorted: "bst t \<Longrightarrow> sorted_wrt (<) (map fst (leaves t))"
proof (induction t)
  case (Inner k l r)
  have "x < y" if "x \<in> fst ` set (leaves l)" "y \<in> fst ` set (leaves r)" for x y
    using Inner.prems that by (auto simp: keys_def [symmetric] intro: less_le_trans [of x k y])
  with Inner show ?case by (simp add: sorted_wrt_append)
qed simp

lemma bst_distinct: "bst t \<Longrightarrow> distinct (map fst (leaves t))"
  using bst_sorted strict_sorted_iff by blast

subsection \<open>Rotations and balancing\<close>

lemma rotR_leaves [simp]: "leaves (rotR t) = leaves t"
  by (cases t rule: rotR.cases) auto

lemma rotL_leaves [simp]: "leaves (rotL t) = leaves t"
  by (cases t rule: rotL.cases) auto

lemma bal_leaves [simp]: "leaves (bal t) = leaves t"
  by (cases t) auto

lemma leaves_eqs: "leaves t = leaves t' \<Longrightarrow> keys t = keys t'" "leaves t = leaves t' \<Longrightarrow> min_key t = min_key t'"
  by (simp_all add: keys_def min_key_def)

lemma keys_rot [simp]:
  "keys (rotR t) = keys t" "keys (rotL t) = keys t" "keys (bal t) = keys t"
  "min_key (rotR t) = min_key t" "min_key (rotL t) = min_key t" "min_key (bal t) = min_key t"
  by (simp_all add: keys_def min_key_def)

lemma rotR_bst: "bst t \<Longrightarrow> bst (rotR t)"
proof (cases t rule: rotR.cases)
  case (1 k k2 a b c)
  assume "bst t"
  moreover from this have "k2 < k" "k2 \<le> x" if "x \<in> keys c" for x
    using 1 that min_key_in [of b] less_le_trans [of k2 k x] by (auto simp: less_imp_le)
  ultimately show ?thesis using 1 by auto
qed auto

lemma rotL_bst: "bst t \<Longrightarrow> bst (rotL t)"
proof (cases t rule: rotL.cases)
  case (1 k a k2 b c)
  assume "bst t"
  moreover from this have "x < k2" if "x \<in> keys a" for x
    using 1 that min_key_in [of b] less_trans [of x k k2] by auto
  ultimately show ?thesis using 1 by auto
qed auto

lemma bal_bst: "bst t \<Longrightarrow> bst (bal t)"
proof (cases t)
  case (Inner k l r)
  assume "bst t"
  with Inner have "bst (Inner k (if skew l \<ge> 0 then l else rotL l) r)"
    "bst (Inner k l (if skew r \<le> 0 then r else rotR r))"
    by (auto simp: rotL_bst rotR_bst)
  then have "bst (rotR (Inner k (if skew l \<ge> 0 then l else rotL l) r))"
    "bst (rotL (Inner k l (if skew r \<le> 0 then r else rotR r)))"
    by (simp_all only: rotR_bst rotL_bst)
  with Inner \<open>bst t\<close> show ?thesis
    by (simp only: bal.simps simp_thms split: if_split)
qed simp

lemma ht_cases:
  obtains (leaf) k v where "t = Leaf k v" "ht t = 0" | (inner) k l r where "t = Inner k l r" "1 \<le> ht t"
  by (cases t) (auto simp: le_max_iff_disj)

lemma bal_avl_left:
  assumes "avl l" "avl r" "ht l = ht r + 2"
  shows "avl (bal (Inner k l r)) \<and> ht (bal (Inner k l r)) \<in> {ht l, ht l + 1}"
proof (cases l)
  case (Leaf k' v)
  with assms(3) ht_nonneg [of r] show ?thesis by simp
next
  case l: (Inner k2 a b)
  show ?thesis
  proof (cases "ht a - ht b \<ge> 0")
    case True
    with assms l show ?thesis by (auto simp: max_def)
  next
    case False
    with assms l have hb: "ht b = ht a + 1" by auto
    then obtain k3 c d where b: "b = Inner k3 c d"
      using ht_nonneg [of a] by (cases b) auto
    from assms l False b hb show ?thesis by (auto simp: max_def)
  qed
qed

lemma bal_avl_right:
  assumes "avl l" "avl r" "ht r = ht l + 2"
  shows "avl (bal (Inner k l r)) \<and> ht (bal (Inner k l r)) \<in> {ht r, ht r + 1}"
proof (cases r)
  case (Leaf k' v)
  with assms(3) ht_nonneg [of l] show ?thesis by simp
next
  case r: (Inner k2 a b)
  show ?thesis
  proof (cases "ht a - ht b \<le> 0")
    case True
    with assms r show ?thesis by (auto simp: max_def)
  next
    case False
    with assms r have ha: "ht a = ht b + 1" by auto
    then obtain k3 c d where a: "a = Inner k3 c d"
      using ht_nonneg [of b] by (cases a) auto
    from assms r False a ha show ?thesis by (auto simp: max_def)
  qed
qed

lemma bal_id: "ht l - ht r \<in> {-1, 0, 1} \<Longrightarrow> bal (Inner k l r) = Inner k l r"
  by auto

text \<open>Balancing after one subtree has changed its height by at most one.\<close>

lemma bal_avl:
  assumes "avl l" "avl r" "\<bar>ht l - ht r\<bar> \<le> 2"
  shows "avl (bal (Inner k l r))"
    and "ht (bal (Inner k l r)) \<in> {max (ht l) (ht r), max (ht l) (ht r) + 1}"
    and "\<bar>ht l - ht r\<bar> \<le> 1 \<Longrightarrow> ht (bal (Inner k l r)) = max (ht l) (ht r) + 1"
proof -
  consider "ht l = ht r + 2" | "ht r = ht l + 2" | "ht l - ht r \<in> {-1, 0, 1}"
    using assms(3) by fastforce
  then have "avl (bal (Inner k l r)) \<and> ht (bal (Inner k l r)) \<in> {max (ht l) (ht r), max (ht l) (ht r) + 1} \<and>
      (\<bar>ht l - ht r\<bar> \<le> 1 \<longrightarrow> ht (bal (Inner k l r)) = max (ht l) (ht r) + 1)"
  proof cases
    case 1
    with bal_avl_left [OF assms(1,2) 1] show ?thesis by (simp add: max_def del: bal.simps)
  next
    case 2
    with bal_avl_right [OF assms(1,2) 2] show ?thesis by (simp add: max_def del: bal.simps)
  next
    case 3
    with assms show ?thesis by (simp add: bal_id del: bal.simps)
  qed
  then show "avl (bal (Inner k l r))" "ht (bal (Inner k l r)) \<in> {max (ht l) (ht r), max (ht l) (ht r) + 1}"
    "\<bar>ht l - ht r\<bar> \<le> 1 \<Longrightarrow> ht (bal (Inner k l r)) = max (ht l) (ht r) + 1" by blast+
qed

declare bal.simps(2) [simp del]

lemma bal_arith:
  fixes a b a' b' h :: int
  assumes "\<bar>a - b\<bar> \<le> 1" and "a' = a \<and> \<bar>b' - b\<bar> \<le> 1 \<or> b' = b \<and> \<bar>a' - a\<bar> \<le> 1"
    and "h = max a' b' \<or> h = max a' b' + 1" and "\<bar>a' - b'\<bar> \<le> 1 \<longrightarrow> h = max a' b' + 1"
  shows "a \<le> a' \<Longrightarrow> b \<le> b' \<Longrightarrow> max a b + 1 \<le> h \<and> h \<le> max a b + 1 + 1"
    and "a' \<le> a \<Longrightarrow> b' \<le> b \<Longrightarrow> max a b + 1 - 1 \<le> h \<and> h \<le> max a b + 1"
proof -
  consider "a' \<le> b'" "h = b' + 1" | "a' \<le> b'" "h = b'" "a' + 1 < b'" | "b' \<le> a'" "h = a' + 1" | "b' \<le> a'" "h = a'" "b' + 1 < a'"
    using assms(3,4) by (cases "a' \<le> b'") (auto simp: max_def)
  note c = this
  show "a \<le> a' \<Longrightarrow> b \<le> b' \<Longrightarrow> max a b + 1 \<le> h \<and> h \<le> max a b + 1 + 1"
    using c assms(1,2) by cases (auto simp: max_def abs_le_iff)
  show "a' \<le> a \<Longrightarrow> b' \<le> b \<Longrightarrow> max a b + 1 - 1 \<le> h \<and> h \<le> max a b + 1"
    using c assms(1,2) by cases (auto simp: max_def abs_le_iff)
qed

lemma bal_change:
  assumes "avl (Inner k l r)" and "avl l'" and "avl r'"
    and "l' = l \<and> \<bar>ht r' - ht r\<bar> \<le> 1 \<or> r' = r \<and> \<bar>ht l' - ht l\<bar> \<le> 1"
  shows "avl (bal (Inner k' l' r'))"
    and "ht l \<le> ht l' \<Longrightarrow> ht r \<le> ht r' \<Longrightarrow>
           ht (Inner k l r) \<le> ht (bal (Inner k' l' r')) \<and> ht (bal (Inner k' l' r')) \<le> ht (Inner k l r) + 1"
    and "ht l' \<le> ht l \<Longrightarrow> ht r' \<le> ht r \<Longrightarrow>
           ht (Inner k l r) - 1 \<le> ht (bal (Inner k' l' r')) \<and> ht (bal (Inner k' l' r')) \<le> ht (Inner k l r)"
proof -
  have near: "\<bar>ht l - ht r\<bar> \<le> 1" using assms(1) by auto
  have h: "ht l' = ht l \<and> \<bar>ht r' - ht r\<bar> \<le> 1 \<or> ht r' = ht r \<and> \<bar>ht l' - ht l\<bar> \<le> 1"
    using assms(4) by auto
  with near have d: "\<bar>ht l' - ht r'\<bar> \<le> 2" by linarith
  note b = bal_avl [OF assms(2,3) d, of k']
  show "avl (bal (Inner k' l' r'))" by (rule b(1))
  have m: "ht (bal (Inner k' l' r')) = max (ht l') (ht r') \<or> ht (bal (Inner k' l' r')) = max (ht l') (ht r') + 1"
    using b(2) by blast
  note arith = bal_arith [OF near h m] b(3)
  show "ht l \<le> ht l' \<Longrightarrow> ht r \<le> ht r' \<Longrightarrow>
      ht (Inner k l r) \<le> ht (bal (Inner k' l' r')) \<and> ht (bal (Inner k' l' r')) \<le> ht (Inner k l r) + 1"
    unfolding ht.simps using arith by blast
  show "ht l' \<le> ht l \<Longrightarrow> ht r' \<le> ht r \<Longrightarrow>
      ht (Inner k l r) - 1 \<le> ht (bal (Inner k' l' r')) \<and> ht (bal (Inner k' l' r')) \<le> ht (Inner k l r)"
    unfolding ht.simps using arith by blast
qed

subsection \<open>Insertion\<close>

lemma ins_avl:
  "avl t \<Longrightarrow> ins k v t = (t', u) \<Longrightarrow> avl t' \<and> ht t \<le> ht t' \<and> ht t' \<le> ht t + (if u then 0 else 1)"
proof (induction t arbitrary: t' u)
  case (Inner k' l r)
  show ?case
  proof (cases "k < k'")
    case True
    obtain l' where l': "ins k v l = (l', u)" and t': "t' = (if u then Inner k' l' r else bal (Inner k' l' r))"
      using Inner.prems True by (auto split: prod.splits if_splits)
    with Inner.IH(1) [OF _ l'] Inner.prems(1)
    have *: "avl l'" "ht l \<le> ht l'" "ht l' \<le> ht l + (if u then 0 else 1)" by auto
    then show ?thesis
      using t' Inner.prems(1) bal_change [OF Inner.prems(1) *(1), of r k'] by (cases u) auto
  next
    case False
    obtain r' where r': "ins k v r = (r', u)" and t': "t' = (if u then Inner k' l r' else bal (Inner k' l r'))"
      using Inner.prems False by (auto split: prod.splits if_splits)
    with Inner.IH(2) [OF _ r'] Inner.prems(1)
    have *: "avl r'" "ht r \<le> ht r'" "ht r' \<le> ht r + (if u then 0 else 1)" by auto
    then show ?thesis
      using t' Inner.prems(1) bal_change [OF Inner.prems(1) _ *(1), of l k'] by (cases u) auto
  qed
qed (auto split: if_splits)

text \<open>Inserting into the key-ordered list of leaves.\<close>

fun upsert :: "bytes \<Rightarrow> bytes option \<Rightarrow> (bytes \<times> bytes option) list \<Rightarrow> (bytes \<times> bytes option) list" where
  "upsert k v [] = [(k, v)]"
| "upsert k v ((k', v') # xs) =
     (if k < k' then (k, v) # (k', v') # xs
      else if k = k' then (k, v) # xs
      else (k', v') # upsert k v xs)"

lemma upsert_append1: "\<forall>x \<in> set ys. k < fst x \<Longrightarrow> ys \<noteq> [] \<Longrightarrow> upsert k v (xs @ ys) = upsert k v xs @ ys"
  by (induction k v xs rule: upsert.induct) (auto simp: neq_Nil_conv)

lemma upsert_append2: "\<forall>x \<in> set xs. fst x < k \<Longrightarrow> upsert k v (xs @ ys) = xs @ upsert k v ys"
  by (induction xs) auto

lemma set_upsert: "fst ` set (upsert k v xs) = insert k (fst ` set xs)"
  by (induction k v xs rule: upsert.induct) auto

lemma ins_leaves: "bst t \<Longrightarrow> leaves (fst (ins k v t)) = upsert k v (leaves t)"
proof (induction t)
  case (Inner k' l r)
  show ?case
  proof (cases "k < k'")
    case True
    then have "\<forall>x \<in> set (leaves r). k < fst x"
      using Inner.prems by (force simp: keys_def intro: less_le_trans)
    with Inner True show ?thesis
      by (auto simp: upsert_append1 split: prod.splits)
  next
    case False
    then have "\<forall>x \<in> set (leaves l). fst x < k"
      using Inner.prems by (force simp: keys_def not_less intro: less_le_trans)
    with Inner False show ?thesis
      by (auto simp: upsert_append2 split: prod.splits)
  qed
qed auto

lemma ins_keys: "bst t \<Longrightarrow> keys (fst (ins k v t)) = insert k (keys t)"
  by (simp add: keys_def ins_leaves set_upsert)

lemma min_upsert: "xs \<noteq> [] \<Longrightarrow> fst (hd (upsert k v xs)) = min k (fst (hd xs))"
  by (cases xs) (auto simp: min_def)

lemma ins_min: "bst t \<Longrightarrow> min_key (fst (ins k v t)) = min k (min_key t)"
  by (simp add: min_key_def ins_leaves min_upsert)

lemma ins_bst: "bst t \<Longrightarrow> bst (fst (ins k v t))"
proof (induction t)
  case (Inner k' l r)
  show ?case
  proof (cases "k < k'")
    case True
    with Inner have "bst (Inner k' (fst (ins k v l)) r)"
      by (auto simp: ins_keys)
    with True show ?thesis
      by (auto intro: bal_bst split: prod.splits)
  next
    case False
    with Inner have "bst (Inner k' l (fst (ins k v r)))"
      by (auto simp: ins_keys ins_min min_def)
    with False show ?thesis
      by (auto intro: bal_bst split: prod.splits)
  qed
qed (auto simp: not_less less_le)

lemma ins_updated: "bst t \<Longrightarrow> snd (ins k v t) \<longleftrightarrow> k \<in> keys t"
proof (induction t)
  case (Inner k' l r)
  show ?case
  proof (cases "k < k'")
    case True
    moreover from True Inner.prems have "k \<notin> keys r" by auto
    ultimately show ?thesis using Inner by (auto split: prod.splits)
  next
    case False
    moreover from False Inner.prems have "k \<notin> keys l" by auto
    ultimately show ?thesis using Inner by (auto split: prod.splits)
  qed
qed auto

lemma map_of_upsert: "sorted_wrt (<) (map fst xs) \<Longrightarrow> map_of (upsert k v xs) = (map_of xs)(k \<mapsto> v)"
  by (induction k v xs rule: upsert.induct) (auto simp: fun_eq_iff)

lemma ins_map: "bst t \<Longrightarrow> to_map (fst (ins k v t)) = (to_map t)(k \<mapsto> v)"
  by (simp add: to_map_def ins_leaves map_of_upsert bst_sorted)

subsection \<open>Lookup\<close>

lemma to_map_Inner: "to_map (Inner k l r) = to_map r ++ to_map l"
  by (simp add: to_map_def)

lemma dom_to_map: "dom (to_map t) = keys t"
  by (simp add: to_map_def keys_def dom_map_of_conv_image_fst)

lemma to_map_None: "k \<notin> keys t \<Longrightarrow> to_map t k = None"
  using dom_to_map [of t] by blast

lemma to_map_branch:
  "bst (Inner k' l r) \<Longrightarrow> to_map (Inner k' l r) k = (if k < k' then to_map l k else to_map r k)"
proof -
  assume b: "bst (Inner k' l r)"
  then have "k < k' \<Longrightarrow> to_map r k = None" "\<not> k < k' \<Longrightarrow> to_map l k = None"
    by (auto intro!: to_map_None)
  then show ?thesis
    by (auto simp: to_map_Inner map_add_def split: option.split)
qed

lemma look_correct:
  "bst t \<Longrightarrow> look k t = (int (length (filter (\<lambda>x. fst x < k) (leaves t))),
                         (case to_map t k of None \<Rightarrow> None | Some v \<Rightarrow> v), k \<in> keys t)"
proof (induction t)
  case (Leaf k' v)
  then show ?case by (auto simp: to_map_def)
next
  case (Inner k' l r)
  show ?case
  proof (cases "k < k'")
    case True
    with Inner.prems have "filter (\<lambda>x. fst x < k) (leaves r) = []" "k \<notin> keys r"
      by (auto simp: filter_empty_conv keys_def)
    with Inner.IH Inner.prems True to_map_branch [OF Inner.prems, of k] show ?thesis by simp
  next
    case False
    have "filter (\<lambda>x. fst x < k) (leaves l) = leaves l"
      using Inner.prems False by (auto simp: filter_id_conv keys_def not_less intro: less_le_trans)
    moreover have "k \<notin> keys l" using Inner.prems False by auto
    ultimately show ?thesis
      using Inner.IH Inner.prems False to_map_branch [OF Inner.prems, of k] by (simp add: sz_leaves)
  qed
qed

lemma nth_leaf_correct:
  "nth_leaf i t = (if 0 \<le> i \<and> i < sz t then Some (leaves t ! nat i) else None)"
proof (induction t arbitrary: i)
  case (Inner k l r)
  then show ?case
    using sz_pos [of l] sz_pos [of r] by (auto simp: nth_append sz_leaves nat_diff_distrib)
qed auto

subsection \<open>Removal\<close>

definition without :: "bytes \<Rightarrow> (bytes \<times> bytes option) list \<Rightarrow> (bytes \<times> bytes option) list" where
  "without k xs = filter (\<lambda>x. fst x \<noteq> k) xs"

lemma without_append [simp]: "without k (xs @ ys) = without k xs @ without k ys"
  by (simp add: without_def)

lemma without_id: "k \<notin> keys t \<Longrightarrow> without k (leaves t) = leaves t"
  by (auto simp: without_def keys_def filter_id_conv)

lemma rem_None: "bst t \<Longrightarrow> rem k t = None \<longleftrightarrow> k \<notin> keys t"
proof (induction t)
  case (Inner k' l r)
  show ?case
  proof (cases "k < k'")
    case True
    moreover from True Inner.prems have "k \<notin> keys r" by auto
    ultimately show ?thesis using Inner by (auto split: option.splits prod.splits)
  next
    case False
    moreover from False Inner.prems have "k \<notin> keys l" by auto
    ultimately show ?thesis using Inner by (auto split: option.splits prod.splits)
  qed
qed auto

lemma rem_leaf: "rem k t = Some (None, nk, v) \<Longrightarrow> t = Leaf k v \<and> nk = None"
  by (cases t) (auto split: if_splits option.splits prod.splits)

lemma rem_Inner_cases:
  assumes "rem k (Inner k' l r) = Some (Some t', nk, v)"
  obtains (left_gone) "k < k'" "l = Leaf k v" "t' = r" "nk = Some k'"
    | (left) l' where "k < k'" "rem k l = Some (Some l', nk, v)" "t' = bal (Inner k' l' r)"
    | (right_gone) "\<not> k < k'" "r = Leaf k v" "t' = l" "nk = None"
    | (right) r' nk' where "\<not> k < k'" "rem k r = Some (Some r', nk', v)" "nk = None"
        "t' = bal (Inner (case nk' of None \<Rightarrow> k' | Some k'' \<Rightarrow> k'') l r')"
proof (cases "k < k'")
  case True
  with assms obtain o1 n1 v1 where l: "rem k l = Some (o1, n1, v1)"
    by (auto split: option.splits)
  show thesis
  proof (cases o1)
    case None
    with l rem_leaf [of k l] True assms show thesis by (intro left_gone) auto
  next
    case (Some l')
    with l True assms show thesis by (intro left [of l']) auto
  qed
next
  case False
  with assms obtain o1 n1 v1 where r: "rem k r = Some (o1, n1, v1)"
    by (auto split: option.splits)
  show thesis
  proof (cases o1)
    case None
    with r rem_leaf [of k r] False assms show thesis by (intro right_gone) auto
  next
    case (Some r')
    with r False assms show thesis by (intro right [of r' n1]) auto
  qed
qed

lemma rem_correct:
  "bst t \<Longrightarrow> rem k t = Some (Some t', nk, v) \<Longrightarrow>
     bst t' \<and> leaves t' = without k (leaves t) \<and> to_map t k = Some v \<and>
     nk = (if k = min_key t then Some (min_key t') else None)"
proof (induction t arbitrary: t' nk v)
  case (Leaf k' v')
  then show ?case by (simp split: if_splits)
next
  case (Inner k' l r)
  note b = Inner.prems(1)
  from Inner.prems(2) show ?case
  proof (cases rule: rem_Inner_cases)
    case left_gone
    then have "without k (leaves r) = leaves r" using b by (intro without_id) auto
    with left_gone b to_map_branch [OF b, of k] show ?thesis by (simp add: without_def to_map_def)
  next
    case (left l')
    then have kr: "without k (leaves r) = leaves r" using b by (intro without_id) auto
    from left have l': "bst l'" "leaves l' = without k (leaves l)" "to_map l k = Some v"
      "nk = (if k = min_key l then Some (min_key l') else None)"
      using Inner.IH(1) [OF _ left(2)] b by auto
    have "keys l' \<subseteq> keys l" by (auto simp: keys_def l'(2) without_def)
    then have "bst (Inner k' l' r)" using b l' by auto
    with left l' kr to_map_branch [OF b, of k] show ?thesis by (auto intro: bal_bst)
  next
    case right_gone
    then have "k \<notin> keys l" using b by auto
    then have "without k (leaves l) = leaves l" "k \<noteq> min_key l" by (auto intro: without_id)
    with right_gone b to_map_branch [OF b, of k] show ?thesis by (simp add: without_def to_map_def)
  next
    case (right r' nk')
    then have "k \<notin> keys l" using b by auto
    then have kl: "without k (leaves l) = leaves l" "k \<noteq> min_key l" by (auto intro: without_id)
    from right have r': "bst r'" "leaves r' = without k (leaves r)" "to_map r k = Some v"
      "nk' = (if k = min_key r then Some (min_key r') else None)"
      using Inner.IH(2) [OF _ right(2)] b by auto
    have sub: "keys r' \<subseteq> keys r" by (auto simp: keys_def r'(2) without_def)
    have mr: "min_key r' = min_key r" if "k \<noteq> min_key r"
      using that unfolding min_key_def r'(2) without_def by (cases "leaves r") auto
    have k'': "(case nk' of None \<Rightarrow> k' | Some k'' \<Rightarrow> k'') = min_key r'"
      using r'(4) mr b by auto
    have "min_key r' \<in> keys r" using sub min_key_in by (rule subsetD)
    then have "k' \<le> min_key r'" using b by auto
    then have "\<forall>x \<in> keys l. x < min_key r'" using b by (auto intro: less_le_trans)
    then have "bst (Inner (min_key r') l r')"
      using b r'(1) min_key_le [OF r'(1)] by auto
    with k'' right r' kl to_map_branch [OF b, of k] show ?thesis by (auto intro: bal_bst)
  qed
qed

lemma rem_avl:
  "avl t \<Longrightarrow> rem k t = Some (Some t', nk, v) \<Longrightarrow> avl t' \<and> ht t - 1 \<le> ht t' \<and> ht t' \<le> ht t"
proof (induction t arbitrary: t' nk v)
  case (Leaf k' v')
  then show ?case by (simp split: if_splits)
next
  case (Inner k' l r)
  note a = Inner.prems(1)
  from Inner.prems(2) show ?case
  proof (cases rule: rem_Inner_cases)
    case left_gone
    with a show ?thesis by (auto simp: max_def)
  next
    case (left l')
    with Inner.IH(1) [OF _ left(2)] a have "avl l'" "ht l - 1 \<le> ht l'" "ht l' \<le> ht l" by auto
    with bal_change(1,3) [OF a \<open>avl l'\<close>, of r k'] a left(3) show ?thesis by auto
  next
    case right_gone
    with a show ?thesis by (auto simp: max_def)
  next
    case (right r' nk')
    with Inner.IH(2) [OF _ right(2)] a have "avl r'" "ht r - 1 \<le> ht r'" "ht r' \<le> ht r" by auto
    with bal_change(1,3) [OF a _ \<open>avl r'\<close>, of l] a right(4) show ?thesis by auto
  qed
qed

subsection \<open>Height\<close>

text \<open>A balanced tree of height \<open>h\<close> has at least \<open>2\<close> to the power \<open>h / 2\<close> leaves.\<close>

lemma sq_sum_bound:
  fixes a b :: int
  assumes "0 \<le> a" "0 \<le> b" "2 ^ n \<le> a\<^sup>2" "2 ^ n \<le> b\<^sup>2"
  shows "2 ^ n \<le> a * b"
proof -
  have "(2 ^ n)\<^sup>2 \<le> (a * b)\<^sup>2"
    using assms mult_mono [of "2 ^ n" "a\<^sup>2" "2 ^ n" "b\<^sup>2"] by (simp add: power2_eq_square ac_simps)
  then show ?thesis
    using assms by (simp add: power2_le_iff_abs_le)
qed

lemma avl_size: "avl t \<Longrightarrow> 2 ^ nat (ht t) \<le> (sz t)\<^sup>2"
proof (induction t)
  case (Inner k l r)
  have l: "2 ^ nat (ht l) \<le> (sz l)\<^sup>2" and r: "2 ^ nat (ht r) \<le> (sz r)\<^sup>2" using Inner by auto
  have pos: "0 \<le> sz l" "0 \<le> sz r" using sz_pos [of l] sz_pos [of r] by auto
  define m where "m = nat (min (ht l) (ht r))"
  have m: "2 ^ m \<le> (sz l)\<^sup>2" "2 ^ m \<le> (sz r)\<^sup>2"
    using order_trans [OF power_increasing l] order_trans [OF power_increasing r] by (simp_all add: m_def)
  have p: "2 ^ m \<le> sz l * sz r" "0 \<le> (2 ^ m :: int)" using sq_sum_bound [OF pos m] by simp_all
  have q: "(sz (Inner k l r))\<^sup>2 = (sz l)\<^sup>2 + (sz r)\<^sup>2 + 2 * (sz l * sz r)"
    by (simp add: power2_sum)
  consider "ht l = ht r" | "ht l = ht r + 1" | "ht r = ht l + 1" using Inner.prems by force
  then show ?case
  proof cases
    case 1
    then have "nat (ht (Inner k l r)) = Suc m" by (simp add: m_def nat_add_distrib)
    with p m show ?thesis unfolding q by (simp only: power_Suc)
  next
    case 2
    then have "nat (ht (Inner k l r)) = Suc (Suc m)" "nat (ht l) = Suc m" by (simp_all add: m_def nat_add_distrib)
    with p m l show ?thesis unfolding q by (simp only: power_Suc)
  next
    case 3
    then have "nat (ht (Inner k l r)) = Suc (Suc m)" "nat (ht r) = Suc m" by (simp_all add: m_def nat_add_distrib)
    with p m r show ?thesis unfolding q by (simp only: power_Suc)
  qed
qed simp

end
