(* ===== verification/MavlNode.thy ===== *)
theory MavlNode
  imports Prelude
begin

text \<open>
  The nodes, trees and node database of \<^verbatim>\<open>src/system/store/mavl/db\<close> (\<^verbatim>\<open>node.go\<close>, \<^verbatim>\<open>tree.go\<close>,
  \<^verbatim>\<open>proof.go\<close>). A tree's methods change the tree's node database (its cache, its batch, its
  orphans), so they are programs over a \<open>Tree\<close>. Nodes are values: the code copies a node before
  it changes it, and \<^verbatim>\<open>Hash\<close> and \<^verbatim>\<open>save\<close>, which fill in fields, return the node they filled in.

  Children that are not in memory are loaded from the database by their hash, so the recursive
  methods take fuel; running out of it is a panic of its own, and the refinement shows that the
  height of the tree is enough. Pruning (\<^verbatim>\<open>enablePrune\<close>) and the process-wide memory tree
  (\<^verbatim>\<open>enableMemTree\<close>), both off by default, are not modelled; the key prefix (\<^verbatim>\<open>enableMavlPrefix\<close>)
  and the value-less leaves (\<^verbatim>\<open>enableMvcc\<close>) are. SHA-256, the protobuf encodings and the eviction
  policy of the cache are parameters (\<open>mavl_env\<close>).
\<close>

datatype Node = Node
  (nkey: bytes)
  (nvalue: "bytes option")
  (nheight: int)
  (nsize: int)
  (nhash: "bytes option")
  (leftHash: "bytes option")
  (leftNode: "Node option")
  (rightHash: "bytes option")
  (rightNode: "Node option")
  (persisted: bool)

record StoreNode =
  snKey :: bytes
  snValue :: "bytes option"
  snLeftHash :: "bytes option"
  snRightHash :: "bytes option"
  snHeight :: int
  snSize :: int

record mavl_env =
  enableMavlPrefix :: bool
  enableMvcc :: bool
  sha256 :: "bytes \<Rightarrow> bytes"
  EncodeLeaf :: "bytes \<Rightarrow> bytes option \<Rightarrow> int \<Rightarrow> int \<Rightarrow> bytes"
  EncodeInner :: "bytes option \<Rightarrow> bytes option \<Rightarrow> int \<Rightarrow> int \<Rightarrow> bytes"
  MarshalStore :: "StoreNode \<Rightarrow> bytes"
  UnmarshalStore :: "bytes \<Rightarrow> StoreNode option"
  cacheAdd :: "(bytes \<rightharpoonup> Node) \<Rightarrow> bytes \<Rightarrow> Node \<Rightarrow> (bytes \<rightharpoonup> Node)"
  batchWrite :: "(bytes \<times> bytes) list \<Rightarrow> error option"
  fmtHeight :: "int \<Rightarrow> string"

record nodeDB =
  cache :: "(bytes \<rightharpoonup> Node) option"
  ndb_db :: "bytes \<rightharpoonup> bytes"
  batch :: "(bytes \<times> bytes) list option"
  orphans :: "bytes set"

record Tree =
  root :: "Node option"
  ndb :: "nodeDB option"
  blockHeight :: int

subsection \<open>Node database (tree.go)\<close>

definition NewNode :: "bytes \<Rightarrow> bytes option \<Rightarrow> Node" where
  "NewNode k v = Node k v 0 1 None None None None None False"

text \<open>\<^verbatim>\<open>MakeNode\<close>, with the hash and the mark \<^verbatim>\<open>GetNode\<close> adds.\<close>

definition MakeNode :: "bytes \<Rightarrow> StoreNode \<Rightarrow> Node" where
  "MakeNode h s =
     (if snHeight s = 0 then Node (snKey s) (snValue s) 0 (snSize s) (Some h) None None None None True
      else Node (snKey s) None (snHeight s) (snSize s) (Some h) (snLeftHash s) None (snRightHash s) None True)"

definition newNodeDB :: "(bytes \<rightharpoonup> Node) option \<Rightarrow> (bytes \<rightharpoonup> bytes) \<Rightarrow> nodeDB" where
  "newNodeDB c db = \<lparr>cache = c, ndb_db = db, batch = Some [], orphans = {}\<rparr>"

definition cacheNode :: "mavl_env \<Rightarrow> Node \<Rightarrow> nodeDB \<Rightarrow> nodeDB" where
  "cacheNode env n d =
     (case cache d of
        None \<Rightarrow> d
      | Some c \<Rightarrow>
          if nheight n > 2
          then d\<lparr>cache := Some (cacheAdd env c (case nhash n of None \<Rightarrow> [] | Some h \<Rightarrow> h) n)\<rparr> else d)"

definition GetNode :: "mavl_env \<Rightarrow> bytes \<Rightarrow> (Tree, Node) prog" where
  "GetNode env h t =
     (case ndb t of
        None \<Rightarrow> panic ''nil pointer'' t
      | Some d \<Rightarrow>
          (case (case cache d of None \<Rightarrow> None | Some c \<Rightarrow> c h) of
             Some n \<Rightarrow> ret n t
           | None \<Rightarrow>
               (case ndb_db d h of
                  None \<Rightarrow> fail ErrNodeNotExist t
                | Some buf \<Rightarrow>
                    if buf = [] then fail ErrNodeNotExist t
                    else (case UnmarshalStore env buf of
                            None \<Rightarrow> panic ''Error reading IAVLNode'' t
                          | Some s \<Rightarrow>
                              (let n = MakeNode h s
                               in ret n (t\<lparr>ndb := Some (cacheNode env n d)\<rparr>))))))"

definition RemoveNode :: "Node \<Rightarrow> (Tree, unit) prog" where
  "RemoveNode n t =
     (case ndb t of
        None \<Rightarrow> panic ''nil pointer'' t
      | Some d \<Rightarrow>
          (case nhash n of
             None \<Rightarrow> panic ''Expected to find node.hash'' t
           | Some h \<Rightarrow>
               if \<not> persisted n then panic ''remove on a non-persisted node'' t
               else ret () (t\<lparr>ndb := Some (d\<lparr>cache := map_option (\<lambda>c. c(h := None)) (cache d),
                                             orphans := insert h (orphans d)\<rparr>)\<rparr>)))"

definition removeOrphan :: "Node \<Rightarrow> (Tree, unit) prog" where
  "removeOrphan n t =
     (if \<not> persisted n then ret () t
      else if ndb t = None then ret () t
      else RemoveNode n t)"

definition storeNode :: "mavl_env \<Rightarrow> Node \<Rightarrow> (Tree, bytes) prog" where
  "storeNode env n =
     (if nheight n = 0 then
        ret (MarshalStore env \<lparr>snKey = nkey n, snValue = (if enableMvcc env then None else nvalue n),
               snLeftHash = None, snRightHash = None, snHeight = nheight n, snSize = nsize n\<rparr>)
      else if leftHash n = None then panic ''node.leftHash was nil''
      else if rightHash n = None then panic ''node.rightHash was nil''
      else ret (MarshalStore env \<lparr>snKey = nkey n, snValue = None, snLeftHash = leftHash n,
               snRightHash = rightHash n, snHeight = nheight n, snSize = nsize n\<rparr>))"

definition set_persisted :: "Node \<Rightarrow> Node" where
  "set_persisted n = Node (nkey n) (nvalue n) (nheight n) (nsize n) (nhash n) (leftHash n) (leftNode n)
     (rightHash n) (rightNode n) True"

definition SaveNode :: "mavl_env \<Rightarrow> Node \<Rightarrow> (Tree, Node) prog" where
  "SaveNode env n =
     (case nhash n of
        None \<Rightarrow> panic ''Expected to find node.hash''
      | Some h \<Rightarrow>
          if persisted n then panic ''save on an already persisted node''
          else bind (storeNode env n) (\<lambda>b t.
            case ndb t of
              None \<Rightarrow> panic ''nil pointer'' t
            | Some d \<Rightarrow>
                (case batch d of
                   None \<Rightarrow> panic ''nil pointer'' t
                 | Some w \<Rightarrow>
                     (let n' = set_persisted n;
                          d' = cacheNode env n' (d\<lparr>batch := Some (w @ [(h, b)])\<rparr>)
                      in ret n' (t\<lparr>ndb := Some (d'\<lparr>orphans := orphans d' - {h}\<rparr>)\<rparr>)))))"

definition ndb_Commit :: "mavl_env \<Rightarrow> (Tree, unit) prog" where
  "ndb_Commit env t =
     (case ndb t of
        None \<Rightarrow> panic ''nil pointer'' t
      | Some d \<Rightarrow>
          (case batch d of
             None \<Rightarrow> panic ''nil pointer'' t
           | Some w \<Rightarrow>
               (case batchWrite env w of
                  Some e \<Rightarrow> fail e (t\<lparr>ndb := Some (d\<lparr>batch := None, orphans := {}\<rparr>)\<rparr>)
                | None \<Rightarrow>
                    ret () (t\<lparr>ndb := Some (d\<lparr>ndb_db := ndb_db d ++ map_of (rev w), batch := None,
                                             orphans := {}\<rparr>)\<rparr>))))"

subsection \<open>Nodes (node.go)\<close>

definition node_copy :: "Node \<Rightarrow> (Tree, Node) prog" where
  "node_copy n =
     (if nheight n = 0 then panic ''Why are you copying a value node?''
      else ret (Node (nkey n) None (nheight n) (nsize n) None (leftHash n) (leftNode n) (rightHash n)
                  (rightNode n) False))"

definition set_left :: "bytes option \<Rightarrow> Node option \<Rightarrow> Node \<Rightarrow> Node" where
  "set_left h c n = Node (nkey n) (nvalue n) (nheight n) (nsize n) (nhash n) h c (rightHash n) (rightNode n) (persisted n)"

definition set_right :: "bytes option \<Rightarrow> Node option \<Rightarrow> Node \<Rightarrow> Node" where
  "set_right h c n = Node (nkey n) (nvalue n) (nheight n) (nsize n) (nhash n) (leftHash n) (leftNode n) h c (persisted n)"

definition set_key :: "bytes \<Rightarrow> Node \<Rightarrow> Node" where
  "set_key k n = Node k (nvalue n) (nheight n) (nsize n) (nhash n) (leftHash n) (leftNode n) (rightHash n) (rightNode n) (persisted n)"

definition set_height_size :: "int \<Rightarrow> int \<Rightarrow> Node \<Rightarrow> Node" where
  "set_height_size h s n = Node (nkey n) (nvalue n) h s (nhash n) (leftHash n) (leftNode n) (rightHash n) (rightNode n) (persisted n)"

definition bytes_of :: "bytes option \<Rightarrow> bytes" where
  "bytes_of h = (case h of None \<Rightarrow> [] | Some x \<Rightarrow> x)"

definition getLeftNode :: "mavl_env \<Rightarrow> Node \<Rightarrow> (Tree, Node) prog" where
  "getLeftNode env n =
     (case leftNode n of Some l \<Rightarrow> ret l | None \<Rightarrow> must (GetNode env (bytes_of (leftHash n))))"

definition getRightNode :: "mavl_env \<Rightarrow> Node \<Rightarrow> (Tree, Node) prog" where
  "getRightNode env n =
     (case rightNode n of Some r \<Rightarrow> ret r | None \<Rightarrow> must (GetNode env (bytes_of (rightHash n))))"

definition maxInt32 :: "int \<Rightarrow> int \<Rightarrow> int" where
  "maxInt32 a b = (if a > b then a else b)"

definition calcHeightAndSize :: "mavl_env \<Rightarrow> Node \<Rightarrow> (Tree, Node) prog" where
  "calcHeightAndSize env n =
     bind (getLeftNode env n) (\<lambda>l. bind (getRightNode env n) (\<lambda>r.
       ret (set_height_size (i32 (maxInt32 (nheight l) (nheight r) + 1)) (i32 (nsize l + nsize r)) n)))"

definition calcBalance :: "mavl_env \<Rightarrow> Node \<Rightarrow> (Tree, int) prog" where
  "calcBalance env n =
     bind (getLeftNode env n) (\<lambda>l. bind (getRightNode env n) (\<lambda>r. ret (nheight l - nheight r)))"

text \<open>
  \<^verbatim>\<open>rotateRight\<close>: \<open>node\<close> becomes the right child of a copy of its left child. The child is attached
  before its height and size are recomputed; both are the same object in the code.
\<close>

definition rotateRight :: "mavl_env \<Rightarrow> Node \<Rightarrow> (Tree, Node) prog" where
  "rotateRight env n =
     bind (node_copy n) (\<lambda>node. bind (getLeftNode env node) (\<lambda>l. bind (removeOrphan l) (\<lambda>_.
     bind (node_copy l) (\<lambda>l'. bind (calcHeightAndSize env (set_left (rightHash l') (rightNode l') node)) (\<lambda>node'.
     calcHeightAndSize env (set_right (nhash node) (Some node') l'))))))"

definition rotateLeft :: "mavl_env \<Rightarrow> Node \<Rightarrow> (Tree, Node) prog" where
  "rotateLeft env n =
     bind (node_copy n) (\<lambda>node. bind (getRightNode env node) (\<lambda>r. bind (removeOrphan r) (\<lambda>_.
     bind (node_copy r) (\<lambda>r'. bind (calcHeightAndSize env (set_right (leftHash r') (leftNode r') node)) (\<lambda>node'.
     calcHeightAndSize env (set_left (nhash node) (Some node') r'))))))"

definition balance :: "mavl_env \<Rightarrow> Node \<Rightarrow> (Tree, Node) prog" where
  "balance env n =
     (if persisted n then panic ''Unexpected balance() call on persisted node''
      else bind (calcBalance env n) (\<lambda>b.
        if b > 1 then
          bind (getLeftNode env n) (\<lambda>l. bind (calcBalance env l) (\<lambda>bl.
            if bl \<ge> 0 then rotateRight env n
            else bind (getLeftNode env n) (\<lambda>left. bind (removeOrphan left) (\<lambda>_.
                   bind (rotateLeft env left) (\<lambda>left'. rotateRight env (set_left None (Some left') n))))))
        else if b < -1 then
          bind (getRightNode env n) (\<lambda>r. bind (calcBalance env r) (\<lambda>br.
            if br \<le> 0 then rotateLeft env n
            else bind (getRightNode env n) (\<lambda>right. bind (removeOrphan right) (\<lambda>_.
                   bind (rotateRight env right) (\<lambda>right'. rotateLeft env (set_right None (Some right') n))))))
        else ret n))"

fun node_has :: "nat \<Rightarrow> mavl_env \<Rightarrow> bytes \<Rightarrow> Node \<Rightarrow> (Tree, bool) prog" where
  "node_has 0 env k n = panic ''out of fuel''"
| "node_has (Suc f) env k n =
     (if nkey n = k then ret True
      else if nheight n = 0 then ret False
      else if k < nkey n then bind (getLeftNode env n) (node_has f env k)
      else bind (getRightNode env n) (node_has f env k))"

fun node_get :: "nat \<Rightarrow> mavl_env \<Rightarrow> bytes \<Rightarrow> Node \<Rightarrow> (Tree, int \<times> bytes option \<times> bool) prog" where
  "node_get 0 env k n = panic ''out of fuel''"
| "node_get (Suc f) env k n =
     (if nheight n = 0 then
        (if nkey n = k then ret (0, nvalue n, True)
         else if nkey n < k then ret (1, None, False)
         else ret (0, None, False))
      else if k < nkey n then bind (getLeftNode env n) (node_get f env k)
      else bind (getRightNode env n) (\<lambda>r. bind (node_get f env k r) (\<lambda>(i, v, e).
             ret (i32 (i + i32 (nsize n - nsize r)), v, e))))"

fun node_getHash :: "nat \<Rightarrow> mavl_env \<Rightarrow> bytes \<Rightarrow> Node \<Rightarrow> (Tree, int \<times> bytes option \<times> bool) prog" where
  "node_getHash 0 env k n = panic ''out of fuel''"
| "node_getHash (Suc f) env k n =
     (if nheight n = 0 then
        (if nkey n = k then ret (0, nhash n, True)
         else if nkey n < k then ret (1, None, False)
         else ret (0, None, False))
      else if k < nkey n then bind (getLeftNode env n) (node_getHash f env k)
      else bind (getRightNode env n) (\<lambda>r. bind (node_getHash f env k r) (\<lambda>(i, v, e).
             ret (i32 (i + i32 (nsize n - nsize r)), v, e))))"

fun node_getByIndex :: "nat \<Rightarrow> mavl_env \<Rightarrow> int \<Rightarrow> Node \<Rightarrow> (Tree, bytes \<times> bytes option) prog" where
  "node_getByIndex 0 env i n = panic ''out of fuel''"
| "node_getByIndex (Suc f) env i n =
     (if nheight n = 0 then
        (if i = 0 then ret (nkey n, nvalue n) else panic ''getByIndex asked for invalid index'')
      else bind (getLeftNode env n) (\<lambda>l.
        if i < nsize l then node_getByIndex f env i l
        else bind (getRightNode env n) (node_getByIndex f env (i32 (i - nsize l)))))"

fun node_set :: "nat \<Rightarrow> mavl_env \<Rightarrow> bytes \<Rightarrow> bytes option \<Rightarrow> Node \<Rightarrow> (Tree, Node \<times> bool) prog" where
  "node_set 0 env k v n = panic ''out of fuel''"
| "node_set (Suc f) env k v n =
     (if nheight n = 0 then
        (if k < nkey n then
           ret (Node (nkey n) None 1 2 None None (Some (NewNode k v)) None (Some n) False, False)
         else if k = nkey n then bind (removeOrphan n) (\<lambda>_. ret (NewNode k v, True))
         else ret (Node k None 1 2 None None (Some n) None (Some (NewNode k v)) False, False))
      else
        bind (removeOrphan n) (\<lambda>_. bind (node_copy n) (\<lambda>n.
        bind (if k < nkey n
              then bind (getLeftNode env n) (\<lambda>l. bind (node_set f env k v l) (\<lambda>(l', u).
                     ret (set_left None (Some l') n, u)))
              else bind (getRightNode env n) (\<lambda>r. bind (node_set f env k v r) (\<lambda>(r', u).
                     ret (set_right None (Some r') n, u)))) (\<lambda>(n, u).
        if u then ret (n, u)
        else bind (calcHeightAndSize env n) (\<lambda>n. bind (balance env n) (\<lambda>n. ret (n, u)))))))"

text \<open>The result of \<^verbatim>\<open>remove\<close>: \<open>newHash, newNode, newKey, value, removed\<close>.\<close>

fun node_remove :: "nat \<Rightarrow> mavl_env \<Rightarrow> bytes \<Rightarrow> Node \<Rightarrow>
    (Tree, bytes option \<times> Node option \<times> bytes option \<times> bytes option \<times> bool) prog" where
  "node_remove 0 env k n = panic ''out of fuel''"
| "node_remove (Suc f) env k n =
     (if nheight n = 0 then
        (if k = nkey n then bind (removeOrphan n) (\<lambda>_. ret (None, None, None, nvalue n, True))
         else ret (nhash n, Some n, None, None, False))
      else if k < nkey n then
        bind (getLeftNode env n) (\<lambda>l. bind (node_remove f env k l) (\<lambda>(newLeftHash, newLeftNode, newKey, v, removed).
          if \<not> removed then ret (nhash n, Some n, None, v, False)
          else if newLeftHash = None \<and> newLeftNode = None then
            ret (rightHash n, rightNode n, Some (nkey n), v, True)
          else bind (removeOrphan n) (\<lambda>_. bind (node_copy n) (\<lambda>n.
                 bind (calcHeightAndSize env (set_left newLeftHash newLeftNode n)) (\<lambda>n.
                 bind (balance env n) (\<lambda>n. ret (nhash n, Some n, newKey, v, True)))))))
      else
        bind (getRightNode env n) (\<lambda>r. bind (node_remove f env k r) (\<lambda>(newRightHash, newRightNode, newKey, v, removed).
          if \<not> removed then ret (nhash n, Some n, None, v, False)
          else if newRightHash = None \<and> newRightNode = None then
            ret (leftHash n, leftNode n, None, v, True)
          else bind (removeOrphan n) (\<lambda>_. bind (node_copy n) (\<lambda>n.
                 bind (calcHeightAndSize env
                         (let n' = set_right newRightHash newRightNode n
                          in case newKey of None \<Rightarrow> n' | Some k' \<Rightarrow> set_key k' n')) (\<lambda>n.
                 bind (balance env n) (\<lambda>n. ret (nhash n, Some n, None, v, True))))))))"

end
