(* ===== verification/MavlDB.thy ===== *)
theory MavlDB
  imports MavlNode
begin

text \<open>
  The rest of \<^verbatim>\<open>src/system/store/mavl/db\<close>: hashing and saving nodes (\<^verbatim>\<open>node.go\<close>), range traversal,
  the methods of \<^verbatim>\<open>Tree\<close> and the functions on a database (\<^verbatim>\<open>tree.go\<close>), inclusion proofs
  (\<^verbatim>\<open>proof.go\<close>), and the store module built on them (\<^verbatim>\<open>src/system/store/mavl/mavl.go\<close>).

  The fuel of an operation on a tree is one more than the height its root records.
\<close>

subsection \<open>Hashing (node.go, types.go)\<close>

definition trunc :: "bytes \<Rightarrow> bytes" where
  "trunc h = (if length h > 32 then drop (length h - 32) h else h)"

definition LeafNode_Hash :: "mavl_env \<Rightarrow> bytes \<Rightarrow> bytes option \<Rightarrow> int \<Rightarrow> int \<Rightarrow> bytes" where
  "LeafNode_Hash env k v h s = sha256 env (EncodeLeaf env k v h s)"

definition InnerNode_Hash :: "mavl_env \<Rightarrow> bytes option \<Rightarrow> bytes option \<Rightarrow> int \<Rightarrow> int \<Rightarrow> bytes" where
  "InnerNode_Hash env l r h s = sha256 env (EncodeInner env (map_option trunc l) (map_option trunc r) h s)"

definition genPrefixHashKey :: "mavl_env \<Rightarrow> int \<Rightarrow> int \<Rightarrow> bytes" where
  "genPrefixHashKey env height bh =
     (if height = 0 then ''_mb_'' else ''_mh_'') @ ''-'' @ fmtHeight env bh @ ''-''"

definition addPrefix :: "mavl_env \<Rightarrow> Tree \<Rightarrow> int \<Rightarrow> bytes \<Rightarrow> bytes outcome" where
  "addPrefix env t height h =
     (if enableMavlPrefix env then
        (case root t of
           None \<Rightarrow> Panic ''nil pointer''
         | Some r \<Rightarrow> if height \<noteq> nheight r then Ret (genPrefixHashKey env height (blockHeight t) @ h) else Ret h)
      else Ret h)"

fun node_Hash :: "mavl_env \<Rightarrow> Tree \<Rightarrow> Node \<Rightarrow> Node outcome" where
  "node_Hash env t (Node k v height sz hsh lh ln rh rn p) =
     (if hsh \<noteq> None then Ret (Node k v height sz hsh lh ln rh rn p)
      else if height = 0 then
        obind (addPrefix env t height (LeafNode_Hash env k v height sz)) (\<lambda>h.
          Ret (Node k v height sz (Some h) lh ln rh rn p))
      else
        obind (case ln of
                 None \<Rightarrow> Ret (lh, None)
               | Some l \<Rightarrow> obind (node_Hash env t l) (\<lambda>l'. Ret (nhash l', Some l'))) (\<lambda>(lh', ln').
        if lh' = None then Panic ''node.leftHash was nil''
        else
        obind (case rn of
                 None \<Rightarrow> Ret (rh, None)
               | Some r \<Rightarrow> obind (node_Hash env t r) (\<lambda>r'. Ret (nhash r', Some r'))) (\<lambda>(rh', rn').
        if rh' = None then Panic ''node.rightHash was nil''
        else
        obind (addPrefix env t height (InnerNode_Hash env lh' rh' height sz)) (\<lambda>h.
          Ret (Node k v height sz (Some h) lh' ln' rh' rn' p)))))"

declare node_Hash.simps [simp del]

definition run_outcome :: "(Tree \<Rightarrow> 'a outcome) \<Rightarrow> (Tree, 'a) prog" where
  "run_outcome f t = (f t, t)"

definition drop_left :: "Node \<Rightarrow> Node" where
  "drop_left n = Node (nkey n) (nvalue n) (nheight n) (nsize n) (nhash n) (leftHash n) None (rightHash n) (rightNode n)
     (persisted n)"

definition drop_right :: "Node \<Rightarrow> Node" where
  "drop_right n = Node (nkey n) (nvalue n) (nheight n) (nsize n) (nhash n) (leftHash n) (leftNode n) (rightHash n) None
     (persisted n)"

text \<open>\<^verbatim>\<open>save\<close> returns the saved node and how many nodes were written.\<close>

fun node_save :: "nat \<Rightarrow> mavl_env \<Rightarrow> Node \<Rightarrow> (Tree, Node \<times> int) prog" where
  "node_save 0 env n = panic ''out of fuel''"
| "node_save (Suc f) env n =
     bind (if nhash n = None then run_outcome (\<lambda>t. node_Hash env t n) else ret n) (\<lambda>n.
     if persisted n then ret (n, 0)
     else
       bind (case leftNode n of None \<Rightarrow> ret 0 | Some l \<Rightarrow> bind (node_save f env l) (\<lambda>(_, i). ret i)) (\<lambda>i.
       bind (case rightNode n of None \<Rightarrow> ret 0 | Some r \<Rightarrow> bind (node_save f env r) (\<lambda>(_, j). ret j)) (\<lambda>j.
       bind (SaveNode env (drop_right (drop_left n))) (\<lambda>n'. ret (n', i64 (i + j + 1))))))"

subsection \<open>Traversal (node.go)\<close>

text \<open>The callback of a traversal threads a state of its own and says whether to stop.\<close>

fun traverseInRange :: "nat \<Rightarrow> mavl_env \<Rightarrow> bytes option \<Rightarrow> bytes option \<Rightarrow> bool \<Rightarrow> bool \<Rightarrow> nat \<Rightarrow>
    (Node \<Rightarrow> nat \<Rightarrow> 'a \<Rightarrow> bool \<times> 'a) \<Rightarrow> Node \<Rightarrow> 'a \<Rightarrow> (Tree, bool \<times> 'a) prog" where
  "traverseInRange 0 env start stop asc incl depth cb n a = panic ''out of fuel''"
| "traverseInRange (Suc f) env start stop asc incl depth cb n a =
     (let afterStart = (case start of None \<Rightarrow> True | Some s \<Rightarrow> s \<le> nkey n);
          beforeEnd = (case stop of None \<Rightarrow> True | Some e \<Rightarrow> if incl then nkey n \<le> e else nkey n < e);
          (halt, a) = (if afterStart \<and> beforeEnd then cb n depth a else (False, a));
          sub = (\<lambda>get a. bind (get env n) (\<lambda>c.
                   traverseInRange f env start stop asc incl ((depth + 1) mod 256) cb c a))
      in if halt then ret (True, a)
         else if nheight n = 0 then ret (False, a)
         else if asc then
           bind (if afterStart then sub getLeftNode a else ret (False, a)) (\<lambda>(halt, a).
             if halt then ret (True, a)
             else if beforeEnd then sub getRightNode a else ret (False, a))
         else
           bind (if beforeEnd then sub getRightNode a else ret (False, a)) (\<lambda>(halt, a).
             if halt then ret (True, a)
             else if afterStart then sub getLeftNode a else ret (False, a)))"

subsection \<open>Inclusion proofs (proof.go)\<close>

record InnerNode =
  inLeftHash :: "bytes option"
  inRightHash :: "bytes option"
  inHeight :: int
  inSize :: int

record Proof =
  LeafHash :: "bytes option"
  InnerNodes :: "InnerNode list"
  RootHash :: "bytes option"

definition InnerNodeProofHash :: "mavl_env \<Rightarrow> bytes \<Rightarrow> InnerNode \<Rightarrow> bytes" where
  "InnerNodeProofHash env childHash branch =
     (if bytes_of (inLeftHash branch) = []
      then InnerNode_Hash env (Some childHash) (inRightHash branch) (inHeight branch) (inSize branch)
      else InnerNode_Hash env (inLeftHash branch) (Some childHash) (inHeight branch) (inSize branch))"

definition Verify :: "mavl_env \<Rightarrow> Proof \<Rightarrow> bytes \<Rightarrow> bytes option \<Rightarrow> bytes \<Rightarrow> bool" where
  "Verify env p k v rt =
     (if bytes_of (RootHash p) \<noteq> rt then False
      else let leafHash = LeafNode_Hash env k v 0 1 in
        if leafHash \<noteq> trunc (bytes_of (LeafHash p)) then False
        else bytes_of (RootHash p) = fold (\<lambda>b h. InnerNodeProofHash env h b) (InnerNodes p) leafHash)"

text \<open>
  \<^verbatim>\<open>constructProof\<close> fills in the value, the leaf hash and the branches, innermost first; they are
  returned here, \<open>None\<close> when the key is not there.
\<close>

fun constructProof :: "nat \<Rightarrow> mavl_env \<Rightarrow> bytes \<Rightarrow> Node \<Rightarrow>
    (Tree, (bytes option \<times> bytes option \<times> InnerNode list) option) prog" where
  "constructProof 0 env k n = panic ''out of fuel''"
| "constructProof (Suc f) env k n =
     (if nheight n = 0 then
        (if nkey n = k then ret (Some (nvalue n, nhash n, [])) else ret None)
      else if k < nkey n then
        bind (getLeftNode env n) (\<lambda>l. bind (constructProof f env k l) (\<lambda>res.
          case res of
            None \<Rightarrow> ret None
          | Some (v, lh, bs) \<Rightarrow> bind (getRightNode env n) (\<lambda>r.
              ret (Some (v, lh, bs @ [\<lparr>inLeftHash = None, inRightHash = nhash r, inHeight = nheight n, inSize = nsize n\<rparr>])))))
      else
        bind (getRightNode env n) (\<lambda>r. bind (constructProof f env k r) (\<lambda>res.
          case res of
            None \<Rightarrow> ret None
          | Some (v, lh, bs) \<Rightarrow> bind (getLeftNode env n) (\<lambda>l.
              ret (Some (v, lh, bs @ [\<lparr>inLeftHash = nhash l, inRightHash = None, inHeight = nheight n, inSize = nsize n\<rparr>]))))))"

text \<open>\<^verbatim>\<open>ReadProof\<close>, given what decoding the message yields.\<close>

definition ReadProof :: "bytes \<Rightarrow> bytes \<Rightarrow> InnerNode list option \<Rightarrow> Proof option" where
  "ReadProof roothash leafhash decoded =
     map_option (\<lambda>bs. \<lparr>LeafHash = Some leafhash, InnerNodes = bs, RootHash = Some roothash\<rparr>) decoded"

subsection \<open>Trees (tree.go)\<close>

definition fuel :: "Node \<Rightarrow> nat" where
  "fuel n = Suc (nat (nheight n))"

definition emptyRoot :: bytes where
  "emptyRoot = replicate 32 (CHR 0x00)"

definition NewTree :: "nodeDB option \<Rightarrow> Tree" where
  "NewTree d = \<lparr>root = None, ndb = d, blockHeight = 0\<rparr>"

definition SetBlockHeight :: "int \<Rightarrow> (Tree, unit) prog" where
  "SetBlockHeight h t = (Ret (), t\<lparr>blockHeight := h\<rparr>)"

definition set_root :: "Node option \<Rightarrow> (Tree, unit) prog" where
  "set_root n t = (Ret (), t\<lparr>root := n\<rparr>)"

definition with_root :: "'a \<Rightarrow> (Node \<Rightarrow> (Tree, 'a) prog) \<Rightarrow> (Tree, 'a) prog" where
  "with_root d f t = (case root t of None \<Rightarrow> (Ret d, t) | Some n \<Rightarrow> f n t)"

definition Size :: "Tree \<Rightarrow> int" where
  "Size t = (case root t of None \<Rightarrow> 0 | Some n \<Rightarrow> nsize n)"

definition Height :: "Tree \<Rightarrow> int" where
  "Height t = (case root t of None \<Rightarrow> 0 | Some n \<Rightarrow> nheight n)"

definition Tree_Has :: "mavl_env \<Rightarrow> bytes \<Rightarrow> (Tree, bool) prog" where
  "Tree_Has env k = with_root False (\<lambda>n. node_has (fuel n) env k n)"

definition Tree_Set :: "mavl_env \<Rightarrow> bytes \<Rightarrow> bytes option \<Rightarrow> (Tree, bool) prog" where
  "Tree_Set env k v t =
     (case root t of
        None \<Rightarrow> bind (set_root (Some (NewNode k v))) (\<lambda>_. ret False) t
      | Some n \<Rightarrow> bind (node_set (fuel n) env k v n) (\<lambda>(n', u). bind (set_root (Some n')) (\<lambda>_. ret u)) t)"

definition Tree_Hash :: "mavl_env \<Rightarrow> (Tree, bytes option) prog" where
  "Tree_Hash env = with_root None (\<lambda>n.
     bind (run_outcome (\<lambda>t. node_Hash env t n)) (\<lambda>n'. bind (set_root (Some n')) (\<lambda>_. ret (nhash n'))))"

definition Tree_Save :: "mavl_env \<Rightarrow> (Tree, bytes option) prog" where
  "Tree_Save env = with_root None (\<lambda>n t.
     if ndb t = None then ret (nhash n) t
     else bind (node_save (fuel n) env n) (\<lambda>(n', i). bind (set_root (Some n')) (\<lambda>_.
       bind (attempt (ndb_Commit env)) (\<lambda>r. case r of Inl e \<Rightarrow> ret None | Inr _ \<Rightarrow> ret (nhash n')))) t)"

definition Load :: "mavl_env \<Rightarrow> bytes option \<Rightarrow> (Tree, unit) prog" where
  "Load env h =
     (case h of
        None \<Rightarrow> ret ()
      | Some h \<Rightarrow>
          if h = emptyRoot then ret ()
          else bind (attempt (GetNode env h)) (\<lambda>r.
            case r of
              Inl e \<Rightarrow> bind (set_root None) (\<lambda>_. fail e)
            | Inr n \<Rightarrow> set_root (Some n)))"

definition Tree_Get :: "mavl_env \<Rightarrow> bytes \<Rightarrow> (Tree, int \<times> bytes option \<times> bool) prog" where
  "Tree_Get env k = with_root (0, None, False) (\<lambda>n. node_get (fuel n) env k n)"

definition Tree_GetHash :: "mavl_env \<Rightarrow> bytes \<Rightarrow> (Tree, int \<times> bytes option \<times> bool) prog" where
  "Tree_GetHash env k = with_root (0, None, False) (\<lambda>n. node_getHash (fuel n) env k n)"

definition GetByIndex :: "mavl_env \<Rightarrow> int \<Rightarrow> (Tree, bytes \<times> bytes option) prog" where
  "GetByIndex env i = with_root ([], None) (\<lambda>n. node_getByIndex (fuel n) env i n)"

definition Remove :: "mavl_env \<Rightarrow> bytes \<Rightarrow> (Tree, bytes option \<times> bool) prog" where
  "Remove env k = with_root (None, False) (\<lambda>n.
     bind (node_remove (fuel n) env k n) (\<lambda>(newRootHash, newRoot, newKey, v, removed).
       if \<not> removed then ret (None, False)
       else
         bind (case (newRoot, newRootHash) of
                 (None, Some h) \<Rightarrow> bind (must (GetNode env h)) (\<lambda>r. set_root (Some r))
               | _ \<Rightarrow> set_root newRoot) (\<lambda>_. ret (v, True))))"

definition leaf_cb :: "(bytes \<Rightarrow> bytes option \<Rightarrow> 'a \<Rightarrow> bool \<times> 'a) \<Rightarrow> Node \<Rightarrow> nat \<Rightarrow> 'a \<Rightarrow> bool \<times> 'a" where
  "leaf_cb fn n depth a = (if nheight n = 0 then fn (nkey n) (nvalue n) a else (False, a))"

definition Iterate :: "mavl_env \<Rightarrow> (bytes \<Rightarrow> bytes option \<Rightarrow> 'a \<Rightarrow> bool \<times> 'a) \<Rightarrow> 'a \<Rightarrow> (Tree, bool \<times> 'a) prog" where
  "Iterate env fn a = with_root (False, a) (\<lambda>n.
     traverseInRange (fuel n) env None None True False 0 (leaf_cb fn) n a)"

definition IterateRange :: "mavl_env \<Rightarrow> bytes option \<Rightarrow> bytes option \<Rightarrow> bool \<Rightarrow>
    (bytes \<Rightarrow> bytes option \<Rightarrow> 'a \<Rightarrow> bool \<times> 'a) \<Rightarrow> 'a \<Rightarrow> (Tree, bool \<times> 'a) prog" where
  "IterateRange env start stop asc fn a = with_root (False, a) (\<lambda>n.
     traverseInRange (fuel n) env start stop asc False 0 (leaf_cb fn) n a)"

definition IterateRangeInclusive :: "mavl_env \<Rightarrow> bytes option \<Rightarrow> bytes option \<Rightarrow> bool \<Rightarrow>
    (bytes \<Rightarrow> bytes option \<Rightarrow> 'a \<Rightarrow> bool \<times> 'a) \<Rightarrow> 'a \<Rightarrow> (Tree, bool \<times> 'a) prog" where
  "IterateRangeInclusive env start stop asc fn a = with_root (False, a) (\<lambda>n.
     traverseInRange (fuel n) env start stop asc True 0 (leaf_cb fn) n a)"

definition ConstructProof :: "mavl_env \<Rightarrow> bytes \<Rightarrow> (Tree, bytes option \<times> Proof option) prog" where
  "ConstructProof env k = with_root (None, None) (\<lambda>n.
     bind (run_outcome (\<lambda>t. node_Hash env t n)) (\<lambda>n'. bind (set_root (Some n')) (\<lambda>_.
     bind (constructProof (fuel n') env k n') (\<lambda>res.
       case res of
         None \<Rightarrow> ret (None, None)
       | Some (v, lh, bs) \<Rightarrow> ret (v, Some \<lparr>LeafHash = lh, InnerNodes = bs, RootHash = nhash n'\<rparr>)))))"

text \<open>The bytes of a proof are the encoding of its branches only; \<open>enc\<close> is that encoding.\<close>

definition Tree_Proof :: "mavl_env \<Rightarrow> (InnerNode list \<Rightarrow> bytes option) \<Rightarrow> bytes \<Rightarrow>
    (Tree, bytes option \<times> bytes option \<times> bool) prog" where
  "Tree_Proof env enc k = bind (ConstructProof env k) (\<lambda>(v, p).
     case p of
       None \<Rightarrow> ret (None, None, False)
     | Some p \<Rightarrow>
         (case enc (InnerNodes p) of None \<Rightarrow> ret (None, None, False) | Some b \<Rightarrow> ret (v, Some b, True)))"

subsection \<open>Functions on a database (tree.go)\<close>

text \<open>
  A database with the node cache it carries (\<^verbatim>\<open>db.GetCache()\<close>). The trees made from it share both;
  a tree keeps its batch and its orphans for itself.
\<close>

record mdb =
  db_cache :: "(bytes \<rightharpoonup> Node) option"
  db_data :: "bytes \<rightharpoonup> bytes"

definition attach :: "mdb \<Rightarrow> Tree \<Rightarrow> Tree" where
  "attach db t = t\<lparr>ndb := map_option (\<lambda>d. d\<lparr>cache := db_cache db, ndb_db := db_data db\<rparr>) (ndb t)\<rparr>"

definition detach :: "mdb \<Rightarrow> Tree \<Rightarrow> mdb" where
  "detach db t = (case ndb t of None \<Rightarrow> db | Some d \<Rightarrow> \<lparr>db_cache = cache d, db_data = ndb_db d\<rparr>)"

definition on_tree :: "Tree \<Rightarrow> (Tree, 'a) prog \<Rightarrow> (mdb, 'a \<times> Tree) prog" where
  "on_tree t m db =
     (case m (attach db t) of
        (Ret a, t') \<Rightarrow> (Ret (a, t'), detach db t')
      | (Err e, t') \<Rightarrow> (Err e, detach db t')
      | (Panic p, t') \<Rightarrow> (Panic p, detach db t'))"

definition new_tree :: "(Tree, 'a) prog \<Rightarrow> (mdb, 'a) prog" where
  "new_tree m db = bind (on_tree (NewTree (Some (newNodeDB (db_cache db) (db_data db)))) m) (\<lambda>(a, _). ret a) db"

record StoreSet =
  ssStateHash :: "bytes option"
  ssKV :: "(bytes \<times> bytes option) list"
  ssHeight :: int

definition set_all :: "mavl_env \<Rightarrow> (bytes \<times> bytes option) list \<Rightarrow> (Tree, unit) prog" where
  "set_all env kvs = forM kvs (\<lambda>(k, v). bind (Tree_Set env k v) (\<lambda>_. ret ()))"

fun mapM :: "('a \<Rightarrow> ('s, 'b) prog) \<Rightarrow> 'a list \<Rightarrow> ('s, 'b list) prog" where
  "mapM f [] = ret []"
| "mapM f (x # xs) = bind (f x) (\<lambda>y. bind (mapM f xs) (\<lambda>ys. ret (y # ys)))"

definition SetKVPair :: "mavl_env \<Rightarrow> StoreSet \<Rightarrow> (mdb, bytes option) prog" where
  "SetKVPair env s = new_tree (bind (SetBlockHeight (ssHeight s)) (\<lambda>_. bind (Load env (ssStateHash s)) (\<lambda>_.
     bind (set_all env (ssKV s)) (\<lambda>_. Tree_Save env))))"

text \<open>The values of the keys that exist; \<^verbatim>\<open>nil\<close> for the others.\<close>

definition get_all :: "mavl_env \<Rightarrow> bytes list \<Rightarrow> (Tree, bytes option list) prog" where
  "get_all env = mapM (\<lambda>k. bind (Tree_Get env k) (\<lambda>(i, v, e). ret (if e then v else None)))"

definition GetKVPair :: "mavl_env \<Rightarrow> bytes option \<Rightarrow> bytes list \<Rightarrow> (mdb, bytes option list) prog" where
  "GetKVPair env h ks = new_tree (bind (Load env h) (\<lambda>_. get_all env ks))"

definition GetKVPairProof :: "mavl_env \<Rightarrow> (InnerNode list \<Rightarrow> bytes option) \<Rightarrow> bytes option \<Rightarrow> bytes \<Rightarrow>
    (mdb, bytes option) prog" where
  "GetKVPairProof env enc h k = new_tree (bind (Load env h) (\<lambda>_. bind (Tree_Proof env enc k) (\<lambda>(v, p, e).
     ret (if e then p else None))))"

definition DelKVPair :: "mavl_env \<Rightarrow> bytes option \<Rightarrow> bytes list \<Rightarrow> (mdb, bytes option \<times> bytes option list) prog" where
  "DelKVPair env h ks = new_tree (bind (Load env h) (\<lambda>_.
     bind (mapM (\<lambda>k. bind (Remove env k) (\<lambda>(v, e). ret (if e then v else None))) ks) (\<lambda>vs.
     bind (Tree_Save env) (\<lambda>rt. ret (rt, vs)))))"

text \<open>On a proof that does not decode the code logs and goes on with a nil pointer.\<close>

definition VerifyKVPairProof :: "mavl_env \<Rightarrow> (bytes \<Rightarrow> InnerNode list option) \<Rightarrow> bytes \<Rightarrow> bytes \<Rightarrow> bytes option \<Rightarrow>
    bytes \<Rightarrow> bool outcome" where
  "VerifyKVPairProof env dec rt k v prf =
     (case ReadProof rt (LeafNode_Hash env k v 0 1) (dec prf) of
        None \<Rightarrow> Panic ''nil pointer''
      | Some p \<Rightarrow> Ret (Verify env p k v rt))"

definition mavl_IterateRangeByStateHash :: "mavl_env \<Rightarrow> bytes option \<Rightarrow> bytes option \<Rightarrow> bytes option \<Rightarrow> bool \<Rightarrow>
    (bytes \<Rightarrow> bytes option \<Rightarrow> 'a \<Rightarrow> bool \<times> 'a) \<Rightarrow> 'a \<Rightarrow> (mdb, 'a) prog" where
  "mavl_IterateRangeByStateHash env h start stop asc fn a = new_tree (bind (attempt (Load env h)) (\<lambda>r.
     case r of
       Inl e \<Rightarrow> ret a
     | Inr _ \<Rightarrow> bind (IterateRange env start stop asc fn a) (\<lambda>(_, a'). ret a')))"

subsection \<open>The store module (mavl.go)\<close>

text \<open>\<open>trees\<close>: the trees set in memory and not committed; a nil entry marks an empty write set.\<close>

record MavlStore =
  ms_db :: mdb
  trees :: "bytes \<rightharpoonup> Tree option"

definition on_db :: "(mdb, 'a) prog \<Rightarrow> (MavlStore, 'a) prog" where
  "on_db m s = (case m (ms_db s) of (r, db') \<Rightarrow> (r, s\<lparr>ms_db := db'\<rparr>))"

definition MStore_Set :: "mavl_env \<Rightarrow> StoreSet \<Rightarrow> (MavlStore, bytes option) prog" where
  "MStore_Set env datas = on_db (SetKVPair env datas)"

text \<open>A tree in memory serves the reads of its state; any other state is loaded.\<close>

definition MStore_Get :: "mavl_env \<Rightarrow> bytes option \<Rightarrow> bytes list \<Rightarrow> (MavlStore, bytes option list) prog" where
  "MStore_Get env h ks s =
     (case trees s (bytes_of h) of
        Some (Some t) \<Rightarrow> on_db (bind (on_tree t (get_all env ks)) (\<lambda>(vs, _). ret vs)) s
      | _ \<Rightarrow> on_db (new_tree (bind (attempt (Load env h)) (\<lambda>r.
               case r of Inl e \<Rightarrow> ret (map (\<lambda>_. None) ks) | Inr _ \<Rightarrow> get_all env ks))) s)"

definition MemSet :: "mavl_env \<Rightarrow> StoreSet \<Rightarrow> (MavlStore, bytes option) prog" where
  "MemSet env datas s =
     (if ssKV datas = [] then
        (Ret (ssStateHash datas), s\<lparr>trees := (trees s)(bytes_of (ssStateHash datas) \<mapsto> None)\<rparr>)
      else
        bind (on_db (on_tree (NewTree (Some (newNodeDB (db_cache (ms_db s)) (db_data (ms_db s)))))
                (bind (SetBlockHeight (ssHeight datas)) (\<lambda>_. bind (Load env (ssStateHash datas)) (\<lambda>_.
                 bind (set_all env (ssKV datas)) (\<lambda>_. Tree_Hash env))))))
          (\<lambda>(h, t) s'. (Ret h, s'\<lparr>trees := (trees s')(bytes_of h \<mapsto> Some t)\<rparr>)) s)"

definition MStore_Commit :: "mavl_env \<Rightarrow> bytes \<Rightarrow> (MavlStore, bytes) prog" where
  "MStore_Commit env h s =
     (case trees s h of
        None \<Rightarrow> (Err ErrHashNotFound, s)
      | Some None \<Rightarrow> (Ret h, s\<lparr>trees := (trees s)(h := None)\<rparr>)
      | Some (Some t) \<Rightarrow>
          bind (\<lambda>s. case on_tree t (Tree_Save env) (ms_db s) of
                  (Ret (r, t'), db') \<Rightarrow> (Ret r, s\<lparr>ms_db := db', trees := (trees s)(h \<mapsto> Some t')\<rparr>)
                | (Err e, db') \<Rightarrow> (Err e, s\<lparr>ms_db := db'\<rparr>)
                | (Panic p, db') \<Rightarrow> (Panic p, s\<lparr>ms_db := db'\<rparr>))
            (\<lambda>r. case r of
               None \<Rightarrow> fail ErrDataBaseDamage
             | Some _ \<Rightarrow> (\<lambda>s. (Ret h, s\<lparr>trees := (trees s)(h := None)\<rparr>))) s)"

definition MemSetUpgrade :: "mavl_env \<Rightarrow> StoreSet \<Rightarrow> (MavlStore, bytes option) prog" where
  "MemSetUpgrade env datas s =
     (if ssKV datas = [] then
        (Ret (ssStateHash datas), s\<lparr>trees := (trees s)(bytes_of (ssStateHash datas) \<mapsto> None)\<rparr>)
      else
        on_db (new_tree (bind (SetBlockHeight (ssHeight datas)) (\<lambda>_. bind (Load env (ssStateHash datas)) (\<lambda>_.
          bind (set_all env (ssKV datas)) (\<lambda>_. Tree_Hash env))))) s)"

definition CommitUpgrade :: "bytes \<Rightarrow> (MavlStore, bytes) prog" where
  "CommitUpgrade h = ret h"

definition MStore_Rollback :: "bytes \<Rightarrow> (MavlStore, bytes) prog" where
  "MStore_Rollback h s =
     (case trees s h of
        None \<Rightarrow> (Err ErrHashNotFound, s)
      | Some _ \<Rightarrow> (Ret h, s\<lparr>trees := (trees s)(h := None)\<rparr>))"

end
