(* ===== verification/MavlRefine.thy ===== *)
theory MavlRefine
  imports MavlTree MavlDB
begin

text \<open>
  The node layer refines the abstract tree. \<open>reps env db n t\<close> says that the node \<open>n\<close>, with the
  children it has in memory or in the database \<open>db\<close>, represents the tree \<open>t\<close>. Every method of
  \<open>MavlNode\<close>, given a node that represents a tree and fuel above the tree's height, returns what
  the abstract operation gives, and changes of the node database at most its cache and the set
  of orphans.
\<close>

definition dbload :: "mavl_env \<Rightarrow> (bytes \<rightharpoonup> bytes) \<Rightarrow> bytes \<Rightarrow> Node option" where
  "dbload env db h =
     (case db h of
        None \<Rightarrow> None
      | Some buf \<Rightarrow> if buf = [] then None else map_option (MakeNode h) (UnmarshalStore env buf))"

text \<open>The cache only holds what the database would give; the policy only forgets.\<close>

definition cache_ok :: "mavl_env \<Rightarrow> nodeDB \<Rightarrow> bool" where
  "cache_ok env d \<longleftrightarrow>
     (case cache d of None \<Rightarrow> True | Some c \<Rightarrow> (\<forall>h n. c h = Some n \<longrightarrow> dbload env (ndb_db d) h = Some n))"

definition evicts_only :: "mavl_env \<Rightarrow> bool" where
  "evicts_only env \<longleftrightarrow> (\<forall>c h n. cacheAdd env c h n \<subseteq>\<^sub>m c(h \<mapsto> n))"

definition dbof :: "Tree \<Rightarrow> bytes \<rightharpoonup> bytes" where
  "dbof t = (case ndb t of None \<Rightarrow> Map.empty | Some d \<Rightarrow> ndb_db d)"

definition tree_ok :: "mavl_env \<Rightarrow> Tree \<Rightarrow> bool" where
  "tree_ok env t \<longleftrightarrow> (case ndb t of None \<Rightarrow> True | Some d \<Rightarrow> cache_ok env d)"

text \<open>\<open>same t t'\<close>: at most the cache and the orphans differ.\<close>

definition same :: "Tree \<Rightarrow> Tree \<Rightarrow> bool" where
  "same t t' \<longleftrightarrow>
     root t' = root t \<and> blockHeight t' = blockHeight t \<and> (ndb t' = None \<longleftrightarrow> ndb t = None) \<and>
     map_option ndb_db (ndb t') = map_option ndb_db (ndb t) \<and> map_option batch (ndb t') = map_option batch (ndb t)"

lemma same_refl [simp]: "same t t"
  by (simp add: same_def)

lemma same_trans [trans]: "same t t' \<Longrightarrow> same t' t'' \<Longrightarrow> same t t''"
  by (simp add: same_def)

lemma same_dbof: "same t t' \<Longrightarrow> dbof t' = dbof t"
  by (auto simp: same_def dbof_def split: option.splits)

text \<open>\<open>near env t0 t\<close>: a state reached from \<open>t0\<close> by reading and orphaning nodes.\<close>

definition near :: "mavl_env \<Rightarrow> Tree \<Rightarrow> Tree \<Rightarrow> bool" where
  "near env t0 t \<longleftrightarrow> tree_ok env t \<and> same t0 t"

lemma near_refl: "tree_ok env t \<Longrightarrow> near env t t"
  by (simp add: near_def)

lemma near_step: "near env t0 t \<Longrightarrow> tree_ok env t' \<Longrightarrow> same t t' \<Longrightarrow> near env t0 t'"
  by (auto simp: near_def intro: same_trans)

lemma near_dbof: "near env t0 t \<Longrightarrow> dbof t = dbof t0"
  by (simp add: near_def same_dbof)

text \<open>
  The hash of a tree, without the key prefixes. A node that has a hash has that hash up to its
  prefix, and its children in memory have theirs; a stored node has no children in memory, and is
  what the database gives for its hash.
\<close>

fun mhash :: "mavl_env \<Rightarrow> mtree \<Rightarrow> bytes" where
  "mhash env (Leaf k v) = LeafNode_Hash env k v 0 1"
| "mhash env (Inner k l r) =
     sha256 env (EncodeInner env (Some (mhash env l)) (Some (mhash env r)) (ht (Inner k l r)) (sz (Inner k l r)))"

definition sealed :: "Node \<Rightarrow> bool" where
  "sealed n \<longleftrightarrow>
     (persisted n \<longrightarrow> nhash n \<noteq> None \<and> leftNode n = None \<and> rightNode n = None) \<and>
     (nhash n \<noteq> None \<longrightarrow>
        (\<forall>c. leftNode n = Some c \<longrightarrow> nhash c \<noteq> None \<and> leftHash n = nhash c) \<and>
        (\<forall>c. rightNode n = Some c \<longrightarrow> nhash c \<noteq> None \<and> rightHash n = nhash c))"

definition hash_ok :: "mavl_env \<Rightarrow> (bytes \<rightharpoonup> bytes) \<Rightarrow> mtree \<Rightarrow> Node \<Rightarrow> bool" where
  "hash_ok env db t n \<longleftrightarrow>
     sealed n \<and>
     (\<forall>h. nhash n = Some h \<longrightarrow> trunc h = mhash env t \<and> (enableMavlPrefix env \<or> h = mhash env t)) \<and>
     (persisted n \<longrightarrow> dbload env db (bytes_of (nhash n)) = Some n)"

lemma hash_ok_fresh: "\<not> persisted n \<Longrightarrow> nhash n = None \<Longrightarrow> hash_ok env db t n"
  by (simp add: hash_ok_def sealed_def)

lemma hash_ok_persisted: "hash_ok env db t n \<Longrightarrow> persisted n \<longrightarrow> nhash n \<noteq> None"
  by (simp add: hash_ok_def sealed_def)

primrec reps :: "mavl_env \<Rightarrow> (bytes \<rightharpoonup> bytes) \<Rightarrow> mtree \<Rightarrow> Node \<Rightarrow> bool" where
  "reps env db (Leaf k v) n \<longleftrightarrow>
     nkey n = k \<and> nvalue n = v \<and> nheight n = 0 \<and> nsize n = 1 \<and> leftNode n = None \<and> rightNode n = None \<and>
     leftHash n = None \<and> rightHash n = None \<and> hash_ok env db (Leaf k v) n"
| "reps env db (Inner k l r) n \<longleftrightarrow>
     nkey n = k \<and> nvalue n = None \<and> nheight n = ht (Inner k l r) \<and> nsize n = sz (Inner k l r) \<and>
     hash_ok env db (Inner k l r) n \<and>
     (case leftNode n of
        Some c \<Rightarrow> reps env db l c
      | None \<Rightarrow> leftHash n \<noteq> None \<and> (\<exists>c. dbload env db (bytes_of (leftHash n)) = Some c \<and> reps env db l c)) \<and>
     (case rightNode n of
        Some c \<Rightarrow> reps env db r c
      | None \<Rightarrow> rightHash n \<noteq> None \<and> (\<exists>c. dbload env db (bytes_of (rightHash n)) = Some c \<and> reps env db r c))"

text \<open>A child slot (a hash and perhaps a node) holds a representation of \<open>t\<close>.\<close>

definition slot :: "mavl_env \<Rightarrow> (bytes \<rightharpoonup> bytes) \<Rightarrow> mtree \<Rightarrow> bytes option \<Rightarrow> Node option \<Rightarrow> bool" where
  "slot env db t h c \<longleftrightarrow>
     (case c of
        Some x \<Rightarrow> reps env db t x
      | None \<Rightarrow> h \<noteq> None \<and> (\<exists>x. dbload env db (bytes_of h) = Some x \<and> reps env db t x))"

text \<open>An inner node whose height and size are not yet known to be right.\<close>

definition half_reps :: "mavl_env \<Rightarrow> (bytes \<rightharpoonup> bytes) \<Rightarrow> bytes \<Rightarrow> mtree \<Rightarrow> mtree \<Rightarrow> Node \<Rightarrow> bool" where
  "half_reps env db k l r n \<longleftrightarrow>
     nkey n = k \<and> nvalue n = None \<and> slot env db l (leftHash n) (leftNode n) \<and>
     slot env db r (rightHash n) (rightNode n)"

lemma reps_Inner:
  "reps env db (Inner k l r) n \<longleftrightarrow>
     half_reps env db k l r n \<and> nheight n = ht (Inner k l r) \<and> nsize n = sz (Inner k l r) \<and>
     hash_ok env db (Inner k l r) n"
  by (auto simp: half_reps_def slot_def)

declare reps.simps(2) [simp del]

lemma slot_Some [simp]: "slot env db t h (Some x) = reps env db t x"
  by (simp add: slot_def)

lemma reps_basic:
  "reps env db t n \<Longrightarrow> nheight n = ht t \<and> nsize n = sz t \<and> (persisted n \<longrightarrow> nhash n \<noteq> None)"
  by (cases t) (auto simp: reps_Inner dest: hash_ok_persisted)

lemma reps_hash_ok: "reps env db t n \<Longrightarrow> hash_ok env db t n"
  by (cases t) (auto simp: reps_Inner)

lemma reps_key: "reps env db (Inner k l r) n \<Longrightarrow> nkey n = k"
  by (simp add: reps_Inner half_reps_def)

lemma ht_less_sz: "ht t < sz t"
proof (induction t)
  case (Inner k l r)
  then show ?case using sz_pos [of l] sz_pos [of r] by simp
qed simp

subsection \<open>Reading children\<close>

lemma cacheNode_ok:
  assumes "evicts_only env" and "cache_ok env d" and "nhash n = Some h" and "dbload env (ndb_db d) h = Some n"
  shows "cache_ok env (cacheNode env n d) \<and> ndb_db (cacheNode env n d) = ndb_db d \<and>
         batch (cacheNode env n d) = batch d \<and> orphans (cacheNode env n d) = orphans d"
proof (cases "cache d")
  case (Some c)
  have "dbload env (ndb_db d) x = Some y" if "cacheAdd env c h n x = Some y" for x y
  proof -
    have "(c(h \<mapsto> n)) x = Some y"
      using assms(1) that by (metis evicts_only_def map_le_def domI)
    with Some assms(2,4) show ?thesis by (auto simp: cache_ok_def split: if_splits)
  qed
  with Some assms(2-4) show ?thesis
    by (auto simp: cache_ok_def cacheNode_def split: if_splits)
qed (use assms in \<open>simp add: cacheNode_def\<close>)

lemma wp_GetNode:
  assumes "evicts_only env" and "tree_ok env t" and "dbload env (dbof t) h = Some n"
    and "\<And>t'. tree_ok env t' \<Longrightarrow> same t t' \<Longrightarrow> P (Ret n) t'"
  shows "wp (GetNode env h) P t"
proof -
  obtain d where d: "ndb t = Some d" using assms(3) by (cases "ndb t") (auto simp: dbof_def dbload_def)
  then have dbo: "dbof t = ndb_db d" and ok: "cache_ok env d" using assms(2) by (simp_all add: dbof_def tree_ok_def)
  show ?thesis
  proof (cases "case cache d of None \<Rightarrow> None | Some c \<Rightarrow> c h")
    case (Some n')
    then have "n' = n" using ok assms(3) dbo by (auto simp: cache_ok_def split: option.splits)
    with Some d assms(2,4) show ?thesis by (simp add: wp_def GetNode_def)
  next
    case None
    obtain buf s where s: "ndb_db d h = Some buf" "buf \<noteq> []" "UnmarshalStore env buf = Some s" "n = MakeNode h s"
      using assms(3) dbo by (auto simp: dbload_def split: option.splits if_splits)
    have "nhash n = Some h" by (simp add: s(4) MakeNode_def)
    with cacheNode_ok [OF assms(1) ok] assms(3) dbo have
      "cache_ok env (cacheNode env n d)" "ndb_db (cacheNode env n d) = ndb_db d" "batch (cacheNode env n d) = batch d"
      by simp_all
    then have "P (Ret n) (t\<lparr>ndb := Some (cacheNode env n d)\<rparr>)"
      using d by (intro assms(4)) (simp_all add: tree_ok_def same_def)
    then show ?thesis
      using None d s by (simp add: wp_def GetNode_def Let_def)
  qed
qed

lemma wp_getLeftNode:
  assumes "evicts_only env" and near: "near env t0 t" and "half_reps env (dbof t0) k l r n"
    and "\<And>t' c. near env t0 t' \<Longrightarrow> reps env (dbof t0) l c \<Longrightarrow> P (Ret c) t'"
  shows "wp (getLeftNode env n) P t"
proof (cases "leftNode n")
  case None
  have tree: "tree_ok env t" using near by (simp add: near_def)
  from None obtain c where c: "dbload env (dbof t) (bytes_of (leftHash n)) = Some c" "reps env (dbof t0) l c"
    using assms(3) near_dbof [OF near] by (auto simp: half_reps_def slot_def)
  show ?thesis
    unfolding getLeftNode_def using None c(2) tree
    by (auto simp: wp_simps intro!: wp_GetNode [OF assms(1) tree c(1)] assms(4) intro: near_step [OF near])
next
  case (Some c)
  with assms(3,4) near show ?thesis by (auto simp: getLeftNode_def wp_simps half_reps_def)
qed

lemma wp_getRightNode:
  assumes "evicts_only env" and near: "near env t0 t" and "half_reps env (dbof t0) k l r n"
    and "\<And>t' c. near env t0 t' \<Longrightarrow> reps env (dbof t0) r c \<Longrightarrow> P (Ret c) t'"
  shows "wp (getRightNode env n) P t"
proof (cases "rightNode n")
  case None
  have tree: "tree_ok env t" using near by (simp add: near_def)
  from None obtain c where c: "dbload env (dbof t) (bytes_of (rightHash n)) = Some c" "reps env (dbof t0) r c"
    using assms(3) near_dbof [OF near] by (auto simp: half_reps_def slot_def)
  show ?thesis
    unfolding getRightNode_def using None c(2) tree
    by (auto simp: wp_simps intro!: wp_GetNode [OF assms(1) tree c(1)] assms(4) intro: near_step [OF near])
next
  case (Some c)
  with assms(3,4) near show ?thesis by (auto simp: getRightNode_def wp_simps half_reps_def)
qed

lemma wp_removeOrphan:
  assumes "near env t0 t" and "persisted n \<longrightarrow> nhash n \<noteq> None"
    and "\<And>t'. near env t0 t' \<Longrightarrow> P (Ret ()) t'"
  shows "wp (removeOrphan n) P t"
proof (cases "persisted n \<and> ndb t \<noteq> None")
  case True
  then obtain d h where d: "ndb t = Some d" "nhash n = Some h" using assms(2) by auto
  let ?t = "t\<lparr>ndb := Some (d\<lparr>cache := map_option (\<lambda>c. c(h := None)) (cache d), orphans := insert h (orphans d)\<rparr>)\<rparr>"
  have "near env t0 ?t"
    using assms(1) d(1)
    by (intro near_step [OF assms(1)]) (auto simp: near_def tree_ok_def cache_ok_def same_def split: option.splits)
  with True d assms(3) show ?thesis
    by (simp add: wp_def removeOrphan_def RemoveNode_def)
qed (use assms in \<open>auto simp: wp_def removeOrphan_def\<close>)

definition copied :: "Node \<Rightarrow> Node" where
  "copied n = Node (nkey n) None (nheight n) (nsize n) None (leftHash n) (leftNode n) (rightHash n) (rightNode n) False"

lemma wp_node_copy: "nheight n \<noteq> 0 \<Longrightarrow> wp (node_copy n) P t = P (Ret (copied n)) t"
  by (simp add: node_copy_def copied_def wp_simps)

lemma copied_simps [simp]:
  "nkey (copied n) = nkey n" "nvalue (copied n) = None" "nheight (copied n) = nheight n" "nsize (copied n) = nsize n"
  "nhash (copied n) = None" "persisted (copied n) = False"
  "leftHash (copied n) = leftHash n" "leftNode (copied n) = leftNode n"
  "rightHash (copied n) = rightHash n" "rightNode (copied n) = rightNode n"
  by (simp_all add: copied_def)

lemma set_simps [simp]:
  "nkey (set_left h c n) = nkey n" "nvalue (set_left h c n) = nvalue n" "nheight (set_left h c n) = nheight n" "nsize (set_left h c n) = nsize n"
  "nhash (set_left h c n) = nhash n" "persisted (set_left h c n) = persisted n"
  "leftHash (set_left h c n) = h" "leftNode (set_left h c n) = c"
  "rightHash (set_left h c n) = rightHash n" "rightNode (set_left h c n) = rightNode n"
  "nkey (set_right h c n) = nkey n" "nvalue (set_right h c n) = nvalue n" "nheight (set_right h c n) = nheight n" "nsize (set_right h c n) = nsize n"
  "nhash (set_right h c n) = nhash n" "persisted (set_right h c n) = persisted n"
  "leftHash (set_right h c n) = leftHash n" "leftNode (set_right h c n) = leftNode n"
  "rightHash (set_right h c n) = h" "rightNode (set_right h c n) = c"
  "nkey (set_key k n) = k" "nvalue (set_key k n) = nvalue n" "nheight (set_key k n) = nheight n" "nsize (set_key k n) = nsize n"
  "nhash (set_key k n) = nhash n" "persisted (set_key k n) = persisted n"
  "leftHash (set_key k n) = leftHash n" "leftNode (set_key k n) = leftNode n"
  "rightHash (set_key k n) = rightHash n" "rightNode (set_key k n) = rightNode n"
  "nkey (set_height_size a b n) = nkey n" "nvalue (set_height_size a b n) = nvalue n" "nheight (set_height_size a b n) = a" "nsize (set_height_size a b n) = b"
  "nhash (set_height_size a b n) = nhash n" "persisted (set_height_size a b n) = persisted n"
  "leftHash (set_height_size a b n) = leftHash n" "leftNode (set_height_size a b n) = leftNode n"
  "rightHash (set_height_size a b n) = rightHash n" "rightNode (set_height_size a b n) = rightNode n"
  by (simp_all add: set_left_def set_right_def set_key_def set_height_size_def)

lemma half_reps_simps [simp]:
  "half_reps env db k l r (copied n) \<longleftrightarrow>
     nkey n = k \<and> slot env db l (leftHash n) (leftNode n) \<and> slot env db r (rightHash n) (rightNode n)"
  "half_reps env db k l r (set_height_size a b n) = half_reps env db k l r n"
  "half_reps env db k l r (set_left h c n) \<longleftrightarrow>
     nkey n = k \<and> nvalue n = None \<and> slot env db l h c \<and> slot env db r (rightHash n) (rightNode n)"
  "half_reps env db k l r (set_right h c n) \<longleftrightarrow>
     nkey n = k \<and> nvalue n = None \<and> slot env db l (leftHash n) (leftNode n) \<and> slot env db r h c"
  by (auto simp: half_reps_def)

lemma half_copied: "half_reps env db k l r n \<Longrightarrow> half_reps env db k l r (copied n)"
  by (simp add: half_reps_def)

text \<open>A node of the mutable part of a tree: not stored yet, its hash not computed.\<close>

definition fresh :: "Node \<Rightarrow> bool" where
  "fresh n \<longleftrightarrow> \<not> persisted n \<and> nhash n = None"

lemma fresh_simps [simp]:
  "fresh (copied n)" "fresh (set_left h c n) = fresh n" "fresh (set_right h c n) = fresh n"
  "fresh (set_key k n) = fresh n" "fresh (set_height_size a b n) = fresh n"
  by (simp_all add: fresh_def)

lemma child_bounds:
  assumes "sz l + sz r < 2 ^ 31"
  shows "0 \<le> ht l" "0 \<le> ht r" "0 < sz l" "0 < sz r" "ht l < 2 ^ 31 - 1" "ht r < 2 ^ 31 - 1" "sz l < 2 ^ 31" "sz r < 2 ^ 31"
    "- (2 ^ 31) \<le> ht l" "- (2 ^ 31) \<le> ht r"
proof -
  have *: "ht l < sz l" "ht r < sz r" "0 < sz l" "0 < sz r" by (rule ht_less_sz ht_less_sz sz_pos sz_pos)+
  from * assms show "ht l < 2 ^ 31 - 1" "ht r < 2 ^ 31 - 1" "sz l < 2 ^ 31" "sz r < 2 ^ 31" by linarith+
  from * show "0 < sz l" "0 < sz r" by simp_all
  show "0 \<le> ht l" "0 \<le> ht r" by simp_all
  show "- (2 ^ 31) \<le> ht l" "- (2 ^ 31) \<le> ht r" by (rule order.trans [OF _ ht_nonneg], simp)+
qed

lemma wp_calcHeightAndSize:
  assumes ev: "evicts_only env" and near: "near env t0 t" and n: "half_reps env (dbof t0) k l r n"
    and f: "fresh n" and s: "sz l + sz r < 2 ^ 31"
    and P: "\<And>t' n'. near env t0 t' \<Longrightarrow> reps env (dbof t0) (Inner k l r) n' \<Longrightarrow> fresh n' \<Longrightarrow> P (Ret n') t'"
  shows "wp (calcHeightAndSize env n) P t"
proof -
  have i: "i32 (max (ht l) (ht r) + 1) = max (ht l) (ht r) + 1" "i32 (sz l + sz r) = sz l + sz r"
    using child_bounds [OF s] s by (auto simp: is_i32_def max_def intro!: i32_id)
  show ?thesis
    unfolding calcHeightAndSize_def wp_bind
    apply (rule wp_getLeftNode [OF ev near n])
    apply (simp add: wp_bind)
    apply (rule wp_getRightNode [OF ev _ n], assumption)
    using f n i by (auto simp: wp_simps reps_Inner maxInt32_def fresh_def max_def dest!: reps_basic intro!: P hash_ok_fresh)
qed

lemma wp_calcBalance:
  assumes "evicts_only env" and "near env t0 t" and "half_reps env (dbof t0) k l r n"
    and "\<And>t'. near env t0 t' \<Longrightarrow> P (Ret (ht l - ht r)) t'"
  shows "wp (calcBalance env n) P t"
  unfolding calcBalance_def wp_bind
  apply (rule wp_getLeftNode [OF assms(1-3)])
  apply (simp add: wp_bind)
  apply (rule wp_getRightNode [OF assms(1) _ assms(3)], assumption)
  by (auto simp: wp_simps dest!: reps_basic intro!: assms(4))

lemma reps_InnerD:
  assumes "reps env db (Inner k l r) n"
  shows "half_reps env db k l r n" "nheight n \<noteq> 0" "nheight n = max (ht l) (ht r) + 1" "nsize n = sz l + sz r"
    "nkey n = k" "persisted n \<longrightarrow> nhash n \<noteq> None"
proof -
  have "max (ht l) (ht r) + 1 \<noteq> 0" using ht_nonneg [of l] ht_nonneg [of r] by linarith
  with assms show "half_reps env db k l r n" "nheight n \<noteq> 0" "nheight n = max (ht l) (ht r) + 1" "nsize n = sz l + sz r"
    "nkey n = k" "persisted n \<longrightarrow> nhash n \<noteq> None"
    by (auto simp: reps_Inner half_reps_def dest: hash_ok_persisted)
qed

lemma wp_copy:
  assumes "reps env db (Inner k l r) n" and "P (Ret (copied n)) t"
  shows "wp (node_copy n) P t"
  using assms reps_InnerD(2) by (simp add: wp_node_copy)

lemma wp_orphan:
  assumes "near env t0 t" and "reps env (dbof t0) u n" and "\<And>t'. near env t0 t' \<Longrightarrow> P (Ret ()) t'"
  shows "wp (removeOrphan n) P t"
  using assms by (auto intro!: wp_removeOrphan dest: reps_basic)

lemma wp_rotateRight:
  assumes ev: "evicts_only env" and near: "near env t0 t"
    and n: "half_reps env (dbof t0) k (Inner k2 a b) c n" "nheight n \<noteq> 0"
    and s: "sz a + sz b + sz c < 2 ^ 31"
    and P: "\<And>t' n'. near env t0 t' \<Longrightarrow> reps env (dbof t0) (Inner k2 a (Inner k b c)) n' \<Longrightarrow> fresh n' \<Longrightarrow> P (Ret n') t'"
  shows "wp (rotateRight env n) P t"
proof -
  have s': "sz b + sz c < 2 ^ 31" "sz a + sz (Inner k b c) < 2 ^ 31" using s sz_pos [of a] by simp_all
  have left: "half_reps env (dbof t0) k b c (set_left (rightHash (copied l)) (rightNode (copied l)) (copied n))"
    if "reps env (dbof t0) (Inner k2 a b) l" for l
    using that n by (auto simp: half_reps_def dest!: reps_InnerD(1))
  have top: "half_reps env (dbof t0) k2 a (Inner k b c) (set_right h (Some m) (copied l))"
    if "reps env (dbof t0) (Inner k2 a b) l" "reps env (dbof t0) (Inner k b c) m" for l m h
    using that by (auto simp: half_reps_def dest!: reps_InnerD(1))
  have cn: "half_reps env (dbof t0) k (Inner k2 a b) c (copied n)" using n(1) by (rule half_copied)
  show ?thesis
    unfolding rotateRight_def
    apply (simp only: wp_bind wp_node_copy [OF n(2)] outcome.case)
    apply (rule wp_getLeftNode [OF ev near cn], simp only: wp_bind outcome.case)
    apply (rule wp_orphan, assumption, assumption, simp only: wp_bind outcome.case)
    apply (rule wp_copy, assumption, simp only: wp_bind outcome.case)
    apply (rule wp_calcHeightAndSize [OF ev _ left _ s'(1)], assumption, assumption, simp, simp only: outcome.case)
    by (rule wp_calcHeightAndSize [OF ev _ top _ s'(2)]) (assumption | simp | rule P)+
qed

lemma wp_rotateLeft:
  assumes ev: "evicts_only env" and near: "near env t0 t"
    and n: "half_reps env (dbof t0) k a (Inner k2 b c) n" "nheight n \<noteq> 0"
    and s: "sz a + sz b + sz c < 2 ^ 31"
    and P: "\<And>t' n'. near env t0 t' \<Longrightarrow> reps env (dbof t0) (Inner k2 (Inner k a b) c) n' \<Longrightarrow> fresh n' \<Longrightarrow> P (Ret n') t'"
  shows "wp (rotateLeft env n) P t"
proof -
  have s': "sz a + sz b < 2 ^ 31" "sz (Inner k a b) + sz c < 2 ^ 31" using s sz_pos [of c] by simp_all
  have right: "half_reps env (dbof t0) k a b (set_right (leftHash (copied l)) (leftNode (copied l)) (copied n))"
    if "reps env (dbof t0) (Inner k2 b c) l" for l
    using that n by (auto simp: half_reps_def dest!: reps_InnerD(1))
  have top: "half_reps env (dbof t0) k2 (Inner k a b) c (set_left h (Some m) (copied l))"
    if "reps env (dbof t0) (Inner k2 b c) l" "reps env (dbof t0) (Inner k a b) m" for l m h
    using that by (auto simp: half_reps_def dest!: reps_InnerD(1))
  have cn: "half_reps env (dbof t0) k a (Inner k2 b c) (copied n)" using n(1) by (rule half_copied)
  show ?thesis
    unfolding rotateLeft_def
    apply (simp only: wp_bind wp_node_copy [OF n(2)] outcome.case)
    apply (rule wp_getRightNode [OF ev near cn], simp only: wp_bind outcome.case)
    apply (rule wp_orphan, assumption, assumption, simp only: wp_bind outcome.case)
    apply (rule wp_copy, assumption, simp only: wp_bind outcome.case)
    apply (rule wp_calcHeightAndSize [OF ev _ right _ s'(1)], assumption, assumption, simp, simp only: outcome.case)
    by (rule wp_calcHeightAndSize [OF ev _ top _ s'(2)]) (assumption | simp | rule P)+
qed

lemma ht_pos_Inner: "0 < ht t \<Longrightarrow> \<exists>k l r. t = Inner k l r"
  by (cases t) auto

lemma skew_Inner [simp]: "skew (Inner k l r) = ht l - ht r"
  by simp

lemma wp_balance_left:
  assumes ev: "evicts_only env" and near: "near env t0 t"
    and n: "half_reps env (dbof t0) k l r n" "nheight n \<noteq> 0" and s: "sz l + sz r < 2 ^ 31"
    and h: "ht l - ht r > 1"
    and P: "\<And>t' n'. near env t0 t' \<Longrightarrow> reps env (dbof t0) (bal (Inner k l r)) n' \<Longrightarrow> fresh n' \<Longrightarrow> P (Ret n') t'"
  shows "wp (bind (getLeftNode env n) (\<lambda>l. bind (calcBalance env l) (\<lambda>bl.
            if bl \<ge> 0 then rotateRight env n
            else bind (getLeftNode env n) (\<lambda>left. bind (removeOrphan left) (\<lambda>_.
                   bind (rotateLeft env left) (\<lambda>left'. rotateRight env (set_left None (Some left') n))))))) P t"
proof -
  have "0 < ht l" using h ht_nonneg [of r] by linarith
  then obtain k2 a b where l: "l = Inner k2 a b" by (blast dest: ht_pos_Inner)
  have s3: "sz a + sz b + sz r < 2 ^ 31" using s l by simp
  note getl = wp_getLeftNode [OF ev _ n(1) [unfolded l]]
  show ?thesis
  proof (cases "ht a - ht b \<ge> 0")
    case True
    then have B: "bal (Inner k l r) = Inner k2 a (Inner k b r)" using h l by (simp add: bal.simps(2))
    show ?thesis
      apply (simp only: wp_bind, rule getl [OF near], simp only: wp_bind outcome.case)
      apply (rule wp_calcBalance [OF ev _ reps_InnerD(1)], assumption, assumption)
      apply (simp only: outcome.case True if_True)
      by (rule wp_rotateRight [OF ev _ n(1) [unfolded l] n(2) s3]) (assumption | rule P | simp add: B)+
  next
    case False
    then have "0 < ht b" using ht_nonneg [of a] by linarith
    then obtain k3 c d where b: "b = Inner k3 c d" by (blast dest: ht_pos_Inner)
    have B: "bal (Inner k l r) = Inner k3 (Inner k2 a c) (Inner k d r)" using h l b False by (simp add: bal.simps(2))
    have s1: "sz a + sz c + sz d < 2 ^ 31" and s2: "sz (Inner k2 a c) + sz d + sz r < 2 ^ 31"
      using s3 b sz_pos [of r] by simp_all
    have n': "half_reps env (dbof t0) k (Inner k3 (Inner k2 a c) d) r (set_left None (Some m) n)"
      if "reps env (dbof t0) (Inner k3 (Inner k2 a c) d) m" for m
      using n(1) that by (auto simp: half_reps_def)
    show ?thesis
      apply (simp only: wp_bind, rule getl [OF near], simp only: wp_bind outcome.case)
      apply (rule wp_calcBalance [OF ev _ reps_InnerD(1)], assumption, assumption)
      apply (simp only: outcome.case False if_False wp_bind)
      apply (rule getl, assumption, simp only: wp_bind outcome.case)
      apply (rule wp_orphan, assumption, assumption, simp only: wp_bind outcome.case)
      apply (rule wp_rotateLeft [OF ev _ reps_InnerD(1,2) s1, where k=k2 and ?k2.0=k3])
         apply (assumption | simp add: b)+
      by (rule wp_rotateRight [OF ev _ n' _ s2]) (assumption | rule P | simp add: B n)+
  qed
qed

lemma wp_balance_right:
  assumes ev: "evicts_only env" and near: "near env t0 t"
    and n: "half_reps env (dbof t0) k l r n" "nheight n \<noteq> 0" and s: "sz l + sz r < 2 ^ 31"
    and h: "ht l - ht r < -1"
    and P: "\<And>t' n'. near env t0 t' \<Longrightarrow> reps env (dbof t0) (bal (Inner k l r)) n' \<Longrightarrow> fresh n' \<Longrightarrow> P (Ret n') t'"
  shows "wp (bind (getRightNode env n) (\<lambda>r. bind (calcBalance env r) (\<lambda>br.
            if br \<le> 0 then rotateLeft env n
            else bind (getRightNode env n) (\<lambda>right. bind (removeOrphan right) (\<lambda>_.
                   bind (rotateRight env right) (\<lambda>right'. rotateLeft env (set_right None (Some right') n))))))) P t"
proof -
  have "0 < ht r" using h ht_nonneg [of l] by linarith
  then obtain k2 a b where r: "r = Inner k2 a b" by (blast dest: ht_pos_Inner)
  have s3: "sz l + sz a + sz b < 2 ^ 31" using s r by simp
  note getr = wp_getRightNode [OF ev _ n(1) [unfolded r]]
  show ?thesis
  proof (cases "ht a - ht b \<le> 0")
    case True
    then have B: "bal (Inner k l r) = Inner k2 (Inner k l a) b" using h r by (simp add: bal.simps(2))
    show ?thesis
      apply (simp only: wp_bind, rule getr [OF near], simp only: wp_bind outcome.case)
      apply (rule wp_calcBalance [OF ev _ reps_InnerD(1)], assumption, assumption)
      apply (simp only: outcome.case True if_True)
      by (rule wp_rotateLeft [OF ev _ n(1) [unfolded r] n(2) s3]) (assumption | rule P | simp add: B)+
  next
    case False
    then have "0 < ht a" using ht_nonneg [of b] by linarith
    then obtain k3 c d where a: "a = Inner k3 c d" by (blast dest: ht_pos_Inner)
    have B: "bal (Inner k l r) = Inner k3 (Inner k l c) (Inner k2 d b)" using h r a False by (simp add: bal.simps(2))
    have s1: "sz c + sz d + sz b < 2 ^ 31" and s2: "sz l + sz c + sz (Inner k2 d b) < 2 ^ 31"
      using s3 a sz_pos [of l] by simp_all
    have n': "half_reps env (dbof t0) k l (Inner k3 c (Inner k2 d b)) (set_right None (Some m) n)"
      if "reps env (dbof t0) (Inner k3 c (Inner k2 d b)) m" for m
      using n(1) that by (auto simp: half_reps_def)
    show ?thesis
      apply (simp only: wp_bind, rule getr [OF near], simp only: wp_bind outcome.case)
      apply (rule wp_calcBalance [OF ev _ reps_InnerD(1)], assumption, assumption)
      apply (simp only: outcome.case False if_False wp_bind)
      apply (rule getr, assumption, simp only: wp_bind outcome.case)
      apply (rule wp_orphan, assumption, assumption, simp only: wp_bind outcome.case)
      apply (rule wp_rotateRight [OF ev _ reps_InnerD(1,2) s1, where k=k2 and ?k2.0=k3])
         apply (assumption | simp add: a)+
      by (rule wp_rotateLeft [OF ev _ n' _ s2]) (assumption | rule P | simp add: B n)+
  qed
qed

lemma wp_balance:
  assumes ev: "evicts_only env" and near: "near env t0 t"
    and n: "reps env (dbof t0) (Inner k l r) n" "fresh n" and s: "sz l + sz r < 2 ^ 31"
    and P: "\<And>t' n'. near env t0 t' \<Longrightarrow> reps env (dbof t0) (bal (Inner k l r)) n' \<Longrightarrow> fresh n' \<Longrightarrow> P (Ret n') t'"
  shows "wp (balance env n) P t"
proof -
  note half = reps_InnerD(1,2) [OF n(1)]
  have np: "\<not> persisted n" using n(2) by (simp add: fresh_def)
  have mid: "P (Ret n) t'" if "near env t0 t'" "\<not> ht l - ht r > 1" "\<not> ht l - ht r < -1" for t'
    using that n by (intro P) (auto simp: bal.simps(2))
  show ?thesis
    unfolding balance_def
    apply (simp only: np if_False)
    apply (subst wp_bind)
    apply (rule wp_calcBalance [OF ev near half(1)])
    apply (simp only: outcome.case wp_if if_bool_eq_conj)
    apply (intro conjI impI)
      apply (rule wp_balance_left [OF ev _ half s]; (assumption | rule P); assumption?)
     apply (rule wp_balance_right [OF ev _ half s]; (assumption | rule P); assumption?)
    by (simp only: wp_ret) (rule mid)
qed

end
