(* ===== verification/MavlOps.thy ===== *)
theory MavlOps
  imports MavlRefine
begin

text \<open>
  The recursive operations of \<^verbatim>\<open>system/store/mavl/db/node.go\<close> (\<open>has\<close>, \<open>get\<close>, \<open>getByIndex\<close>,
  \<open>set\<close>, \<open>remove\<close>) compute the operations of the search tree their nodes represent, given fuel
  above the height of the tree and fewer than \<open>2\<^sup>31\<close> leaves. No operation changes the database.
\<close>

lemma wp_Pair [simp]: "wp (Pair x) P s = P x s"
  by (simp add: wp_def)

lemma sz_bal [simp]: "sz (bal t) = sz t"
  by (simp add: sz_leaves)

lemma ins_sz: "sz (fst (ins k v t)) = sz t + (if snd (ins k v t) then 0 else 1)"
  by (induction t) (auto split: prod.splits simp del: bal.simps)

lemma ins_ht: "snd (ins k v t) \<Longrightarrow> ht (fst (ins k v t)) = ht t"
  by (induction t) (auto split: prod.splits if_splits)

lemma ht_children: "nat (ht l) < f" "nat (ht r) < f" if "nat (ht (Inner k l r)) < Suc f"
proof -
  have "nat (ht l + 1) \<le> nat (ht (Inner k l r))" "nat (ht r + 1) \<le> nat (ht (Inner k l r))"
    by (auto intro: nat_mono)
  then show "nat (ht l) < f" "nat (ht r) < f" using that by (simp_all add: nat_add_distrib)
qed

lemma NewNode_reps [simp]: "reps env db (Leaf k v) (NewNode k v)" "fresh (NewNode k v)"
  by (simp_all add: NewNode_def fresh_def hash_ok_fresh)

lemma reps_LeafD:
  "reps env db (Leaf k v) n \<Longrightarrow> nheight n = 0 \<and> nkey n = k \<and> nvalue n = v \<and> nsize n = 1"
  by simp

lemma reps_pair:
  assumes "reps env db l x" "reps env db r y" "ht l = 0" "ht r = 0" "sz l = 1" "sz r = 1"
  shows "reps env db (Inner k l r) (Node k None 1 2 None h (Some x) g (Some y) False)"
  using assms by (simp add: reps_Inner half_reps_def hash_ok_fresh)

lemma wp_rebuild:
  assumes ev: "evicts_only env" and "near env t0 t" and "half_reps env (dbof t0) k l r n"
    and "fresh n" and s: "sz l + sz r < 2 ^ 31"
    and P: "\<And>t' n'. near env t0 t' \<Longrightarrow> reps env (dbof t0) (bal (Inner k l r)) n' \<Longrightarrow> fresh n' \<Longrightarrow> wp (g n') P t'"
  shows "wp (bind (calcHeightAndSize env n) (\<lambda>n. bind (balance env n) g)) P t"
  apply (subst wp_bind)
  apply (rule wp_calcHeightAndSize [OF assms(1-5)])
  apply (simp only: outcome.case)
  apply (subst wp_bind)
  apply (rule wp_balance [OF ev _ _ _ s], assumption, assumption, assumption)
  by (simp add: P)

lemma reps_same_shape:
  "reps env db (Inner k l r) n \<Longrightarrow> half_reps env db k' l' r' n' \<Longrightarrow> nheight n' = nheight n \<Longrightarrow>
   nsize n' = nsize n \<Longrightarrow> fresh n' \<Longrightarrow> ht l' = ht l \<Longrightarrow> ht r' = ht r \<Longrightarrow> sz l' = sz l \<Longrightarrow> sz r' = sz r \<Longrightarrow>
   reps env db (Inner k' l' r') n'"
  by (simp add: reps_Inner fresh_def hash_ok_fresh)

theorem wp_node_set:
  assumes ev: "evicts_only env"
  shows "near env t0 s \<Longrightarrow> reps env (dbof t0) t n \<Longrightarrow> nat (ht t) < f \<Longrightarrow> sz t + 1 < 2 ^ 31 \<Longrightarrow>
    (\<And>s' n'. near env t0 s' \<Longrightarrow> reps env (dbof t0) (fst (ins k v t)) n' \<Longrightarrow> fresh n' \<Longrightarrow>
       P (Ret (n', snd (ins k v t))) s') \<Longrightarrow>
    wp (node_set f env k v n) P s"
proof (induction t arbitrary: f n s P)
  case (Leaf k' v')
  then obtain f' where f: "f = Suc f'" by (cases f) auto
  from Leaf.prems(2) have n: "nheight n = 0" "nkey n = k'" by auto
  note P = Leaf.prems(5)
  have new: "reps env (dbof t0) (Leaf k v) (NewNode k v)" by (rule NewNode_reps)
  have fr: "fresh (Node a None 1 2 None None b None c False)" for a b c by (simp add: fresh_def)
  consider "k < k'" | "k = k'" | "k' < k" by fastforce
  then show ?case
  proof cases
    case 1
    with n P [OF Leaf.prems(1) _ fr] reps_pair [OF new Leaf.prems(2)] show ?thesis
      by (auto simp: f wp_def ret_def)
  next
    case 2
    with n P [of _ "NewNode k v"] new show ?thesis
      by (auto simp: f wp_simps simp del: reps.simps intro!: wp_orphan [OF Leaf.prems(1,2)])
  next
    case 3
    with n P [OF Leaf.prems(1) _ fr] reps_pair [OF Leaf.prems(2) new] show ?thesis
      by (auto simp: f wp_simps)
  qed
next
  case (Inner k' l r)
  then obtain f' where f: "f = Suc f'" by (cases f) auto
  have fuel: "nat (ht l) < f'" "nat (ht r) < f'" using ht_children Inner.prems(3) f by auto
  have s: "sz l + 1 < 2 ^ 31" "sz r + 1 < 2 ^ 31" using Inner.prems(4) sz_pos [of l] sz_pos [of r] by auto
  note n = reps_InnerD [OF Inner.prems(2)]
  note half = n(1) [unfolded half_reps_def]
  show ?case
  proof (cases "k < k'")
    case True
    obtain l' u where i: "ins k v l = (l', u)" by fastforce
    have sz': "sz l' + sz r < 2 ^ 31"
      using ins_sz [of k v l] i Inner.prems(4) by (simp split: if_splits)
    have h: "half_reps env (dbof t0) k' l' r (set_left None (Some c) (copied n))" if "reps env (dbof t0) l' c" for c
      using half that by (simp add: half_reps_def)
    have shape: "reps env (dbof t0) (Inner k' l' r) (set_left None (Some c) (copied n))" if "reps env (dbof t0) l' c" u for c
      using that i ins_ht [of k v l] ins_sz [of k v l]
      by (intro reps_same_shape [OF Inner.prems(2) h]) auto
    show ?thesis
      unfolding f node_set.simps
      apply (simp only: n(2) if_False wp_bind)
      apply (rule wp_orphan [OF Inner.prems(1,2)], simp only: wp_bind outcome.case)
      apply (rule wp_copy [OF Inner.prems(2)], simp only: wp_bind outcome.case copied_simps n(5) True if_True)
      apply (rule wp_getLeftNode [OF ev _ half_copied [OF n(1)]], assumption)
      apply (simp only: wp_bind outcome.case)
      apply (rule Inner.IH(1) [OF _ _ fuel(1) s(1)], assumption, assumption)
      apply (simp only: i fst_conv snd_conv wp_ret outcome.case prod.case wp_if if_bool_eq_conj)
      apply (intro conjI impI)
      subgoal using True i Inner.prems(5) shape by simp
      by (rule wp_rebuild [OF ev _ h _ sz']) (use Inner.prems(5) True i in \<open>simp_all add: wp_simps\<close>)
  next
    case False
    obtain r' u where i: "ins k v r = (r', u)" by fastforce
    have sz': "sz l + sz r' < 2 ^ 31"
      using ins_sz [of k v r] i Inner.prems(4) by (simp split: if_splits)
    have h: "half_reps env (dbof t0) k' l r' (set_right None (Some c) (copied n))" if "reps env (dbof t0) r' c" for c
      using half that by (simp add: half_reps_def)
    have shape: "reps env (dbof t0) (Inner k' l r') (set_right None (Some c) (copied n))" if "reps env (dbof t0) r' c" u for c
      using that i ins_ht [of k v r] ins_sz [of k v r]
      by (intro reps_same_shape [OF Inner.prems(2) h]) auto
    show ?thesis
      unfolding f node_set.simps
      apply (simp only: n(2) if_False wp_bind)
      apply (rule wp_orphan [OF Inner.prems(1,2)], simp only: wp_bind outcome.case)
      apply (rule wp_copy [OF Inner.prems(2)], simp only: wp_bind outcome.case copied_simps n(5) False if_False)
      apply (rule wp_getRightNode [OF ev _ half_copied [OF n(1)]], assumption)
      apply (simp only: wp_bind outcome.case)
      apply (rule Inner.IH(2) [OF _ _ fuel(2) s(2)], assumption, assumption)
      apply (simp only: i fst_conv snd_conv wp_ret outcome.case prod.case wp_if if_bool_eq_conj)
      apply (intro conjI impI)
      subgoal using False i Inner.prems(5) shape by simp
      by (rule wp_rebuild [OF ev _ h _ sz']) (use Inner.prems(5) False i in \<open>simp_all add: wp_simps\<close>)
  qed
qed

subsection \<open>Lookup\<close>

lemma look_range: "look k t = (i, v, e) \<Longrightarrow> 0 \<le> i \<and> i \<le> sz t"
proof (induction t arbitrary: i v e)
  case (Inner k' l r)
  then show ?case using sz_pos [of l] sz_pos [of r]
    by (fastforce split: if_splits prod.splits)
qed (auto split: if_splits)

theorem wp_node_get:
  assumes ev: "evicts_only env"
  shows "near env t0 s \<Longrightarrow> reps env (dbof t0) t n \<Longrightarrow> nat (ht t) < f \<Longrightarrow> sz t < 2 ^ 31 \<Longrightarrow>
    (\<And>s'. near env t0 s' \<Longrightarrow> P (Ret (look k t)) s') \<Longrightarrow>
    wp (node_get f env k n) P s"
proof (induction t arbitrary: f n s P)
  case (Leaf k' v')
  then obtain f' where f: "f = Suc f'" by (cases f) auto
  with Leaf show ?case by (auto simp: wp_simps split: if_splits)
next
  case (Inner k' l r)
  then obtain f' where f: "f = Suc f'" by (cases f) auto
  have fuel: "nat (ht l) < f'" "nat (ht r) < f'" using ht_children Inner.prems(3) f by auto
  have s: "sz l + sz r < 2 ^ 31" using Inner.prems(4) by simp
  note b = child_bounds [OF s] and n = reps_InnerD [OF Inner.prems(2)]
  obtain i v e where lk: "look k r = (i, v, e)" by (cases "look k r") auto
  have i32: "i32 (i + i32 (sz l + sz r - sz r)) = i + sz l"
  proof -
    have "i32 (sz l + sz r - sz r) = sz l" using b by (auto simp: is_i32_def intro!: i32_id)
    moreover have "i32 (i + sz l) = i + sz l" using look_range [OF lk] b s by (auto simp: is_i32_def intro!: i32_id)
    ultimately show ?thesis by simp
  qed
  show ?case
  proof (cases "k < k'")
    case True
    then show ?thesis
      unfolding f node_get.simps using n Inner.prems(5)
      by (auto simp: wp_simps intro!: wp_getLeftNode [OF ev Inner.prems(1) n(1)] Inner.IH(1) [OF _ _ fuel(1) b(7)])
  next
    case False
    have "P (Ret (i32 (i + i32 (nsize n - nsize c)), v, e)) s'"
      if "near env t0 s'" "reps env (dbof t0) r c" for s' c
      using Inner.prems(5) [OF that(1)] False lk i32 n(4) reps_basic [OF that(2)] by simp
    then show ?thesis
      unfolding f node_get.simps using n False lk
      by (auto simp: wp_simps intro!: wp_getRightNode [OF ev Inner.prems(1) n(1)] Inner.IH(2) [OF _ _ fuel(2) b(8)])
  qed
qed

theorem wp_node_has:
  assumes ev: "evicts_only env"
  shows "near env t0 s \<Longrightarrow> reps env (dbof t0) t n \<Longrightarrow> bst t \<Longrightarrow> nat (ht t) < f \<Longrightarrow>
    (\<And>s'. near env t0 s' \<Longrightarrow> P (Ret (k \<in> keys t)) s') \<Longrightarrow>
    wp (node_has f env k n) P s"
proof (induction t arbitrary: f n s P)
  case (Leaf k' v')
  then obtain f' where f: "f = Suc f'" by (cases f) auto
  with Leaf show ?case by (auto simp: wp_simps split: if_splits)
next
  case (Inner k' l r)
  then obtain f' where f: "f = Suc f'" by (cases f) auto
  have fuel: "nat (ht l) < f'" "nat (ht r) < f'" using ht_children Inner.prems(4) f by auto
  note n = reps_InnerD [OF Inner.prems(2)]
  have b: "bst l" "bst r" using Inner.prems(3) by auto
  have min: "k' \<in> keys r" using Inner.prems(3) by (auto simp: min_key_in)
  consider "k = k'" | "k < k'" | "k' < k" by fastforce
  then show ?case
  proof cases
    case 1
    with Inner.prems(1,5) n min show ?thesis by (simp add: f wp_simps)
  next
    case 2
    with Inner.prems(3) have "k \<in> keys (Inner k' l r) \<longleftrightarrow> k \<in> keys l" by auto
    with 2 n Inner.prems(5) show ?thesis
      by (auto simp: f wp_simps intro!: wp_getLeftNode [OF ev Inner.prems(1) n(1)] Inner.IH(1) [OF _ _ b(1) fuel(1)])
  next
    case 3
    with Inner.prems(3) have "k \<in> keys (Inner k' l r) \<longleftrightarrow> k \<in> keys r" by auto
    with 3 n Inner.prems(5) show ?thesis
      by (auto simp: f wp_simps intro!: wp_getRightNode [OF ev Inner.prems(1) n(1)] Inner.IH(2) [OF _ _ b(2) fuel(2)])
  qed
qed

theorem wp_node_getByIndex:
  assumes ev: "evicts_only env"
  shows "near env t0 s \<Longrightarrow> reps env (dbof t0) t n \<Longrightarrow> nat (ht t) < f \<Longrightarrow> sz t < 2 ^ 31 \<Longrightarrow>
    0 \<le> i \<Longrightarrow> i < sz t \<Longrightarrow>
    (\<And>s'. near env t0 s' \<Longrightarrow> P (Ret (leaves t ! nat i)) s') \<Longrightarrow>
    wp (node_getByIndex f env i n) P s"
proof (induction t arbitrary: f n s P i)
  case (Leaf k' v')
  then obtain f' where f: "f = Suc f'" by (cases f) auto
  with Leaf show ?case by (auto simp: wp_simps split: if_splits)
next
  case (Inner k' l r)
  then obtain f' where f: "f = Suc f'" by (cases f) auto
  have fuel: "nat (ht l) < f'" "nat (ht r) < f'" using ht_children Inner.prems(3) f by auto
  have s: "sz l + sz r < 2 ^ 31" using Inner.prems(4) by simp
  note b = child_bounds [OF s] and n = reps_InnerD [OF Inner.prems(2)]
  show ?case
  proof (cases "i < sz l")
    case True
    then have nth: "leaves (Inner k' l r) ! nat i = leaves l ! nat i"
      using Inner.prems(5) by (simp add: nth_append sz_leaves nat_less_iff)
    show ?thesis
      unfolding f node_getByIndex.simps
      apply (simp only: n(2) if_False wp_bind)
      apply (rule wp_getLeftNode [OF ev Inner.prems(1) n(1)])
      using True Inner.prems(5,7) nth
      by (auto dest: reps_basic intro: Inner.IH(1) [OF _ _ fuel(1) b(7)])
  next
    case False
    then have nth: "leaves (Inner k' l r) ! nat i = leaves r ! nat (i - sz l)"
      using Inner.prems(5) by (simp add: nth_append sz_leaves nat_diff_distrib nat_less_iff)
    have j: "i32 (i - sz l) = i - sz l" using False Inner.prems(6) b by (auto simp: is_i32_def intro!: i32_id)
    show ?thesis
      unfolding f node_getByIndex.simps
      apply (simp only: n(2) if_False wp_bind)
      apply (rule wp_getLeftNode [OF ev Inner.prems(1) n(1)])
      apply (frule reps_basic, simp only: outcome.case False if_False wp_bind j)
      apply (rule wp_getRightNode [OF ev _ n(1)], assumption)
      using False Inner.prems(6,7) nth j
      by (auto intro: Inner.IH(2) [OF _ _ fuel(2) b(8)])
  qed
qed

subsection \<open>Removal\<close>

text \<open>What \<^verbatim>\<open>remove\<close> returns for each outcome of the removal from the search tree.\<close>

definition removed_as :: "mavl_env \<Rightarrow> (bytes \<rightharpoonup> bytes) \<Rightarrow> bytes \<Rightarrow> mtree \<Rightarrow> Node \<Rightarrow>
    bytes option \<times> Node option \<times> bytes option \<times> bytes option \<times> bool \<Rightarrow> bool" where
  "removed_as env db k t n res \<longleftrightarrow>
     (case rem k t of
        None \<Rightarrow> res = (nhash n, Some n, None, None, False)
      | Some (None, nk, v) \<Rightarrow> res = (None, None, None, v, True)
      | Some (Some t', nk, v) \<Rightarrow>
          (\<exists>h c. res = (h, c, nk, v, True) \<and> slot env db t' h c \<and> \<not> (h = None \<and> c = None)))"

lemma slot_not_nil: "slot env db t h c \<Longrightarrow> \<not> (h = None \<and> c = None)"
  by (auto simp: slot_def)

lemma rem_sz: "rem k t = Some (Some t', nk, v) \<Longrightarrow> sz t' < sz t"
proof (induction t arbitrary: t' nk v)
  case (Inner k' l r)
  from Inner.prems show ?case
    using sz_pos [of l] sz_pos [of r] Inner.IH
    by (cases rule: rem_Inner_cases) (auto simp: sz_bal)
qed (auto split: if_splits)

lemma rem_result_cases [case_names Missing Gone Left]:
  fixes x :: "(mtree option \<times> bytes option \<times> bytes option) option"
  obtains "x = None" | nk v where "x = Some (None, nk, v)" | t' nk v where "x = Some (Some t', nk, v)"
  by (cases x) (auto, metis option.exhaust)

lemma wp_rebuild_copy:
  assumes ev: "evicts_only env" and near: "near env t0 t" and n: "reps env (dbof t0) (Inner k l r) n"
    and "half_reps env (dbof t0) k' l' r' (upd (copied n))" and "fresh (upd (copied n))" and "sz l' + sz r' < 2 ^ 31"
    and P: "\<And>t' n'. near env t0 t' \<Longrightarrow> reps env (dbof t0) (bal (Inner k' l' r')) n' \<Longrightarrow> fresh n' \<Longrightarrow> wp (g n') P t'"
  shows "wp (bind (removeOrphan n) (\<lambda>_. bind (node_copy n) (\<lambda>n.
           bind (calcHeightAndSize env (upd n)) (\<lambda>n. bind (balance env n) g)))) P t"
  apply (subst wp_bind, rule wp_orphan [OF near n], simp only: outcome.case)
  apply (subst wp_bind, rule wp_copy [OF n], simp only: outcome.case)
  by (rule wp_rebuild [OF ev _ assms(4-6)]) (assumption | rule P)+

theorem wp_node_remove:
  assumes ev: "evicts_only env"
  shows "near env t0 s \<Longrightarrow> reps env (dbof t0) t n \<Longrightarrow> nat (ht t) < f \<Longrightarrow> sz t < 2 ^ 31 \<Longrightarrow>
    (\<And>s' res. near env t0 s' \<Longrightarrow> removed_as env (dbof t0) k t n res \<Longrightarrow> P (Ret res) s') \<Longrightarrow>
    wp (node_remove f env k n) P s"
proof (induction t arbitrary: f n s P)
  case (Leaf k' v')
  then obtain f' where f: "f = Suc f'" by (cases f) auto
  from Leaf.prems(2) have n: "nheight n = 0" "nkey n = k'" "nvalue n = v'" by auto
  show ?case
    using n Leaf.prems(1,5)
    by (auto simp: f wp_simps removed_as_def intro!: wp_orphan [OF Leaf.prems(1,2)])
next
  case (Inner k' l r)
  then obtain f' where f: "f = Suc f'" by (cases f) auto
  have fuel: "nat (ht l) < f'" "nat (ht r) < f'" using ht_children Inner.prems(3) f by auto
  have s: "sz l + sz r < 2 ^ 31" using Inner.prems(4) by simp
  note b = child_bounds [OF s] and n = reps_InnerD [OF Inner.prems(2)]
  note half = n(1) [unfolded half_reps_def]
  note P = Inner.prems(5)
  note build = wp_rebuild_copy [OF ev _ Inner.prems(2)]
  show ?case
  proof (cases "k < k'")
    case True
    have step: "wp (case res of (h, c, nk, v, removed) \<Rightarrow>
          if \<not> removed then ret (nhash n, Some n, None, v, False)
          else if h = None \<and> c = None then ret (rightHash n, rightNode n, Some (nkey n), v, True)
          else bind (removeOrphan n) (\<lambda>_. bind (node_copy n) (\<lambda>n.
                 bind (calcHeightAndSize env (set_left h c n)) (\<lambda>n.
                 bind (balance env n) (\<lambda>n. ret (nhash n, Some n, nk, v, True)))))) P s'"
      if near: "near env t0 s'" and res: "removed_as env (dbof t0) k l m res" for s' res m
    proof (cases "rem k l" rule: rem_result_cases)
      case Missing
      with res True near show ?thesis by (auto simp: removed_as_def wp_ret intro!: P)
    next
      case (Gone nk v)
      with res True near half show ?thesis
        by (auto simp: removed_as_def wp_ret n(5) slot_not_nil intro!: P dest: slot_not_nil)
    next
      case (Left l' nk v)
      then obtain h c where r: "res = (h, c, nk, v, True)" "slot env (dbof t0) l' h c"
        using res by (auto simp: removed_as_def)
      have "P (Ret (nhash n', Some n', nk, v, True)) t'"
        if "near env t0 t'" "reps env (dbof t0) (bal (Inner k' l' r)) n'" for n' t'
        using that True Left by (intro P) (auto simp: removed_as_def)
      then show ?thesis
        using r slot_not_nil [OF r(2)] rem_sz [OF Left] s half
        by (auto simp: wp_ret intro!: build [where l'=l' and r'=r and k'=k'] near)
    qed
    show ?thesis
      unfolding f node_remove.simps
      apply (simp only: n(2,5) True if_True if_False wp_bind)
      apply (rule wp_getLeftNode [OF ev Inner.prems(1) n(1)], simp only: outcome.case wp_bind)
      apply (rule Inner.IH(1) [OF _ _ fuel(1) b(7)], assumption, assumption)
      by (simp only: outcome.case) (rule step [unfolded n(5)])
  next
    case False
    have step: "wp (case res of (h, c, nk, v, removed) \<Rightarrow>
          if \<not> removed then ret (nhash n, Some n, None, v, False)
          else if h = None \<and> c = None then ret (leftHash n, leftNode n, None, v, True)
          else bind (removeOrphan n) (\<lambda>_. bind (node_copy n) (\<lambda>n.
                 bind (calcHeightAndSize env
                         (let n' = set_right h c n in case nk of None \<Rightarrow> n' | Some k' \<Rightarrow> set_key k' n')) (\<lambda>n.
                 bind (balance env n) (\<lambda>n. ret (nhash n, Some n, None, v, True)))))) P s'"
      if near: "near env t0 s'" and res: "removed_as env (dbof t0) k r m res" for s' res m
    proof (cases "rem k r" rule: rem_result_cases)
      case Missing
      with res False near show ?thesis by (auto simp: removed_as_def wp_ret intro!: P)
    next
      case (Gone nk v)
      with res False near half slot_not_nil [of env "dbof t0" l "leftHash n" "leftNode n"] show ?thesis
        by (auto simp: removed_as_def wp_ret n(5) intro!: P)
    next
      case (Left r' nk v)
      then obtain h c where r: "res = (h, c, nk, v, True)" "slot env (dbof t0) r' h c"
        using res by (auto simp: removed_as_def)
      have "P (Ret (nhash n', Some n', None, v, True)) t'"
        if "near env t0 t'" "reps env (dbof t0) (bal (Inner (case nk of None \<Rightarrow> k' | Some k'' \<Rightarrow> k'') l r')) n'" for n' t'
        using that False Left by (intro P) (auto simp: removed_as_def)
      then show ?thesis
        using r slot_not_nil [OF r(2)] rem_sz [OF Left] s half
        by (auto simp: wp_ret Let_def half_reps_def split: option.split
                 intro!: build [where l'=l and r'=r' and k'="case nk of None \<Rightarrow> k' | Some k'' \<Rightarrow> k''"] near)
    qed
    show ?thesis
      unfolding f node_remove.simps
      apply (simp only: n(2,5) False if_False wp_bind)
      apply (rule wp_getRightNode [OF ev Inner.prems(1) n(1)], simp only: outcome.case wp_bind)
      apply (rule Inner.IH(2) [OF _ _ fuel(2) b(8)], assumption, assumption)
      by (simp only: outcome.case) (rule step [unfolded n(5)])
  qed
qed

end
