(* ===== verification/MavlMap.thy ===== *)
theory MavlMap
  imports MavlOps
begin

text \<open>
  A \<open>Tree\<close> as an ordered finite map. \<open>holds env c bh mt T\<close>: the tree \<open>T\<close> represents \<open>mt\<close> (nothing,
  or a balanced search tree), over the database and batch \<open>c\<close>, at block height \<open>bh\<close>. Each method of
  \<^verbatim>\<open>Tree\<close> is given by a rule over \<open>holds\<close>; what it does to the map follows from \<open>MavlTree\<close>.
\<close>

type_synonym core = "((bytes \<rightharpoonup> bytes) \<times> (bytes \<times> bytes) list option) option"

definition core :: "Tree \<Rightarrow> core" where
  "core T = map_option (\<lambda>d. (ndb_db d, batch d)) (ndb T)"

definition core_db :: "core \<Rightarrow> bytes \<rightharpoonup> bytes" where
  "core_db c = (case c of None \<Rightarrow> Map.empty | Some (db, w) \<Rightarrow> db)"

definition wf_tree :: "mtree option \<Rightarrow> bool" where
  "wf_tree mt \<longleftrightarrow> (\<forall>t. mt = Some t \<longrightarrow> bst t \<and> avl t)"

definition holds :: "mavl_env \<Rightarrow> core \<Rightarrow> int \<Rightarrow> mtree option \<Rightarrow> Tree \<Rightarrow> bool" where
  "holds env c bh mt T \<longleftrightarrow>
     tree_ok env T \<and> core T = c \<and> blockHeight T = bh \<and> wf_tree mt \<and>
     (case mt of None \<Rightarrow> root T = None | Some t \<Rightarrow> (\<exists>n. root T = Some n \<and> reps env (core_db c) t n))"

subsection \<open>The map operations\<close>

definition entries :: "mtree option \<Rightarrow> (bytes \<times> bytes option) list" where
  "entries mt = (case mt of None \<Rightarrow> [] | Some t \<Rightarrow> leaves t)"

definition contents :: "mtree option \<Rightarrow> bytes \<rightharpoonup> bytes option" where
  "contents mt = map_of (entries mt)"

definition oset :: "bytes \<Rightarrow> bytes option \<Rightarrow> mtree option \<Rightarrow> mtree option" where
  "oset k v mt = Some (case mt of None \<Rightarrow> Leaf k v | Some t \<Rightarrow> fst (ins k v t))"

definition odel :: "bytes \<Rightarrow> mtree option \<Rightarrow> mtree option" where
  "odel k mt = (case mt of None \<Rightarrow> None | Some t \<Rightarrow> (case rem k t of None \<Rightarrow> Some t | Some (mt', _, _) \<Rightarrow> mt'))"

lemma entries_simps [simp]: "entries None = []" "entries (Some t) = leaves t"
  by (simp_all add: entries_def)

lemma contents_Some: "contents (Some t) = to_map t"
  by (simp add: contents_def to_map_def)

lemma contents_None [simp]: "contents None = Map.empty"
  by (simp add: contents_def)

lemma wf_simps [simp]: "wf_tree None" "wf_tree (Some t) \<longleftrightarrow> bst t \<and> avl t"
  by (simp_all add: wf_tree_def)

lemma entries_sorted: "wf_tree mt \<Longrightarrow> sorted_wrt (<) (map fst (entries mt))"
  by (cases mt) (auto simp: bst_sorted)

lemma dom_contents: "dom (contents mt) = fst ` set (entries mt)"
  by (simp add: contents_def dom_map_of_conv_image_fst)

lemma entries_contents: "wf_tree mt \<Longrightarrow> (k, v) \<in> set (entries mt) \<longleftrightarrow> contents mt k = Some v"
  unfolding contents_def using entries_sorted [of mt]
  by (auto simp: strict_sorted_iff dest: map_of_SomeD intro: map_of_is_SomeI)

lemma card_contents: "wf_tree mt \<Longrightarrow> card (dom (contents mt)) = length (entries mt)"
  using entries_sorted [of mt] distinct_card [of "map fst (entries mt)"]
  by (simp add: dom_contents strict_sorted_iff)

lemma wf_oset: "wf_tree mt \<Longrightarrow> wf_tree (oset k v mt)"
  by (cases mt) (auto simp: oset_def ins_bst dest: ins_avl [where t'="fst (ins k v t)" and u="snd (ins k v t)" for t])

lemma contents_oset: "wf_tree mt \<Longrightarrow> contents (oset k v mt) = (contents mt)(k \<mapsto> v)"
  by (cases mt) (auto simp: oset_def contents_Some ins_map to_map_def [of "Leaf k v"])

lemma map_of_without: "map_of (without k xs) = (map_of xs)(k := None)"
  by (induction xs) (auto simp: without_def fun_eq_iff)

lemma odel_cases:
  assumes "wf_tree mt"
  shows "wf_tree (odel k mt) \<and> contents (odel k mt) = (contents mt)(k := None) \<and> entries (odel k mt) = without k (entries mt)"
proof (cases mt)
  case (Some t)
  with assms have t: "bst t" "avl t" by auto
  show ?thesis
  proof (cases "rem k t" rule: rem_result_cases)
    case Missing
    then have "k \<notin> keys t" using rem_None [OF t(1)] by blast
    with Missing t Some show ?thesis
      by (auto simp: odel_def contents_Some without_id fun_eq_iff to_map_None)
  next
    case (Gone nk v)
    then have "t = Leaf k v" using rem_leaf by blast
    with Gone Some show ?thesis by (auto simp: odel_def contents_Some to_map_def without_def)
  next
    case (Left t' nk v)
    with rem_correct [OF t(1) Left] rem_avl [OF t(2) Left] Some show ?thesis
      by (auto simp: odel_def contents_Some to_map_def map_of_without)
  qed
qed (simp add: odel_def without_def)

lemmas wf_odel = odel_cases [THEN conjunct1]
lemmas contents_odel = odel_cases [THEN conjunct2, THEN conjunct1]
lemmas entries_odel = odel_cases [THEN conjunct2, THEN conjunct2]

subsection \<open>Rules for the methods\<close>

lemma core_dbof: "dbof T = core_db (core T)"
  by (auto simp: dbof_def core_db_def core_def split: option.splits)

lemma near_core: "near env T0 T \<Longrightarrow> tree_ok env T \<and> core T = core T0 \<and> blockHeight T = blockHeight T0 \<and> root T = root T0"
  by (auto simp: near_def same_def core_def split: option.splits; cases "ndb T"; cases "ndb T0"; auto)

lemma holds_near: "holds env c bh mt T \<Longrightarrow> near env T T' \<Longrightarrow> holds env c bh mt T'"
  using near_core [of env T T'] by (cases mt) (auto simp: holds_def)

lemma holds_SomeE:
  assumes "holds env c bh (Some t) T"
  obtains n where "root T = Some n" "reps env (dbof T) t n" "near env T T" "bst t" "avl t" "nat (ht t) < fuel n"
proof -
  from assms obtain n where n: "root T = Some n" "reps env (core_db c) t n" "tree_ok env T" "core T = c" "bst t" "avl t"
    by (auto simp: holds_def)
  with reps_basic [OF n(2)] show thesis
    by (intro that [of n]) (auto simp: core_dbof near_refl fuel_def)
qed

lemma holds_NoneD: "holds env c bh None T \<Longrightarrow> root T = None"
  by (simp add: holds_def)

lemma holds_set_root:
  assumes "holds env c bh mt T" "near env T T'" "wf_tree (Some t)" "reps env (dbof T) t n"
  shows "holds env c bh (Some t) (T'\<lparr>root := Some n\<rparr>)"
  using assms near_core [OF assms(2)]
  by (auto simp: holds_def tree_ok_def core_def core_dbof)

lemma wp_with_root:
  "wp (with_root d f) P T = (case root T of None \<Rightarrow> P (Ret d) T | Some n \<Rightarrow> wp (f n) P T)"
  by (simp add: wp_def with_root_def split: option.split)

lemma wp_set_root [simp]: "wp (set_root n) P T = P (Ret ()) (T\<lparr>root := n\<rparr>)"
  by (simp add: wp_def set_root_def)

lemma sz_entries: "sz t = int (length (entries (Some t)))"
  by (simp add: sz_leaves)

theorem wp_Tree_Set:
  assumes ev: "evicts_only env" and h: "holds env c bh mt T" and s: "length (entries mt) + 1 < 2 ^ 31"
    and P: "\<And>T'. holds env c bh (oset k v mt) T' \<Longrightarrow> P (Ret (k \<in> dom (contents mt))) T'"
  shows "wp (Tree_Set env k v) P T"
proof (cases mt)
  case None
  with h have "holds env c bh (oset k v mt) (T\<lparr>root := Some (NewNode k v)\<rparr>)"
    by (auto simp: holds_def oset_def tree_ok_def core_def NewNode_def hash_ok_fresh)
  with None P h show ?thesis by (auto simp: wp_def Tree_Set_def bind_def set_root_def ret_def dest: holds_NoneD)
next
  case (Some t)
  from h Some obtain n where n: "root T = Some n" "reps env (dbof T) t n" "near env T T" "bst t" "avl t" "nat (ht t) < fuel n"
    by (auto elim: holds_SomeE)
  have "wp (node_set (fuel n) env k v n) (\<lambda>r s'.
          case r of Ret (n', u) \<Rightarrow> P (Ret u) (s'\<lparr>root := Some n'\<rparr>) | Err e \<Rightarrow> P (Err e) s' | Panic p \<Rightarrow> P (Panic p) s') T"
  proof (rule wp_node_set [OF ev n(3,2,6)])
    show "sz t + 1 < 2 ^ 31" using s Some by (simp add: sz_leaves)
  next
    fix s' n' assume s': "near env T s'" "reps env (dbof T) (fst (ins k v t)) n'" "fresh n'"
    have "wf_tree (oset k v mt)" using n Some by (intro wf_oset) simp
    then have "holds env c bh (oset k v mt) (s'\<lparr>root := Some n'\<rparr>)"
      using holds_set_root [OF h s'(1) _ s'(2)] Some by (simp add: oset_def)
    moreover have "snd (ins k v t) \<longleftrightarrow> k \<in> dom (contents mt)"
      using ins_updated [OF n(4)] Some by (simp add: contents_Some dom_to_map)
    ultimately show "case Ret (n', snd (ins k v t)) of Ret (n', u) \<Rightarrow> P (Ret u) (s'\<lparr>root := Some n'\<rparr>)
        | Err e \<Rightarrow> P (Err e) s' | Panic p \<Rightarrow> P (Panic p) s'"
      using P by auto
  qed
  then have "wp (bind (node_set (fuel n) env k v n) (\<lambda>(n', u). bind (set_root (Some n')) (\<lambda>_. ret u))) P T"
    by (auto simp: wp_bind wp_ret split: outcome.splits elim!: wp_mono [rotated])
  then show ?thesis using n(1) by (simp add: wp_def Tree_Set_def)
qed

theorem wp_Tree_Get:
  assumes ev: "evicts_only env" and h: "holds env c bh mt T" and s: "length (entries mt) < 2 ^ 31"
    and P: "\<And>T'. holds env c bh mt T' \<Longrightarrow>
       P (Ret (int (length (filter (\<lambda>x. fst x < k) (entries mt))),
               (case contents mt k of None \<Rightarrow> None | Some v \<Rightarrow> v), k \<in> dom (contents mt))) T'"
  shows "wp (Tree_Get env k) P T"
proof (cases mt)
  case None
  with P h holds_NoneD [of env c bh T] show ?thesis by (auto simp: Tree_Get_def wp_with_root)
next
  case (Some t)
  from h Some obtain n where n: "root T = Some n" "reps env (dbof T) t n" "near env T T" "bst t" "nat (ht t) < fuel n"
    by (auto elim: holds_SomeE)
  have "sz t < 2 ^ 31" using s Some by (simp add: sz_leaves)
  from wp_node_get [OF ev n(3,2,5) this, of P k] P holds_near [OF h] n(1) Some show ?thesis
    by (simp add: Tree_Get_def wp_with_root look_correct [OF n(4)] contents_Some dom_to_map)
qed

theorem wp_Tree_Has:
  assumes ev: "evicts_only env" and h: "holds env c bh mt T"
    and P: "\<And>T'. holds env c bh mt T' \<Longrightarrow> P (Ret (k \<in> dom (contents mt))) T'"
  shows "wp (Tree_Has env k) P T"
proof (cases mt)
  case None
  with P h holds_NoneD [of env c bh T] show ?thesis by (auto simp: Tree_Has_def wp_with_root)
next
  case (Some t)
  from h Some obtain n where n: "root T = Some n" "reps env (dbof T) t n" "near env T T" "bst t" "nat (ht t) < fuel n"
    by (auto elim: holds_SomeE)
  from wp_node_has [OF ev n(3,2,4,5), of P k] P holds_near [OF h] n(1) Some show ?thesis
    by (simp add: Tree_Has_def wp_with_root contents_Some dom_to_map)
qed

theorem wp_GetByIndex:
  assumes ev: "evicts_only env" and h: "holds env c bh mt T" and s: "length (entries mt) < 2 ^ 31"
    and i: "0 \<le> i" "nat i < length (entries mt)"
    and P: "\<And>T'. holds env c bh mt T' \<Longrightarrow> P (Ret (entries mt ! nat i)) T'"
  shows "wp (GetByIndex env i) P T"
proof (cases mt)
  case (Some t)
  from h Some obtain n where n: "root T = Some n" "reps env (dbof T) t n" "near env T T" "bst t" "nat (ht t) < fuel n"
    by (auto elim: holds_SomeE)
  have "sz t < 2 ^ 31" "i < sz t" using s i Some by (auto simp: sz_leaves nat_less_iff)
  from wp_node_getByIndex [OF ev n(3,2,5) this(1) i(1) this(2)] P holds_near [OF h] n(1) Some show ?thesis
    by (simp add: GetByIndex_def wp_with_root)
qed (use i in simp)

theorem Size_Height:
  assumes "holds env c bh mt T"
  shows "Size T = int (length (entries mt))" and "2 ^ nat (Height T) \<le> (max 1 (Size T))\<^sup>2"
proof -
  have "Size T = int (length (entries mt)) \<and> 2 ^ nat (Height T) \<le> (max 1 (Size T))\<^sup>2"
  proof (cases mt)
    case (Some t)
    with assms obtain n where n: "root T = Some n" "reps env (dbof T) t n" "avl t" by (auto elim: holds_SomeE)
    have "max 1 (sz t) = sz t" using sz_pos [of t] by simp
    with n reps_basic [OF n(2)] avl_size [OF n(3)] Some show ?thesis by (simp add: Size_def Height_def sz_leaves)
  qed (use assms in \<open>auto simp: Size_def Height_def dest: holds_NoneD\<close>)
  then show "Size T = int (length (entries mt))" "2 ^ nat (Height T) \<le> (max 1 (Size T))\<^sup>2" by auto
qed

theorem wp_Remove:
  assumes ev: "evicts_only env" and h: "holds env c bh mt T" and s: "length (entries mt) < 2 ^ 31"
    and P: "\<And>T'. holds env c bh (odel k mt) T' \<Longrightarrow>
       P (Ret (case contents mt k of None \<Rightarrow> (None, False) | Some v \<Rightarrow> (v, True))) T'"
  shows "wp (Remove env k) P T"
proof (cases mt)
  case None
  with P h holds_NoneD [of env c bh T] show ?thesis by (auto simp: Remove_def wp_with_root odel_def)
next
  case (Some t)
  from h Some obtain n where n: "root T = Some n" "reps env (dbof T) t n" "near env T T" "bst t" "avl t" "nat (ht t) < fuel n"
    by (auto elim: holds_SomeE)
  have sz: "sz t < 2 ^ 31" using s Some by (simp add: sz_leaves)
  have wf': "wf_tree (odel k mt)" using wf_odel [of mt k] n Some by simp
  have step: "wp (case res of (newRootHash, newRoot, newKey, v, removed) \<Rightarrow>
       if \<not> removed then ret (None, False)
       else bind (case (newRoot, newRootHash) of
                 (None, Some h) \<Rightarrow> bind (must (GetNode env h)) (\<lambda>r. set_root (Some r))
               | _ \<Rightarrow> set_root newRoot) (\<lambda>_. ret (v, True))) P s'"
    if near: "near env T s'" and res: "removed_as env (dbof T) k t n res" for s' res
  proof (cases "rem k t" rule: rem_result_cases)
    case Missing
    then have "contents mt k = None" "odel k mt = mt" using rem_None [OF n(4), of k] Some Missing
      by (auto simp: contents_Some to_map_None odel_def)
    with Missing res P [of s'] holds_near [OF h near] show ?thesis
      by (auto simp: removed_as_def wp_ret)
  next
    case (Gone nk v)
    then have "t = Leaf k v" using rem_leaf by blast
    with Gone Some have d: "contents mt k = Some v" "odel k mt = None" by (auto simp: contents_Some to_map_def odel_def)
    have "holds env c bh None (s'\<lparr>root := None\<rparr>)"
      using h near_core [OF near] by (auto simp: holds_def tree_ok_def core_def)
    with Gone res d P [of "s'\<lparr>root := None\<rparr>"] show ?thesis
      by (auto simp: removed_as_def wp_bind wp_ret)
  next
    case (Left t' nk v)
    with rem_correct [OF n(4) Left] Some have d: "contents mt k = Some v" "odel k mt = Some t'"
      by (auto simp: contents_Some odel_def)
    from Left res obtain hs cn where r: "res = (hs, cn, nk, v, True)" "slot env (dbof T) t' hs cn"
      by (auto simp: removed_as_def)
    have ok: "P (Ret (v, True)) (u\<lparr>root := Some x\<rparr>)" if "near env T u" "reps env (dbof T) t' x" for u x
      using P [of "u\<lparr>root := Some x\<rparr>"] d holds_set_root [OF h that(1) _ that(2)] wf' by simp
    show ?thesis
    proof (cases cn)
      case None
      with r obtain hh x where x: "hs = Some hh" "dbload env (dbof s') hh = Some x" "reps env (dbof T) t' x"
        using near_dbof [OF near] by (auto simp: slot_def bytes_of_def)
      show ?thesis
        using r(1) None x ok near_step [OF near] near
        by (auto simp: wp_simps near_def intro!: wp_GetNode [OF ev _ x(2)])
    next
      case (Some x)
      with r ok [OF near, of x] show ?thesis by (auto simp: wp_bind wp_ret)
    qed
  qed
  show ?thesis
    unfolding Remove_def wp_with_root n(1) option.case
    by (subst wp_bind, rule wp_node_remove [OF ev n(3,2,6) sz], simp only: outcome.case, rule step)
qed

subsection \<open>Traversal\<close>

fun walk :: "(bytes \<Rightarrow> bytes option \<Rightarrow> 'a \<Rightarrow> bool \<times> 'a) \<Rightarrow> (bytes \<times> bytes option) list \<Rightarrow> 'a \<Rightarrow> bool \<times> 'a" where
  "walk fn [] a = (False, a)"
| "walk fn ((k, v) # xs) a = (case fn k v a of (halt, a') \<Rightarrow> if halt then (True, a') else walk fn xs a')"

lemma walk_append: "walk fn (xs @ ys) a = (case walk fn xs a of (halt, a') \<Rightarrow> if halt then (True, a') else walk fn ys a')"
  by (induction fn xs a rule: walk.induct) (auto split: prod.splits)

definition in_range :: "bytes option \<Rightarrow> bytes option \<Rightarrow> bool \<Rightarrow> bytes \<Rightarrow> bool" where
  "in_range start stop incl k \<longleftrightarrow>
     (case start of None \<Rightarrow> True | Some s \<Rightarrow> s \<le> k) \<and>
     (case stop of None \<Rightarrow> True | Some e \<Rightarrow> if incl then k \<le> e else k < e)"

definition selected :: "bytes option \<Rightarrow> bytes option \<Rightarrow> bool \<Rightarrow> bool \<Rightarrow> (bytes \<times> bytes option) list \<Rightarrow>
    (bytes \<times> bytes option) list" where
  "selected start stop asc incl xs = (if asc then id else rev) (filter (\<lambda>x. in_range start stop incl (fst x)) xs)"

lemma selected_none: "\<forall>x \<in> set xs. \<not> in_range start stop incl (fst x) \<Longrightarrow> selected start stop asc incl xs = []"
  by (simp add: selected_def)

lemma selected_append:
  "selected start stop asc incl (xs @ ys) =
     (if asc then selected start stop asc incl xs @ selected start stop asc incl ys
      else selected start stop asc incl ys @ selected start stop asc incl xs)"
  by (simp add: selected_def)

lemma wp_walk_seq:
  assumes m1: "\<And>Q. (\<And>s'. near env t0 s' \<Longrightarrow> Q (Ret (walk fn xs a)) s') \<Longrightarrow> wp m1 Q s"
    and m2: "\<And>a Q u. near env t0 u \<Longrightarrow> (\<And>s'. near env t0 s' \<Longrightarrow> Q (Ret (walk fn ys a)) s') \<Longrightarrow> wp (m2 a) Q u"
    and P: "\<And>s'. near env t0 s' \<Longrightarrow> P (Ret (walk fn (xs @ ys) a)) s'"
  shows "wp (bind m1 (\<lambda>(halt, a). if halt then ret (True, a) else m2 a)) P s"
  apply (subst wp_bind, rule m1)
  using P by (auto simp: walk_append wp_ret intro!: m2 split: prod.splits)

theorem wp_traverseInRange:
  assumes ev: "evicts_only env"
  shows "near env t0 s \<Longrightarrow> reps env (dbof t0) t n \<Longrightarrow> bst t \<Longrightarrow> nat (ht t) < f \<Longrightarrow>
    (\<And>s'. near env t0 s' \<Longrightarrow> P (Ret (walk fn (selected start stop asc incl (leaves t)) a)) s') \<Longrightarrow>
    wp (traverseInRange f env start stop asc incl depth (leaf_cb fn) n a) P s"
proof (induction t arbitrary: f n s P a depth)
  case (Leaf k' v')
  then obtain f' where f: "f = Suc f'" by (cases f) auto
  from Leaf.prems(2) have n: "nheight n = 0" "nkey n = k'" "nvalue n = v'" by auto
  show ?case
    using Leaf.prems(5) [OF Leaf.prems(1)] n
    by (cases "fn k' v' a")
       (auto simp: f wp_simps Let_def leaf_cb_def selected_def in_range_def split: option.splits prod.splits if_splits)
next
  case (Inner k' l r)
  then obtain f' where f: "f = Suc f'" by (cases f) auto
  have fuel: "nat (ht l) < f'" "nat (ht r) < f'" using ht_children Inner.prems(4) f by auto
  note n = reps_InnerD [OF Inner.prems(2)]
  have b: "bst l" "bst r" using Inner.prems(3) by auto
  define A where "A = (case start of None \<Rightarrow> True | Some s \<Rightarrow> s \<le> k')"
  define B where "B = (case stop of None \<Rightarrow> True | Some e \<Rightarrow> if incl then k' \<le> e else k' < e)"
  define sel where "sel = selected start stop asc incl"
  have notA: "sel (leaves l) = []" if "\<not> A"
    using that Inner.prems(3) unfolding sel_def A_def
    by (intro selected_none) (force simp: in_range_def keys_def split: option.splits)
  have notB: "sel (leaves r) = []" if "\<not> B"
    using that Inner.prems(3) unfolding sel_def B_def
    by (intro selected_none) (force simp: in_range_def keys_def split: option.splits if_splits)
  have cb: "leaf_cb fn n depth a = (False, a)" using n(2) by (simp add: leaf_cb_def)
  note IH = Inner.IH(1) [OF _ _ b(1) fuel(1), folded sel_def] Inner.IH(2) [OF _ _ b(2) fuel(2), folded sel_def]
  let ?go = "\<lambda>get a. bind (get env n) (\<lambda>c. traverseInRange f' env start stop asc incl ((depth + 1) mod 256) (leaf_cb fn) c a)"
  have goL: "wp (if A then ?go getLeftNode a else ret (False, a)) Q u"
    if "near env t0 u" "\<And>s'. near env t0 s' \<Longrightarrow> Q (Ret (walk fn (sel (leaves l)) a)) s'" for a Q u
  proof (cases A)
    case True
    then show ?thesis
      by (simp only: if_True wp_bind, intro wp_getLeftNode [OF ev that(1) n(1)], simp only: outcome.case)
         (rule IH(1), auto intro: that(2))
  qed (use that notA in \<open>simp add: wp_ret\<close>)
  have goR: "wp (if B then ?go getRightNode a else ret (False, a)) Q u"
    if "near env t0 u" "\<And>s'. near env t0 s' \<Longrightarrow> Q (Ret (walk fn (sel (leaves r)) a)) s'" for a Q u
  proof (cases B)
    case True
    then show ?thesis
      by (simp only: if_True wp_bind, intro wp_getRightNode [OF ev that(1) n(1)], simp only: outcome.case)
         (rule IH(2), auto intro: that(2))
  qed (use that notB in \<open>simp add: wp_ret\<close>)
  have sel: "sel (leaves (Inner k' l r)) = (if asc then sel (leaves l) @ sel (leaves r) else sel (leaves r) @ sel (leaves l))"
    by (simp add: sel_def selected_append)
  have P: "P (Ret (walk fn (if asc then sel (leaves l) @ sel (leaves r) else sel (leaves r) @ sel (leaves l)) a)) s'"
    if "near env t0 s'" for s'
    using Inner.prems(5) [OF that] unfolding sel [symmetric] by (simp add: sel_def)
  have ends: "(if A \<and> B then (False, a) else (False, a)) = (False, a)" by simp
  note rules = f traverseInRange.simps n(5) A_def [symmetric] B_def [symmetric] cb Let_def ends prod.case if_False
  show ?case
  proof (cases asc)
    case True
    then have asc: "asc = True" by simp
    show ?thesis
      unfolding rules
      apply (simp only: n(2) asc if_True if_False)
      apply (rule wp_walk_seq [where xs="sel (leaves l)" and ys="sel (leaves r)" and env=env and ?t0.0=t0])
        apply (rule goL [unfolded asc, OF Inner.prems(1)], assumption)
       apply (rule goR [unfolded asc], assumption, assumption)
      by (rule P [unfolded asc if_True])
  next
    case False
    then have asc: "asc = False" by simp
    show ?thesis
      unfolding rules
      apply (simp only: n(2) asc if_False)
      apply (rule wp_walk_seq [where xs="sel (leaves r)" and ys="sel (leaves l)" and env=env and ?t0.0=t0])
        apply (rule goR [unfolded asc, OF Inner.prems(1)], assumption)
       apply (rule goL [unfolded asc], assumption, assumption)
      by (rule P [unfolded asc if_False])
  qed
qed

theorem wp_IterateRange:
  assumes ev: "evicts_only env" and h: "holds env c bh mt T"
    and P: "\<And>T'. holds env c bh mt T' \<Longrightarrow> P (Ret (walk fn (selected start stop asc False (entries mt)) a)) T'"
  shows "wp (IterateRange env start stop asc fn a) P T"
proof (cases mt)
  case None
  with P h holds_NoneD [of env c bh T] show ?thesis 
    by (cases asc) (auto simp: IterateRange_def wp_with_root selected_def)
next
  case (Some t)
  from h Some obtain n where n: "root T = Some n" "reps env (dbof T) t n" "near env T T" "bst t" "nat (ht t) < fuel n"
    by (auto elim: holds_SomeE)
  show ?thesis
    using n(1) P holds_near [OF h] Some
    by (auto simp: IterateRange_def wp_with_root intro!: wp_traverseInRange [OF ev n(3,2,4,5)])
qed

end
