(* ===== verification/MavlHash.thy ===== *)
theory MavlHash
  imports MavlMap
begin

text \<open>
  \<^verbatim>\<open>Hash\<close> gives every node of a tree the hash \<open>mhash\<close> of the subtree it represents, with the key
  prefix in front if prefixes are on. The hash of a tree therefore depends on its shape and its
  leaves only: not on which nodes are in memory, in the cache or in the database.
\<close>

definition sha_len :: "mavl_env \<Rightarrow> bool" where
  "sha_len env \<longleftrightarrow> (\<forall>x. length (sha256 env x) = 32)"

lemma trunc_id: "length h \<le> 32 \<Longrightarrow> trunc h = h"
  by (simp add: trunc_def)

lemma trunc_append: "length h = 32 \<Longrightarrow> trunc (p @ h) = h"
  by (simp add: trunc_def)

lemma length_mhash: "sha_len env \<Longrightarrow> length (mhash env t) = 32"
  by (cases t) (simp_all add: LeafNode_Hash_def sha_len_def)

lemma addPrefix_Ret:
  assumes "root T \<noteq> None" and "length h = 32"
  shows "\<exists>h'. addPrefix env T i h = Ret h' \<and> trunc h' = h \<and> (enableMavlPrefix env \<or> h' = h)"
  using assms by (auto simp: addPrefix_def trunc_append trunc_id)

lemma dbload_stored:
  "dbload env db h = Some x \<Longrightarrow> nhash x = Some h \<and> persisted x \<and> leftNode x = None \<and> rightNode x = None"
  by (auto simp: dbload_def MakeNode_def split: option.splits if_splits)

lemma slot_Hash:
  assumes "slot env db t h c"
    and IH: "\<And>n. reps env db t n \<Longrightarrow>
      \<exists>n' h. node_Hash env T n = Ret n' \<and> reps env db t n' \<and> nhash n' = Some h"
  shows "\<exists>h' c'. (case c of None \<Rightarrow> Ret (h, None)
               | Some l \<Rightarrow> obind (node_Hash env T l) (\<lambda>l'. Ret (nhash l', Some l'))) = Ret (Some h', c') \<and>
               slot env db t (Some h') c' \<and> trunc h' = mhash env t \<and> (\<forall>x. c' = Some x \<longrightarrow> nhash x = Some h')"
proof (cases c)
  case None
  with assms(1) obtain h' x where "h = Some h'" "dbload env db h' = Some x" "reps env db t x"
    by (auto simp: slot_def bytes_of_def)
  with None assms(1) dbload_stored reps_hash_ok [of env db t x] show ?thesis by (auto simp: hash_ok_def)
next
  case (Some x)
  with assms(1) IH [of x] obtain x' h' where "node_Hash env T x = Ret x'" "reps env db t x'" "nhash x' = Some h'"
    by (auto simp: slot_def)
  with Some reps_hash_ok [of env db t x'] show ?thesis by (auto simp: hash_ok_def)
qed

theorem node_Hash_reps:
  assumes sha: "sha_len env" and T: "root T \<noteq> None"
  shows "reps env db t n \<Longrightarrow>
    \<exists>n' h. node_Hash env T n = Ret n' \<and> reps env db t n' \<and> nhash n' = Some h \<and> persisted n' = persisted n \<and>
           (nhash n \<noteq> None \<longrightarrow> n' = n)"
proof (induction t arbitrary: n)
  case (Leaf k v)
  obtain k' v' i s hs lh ln rh rn p where n: "n = Node k' v' i s hs lh ln rh rn p" by (cases n)
  obtain h where h: "addPrefix env T 0 (LeafNode_Hash env k v 0 1) = Ret h" "trunc h = mhash env (Leaf k v)"
    "enableMavlPrefix env \<or> h = mhash env (Leaf k v)"
    using addPrefix_Ret [OF T length_mhash [OF sha, of "Leaf k v"]] by auto
  show ?case
    using Leaf h by (auto simp: n node_Hash.simps hash_ok_def sealed_def)
next
  case (Inner k l r)
  obtain k' v' i s hs lh ln rh rn p where n: "n = Node k' v' i s hs lh ln rh rn p" by (cases n)
  show ?case
  proof (cases hs)
    case None
    note d = reps_InnerD [OF Inner.prems] reps_hash_ok [OF Inner.prems]
    have p: "\<not> p" using d(6) None n by simp
    have half: "slot env db l lh ln" "slot env db r rh rn" using d(1) n by (simp_all add: half_reps_def)
    have IH: "\<exists>n' h. node_Hash env T m = Ret n' \<and> reps env db l n' \<and> nhash n' = Some h" if "reps env db l m" for m
      using Inner.IH(1) [OF that] by blast
    have IH': "\<exists>n' h. node_Hash env T m = Ret n' \<and> reps env db r n' \<and> nhash n' = Some h" if "reps env db r m" for m
      using Inner.IH(2) [OF that] by blast
    obtain lh' ln' where L': "(case ln of None \<Rightarrow> Ret (lh, None)
               | Some l \<Rightarrow> obind (node_Hash env T l) (\<lambda>l'. Ret (nhash l', Some l'))) = Ret (Some lh', ln')"
        "slot env db l (Some lh') ln'" "trunc lh' = mhash env l" "\<forall>c. ln' = Some c \<longrightarrow> nhash c = Some lh'"
      using slot_Hash [OF half(1) IH] by blast
    obtain rh' rn' where R': "(case rn of None \<Rightarrow> Ret (rh, None)
               | Some r \<Rightarrow> obind (node_Hash env T r) (\<lambda>r'. Ret (nhash r', Some r'))) = Ret (Some rh', rn')"
        "slot env db r (Some rh') rn'" "trunc rh' = mhash env r" "\<forall>c. rn' = Some c \<longrightarrow> nhash c = Some rh'"
      using slot_Hash [OF half(2) IH'] by blast
    have m: "InnerNode_Hash env (Some lh') (Some rh') i s = mhash env (Inner k l r)"
      using L'(3) R'(3) d(3,4) n by (simp add: InnerNode_Hash_def)
    obtain h where h: "addPrefix env T i (InnerNode_Hash env (Some lh') (Some rh') i s) = Ret h"
      "trunc h = mhash env (Inner k l r)" "enableMavlPrefix env \<or> h = mhash env (Inner k l r)"
      using addPrefix_Ret [OF T length_mhash [OF sha, of "Inner k l r"]] m by auto
    have "hash_ok env db (Inner k l r) (Node k' v' i s (Some h) (Some lh') ln' (Some rh') rn' p)"
      using h(2,3) L'(4) R'(4) p by (auto simp: hash_ok_def sealed_def)
    moreover have "half_reps env db k l r (Node k' v' i s (Some h) (Some lh') ln' (Some rh') rn' p)"
      using L'(2) R'(2) d(1) n by (simp add: half_reps_def)
    ultimately show ?thesis
      using d(2-4) n None h(1) by (auto simp: node_Hash.simps L'(1) R'(1) reps_Inner)
  qed (use Inner.prems n in \<open>auto simp: node_Hash.simps\<close>)
qed

end
