(* ===== verification/MavlSave.thy ===== *)
theory MavlSave
  imports MavlHash
begin

text \<open>
  Saving a tree and loading it again. \<open>plain env\<close>: keys are not prefixed, leaves keep their
  values, and the encoding of stored nodes can be read back. \<open>universe env U\<close>: a set of trees, closed
  under subtrees, on which the hash does not collide. Over such a set, \<open>db_inv\<close> is an invariant of
  the database: what it holds under the hash of a tree is that tree, down to the leaves. \<open>save\<close>
  extends it, so every tree ever saved can be loaded from its root hash.
\<close>

fun snode :: "mavl_env \<Rightarrow> mtree \<Rightarrow> StoreNode" where
  "snode env (Leaf k v) =
     \<lparr>snKey = k, snValue = v, snLeftHash = None, snRightHash = None, snHeight = 0, snSize = 1\<rparr>"
| "snode env (Inner k l r) =
     \<lparr>snKey = k, snValue = None, snLeftHash = Some (mhash env l), snRightHash = Some (mhash env r),
      snHeight = ht (Inner k l r), snSize = sz (Inner k l r)\<rparr>"

fun subtrees :: "mtree \<Rightarrow> mtree set" where
  "subtrees (Leaf k v) = {Leaf k v}"
| "subtrees (Inner k l r) = insert (Inner k l r) (subtrees l \<union> subtrees r)"

definition storable :: "StoreNode \<Rightarrow> bool" where
  "storable s \<longleftrightarrow>
     snValue s \<noteq> Some [] \<and> snLeftHash s \<noteq> Some [] \<and> snRightHash s \<noteq> Some [] \<and>
     is_i32 (snHeight s) \<and> is_i32 (snSize s) \<and> snSize s \<noteq> 0 \<and> length (snKey s) < 2 ^ 64 \<and>
     (\<forall>x. Some x \<in> {snValue s, snLeftHash s, snRightHash s} \<longrightarrow> length x < 2 ^ 64)"

text \<open>What the code relies on of the protobuf encoding of \<^verbatim>\<open>StoreNode\<close>.\<close>

definition store_codec :: "mavl_env \<Rightarrow> bool" where
  "store_codec env \<longleftrightarrow>
     (\<forall>s. storable s \<longrightarrow> MarshalStore env s \<noteq> [] \<and> UnmarshalStore env (MarshalStore env s) = Some s)"

definition plain :: "mavl_env \<Rightarrow> bool" where
  "plain env \<longleftrightarrow>
     \<not> enableMavlPrefix env \<and> \<not> enableMvcc env \<and> sha_len env \<and> store_codec env \<and> evicts_only env \<and>
     (\<forall>w. batchWrite env w = None)"

definition universe :: "mavl_env \<Rightarrow> mtree set \<Rightarrow> bool" where
  "universe env U \<longleftrightarrow>
     (\<forall>s \<in> U. subtrees s \<subseteq> U \<and> sz s < 2 ^ 31 \<and> storable (snode env s)) \<and>
     (\<forall>s \<in> U. \<forall>s' \<in> U. mhash env s = mhash env s' \<longrightarrow> snode env s = snode env s')"

definition saved :: "mavl_env \<Rightarrow> (bytes \<rightharpoonup> bytes) \<Rightarrow> mtree \<Rightarrow> bool" where
  "saved env db t \<longleftrightarrow> db (mhash env t) \<noteq> None"

definition db_inv :: "mavl_env \<Rightarrow> mtree set \<Rightarrow> (bytes \<rightharpoonup> bytes) \<Rightarrow> bool" where
  "db_inv env U db \<longleftrightarrow>
     (\<forall>s \<in> U. saved env db s \<longrightarrow>
        db (mhash env s) = Some (MarshalStore env (snode env s)) \<and>
        (\<forall>k l r. s = Inner k l r \<longrightarrow> saved env db l \<and> saved env db r))"

definition node_of :: "mavl_env \<Rightarrow> mtree \<Rightarrow> Node" where
  "node_of env t = MakeNode (mhash env t) (snode env t)"

lemma subtrees_self [simp]: "t \<in> subtrees t"
  by (cases t) auto

lemma universeD:
  "universe env U \<Longrightarrow> s \<in> U \<Longrightarrow> subtrees s \<subseteq> U" "universe env U \<Longrightarrow> s \<in> U \<Longrightarrow> sz s < 2 ^ 31"
  "universe env U \<Longrightarrow> s \<in> U \<Longrightarrow> storable (snode env s)"
  "universe env U \<Longrightarrow> s \<in> U \<Longrightarrow> s' \<in> U \<Longrightarrow> mhash env s = mhash env s' \<Longrightarrow> snode env s = snode env s'"
  unfolding universe_def by blast+

lemma universe_Inner:
  assumes "universe env U" "Inner k l r \<in> U"
  shows "l \<in> U" "r \<in> U" "sz l + sz r < 2 ^ 31"
proof -
  note universeD(1,2) [OF assms]
  then show "l \<in> U" "r \<in> U" "sz l + sz r < 2 ^ 31" using subtrees_self [of l] subtrees_self [of r] by auto
qed

lemma mhash_inj:
  assumes u: "universe env U"
  shows "s \<in> U \<Longrightarrow> s' \<in> U \<Longrightarrow> mhash env s = mhash env s' \<Longrightarrow> s = s'"
proof (induction s arbitrary: s')
  case (Leaf k v)
  with universeD(4) [OF u Leaf.prems] show ?case by (cases s') auto
next
  case (Inner k l r)
  from universeD(4) [OF u Inner.prems] obtain l' r' where s': "s' = Inner k l' r'" "mhash env l = mhash env l'" "mhash env r = mhash env r'"
    by (cases s') auto
  with Inner.IH universe_Inner [OF u Inner.prems(1)] universe_Inner [OF u Inner.prems(2) [unfolded s'(1)]] show ?case by blast
qed

lemma ht_Inner_ne: "ht (Inner k l r) \<noteq> 0"
  using ht_0_iff [of "Inner k l r"] by auto

lemma snode_load:
  assumes "plain env" "universe env U" "t \<in> U" "db (mhash env t) = Some (MarshalStore env (snode env t))"
  shows "dbload env db (mhash env t) = Some (node_of env t)"
  using universeD(3) [OF assms(2,3)] assms(1,4)
  by (auto simp: plain_def store_codec_def dbload_def node_of_def)

lemma node_of_eqs:
  "node_of env (Leaf k v) = Node k v 0 1 (Some (mhash env (Leaf k v))) None None None None True"
  "node_of env (Inner k l r) = Node k None (ht (Inner k l r)) (sz (Inner k l r)) (Some (mhash env (Inner k l r)))
     (Some (mhash env l)) None (Some (mhash env r)) None True"
  using ht_Inner_ne [of k l r] by (simp_all add: node_of_def MakeNode_def)

lemma node_of_simps:
  "nhash (node_of env t) = Some (mhash env t)" "persisted (node_of env t)"
  "leftNode (node_of env t) = None" "rightNode (node_of env t) = None"
  by (cases t; simp add: node_of_eqs)+

lemma hash_ok_node_of:
  "sha_len env \<Longrightarrow> dbload env db (mhash env t) = Some (node_of env t) \<Longrightarrow> hash_ok env db t (node_of env t)"
  by (simp add: hash_ok_def sealed_def node_of_simps trunc_id length_mhash bytes_of_def)

lemma node_of_reps:
  assumes p: "plain env" and u: "universe env U" and i: "db_inv env U db"
  shows "t \<in> U \<Longrightarrow> saved env db t \<Longrightarrow> dbload env db (mhash env t) = Some (node_of env t) \<and> reps env db t (node_of env t)"
proof (induction t)
  case (Leaf k v)
  have sha: "sha_len env" using p by (simp add: plain_def)
  have "db (mhash env (Leaf k v)) = Some (MarshalStore env (snode env (Leaf k v)))"
    using i Leaf unfolding db_inv_def by blast
  note ld = snode_load [OF p u Leaf(1), where db=db, OF this]
  from ld hash_ok_node_of [OF sha ld] show ?case by (simp add: node_of_eqs)
next
  case (Inner k l r)
  have sha: "sha_len env" using p by (simp add: plain_def)
  have c: "l \<in> U" "r \<in> U" "saved env db l" "saved env db r"
      "db (mhash env (Inner k l r)) = Some (MarshalStore env (snode env (Inner k l r)))"
    using universe_Inner [OF u Inner.prems(1)] i Inner.prems unfolding db_inv_def by blast+
  note ld = snode_load [OF p u Inner.prems(1), where db=db, OF c(5)]
  have "reps env db (Inner k l r) (node_of env (Inner k l r))"
    using Inner.IH(1) [OF c(1,3)] Inner.IH(2) [OF c(2,4)] hash_ok_node_of [OF sha ld]
    by (simp add: reps_Inner half_reps_def slot_def node_of_eqs bytes_of_def)
  with ld show ?case by blast
qed

subsection \<open>Growing databases\<close>

lemma map_le_Some: "m \<subseteq>\<^sub>m m' \<Longrightarrow> m k = Some v \<Longrightarrow> m' k = Some v"
  unfolding map_le_def by (metis domI)

lemma dbload_mono:
  assumes le: "db \<subseteq>\<^sub>m db'" and "dbload env db h = Some n"
  shows "dbload env db' h = Some n"
proof -
  from assms(2) obtain b where "db h = Some b" by (auto simp: dbload_def split: option.splits)
  with map_le_Some [OF le this] assms(2) show ?thesis by (simp add: dbload_def)
qed

lemma hash_ok_mono: "db \<subseteq>\<^sub>m db' \<Longrightarrow> hash_ok env db t n \<Longrightarrow> hash_ok env db' t n"
  by (simp add: hash_ok_def dbload_mono)

lemma slot_mono:
  assumes "db \<subseteq>\<^sub>m db'" and "\<And>n. reps env db t n \<Longrightarrow> reps env db' t n" and "slot env db t h c"
  shows "slot env db' t h c"
  using assms(2,3) dbload_mono [OF assms(1)] by (cases c) (auto simp: slot_def)

lemma reps_mono: "db \<subseteq>\<^sub>m db' \<Longrightarrow> reps env db t n \<Longrightarrow> reps env db' t n"
proof (induction t arbitrary: n)
  case (Inner k l r)
  note slots = slot_mono [OF Inner.prems(1) Inner.IH(1) [OF Inner.prems(1)]] slot_mono [OF Inner.prems(1) Inner.IH(2) [OF Inner.prems(1)]]
  from Inner.prems(2) hash_ok_mono [OF Inner.prems(1)] show ?case
    by (simp add: reps_Inner half_reps_def slots)
qed (simp add: hash_ok_mono)

lemma saved_mono: "db \<subseteq>\<^sub>m db' \<Longrightarrow> saved env db t \<Longrightarrow> saved env db' t"
  unfolding saved_def using map_le_Some by fastforce

text \<open>The database as it will be once the batch \<open>w\<close> is written.\<close>

definition written :: "(bytes \<rightharpoonup> bytes) \<Rightarrow> (bytes \<times> bytes) list \<Rightarrow> bytes \<rightharpoonup> bytes" where
  "written db w = db ++ map_of (rev w)"

lemma written_snoc [simp]: "written db (w @ [(h, b)]) = (written db w)(h \<mapsto> b)"
  by (simp add: written_def)

lemma written_Nil [simp]: "written db [] = db"
  by (simp add: written_def)

definition pending :: "mavl_env \<Rightarrow> mtree set \<Rightarrow> (bytes \<rightharpoonup> bytes) \<Rightarrow> (bytes \<rightharpoonup> bytes) \<Rightarrow> Tree \<Rightarrow> bool" where
  "pending env U db db' T \<longleftrightarrow>
     (\<exists>d w. ndb T = Some d \<and> ndb_db d = db \<and> batch d = Some w \<and> db' = written db w \<and>
            db \<subseteq>\<^sub>m db' \<and> db_inv env U db' \<and> cache_ok env (d\<lparr>ndb_db := db'\<rparr>))"

lemma db_inv_step:
  assumes u: "universe env U" and i: "db_inv env U db" and t: "t \<in> U"
    and c: "\<And>k l r. t = Inner k l r \<Longrightarrow> saved env db l \<and> saved env db r"
  shows "db_inv env U (db(mhash env t \<mapsto> MarshalStore env (snode env t)))" (is "db_inv env U ?db")
    and "db \<subseteq>\<^sub>m db(mhash env t \<mapsto> MarshalStore env (snode env t))"
proof -
  have "db (mhash env t) = Some (MarshalStore env (snode env t))" if "saved env db t"
    using i t that unfolding db_inv_def by blast
  then show le: "db \<subseteq>\<^sub>m ?db" by (auto simp: map_le_def saved_def)
  have "?db (mhash env s) = Some (MarshalStore env (snode env s)) \<and>
      (\<forall>k l r. s = Inner k l r \<longrightarrow> saved env ?db l \<and> saved env ?db r)" if s: "s \<in> U" "saved env ?db s" for s
  proof (cases "mhash env s = mhash env t")
    case True
    then have sn: "snode env s = snode env t" using universeD(4) [OF u s(1) t] by simp
    have "saved env ?db l \<and> saved env ?db r" if "s = Inner k l r" for k l r
    proof -
      from sn that obtain k' l' r' where t': "t = Inner k' l' r'" "mhash env l = mhash env l'" "mhash env r = mhash env r'"
        by (cases t) auto
      with c [OF t'(1)] have "saved env db l" "saved env db r" by (simp_all add: saved_def)
      with le show ?thesis by (auto intro: saved_mono)
    qed
    with True sn show ?thesis by simp
  next
    case False
    with s have "saved env db s" by (simp add: saved_def)
    with i s(1) have "db (mhash env s) = Some (MarshalStore env (snode env s))"
      "\<forall>k l r. s = Inner k l r \<longrightarrow> saved env db l \<and> saved env db r"
      unfolding db_inv_def by blast+
    with False saved_mono [OF le] show ?thesis by simp
  qed
  then show "db_inv env U ?db" unfolding db_inv_def by blast
qed

lemma cache_ok_orphans:
  "cache_ok env (d\<lparr>orphans := x, ndb_db := y\<rparr>) = cache_ok env (d\<lparr>ndb_db := y\<rparr>)"
  by (cases "cache d") (simp_all add: cache_ok_def)

lemma wp_SaveNode:
  assumes p: "plain env" and u: "universe env U" and T: "pending env U db db' T" and t: "t \<in> U"
    and m: "nhash m = Some (mhash env t)" "\<not> persisted m"
    and st: "\<And>T. storeNode env m T = (Ret (MarshalStore env (snode env t)), T)"
    and n: "nheight m > 2 \<longrightarrow> set_persisted m = node_of env t"
    and c: "\<And>k l r. t = Inner k l r \<Longrightarrow> saved env db' l \<and> saved env db' r"
    and P: "\<And>T'. pending env U db (db'(mhash env t \<mapsto> MarshalStore env (snode env t))) T' \<Longrightarrow>
        root T' = root T \<Longrightarrow> blockHeight T' = blockHeight T \<Longrightarrow> P (Ret (set_persisted m)) T'"
  shows "wp (SaveNode env m) P T"
proof -
  obtain d w where d: "ndb T = Some d" "ndb_db d = db" "batch d = Some w" "db' = written db w"
      "db \<subseteq>\<^sub>m db'" "db_inv env U db'" "cache_ok env (d\<lparr>ndb_db := db'\<rparr>)"
    using T by (auto simp: pending_def)
  let ?b = "MarshalStore env (snode env t)" and ?h = "mhash env t"
  let ?db = "db'(?h \<mapsto> ?b)" and ?d = "d\<lparr>batch := Some (w @ [(?h, ?b)])\<rparr>"
  have step: "db_inv env U ?db" "db' \<subseteq>\<^sub>m ?db" using db_inv_step [OF u d(6) t] c by blast+
  have ev: "evicts_only env" using p by (simp add: plain_def)
  have ld: "dbload env ?db ?h = Some (node_of env t)" using snode_load [OF p u t, of ?db] by simp
  have ok: "cache_ok env (?d\<lparr>ndb_db := ?db\<rparr>)"
    using d(7) by (auto simp: cache_ok_def split: option.splits intro: dbload_mono [OF step(2)])
  have "cache_ok env ((cacheNode env (set_persisted m) ?d)\<lparr>ndb_db := ?db\<rparr>)"
  proof (cases "nheight m > 2")
    case True
    then have "cacheNode env (set_persisted m) (?d\<lparr>ndb_db := ?db\<rparr>) = (cacheNode env (set_persisted m) ?d)\<lparr>ndb_db := ?db\<rparr>"
      by (auto simp: cacheNode_def split: option.splits)
    moreover have "cache_ok env (cacheNode env (set_persisted m) (?d\<lparr>ndb_db := ?db\<rparr>))"
      using n True cacheNode_ok [OF ev ok, of "node_of env t" ?h] ld by (simp add: node_of_simps)
    ultimately show ?thesis by simp
  qed (use ok in \<open>auto simp: cacheNode_def set_persisted_def split: option.splits\<close>)
  moreover have "ndb_db (cacheNode env (set_persisted m) ?d) = ndb_db d" "batch (cacheNode env (set_persisted m) ?d) = batch ?d"
    by (auto simp: cacheNode_def split: option.splits)
  moreover define T' where "T' = T\<lparr>ndb := Some ((cacheNode env (set_persisted m) ?d)
      \<lparr>orphans := orphans (cacheNode env (set_persisted m) ?d) - {?h}\<rparr>)\<rparr>"
  ultimately have "pending env U db ?db T'"
    using d(2,3,4) step(1) map_le_trans [OF d(5) step(2)] unfolding pending_def T'_def by (simp add: cache_ok_orphans)
  then have "P (Ret (set_persisted m)) T'" by (rule P) (simp_all add: T'_def)
  moreover have "SaveNode env m T = (Ret (set_persisted m), T')"
    using d(1,3) st m by (simp add: SaveNode_def bind_def Let_def ret_def T'_def)
  ultimately show ?thesis by (simp add: wp_def)
qed

lemma child_saved:
  assumes p: "plain env" and s: "slot env db t h None"
  shows "saved env db t" "h = Some (mhash env t)"
proof -
  from s obtain hh x where x: "h = Some hh" "dbload env db hh = Some x" "reps env db t x"
    by (auto simp: slot_def bytes_of_def)
  then have "hh = mhash env t"
    using reps_hash_ok [OF x(3)] dbload_stored [OF x(2)] p by (auto simp: hash_ok_def plain_def)
  with x show "saved env db t" "h = Some (mhash env t)" by (auto simp: saved_def dbload_def split: option.splits)
qed

lemma hashed_child:
  assumes p: "plain env" and n: "sealed n" "nhash n \<noteq> None"
  shows "leftNode n = Some c \<Longrightarrow> reps env db t c \<Longrightarrow> leftHash n = Some (mhash env t)"
    and "rightNode n = Some c \<Longrightarrow> reps env db t c \<Longrightarrow> rightHash n = Some (mhash env t)"
  using n p reps_hash_ok [of env db t c] by (auto simp: sealed_def hash_ok_def plain_def)


text \<open>The state after part of a tree has been saved: more is written, nothing else has changed.\<close>

definition grown :: "mavl_env \<Rightarrow> mtree set \<Rightarrow> (bytes \<rightharpoonup> bytes) \<Rightarrow> Tree \<Rightarrow> (bytes \<rightharpoonup> bytes) \<Rightarrow> Tree \<Rightarrow> (bytes \<rightharpoonup> bytes) \<Rightarrow> bool" where
  "grown env U db T db1 T' db2 \<longleftrightarrow>
     pending env U db db2 T' \<and> db1 \<subseteq>\<^sub>m db2 \<and> root T' = root T \<and> blockHeight T' = blockHeight T"

lemma grown_trans: "grown env U db T db1 T' db2 \<Longrightarrow> grown env U db T' db2 T'' db3 \<Longrightarrow> grown env U db T db1 T'' db3"
  by (auto simp: grown_def intro: map_le_trans)

lemma wp_save_child:
  assumes s: "slot env db t h c" and p: "plain env" and T: "pending env U db db1 T"
    and save: "\<And>x Q. c = Some x \<Longrightarrow> reps env db t x \<Longrightarrow>
       (\<And>T' n' i db2. grown env U db T db1 T' db2 \<Longrightarrow> saved env db2 t \<Longrightarrow> Q (Ret (n', i)) T') \<Longrightarrow> wp (save x) Q T"
    and P: "\<And>T' i db2. grown env U db T db1 T' db2 \<Longrightarrow> saved env db2 t \<Longrightarrow> P (Ret i) T'"
  shows "wp (case c of None \<Rightarrow> ret 0 | Some x \<Rightarrow> bind (save x) (\<lambda>(_, i). ret i)) P T"
proof (cases c)
  case None
  have "db \<subseteq>\<^sub>m db1" "grown env U db T db1 T db1" using T by (auto simp: pending_def grown_def)
  with None P child_saved(1) [OF p s [unfolded None]] show ?thesis by (auto simp: wp_ret intro: saved_mono)
next
  case (Some x)
  with s have "reps env db t x" by (simp add: slot_def)
  from save [OF Some this, of "\<lambda>r T'. case r of Ret (_, i) \<Rightarrow> P (Ret i) T' | Err e \<Rightarrow> P (Err e) T' | Panic q \<Rightarrow> P (Panic q) T'"] P
  have "wp (save x) (\<lambda>r T'. case r of Ret (_, i) \<Rightarrow> P (Ret i) T' | Err e \<Rightarrow> P (Err e) T' | Panic q \<Rightarrow> P (Panic q) T') T"
    by auto
  with Some show ?thesis by (auto simp: wp_bind wp_ret split: outcome.splits elim!: wp_mono)
qed

lemma wp_run_outcome [simp]: "wp (run_outcome f) P T = P (f T) T"
  by (simp add: wp_def run_outcome_def)

lemma drop_simps [simp]:
  "nhash (drop_left n) = nhash n" "nhash (drop_right n) = nhash n"
  "persisted (drop_left n) = persisted n" "persisted (drop_right n) = persisted n"
  by (simp_all add: drop_left_def drop_right_def)

lemma reps_node_of:
  assumes "reps env db t n" "nhash n = Some (mhash env t)"
    and "\<And>k l r. t = Inner k l r \<Longrightarrow> leftHash n = Some (mhash env l) \<and> rightHash n = Some (mhash env r)"
  shows "set_persisted (drop_right (drop_left n)) = node_of env t"
  using assms by (cases t) (auto simp: node_of_eqs set_persisted_def drop_left_def drop_right_def reps_Inner half_reps_def)

lemma storeNode_node_of:
  assumes "set_persisted m = node_of env t" "\<not> enableMvcc env"
  shows "storeNode env m T = (Ret (MarshalStore env (snode env t)), T)"
  using assms ht_Inner_ne
  by (cases t) (auto simp: node_of_eqs set_persisted_def storeNode_def ret_def simp del: ht.simps sz.simps mhash.simps)

lemma wp_save_this:
  assumes p: "plain env" and u: "universe env U" and T: "pending env U db db1 T" and t: "t \<in> U"
    and n: "reps env db t n" "nhash n = Some (mhash env t)" "\<not> persisted n"
    and c: "\<And>k l r. t = Inner k l r \<Longrightarrow>
       leftHash n = Some (mhash env l) \<and> rightHash n = Some (mhash env r) \<and> saved env db1 l \<and> saved env db1 r"
    and P: "\<And>T' db2. grown env U db T db1 T' db2 \<Longrightarrow> saved env db2 t \<Longrightarrow> reps env db2 t (node_of env t) \<Longrightarrow>
       P (Ret (node_of env t)) T'"
  shows "wp (SaveNode env (drop_right (drop_left n))) P T"
proof -
  have nd: "set_persisted (drop_right (drop_left n)) = node_of env t" using reps_node_of [OF n(1,2)] c by blast
  have mv: "\<not> enableMvcc env" using p by (simp add: plain_def)
  let ?db = "db1(mhash env t \<mapsto> MarshalStore env (snode env t))"
  have inv1: "db_inv env U db1" using T by (auto simp: pending_def)
  have step: "db1 \<subseteq>\<^sub>m ?db" "db_inv env U ?db" using db_inv_step [OF u inv1 t] c by blast+
  have sv: "saved env ?db t" by (simp add: saved_def)
  show ?thesis
  proof (rule wp_SaveNode [OF p u T t _ _ storeNode_node_of [OF nd mv]])
    show "\<And>k l r. t = Inner k l r \<Longrightarrow> saved env db1 l \<and> saved env db1 r" using c by blast
  next
    fix T' assume "pending env U db ?db T'" "root T' = root T" "blockHeight T' = blockHeight T"
    then have "grown env U db T db1 T' ?db" using step(1) by (simp add: grown_def)
    from P [OF this sv] node_of_reps [OF p u step(2) t sv] nd show "P (Ret (set_persisted (drop_right (drop_left n)))) T'"
      by simp
  qed (use n nd in auto)
qed

lemma Hash_step:
  assumes p: "plain env" and T: "root T \<noteq> None" and n: "reps env db t n"
  shows "\<exists>n'. (if nhash n = None then node_Hash env T n else Ret n) = Ret n' \<and> reps env db t n' \<and>
    nhash n' = Some (mhash env t) \<and> (persisted n' \<longrightarrow> n' = n)"
proof -
  have sha: "sha_len env" "\<not> enableMavlPrefix env" using p by (auto simp: plain_def)
  from node_Hash_reps [OF sha(1) T n] obtain n' h where n': "node_Hash env T n = Ret n'" "reps env db t n'" "nhash n' = Some h"
    "persisted n' = persisted n" "nhash n \<noteq> None \<longrightarrow> n' = n" by blast
  have h: "h = mhash env t" using reps_hash_ok [OF n'(2)] n'(3) sha by (simp add: hash_ok_def)
  have "persisted n \<longrightarrow> nhash n \<noteq> None" using reps_basic [OF n] by blast
  with n' h show ?thesis by (intro exI [of _ n']) auto
qed

lemma wp_save_start:
  assumes p: "plain env" and T: "pending env U db db1 T" "root T \<noteq> None" and n: "reps env db t n"
    and old: "saved env db1 t \<Longrightarrow> reps env db1 t n \<Longrightarrow> nhash n = Some (mhash env t) \<Longrightarrow> P (Ret (n, 0)) T"
    and new: "\<And>n'. reps env db t n' \<Longrightarrow> nhash n' = Some (mhash env t) \<Longrightarrow> \<not> persisted n' \<Longrightarrow> wp (body n') P T"
  shows "wp (bind (if nhash n = None then run_outcome (\<lambda>t. node_Hash env t n) else ret n) (\<lambda>n.
     if persisted n then ret (n, 0) else body n)) P T"
proof -
  obtain n' where n': "(if nhash n = None then node_Hash env T n else Ret n) = Ret n'" "reps env db t n'"
    "nhash n' = Some (mhash env t)" "persisted n' \<longrightarrow> n' = n"
    using Hash_step [OF p T(2) n] by blast
  have le: "db \<subseteq>\<^sub>m db1" using T by (auto simp: pending_def)
  have "saved env db t" if "persisted n'"
    using reps_hash_ok [OF n'(2)] that n'(3) by (auto simp: hash_ok_def saved_def bytes_of_def dbload_def split: option.splits)
  with n' old new saved_mono [OF le] reps_mono [OF le n] have "wp (if persisted n' then ret (n', 0) else body n') P T"
    by (auto simp: wp_ret)
  with n'(1) show ?thesis by (auto simp: wp_bind wp_ret split: if_splits)
qed

theorem wp_node_save:
  assumes p: "plain env" and u: "universe env U"
  shows "pending env U db db1 T \<Longrightarrow> root T \<noteq> None \<Longrightarrow> t \<in> U \<Longrightarrow> reps env db t n \<Longrightarrow> nat (ht t) < f \<Longrightarrow>
    (\<And>T' n' i db2. grown env U db T db1 T' db2 \<Longrightarrow> saved env db2 t \<Longrightarrow> reps env db2 t n' \<Longrightarrow>
       nhash n' = Some (mhash env t) \<Longrightarrow> P (Ret (n', i)) T') \<Longrightarrow>
    wp (node_save f env n) P T"
proof (induction t arbitrary: f n T db1 P)
  case (Leaf k v)
  then obtain f' where f: "f = Suc f'" by (cases f) auto
  have g: "grown env U db T db1 T db1" using Leaf.prems(1) by (simp add: grown_def)
  show ?case
    unfolding f node_save.simps
  proof (rule wp_save_start [OF p Leaf.prems(1,2,4)])
    fix n' assume n': "reps env db (Leaf k v) n'" "nhash n' = Some (mhash env (Leaf k v))" "\<not> persisted n'"
    then have kids: "leftNode n' = None" "rightNode n' = None" by auto
    show "wp (bind (case leftNode n' of None \<Rightarrow> ret 0 | Some l \<Rightarrow> bind (node_save f' env l) (\<lambda>(_, i). ret i)) (\<lambda>i.
       bind (case rightNode n' of None \<Rightarrow> ret 0 | Some r \<Rightarrow> bind (node_save f' env r) (\<lambda>(_, j). ret j)) (\<lambda>j.
       bind (SaveNode env (drop_right (drop_left n'))) (\<lambda>n'. ret (n', i64 (i + j + 1)))))) P T"
      unfolding kids option.case
      by (simp only: wp_bind wp_ret outcome.case)
         (rule wp_save_this [OF p u Leaf.prems(1,3) n'], auto simp: wp_ret node_of_simps intro!: Leaf.prems(6))
  qed (use g Leaf.prems(6) in blast)
next
  case (Inner k l r)
  then obtain f' where f: "f = Suc f'" by (cases f) auto
  have fuel: "nat (ht l) < f'" "nat (ht r) < f'" using ht_children Inner.prems(5) f by auto
  have g: "grown env U db T db1 T db1" using Inner.prems(1) by (simp add: grown_def)
  have U: "l \<in> U" "r \<in> U" using universe_Inner [OF u Inner.prems(3)] by auto
  show ?case
    unfolding f node_save.simps
  proof (rule wp_save_start [OF p Inner.prems(1,2,4)])
    fix n' assume n': "reps env db (Inner k l r) n'" "nhash n' = Some (mhash env (Inner k l r))" "\<not> persisted n'"
    have slots: "slot env db l (leftHash n') (leftNode n')" "slot env db r (rightHash n') (rightNode n')"
      using n'(1) by (auto simp: reps_Inner half_reps_def)
    have hs: "leftHash n' = Some (mhash env l)" "rightHash n' = Some (mhash env r)"
    proof -
      have sl: "sealed n'" "nhash n' \<noteq> None" using reps_hash_ok [OF n'(1)] n'(2) by (simp_all add: hash_ok_def)
      show "leftHash n' = Some (mhash env l)"
        using slots(1) child_saved(2) [OF p, of db l] hashed_child(1) [OF p sl] by (cases "leftNode n'") auto
      show "rightHash n' = Some (mhash env r)"
        using slots(2) child_saved(2) [OF p, of db r] hashed_child(2) [OF p sl] by (cases "rightNode n'") auto
    qed
    show "wp (bind (case leftNode n' of None \<Rightarrow> ret 0 | Some l \<Rightarrow> bind (node_save f' env l) (\<lambda>(_, i). ret i)) (\<lambda>i.
       bind (case rightNode n' of None \<Rightarrow> ret 0 | Some r \<Rightarrow> bind (node_save f' env r) (\<lambda>(_, j). ret j)) (\<lambda>j.
       bind (SaveNode env (drop_right (drop_left n'))) (\<lambda>n'. ret (n', i64 (i + j + 1)))))) P T"
      apply (subst wp_bind)
      apply (rule wp_save_child [OF slots(1) p Inner.prems(1)])
       apply (rule Inner.IH(1) [OF Inner.prems(1,2) U(1) _ fuel(1)], assumption)
      apply blast
      apply (simp only: outcome.case)
      subgoal premises g1 for T1 i db2
      proof -
        have T1: "pending env U db db2 T1" "root T1 \<noteq> None" using g1(1) Inner.prems(2) by (simp_all add: grown_def)
        show ?thesis
          apply (subst wp_bind)
          apply (rule wp_save_child [OF slots(2) p T1(1)])
           apply (rule Inner.IH(2) [OF T1 U(2) _ fuel(2)], assumption)
           apply blast
          apply (simp only: outcome.case)
          subgoal premises g2 for T2 j db3
          proof -
            have T2: "pending env U db db3 T2" and l: "saved env db3 l"
              using g2(1) saved_mono [OF _ g1(2)] by (simp_all add: grown_def)
            show ?thesis
              apply (simp only: wp_bind, rule wp_save_this [OF p u T2 Inner.prems(3) n'])
               apply (simp add: hs l g2(2))
              apply (simp only: outcome.case wp_ret)
              by (rule Inner.prems(6) [OF grown_trans [OF g1(1) grown_trans [OF g2(1)]]]) (auto simp: node_of_simps)
          qed
          done
      qed
      done
  qed (use g Inner.prems(6) in blast)
qed

end
