(* ===== verification/MavlKV.thy ===== *)
theory MavlKV
  imports MavlSave
begin

text \<open>
  The functions on a database: \<^verbatim>\<open>SetKVPair\<close>, \<^verbatim>\<open>GetKVPair\<close>, \<^verbatim>\<open>DelKVPair\<close> of \<^verbatim>\<open>tree.go\<close> as operations of a
  versioned store. Each state hash names one version of the map; writing makes a new version and
  leaves every earlier one readable. The locale \<open>map_tree\<close> is what these functions use of a tree.
\<close>

locale map_tree =
  fixes rep :: "'m \<Rightarrow> 's \<Rightarrow> bool"
    and valid :: "'m \<Rightarrow> bool"
    and card_of :: "'m \<Rightarrow> nat"
    and table :: "'m \<Rightarrow> bytes \<rightharpoonup> bytes option"
    and put :: "bytes \<Rightarrow> bytes option \<Rightarrow> 'm \<Rightarrow> 'm"
    and del :: "bytes \<Rightarrow> 'm \<Rightarrow> 'm"
    and Put :: "bytes \<Rightarrow> bytes option \<Rightarrow> ('s, bool) prog"
    and Look :: "bytes \<Rightarrow> ('s, int \<times> bytes option \<times> bool) prog"
    and Del :: "bytes \<Rightarrow> ('s, bytes option \<times> bool) prog"
  assumes valid: "rep m s \<Longrightarrow> valid m"
    and Put: "rep m s \<Longrightarrow> card_of m + 1 < 2 ^ 31 \<Longrightarrow>
      (\<And>s'. rep (put k v m) s' \<Longrightarrow> P (Ret (k \<in> dom (table m))) s') \<Longrightarrow> wp (Put k v) P s"
    and Look: "rep m s \<Longrightarrow> card_of m < 2 ^ 31 \<Longrightarrow>
      (\<And>i s'. rep m s' \<Longrightarrow> Q (Ret (i, case table m k of None \<Rightarrow> None | Some v \<Rightarrow> v, k \<in> dom (table m))) s') \<Longrightarrow>
      wp (Look k) Q s"
    and Del: "rep m s \<Longrightarrow> card_of m < 2 ^ 31 \<Longrightarrow>
      (\<And>s'. rep (del k m) s' \<Longrightarrow> R (Ret (case table m k of None \<Rightarrow> (None, False) | Some v \<Rightarrow> (v, True))) s') \<Longrightarrow>
      wp (Del k) R s"
    and valid_put: "valid m \<Longrightarrow> valid (put k v m)"
    and valid_del: "valid m \<Longrightarrow> valid (del k m)"
    and card_put: "valid m \<Longrightarrow> card_of (put k v m) \<le> card_of m + 1"
    and card_del: "valid m \<Longrightarrow> card_of (del k m) \<le> card_of m"
    and table_put: "valid m \<Longrightarrow> table (put k v m) = (table m)(k \<mapsto> v)"
    and table_del: "valid m \<Longrightarrow> table (del k m) = (table m)(k := None)"
begin

definition puts :: "(bytes \<times> bytes option) list \<Rightarrow> 'm \<Rightarrow> 'm" where
  "puts kvs m = fold (\<lambda>(k, v). put k v) kvs m"

definition found :: "'m \<Rightarrow> bytes \<Rightarrow> bytes option" where
  "found m k = (case table m k of None \<Rightarrow> None | Some v \<Rightarrow> v)"

lemma valid_puts: "valid m \<Longrightarrow> valid (puts kvs m)"
  by (induction kvs arbitrary: m) (auto simp: puts_def valid_put)

lemma table_puts: "valid m \<Longrightarrow> table (puts kvs m) = table m ++ map_of (rev kvs)"
proof (induction kvs arbitrary: m)
  case (Cons kv kvs)
  then show ?case by (cases kv) (simp add: puts_def valid_put table_put del: fun_upd_apply)
qed (simp add: puts_def)

lemma wp_Puts:
  "rep m s \<Longrightarrow> card_of m + length kvs < 2 ^ 31 \<Longrightarrow> (\<And>s'. rep (puts kvs m) s' \<Longrightarrow> P (Ret ()) s') \<Longrightarrow>
   wp (forM kvs (\<lambda>(k, v). bind (Put k v) (\<lambda>_. ret ()))) P s"
proof (induction kvs arbitrary: m s)
  case (Cons kv kvs)
  obtain k v where kv: "kv = (k, v)" by (cases kv)
  have "card_of (put k v m) + length kvs < 2 ^ 31"
    using card_put [OF valid [OF Cons.prems(1)], of k v] Cons.prems(2) by simp
  then have "wp (forM kvs (\<lambda>(k, v). bind (Put k v) (\<lambda>_. ret ()))) P s'" if "rep (put k v m) s'" for s'
    using Cons.IH [OF that] Cons.prems(3) by (simp add: puts_def kv del: ret_run)
  then show ?case
    using Cons.prems(1,2) by (auto simp: kv wp_bind wp_ret simp del: ret_run intro!: Put)
qed (simp add: wp_ret puts_def)

lemma wp_Looks:
  "rep m s \<Longrightarrow> card_of m < 2 ^ 31 \<Longrightarrow> (\<And>s'. rep m s' \<Longrightarrow> P (Ret (map (found m) ks)) s') \<Longrightarrow>
   wp (mapM (\<lambda>k. bind (Look k) (\<lambda>(i, v, e). ret (if e then v else None))) ks) P s"
proof (induction ks arbitrary: s P)
  case (Cons k ks)
  have f: "(if k \<in> dom (table m) then case table m k of None \<Rightarrow> None | Some v \<Rightarrow> v else None) = found m k"
    by (auto simp: found_def split: option.splits)
  show ?case
    using Cons.prems f by (auto simp: wp_bind wp_ret simp del: ret_run intro!: Look Cons.IH)
qed (simp add: wp_ret)

primrec dels :: "bytes list \<Rightarrow> 'm \<Rightarrow> bytes option list \<times> 'm" where
  "dels [] m = ([], m)"
| "dels (k # ks) m = (case dels ks (del k m) of (vs, m') \<Rightarrow> (found m k # vs, m'))"

lemma valid_dels: "valid m \<Longrightarrow> valid (snd (dels ks m))"
proof (induction ks arbitrary: m)
  case (Cons k ks)
  from Cons.IH [OF valid_del [OF Cons.prems], of k] show ?case by (auto split: prod.splits)
qed simp

lemma table_dels: "valid m \<Longrightarrow> table (snd (dels ks m)) = table m |` (- set ks)"
proof (induction ks arbitrary: m)
  case (Cons k ks)
  from Cons.IH [OF valid_del [OF Cons.prems], of k] show ?case
    by (auto simp: table_del [OF Cons.prems] fun_eq_iff restrict_map_def split: prod.splits)
qed (simp add: restrict_map_def)

lemma wp_Dels:
  "rep m s \<Longrightarrow> card_of m < 2 ^ 31 \<Longrightarrow> (\<And>s'. rep (snd (dels ks m)) s' \<Longrightarrow> P (Ret (fst (dels ks m))) s') \<Longrightarrow>
   wp (mapM (\<lambda>k. bind (Del k) (\<lambda>(v, e). ret (if e then v else None))) ks) P s"
proof (induction ks arbitrary: m s P)
  case (Cons k ks)
  have c: "card_of (del k m) < 2 ^ 31" using card_del [OF valid [OF Cons.prems(1)], of k] Cons.prems(2) by simp
  have f: "(case (case table m k of None \<Rightarrow> (None, False) | Some v \<Rightarrow> (v, True)) of (v, e) \<Rightarrow> if e then v else None) = found m k"
    by (auto simp: found_def split: option.splits)
  have "wp (bind (mapM (\<lambda>k. bind (Del k) (\<lambda>(v, e). ret (if e then v else None))) ks) (\<lambda>ys. ret (found m k # ys))) P s'"
    if "rep (del k m) s'" for s'
    using Cons.prems(3)
    by (subst wp_bind, intro Cons.IH [OF that c]) (cases "dels ks (del k m)", simp add: wp_ret)
  with f show ?case
    unfolding mapM.simps
    by (subst wp_bind, subst wp_bind, intro Del [OF Cons.prems(1,2)])
       (cases "table m k"; simp add: found_def del: ret_run; simp add: wp_ret del: ret_run)
qed (simp add: wp_ret)

end

text \<open>The trees of the code satisfy the interface.\<close>

interpretation mavl: map_tree
  "\<lambda>mt T. evicts_only env \<and> holds env c bh mt T" wf_tree "\<lambda>mt. length (entries mt)" contents oset odel
  "Tree_Set env" "Tree_Get env" "Remove env"
  for env c bh
proof (unfold_locales, goal_cases)
  case (1 m s)
  then show ?case by (simp add: holds_def)
next
  case (2 m s k v P)
  then show ?case by (auto intro: wp_Tree_Set)
next
  case (3 m s Q k)
  then show ?case by (auto intro: wp_Tree_Get)
next
  case (4 m s k R)
  then show ?case by (auto intro: wp_Remove)
next
  case (7 m k v)
  have "card (dom (contents (oset k v m))) \<le> card (dom (contents m)) + 1"
    by (simp add: contents_oset [OF 7] card_insert_if dom_contents)
  then show ?case by (simp add: card_contents [OF 7] card_contents [OF wf_oset [OF 7]])
next
  case (8 m k)
  then show ?case by (simp add: entries_odel without_def)
qed (simp_all add: wf_oset wf_odel contents_oset contents_odel)

subsection \<open>Saving and loading trees\<close>

definition mdb_ok :: "mavl_env \<Rightarrow> mtree set \<Rightarrow> mdb \<Rightarrow> bool" where
  "mdb_ok env U db \<longleftrightarrow>
     db_inv env U (db_data db) \<and> cache_ok env \<lparr>cache = db_cache db, ndb_db = db_data db, batch = None, orphans = {}\<rparr>"

text \<open>\<open>version env U db h mt\<close>: the state hash \<open>h\<close> names the tree \<open>mt\<close> in the database.\<close>

definition version :: "mavl_env \<Rightarrow> mtree set \<Rightarrow> (bytes \<rightharpoonup> bytes) \<Rightarrow> bytes option \<Rightarrow> mtree option \<Rightarrow> bool" where
  "version env U db h mt \<longleftrightarrow>
     (case mt of
        None \<Rightarrow> h = None \<or> h = Some emptyRoot
      | Some t \<Rightarrow> h = Some (mhash env t) \<and> mhash env t \<noteq> emptyRoot \<and> t \<in> U \<and> saved env db t \<and> bst t \<and> avl t)"

lemma cache_ok_cong: "cache d = cache d' \<Longrightarrow> ndb_db d = ndb_db d' \<Longrightarrow> cache_ok env d = cache_ok env d'"
  by (cases "cache d'") (simp_all add: cache_ok_def)

lemma version_mono: "db \<subseteq>\<^sub>m db' \<Longrightarrow> version env U db h mt \<Longrightarrow> version env U db' h mt"
  by (auto simp: version_def intro: saved_mono split: option.splits)

lemma holds_new:
  assumes "mdb_ok env U db"
  shows "holds env (Some (db_data db, Some [])) 0 None (attach db (NewTree (Some (newNodeDB (db_cache db) (db_data db)))))"
  using assms by (auto simp: mdb_ok_def holds_def attach_def NewTree_def newNodeDB_def tree_ok_def core_def elim!: cache_ok_cong [THEN iffD1, rotated 2])

lemma wp_SetBlockHeight [simp]: "wp (SetBlockHeight h) P T = P (Ret ()) (T\<lparr>blockHeight := h\<rparr>)"
  by (simp add: wp_def SetBlockHeight_def)

lemma holds_height: "holds env c bh mt T \<Longrightarrow> holds env c h mt (T\<lparr>blockHeight := h\<rparr>)"
  by (cases mt) (auto simp: holds_def tree_ok_def core_def)

lemma wp_Load:
  assumes p: "plain env" and u: "universe env U" and h: "holds env c bh None T" and d: "db_inv env U (core_db c)"
    and v: "version env U (core_db c) h mt" and P: "\<And>T'. holds env c bh mt T' \<Longrightarrow> P (Ret ()) T'"
  shows "wp (Load env h) P T"
proof (cases mt)
  case None
  with v h P show ?thesis by (auto simp: Load_def version_def wp_ret)
next
  case (Some t)
  with v have t: "h = Some (mhash env t)" "mhash env t \<noteq> emptyRoot" "t \<in> U" "saved env (core_db c) t" "bst t" "avl t"
    by (auto simp: version_def)
  have ev: "evicts_only env" and ok: "tree_ok env T" and c: "dbof T = core_db c"
    using p h by (auto simp: plain_def holds_def core_dbof)
  note ld = node_of_reps [OF p u d t(3,4)]
  have "P (Ret ()) (T'\<lparr>root := Some (node_of env t)\<rparr>)" if "tree_ok env T'" "same T T'" for T'
    using that near_core [of env T T'] h ld t Some
    by (intro P) (auto simp: near_def holds_def core_def tree_ok_def)
  then show ?thesis
    using t(1,2) ld c by (auto simp: Load_def wp_simps intro!: wp_GetNode [OF ev ok])
qed

lemma wp_Commit:
  assumes p: "plain env" and T: "pending env U db db' T"
    and P: "\<And>T'. tree_ok env T' \<Longrightarrow> core T' = Some (db', None) \<Longrightarrow> root T' = root T \<Longrightarrow>
      blockHeight T' = blockHeight T \<Longrightarrow> P (Ret ()) T'"
  shows "wp (ndb_Commit env) P T"
proof -
  obtain d w where d: "ndb T = Some d" "ndb_db d = db" "batch d = Some w" "db' = written db w"
    "cache_ok env (d\<lparr>ndb_db := db'\<rparr>)"
    using T by (auto simp: pending_def)
  define T' where "T' = T\<lparr>ndb := Some (d\<lparr>ndb_db := db', batch := None, orphans := {}\<rparr>)\<rparr>"
  have "cache_ok env (d\<lparr>ndb_db := db', batch := None, orphans := {}\<rparr>) = cache_ok env (d\<lparr>ndb_db := db'\<rparr>)"
    by (rule cache_ok_cong) simp_all
  with d(5) have "P (Ret ()) T'" by (intro P) (simp_all add: T'_def tree_ok_def core_def)
  moreover have "ndb_Commit env T = (Ret (), T')"
    using d p by (simp add: ndb_Commit_def plain_def written_def T'_def)
  ultimately show ?thesis by (simp add: wp_def)
qed

theorem wp_Tree_Save:
  assumes p: "plain env" and u: "universe env U" and h: "holds env (Some (db, Some [])) bh mt T"
    and d: "db_inv env U db" and t: "\<And>t. mt = Some t \<Longrightarrow> t \<in> U"
    and P: "\<And>T' db' w. holds env (Some (db', w)) bh mt T' \<Longrightarrow> db_inv env U db' \<Longrightarrow> db \<subseteq>\<^sub>m db' \<Longrightarrow>
      (\<And>t. mt = Some t \<Longrightarrow> saved env db' t) \<Longrightarrow> P (Ret (map_option (mhash env) mt)) T'"
  shows "wp (Tree_Save env) P T"
proof (cases mt)
  case None
  with h P [OF h d] holds_NoneD [of env _ bh T] show ?thesis by (auto simp: Tree_Save_def wp_with_root)
next
  case (Some t)
  from h Some obtain n where n: "root T = Some n" "reps env (dbof T) t n" "nat (ht t) < fuel n"
    by (auto elim: holds_SomeE)
  have db: "dbof T = db" and wf: "wf_tree mt" and bh: "blockHeight T = bh"
    using h by (auto simp: core_dbof core_db_def holds_def)
  have pend: "pending env U db db T" and ndb: "ndb T \<noteq> None"
    using h d by (auto simp: holds_def core_def pending_def tree_ok_def split: option.splits)
  have step: "wp (bind (set_root (Some n')) (\<lambda>_. bind (attempt (ndb_Commit env)) (\<lambda>r.
      case r of Inl e \<Rightarrow> ret None | Inr _ \<Rightarrow> ret (nhash n')))) P T'"
    if g: "grown env U db T db T' db2" "saved env db2 t" "reps env db2 t n'" "nhash n' = Some (mhash env t)" for T' n' db2
  proof -
    have "pending env U db db2 (T'\<lparr>root := Some n'\<rparr>)" "db_inv env U db2" "db \<subseteq>\<^sub>m db2" "blockHeight T' = bh"
      using g(1) bh by (auto simp: grown_def pending_def)
    moreover have "holds env (Some (db2, None)) bh mt T''"
      if "tree_ok env T''" "core T'' = Some (db2, None)" "root T'' = Some n'" "blockHeight T'' = bh" for T''
      using that g(3) wf Some by (simp add: holds_def core_db_def)
    moreover have "P (Ret (nhash n')) T''" if "holds env (Some (db2, None)) bh mt T''" for T''
      using P [OF that] g(1,2,4) Some by (auto simp: grown_def pending_def)
    ultimately show ?thesis
      by (auto simp: wp_simps intro!: wp_Commit [OF p])
  qed
  have "wp (bind (node_save (fuel n) env n) (\<lambda>(n', i). bind (set_root (Some n')) (\<lambda>_.
       bind (attempt (ndb_Commit env)) (\<lambda>r. case r of Inl e \<Rightarrow> ret None | Inr _ \<Rightarrow> ret (nhash n'))))) P T"
    apply (subst wp_bind, rule wp_node_save [OF p u pend _ t [OF Some] n(2) [unfolded db] n(3)])
     apply (simp add: n(1))
    by (simp (no_asm) only: outcome.case prod.case) (rule step)
  with ndb n(1) show ?thesis by (auto simp: Tree_Save_def wp_def with_root_def)
qed

subsection \<open>The functions on a database\<close>

lemma wp_new_tree:
  assumes "mdb_ok env U db"
    and "\<And>T. holds env (Some (db_data db, Some [])) 0 None T \<Longrightarrow> wp m (\<lambda>r T'. P r (detach db T')) T"
  shows "wp (new_tree m) P db"
  using assms(2) [OF holds_new [OF assms(1)]]
  by (auto simp: wp_def new_tree_def on_tree_def bind_def split: prod.splits outcome.splits)

lemma detach_ok:
  assumes "holds env (Some (db', w)) bh mt T" "db_inv env U db'"
  shows "mdb_ok env U (detach db T) \<and> db_data (detach db T) = db'"
proof -
  from assms obtain d where d: "ndb T = Some d" "ndb_db d = db'" "cache_ok env d"
    by (auto simp: holds_def core_def tree_ok_def)
  have "cache_ok env d = cache_ok env \<lparr>cache = cache d, ndb_db = db', batch = None, orphans = {}\<rparr>"
    by (rule cache_ok_cong) (simp_all add: d)
  with d assms(2) show ?thesis by (simp add: detach_def mdb_ok_def)
qed

definition sets :: "(bytes \<times> bytes option) list \<Rightarrow> mtree option \<Rightarrow> mtree option" where
  "sets kvs mt = fold (\<lambda>(k, v). oset k v) kvs mt"

lemma sets_puts: "sets kvs mt = mavl.puts kvs mt"
  by (simp add: sets_def mavl.puts_def)

theorem wp_SetKVPair:
  assumes p: "plain env" and u: "universe env U" and db: "mdb_ok env U db"
    and v: "version env U (db_data db) (ssStateHash s) mt"
    and t: "\<And>t. sets (ssKV s) mt = Some t \<Longrightarrow> t \<in> U \<and> mhash env t \<noteq> emptyRoot"
    and sz: "length (entries mt) + length (ssKV s) < 2 ^ 31"
    and P: "\<And>db'. mdb_ok env U db' \<Longrightarrow> db_data db \<subseteq>\<^sub>m db_data db' \<Longrightarrow>
       version env U (db_data db') (map_option (mhash env) (sets (ssKV s) mt)) (sets (ssKV s) mt) \<Longrightarrow>
       P (Ret (map_option (mhash env) (sets (ssKV s) mt))) db'"
  shows "wp (SetKVPair env s) P db"
proof -
  have ev: "evicts_only env" using p by (simp add: plain_def)
  have di: "db_inv env U (db_data db)" using db by (simp add: mdb_ok_def)
  let ?c = "Some (db_data db, Some [])"
  have save: "wp (Tree_Save env) (\<lambda>r T'. P r (detach db T')) T" if h: "holds env ?c (ssHeight s) (sets (ssKV s) mt) T" for T
  proof (rule wp_Tree_Save [OF p u h di])
    fix T' db' w
    assume a: "holds env (Some (db', w)) (ssHeight s) (sets (ssKV s) mt) T'" "db_inv env U db'" "db_data db \<subseteq>\<^sub>m db'"
      "\<And>t. sets (ssKV s) mt = Some t \<Longrightarrow> saved env db' t"
    have "version env U db' (map_option (mhash env) (sets (ssKV s) mt)) (sets (ssKV s) mt)"
      using a(1,4) t by (auto simp: version_def holds_def split: option.splits)
    with P detach_ok [OF a(1,2), of db] a(3) show "P (Ret (map_option (mhash env) (sets (ssKV s) mt))) (detach db T')"
      by simp
  qed (use t in blast)
  have load: "wp (Load env (ssStateHash s)) Q T" if "holds env ?c (ssHeight s) None T"
    "\<And>T'. holds env ?c (ssHeight s) mt T' \<Longrightarrow> Q (Ret ()) T'" for Q T
    using that(2) v di by (intro wp_Load [OF p u that(1)]) (auto simp: core_db_def)
  have sets: "wp (set_all env (ssKV s)) Q T" if "holds env ?c (ssHeight s) mt T"
    "\<And>T'. holds env ?c (ssHeight s) (sets (ssKV s) mt) T' \<Longrightarrow> Q (Ret ()) T'" for Q T
    unfolding set_all_def using ev that(1) by (intro mavl.wp_Puts [OF _ sz]) (auto simp: sets_puts intro: that(2))
  show ?thesis
    unfolding SetKVPair_def
    by (rule wp_new_tree [OF db]) (auto simp: wp_bind intro!: load sets save dest: holds_height)
qed

theorem wp_GetKVPair:
  assumes p: "plain env" and u: "universe env U" and db: "mdb_ok env U db"
    and v: "version env U (db_data db) h mt" and sz: "length (entries mt) < 2 ^ 31"
    and P: "\<And>db'. mdb_ok env U db' \<Longrightarrow> db_data db' = db_data db \<Longrightarrow> P (Ret (map (mavl.found mt) ks)) db'"
  shows "wp (GetKVPair env h ks) P db"
proof -
  have ev: "evicts_only env" using p by (simp add: plain_def)
  have di: "db_inv env U (db_data db)" using db by (simp add: mdb_ok_def)
  let ?c = "Some (db_data db, Some [])"
  have load: "wp (Load env h) Q T" if "holds env ?c 0 None T"
    "\<And>T'. holds env ?c 0 mt T' \<Longrightarrow> Q (Ret ()) T'" for Q T
    using that(2) v di by (intro wp_Load [OF p u that(1)]) (auto simp: core_db_def)
  have gets: "wp (get_all env ks) (\<lambda>r T'. P r (detach db T')) T" if "holds env ?c 0 mt T" for T
    unfolding get_all_def using ev that detach_ok [OF _ di]
    by (intro mavl.wp_Looks [OF _ sz]) (auto intro!: P)
  show ?thesis
    unfolding GetKVPair_def
    by (rule wp_new_tree [OF db]) (auto simp: wp_bind intro!: load gets)
qed

theorem wp_DelKVPair:
  assumes p: "plain env" and u: "universe env U" and db: "mdb_ok env U db"
    and v: "version env U (db_data db) h mt"
    and t: "\<And>t. snd (mavl.dels ks mt) = Some t \<Longrightarrow> t \<in> U \<and> mhash env t \<noteq> emptyRoot"
    and sz: "length (entries mt) < 2 ^ 31"
    and P: "\<And>db'. mdb_ok env U db' \<Longrightarrow> db_data db \<subseteq>\<^sub>m db_data db' \<Longrightarrow>
       version env U (db_data db') (map_option (mhash env) (snd (mavl.dels ks mt))) (snd (mavl.dels ks mt)) \<Longrightarrow>
       P (Ret (map_option (mhash env) (snd (mavl.dels ks mt)), fst (mavl.dels ks mt))) db'"
  shows "wp (DelKVPair env h ks) P db"
proof -
  have ev: "evicts_only env" using p by (simp add: plain_def)
  have di: "db_inv env U (db_data db)" using db by (simp add: mdb_ok_def)
  let ?c = "Some (db_data db, Some [])" and ?mt = "snd (mavl.dels ks mt)" and ?vs = "fst (mavl.dels ks mt)"
  have save: "wp (bind (Tree_Save env) (\<lambda>rt. ret (rt, ?vs))) (\<lambda>r T'. P r (detach db T')) T" if h: "holds env ?c 0 ?mt T" for T
  proof (subst wp_bind, rule wp_Tree_Save [OF p u h di])
    fix T' db' w
    assume a: "holds env (Some (db', w)) 0 ?mt T'" "db_inv env U db'" "db_data db \<subseteq>\<^sub>m db'"
      "\<And>t. ?mt = Some t \<Longrightarrow> saved env db' t"
    have "version env U db' (map_option (mhash env) ?mt) ?mt"
      using a(1,4) t by (auto simp: version_def holds_def split: option.splits)
    with P detach_ok [OF a(1,2), of db] a(3)
    show "case Ret (map_option (mhash env) ?mt) of Ret a \<Rightarrow> wp (ret (a, ?vs)) (\<lambda>r T'. P r (detach db T')) T'
        | Err e \<Rightarrow> P (Err e) (detach db T') | Panic q \<Rightarrow> P (Panic q) (detach db T')"
      by (simp add: wp_ret)
  qed (use t in blast)
  have load: "wp (Load env h) Q T" if "holds env ?c 0 None T"
    "\<And>T'. holds env ?c 0 mt T' \<Longrightarrow> Q (Ret ()) T'" for Q T
    using that(2) v di by (intro wp_Load [OF p u that(1)]) (auto simp: core_db_def)
  have dels: "wp (mapM (\<lambda>k. bind (Remove env k) (\<lambda>(v, e). ret (if e then v else None))) ks) Q T"
    if "holds env ?c 0 mt T" "\<And>T'. holds env ?c 0 ?mt T' \<Longrightarrow> Q (Ret ?vs) T'" for Q T
    using ev that(1) by (intro mavl.wp_Dels [OF _ sz]) (auto intro: that(2))
  show ?thesis
    unfolding DelKVPair_def
    apply (rule wp_new_tree [OF db], subst wp_bind, rule load, assumption, simp only: outcome.case)
    by (subst wp_bind, rule dels, assumption, simp only: outcome.case) (rule save)
qed

end
