(* ===== verification/WireFields.thy ===== *)
theory WireFields
  imports WireFormat MavlKV
begin

text \<open>
  The messages \<^verbatim>\<open>LeafNode\<close>, \<^verbatim>\<open>InnerNode\<close> and \<^verbatim>\<open>StoreNode\<close> of \<^verbatim>\<open>src/types/proto/db.proto\<close>. These are concrete encodings for the
  parameters of \<open>mavl_env\<close>; the encoding of \<^verbatim>\<open>StoreNode\<close> satisfies \<open>store_codec\<close>.
\<close>


subsection \<open>The messages\<close>

definition LeafNode_Marshal :: "bytes \<Rightarrow> bytes option \<Rightarrow> int \<Rightarrow> int \<Rightarrow> bytes" where
  "LeafNode_Marshal k v height n =
     put_fields (opt_bytes 1 (Some k) @ opt_bytes 2 v @ opt_int 3 height @ opt_int 4 n)"

definition InnerNode_Marshal :: "bytes option \<Rightarrow> bytes option \<Rightarrow> int \<Rightarrow> int \<Rightarrow> bytes" where
  "InnerNode_Marshal l r height n = put_fields (opt_bytes 1 l @ opt_bytes 2 r @ opt_int 3 height @ opt_int 4 n)"

definition StoreNode_Marshal :: "StoreNode \<Rightarrow> bytes" where
  "StoreNode_Marshal s =
     put_fields (opt_bytes 1 (Some (snKey s)) @ opt_bytes 2 (snValue s) @ opt_bytes 3 (snLeftHash s) @
       opt_bytes 4 (snRightHash s) @ opt_int 5 (snHeight s) @ opt_int 6 (snSize s))"

fun StoreNode_field :: "StoreNode \<Rightarrow> (nat \<times> wval) list \<Rightarrow> StoreNode option" where
  "StoreNode_field s [] = Some s"
| "StoreNode_field s ((f, x) # fs) =
     (case x of
        VBytes b \<Rightarrow>
          if f = 1 then StoreNode_field (s\<lparr>snKey := b\<rparr>) fs
          else if f = 2 then StoreNode_field (s\<lparr>snValue := Some b\<rparr>) fs
          else if f = 3 then StoreNode_field (s\<lparr>snLeftHash := Some b\<rparr>) fs
          else if f = 4 then StoreNode_field (s\<lparr>snRightHash := Some b\<rparr>) fs
          else if f = 5 \<or> f = 6 then None else StoreNode_field s fs
      | VInt v \<Rightarrow>
          if f = 5 then StoreNode_field (s\<lparr>snHeight := i32 (int v)\<rparr>) fs
          else if f = 6 then StoreNode_field (s\<lparr>snSize := i32 (int v)\<rparr>) fs
          else if 1 \<le> f \<and> f \<le> 4 then None else StoreNode_field s fs)"

definition StoreNode_Unmarshal :: "bytes \<Rightarrow> StoreNode option" where
  "StoreNode_Unmarshal b =
     (case wire_parse b of
        None \<Rightarrow> None
      | Some fs \<Rightarrow> StoreNode_field \<lparr>snKey = [], snValue = None, snLeftHash = None, snRightHash = None,
                                   snHeight = 0, snSize = 0\<rparr> fs)"

lemma StoreNode_fields:
  "StoreNode_field s (opt_bytes 1 (Some k) @ fs) = StoreNode_field (if k = [] then s else s\<lparr>snKey := k\<rparr>) fs"
  "v \<noteq> Some [] \<Longrightarrow> snValue s = None \<Longrightarrow> StoreNode_field s (opt_bytes 2 v @ fs) = StoreNode_field (s\<lparr>snValue := v\<rparr>) fs"
  "l \<noteq> Some [] \<Longrightarrow> snLeftHash s = None \<Longrightarrow> StoreNode_field s (opt_bytes 3 l @ fs) = StoreNode_field (s\<lparr>snLeftHash := l\<rparr>) fs"
  "r \<noteq> Some [] \<Longrightarrow> snRightHash s = None \<Longrightarrow> StoreNode_field s (opt_bytes 4 r @ fs) = StoreNode_field (s\<lparr>snRightHash := r\<rparr>) fs"
  "is_i32 h \<Longrightarrow> snHeight s = 0 \<Longrightarrow> StoreNode_field s (opt_int 5 h @ fs) = StoreNode_field (s\<lparr>snHeight := h\<rparr>) fs"
  "is_i32 n \<Longrightarrow> snSize s = 0 \<Longrightarrow> StoreNode_field s (opt_int 6 n) = Some (s\<lparr>snSize := n\<rparr>)"
  by (cases s; auto simp: opt_bytes_def opt_int_def i32_u64 split: option.splits)+

lemma StoreNode_round_trip: "storable s \<Longrightarrow> StoreNode_Unmarshal (StoreNode_Marshal s) = Some s"
proof -
  assume s: "storable s"
  have "list_all field_ok (opt_bytes 1 (Some (snKey s)) @ opt_bytes 2 (snValue s) @ opt_bytes 3 (snLeftHash s) @
       opt_bytes 4 (snRightHash s) @ opt_int 5 (snHeight s) @ opt_int 6 (snSize s))"
    using s by (auto simp: storable_def intro!: field_ok_opt)
  then show ?thesis
    using s by (cases s) (simp add: StoreNode_Unmarshal_def StoreNode_Marshal_def wire_parse_put StoreNode_fields storable_def del: One_nat_def)
qed

lemma StoreNode_Marshal_ne: "snSize s \<noteq> 0 \<Longrightarrow> StoreNode_Marshal s \<noteq> []"
  by (simp add: StoreNode_Marshal_def put_fields_def opt_int_def)

end
