(* ===== verification/MavlStore.thy ===== *)
theory MavlStore
  imports WireFields
begin

text \<open>
  The store module \<^verbatim>\<open>src/system/store/mavl/mavl.go\<close>: \<^verbatim>\<open>MemSet\<close> keeps the new tree in memory under its
  hash, \<^verbatim>\<open>Commit\<close> saves it, \<^verbatim>\<open>Rollback\<close> forgets it, \<^verbatim>\<open>Get\<close> reads a tree in memory or a saved one. The
  theory ends with the properties of the tree, of the functions on a database and of the store.
\<close>

definition mem_tree :: "mavl_env \<Rightarrow> mtree set \<Rightarrow> mdb \<Rightarrow> mtree \<Rightarrow> Tree \<Rightarrow> bool" where
  "mem_tree env U db t T \<longleftrightarrow>
     t \<in> U \<and> mhash env t \<noteq> emptyRoot \<and> (\<exists>bh. holds env (Some (db_data db, Some [])) bh (Some t) (attach db T))"

definition ms_inv :: "mavl_env \<Rightarrow> mtree set \<Rightarrow> MavlStore \<Rightarrow> bool" where
  "ms_inv env U s \<longleftrightarrow>
     mdb_ok env U (ms_db s) \<and>
     (\<forall>h T. trees s h = Some (Some T) \<longrightarrow> (\<exists>t. h = mhash env t \<and> mem_tree env U (ms_db s) t T))"

text \<open>The states a client of the store can read: those saved and those in memory.\<close>

definition visible :: "mavl_env \<Rightarrow> mtree set \<Rightarrow> MavlStore \<Rightarrow> bytes option \<Rightarrow> mtree option \<Rightarrow> bool" where
  "visible env U s h mt \<longleftrightarrow>
     (case trees s (bytes_of h) of
        Some (Some T) \<Rightarrow> (\<exists>t. mt = Some t \<and> h = Some (mhash env t) \<and> mem_tree env U (ms_db s) t T)
      | _ \<Rightarrow> version env U (db_data (ms_db s)) h mt)"

lemma attach_core: "ndb T \<noteq> None \<Longrightarrow> attach db T = T\<lparr>ndb := Some (the (ndb T)\<lparr>cache := db_cache db, ndb_db := db_data db\<rparr>)\<rparr>"
  by (auto simp: attach_def)

lemma holds_attach:
  assumes "holds env (Some (db_data db, w)) bh mt (attach db T)" "mdb_ok env U db'" "db_data db \<subseteq>\<^sub>m db_data db'"
  shows "holds env (Some (db_data db', w)) bh mt (attach db' T)"
proof -
  from assms(1) obtain d where d: "ndb T = Some d" "batch d = w" "root (attach db T) = root T"
    by (cases "ndb T") (auto simp: holds_def attach_def core_def)
  have "cache_ok env (d\<lparr>cache := db_cache db', ndb_db := db_data db'\<rparr>) =
      cache_ok env \<lparr>cache = db_cache db', ndb_db = db_data db', batch = None, orphans = {}\<rparr>"
    by (rule cache_ok_cong) simp_all
  with assms d reps_mono [OF assms(3)] show ?thesis
    by (cases mt) (auto simp: holds_def attach_def core_def tree_ok_def mdb_ok_def core_db_def)
qed

lemma mem_tree_mono:
  "mem_tree env U db t T \<Longrightarrow> mdb_ok env U db' \<Longrightarrow> db_data db \<subseteq>\<^sub>m db_data db' \<Longrightarrow> mem_tree env U db' t T"
  unfolding mem_tree_def using holds_attach by blast

lemma ms_inv_grow:
  assumes "ms_inv env U s" "mdb_ok env U db'" "db_data (ms_db s) \<subseteq>\<^sub>m db_data db'"
  shows "ms_inv env U (s\<lparr>ms_db := db'\<rparr>)"
proof -
  have "\<exists>t. h = mhash env t \<and> mem_tree env U db' t T" if "trees s h = Some (Some T)" for h T
    using assms(1) that mem_tree_mono [OF _ assms(2,3)] unfolding ms_inv_def by blast
  with assms(2) show ?thesis by (simp add: ms_inv_def)
qed

lemma wp_fun_pair: "wp (\<lambda>s. (r s, f s)) P s = P (r s) (f s)"
  by (simp add: wp_def)

lemma attach_self:
  assumes "holds env (Some (db', w)) bh mt T'" "detach db T' = db2"
  shows "attach db2 T' = T'"
  using assms by (cases "ndb T'") (auto simp: holds_def core_def attach_def detach_def)

lemma wp_on_tree:
  assumes "wp m (\<lambda>r T'. case r of Ret a \<Rightarrow> P (Ret (a, T')) (detach db T') | Err e \<Rightarrow> P (Err e) (detach db T')
      | Panic q \<Rightarrow> P (Panic q) (detach db T')) (attach db T)"
  shows "wp (on_tree T m) P db"
  using assms by (auto simp: wp_def on_tree_def split: prod.splits outcome.splits)

lemma wp_on_db: "wp (on_db m) P s = wp m (\<lambda>r db'. P r (s\<lparr>ms_db := db'\<rparr>)) (ms_db s)"
  by (auto simp: wp_def on_db_def split: prod.splits)

lemma wp_Tree_Hash:
  assumes p: "plain env" and h: "holds env c bh mt T"
    and P: "\<And>T'. holds env c bh mt T' \<Longrightarrow> P (Ret (map_option (mhash env) mt)) T'"
  shows "wp (Tree_Hash env) P T"
proof (cases mt)
  case None
  with h P holds_NoneD [of env c bh T] show ?thesis by (auto simp: Tree_Hash_def wp_with_root)
next
  case (Some t)
  from h Some obtain n where n: "root T = Some n" "reps env (dbof T) t n" "near env T T" "bst t" "avl t"
    by (auto elim: holds_SomeE)
  have sha: "sha_len env" "\<not> enableMavlPrefix env" using p by (auto simp: plain_def)
  from node_Hash_reps [OF sha(1) _ n(2), of T] n(1) obtain n' hh where n': "node_Hash env T n = Ret n'"
    "reps env (dbof T) t n'" "nhash n' = Some hh" by auto
  have "hh = mhash env t" using reps_hash_ok [OF n'(2)] n'(3) sha(2) by (simp add: hash_ok_def)
  moreover have "holds env c bh mt (T\<lparr>root := Some n'\<rparr>)"
    using holds_set_root [OF h n(3) _ n'(2)] n(4,5) Some by simp
  ultimately show ?thesis
    using n(1) n'(1,3) Some P by (simp add: Tree_Hash_def wp_with_root wp_bind wp_ret)
qed

theorem wp_MemSet:
  assumes p: "plain env" and u: "universe env U" and s: "ms_inv env U s" and kv: "ssKV d \<noteq> []"
    and v: "version env U (db_data (ms_db s)) (ssStateHash d) mt"
    and t: "sets (ssKV d) mt = Some t" "t \<in> U" "mhash env t \<noteq> emptyRoot"
    and sz: "length (entries mt) + length (ssKV d) < 2 ^ 31"
    and P: "\<And>s' T. ms_inv env U s' \<Longrightarrow> db_data (ms_db s') = db_data (ms_db s) \<Longrightarrow>
      trees s' = (trees s)(mhash env t \<mapsto> Some T) \<Longrightarrow> P (Ret (Some (mhash env t))) s'"
  shows "wp (MemSet env d) P s"
proof -
  have ev: "evicts_only env" using p by (simp add: plain_def)
  let ?db = "ms_db s" and ?T = "NewTree (Some (newNodeDB (db_cache (ms_db s)) (db_data (ms_db s))))"
  let ?c = "Some (db_data ?db, Some [])"
  have db: "mdb_ok env U ?db" and di: "db_inv env U (db_data ?db)" using s by (auto simp: ms_inv_def mdb_ok_def)
  have load: "wp (Load env (ssStateHash d)) Q T" if "holds env ?c (ssHeight d) None T"
    "\<And>T'. holds env ?c (ssHeight d) mt T' \<Longrightarrow> Q (Ret ()) T'" for Q T
    using that(2) v di by (intro wp_Load [OF p u that(1)]) (auto simp: core_db_def)
  have sets: "wp (set_all env (ssKV d)) Q T" if "holds env ?c (ssHeight d) mt T"
    "\<And>T'. holds env ?c (ssHeight d) (Some t) T' \<Longrightarrow> Q (Ret ()) T'" for Q T
    unfolding set_all_def using ev that(1) t(1) by (intro mavl.wp_Puts [OF _ sz]) (auto simp: sets_puts intro: that(2))
  have hash: "wp (Tree_Hash env) Q T" if "holds env ?c (ssHeight d) (Some t) T"
    "\<And>T'. holds env ?c (ssHeight d) (Some t) T' \<Longrightarrow> Q (Ret (Some (mhash env t))) T'" for Q T
    using that(2) by (intro wp_Tree_Hash [OF p that(1)]) simp
  have fin: "P (Ret (Some (mhash env t))) (s\<lparr>ms_db := detach ?db T', trees := (trees s)(mhash env t \<mapsto> Some T')\<rparr>)"
    if h: "holds env ?c (ssHeight d) (Some t) T'" for T'
  proof (rule P)
    have d: "mdb_ok env U (detach ?db T')" "db_data (detach ?db T') = db_data ?db" using detach_ok [OF h di] by auto
    have new: "mem_tree env U (detach ?db T') t T'"
      unfolding mem_tree_def using t(2,3) h attach_self [OF h refl] d(2) by auto
    show "ms_inv env U (s\<lparr>ms_db := detach ?db T', trees := (trees s)(mhash env t \<mapsto> Some T')\<rparr>)"
      using ms_inv_grow [OF s d(1)] new d by (auto simp: ms_inv_def)
    show "db_data (ms_db (s\<lparr>ms_db := detach ?db T', trees := (trees s)(mhash env t \<mapsto> Some T')\<rparr>)) = db_data ?db"
      using d by simp
  qed simp
  have "wp (bind (on_db (on_tree ?T (bind (SetBlockHeight (ssHeight d)) (\<lambda>_. bind (Load env (ssStateHash d)) (\<lambda>_.
                 bind (set_all env (ssKV d)) (\<lambda>_. Tree_Hash env))))))
          (\<lambda>(h, t) s'. (Ret h, s'\<lparr>trees := (trees s')(bytes_of h \<mapsto> Some t)\<rparr>))) P s"
    apply (simp only: wp_bind wp_on_db, rule wp_on_tree)
    using holds_height [OF holds_new [OF db], of "ssHeight d"] fin
    by (auto simp: wp_bind bytes_of_def wp_fun_pair intro!: load sets hash)
  then show ?thesis using kv by (simp add: wp_def MemSet_def)
qed

theorem wp_MStore_Commit:
  assumes p: "plain env" and u: "universe env U" and s: "ms_inv env U s" and T: "trees s (mhash env t) = Some (Some T)"
    and t: "mem_tree env U (ms_db s) t T"
    and P: "\<And>s'. ms_inv env U s' \<Longrightarrow> db_data (ms_db s) \<subseteq>\<^sub>m db_data (ms_db s') \<Longrightarrow>
      trees s' = (trees s)(mhash env t := None) \<Longrightarrow> version env U (db_data (ms_db s')) (Some (mhash env t)) (Some t) \<Longrightarrow>
      P (Ret (mhash env t)) s'"
  shows "wp (MStore_Commit env (mhash env t)) P s"
proof -
  let ?db = "ms_db s" and ?h = "mhash env t"
  have di: "db_inv env U (db_data ?db)" using s by (auto simp: ms_inv_def mdb_ok_def)
  from t obtain bh where h: "holds env (Some (db_data ?db, Some [])) bh (Some t) (attach ?db T)" and tU: "t \<in> U" "?h \<noteq> emptyRoot"
    by (auto simp: mem_tree_def)
  have fin: "P (Ret ?h) (s\<lparr>ms_db := detach ?db T', trees := (trees s)(?h := None)\<rparr>)"
    if a: "holds env (Some (db', w)) bh (Some t) T'" "db_inv env U db'" "db_data ?db \<subseteq>\<^sub>m db'" "saved env db' t" for T' db' w
  proof (rule P)
    have d: "mdb_ok env U (detach ?db T')" "db_data (detach ?db T') = db'" using detach_ok [OF a(1,2)] by auto
    show "ms_inv env U (s\<lparr>ms_db := detach ?db T', trees := (trees s)(?h := None)\<rparr>)"
      using ms_inv_grow [OF s d(1)] a(3) d by (auto simp: ms_inv_def)
    show "version env U (db_data (ms_db (s\<lparr>ms_db := detach ?db T', trees := (trees s)(?h := None)\<rparr>))) (Some ?h) (Some t)"
      using a(1,4) d tU by (auto simp: version_def holds_def)
  qed (use a(3) detach_ok [OF a(1,2)] in auto)
  have "wp (Tree_Save env) (\<lambda>r T'. \<exists>db' w. r = Ret (Some ?h) \<and> holds env (Some (db', w)) bh (Some t) T' \<and>
      db_inv env U db' \<and> db_data ?db \<subseteq>\<^sub>m db' \<and> saved env db' t) (attach ?db T)"
    by (rule wp_Tree_Save [OF p u h di]) (use tU in auto)
  then show ?thesis
    using T fin
    by (auto simp: wp_def MStore_Commit_def bind_def on_tree_def split: prod.splits)
qed

theorem wp_MStore_Get:
  assumes p: "plain env" and u: "universe env U" and s: "ms_inv env U s" and v: "visible env U s h mt"
    and sz: "length (entries mt) < 2 ^ 31"
    and P: "\<And>s'. ms_inv env U s' \<Longrightarrow> db_data (ms_db s') = db_data (ms_db s) \<Longrightarrow> trees s' = trees s \<Longrightarrow>
      P (Ret (map (mavl.found mt) ks)) s'"
  shows "wp (MStore_Get env h ks) P s"
proof -
  have ev: "evicts_only env" using p by (simp add: plain_def)
  let ?db = "ms_db s"
  have db: "mdb_ok env U ?db" and di: "db_inv env U (db_data ?db)" using s by (auto simp: ms_inv_def mdb_ok_def)
  have fin: "P (Ret (map (mavl.found mt) ks)) (s\<lparr>ms_db := detach ?db T'\<rparr>)"
    if "holds env (Some (db_data ?db, w)) bh mt T'" for T' bh w
    using ms_inv_grow [OF s] detach_ok [OF that di, of ?db] by (intro P) auto
  have gets: "wp (get_all env ks) Q T" if "holds env (Some (db_data ?db, w)) bh mt T"
    "\<And>T'. holds env (Some (db_data ?db, w)) bh mt T' \<Longrightarrow> Q (Ret (map (mavl.found mt) ks)) T'" for T bh Q w
    unfolding get_all_def using ev that(1) by (intro mavl.wp_Looks [OF _ sz]) (auto intro: that(2))
  show ?thesis
  proof (cases "\<exists>T. trees s (bytes_of h) = Some (Some T)")
    case True
    then obtain T where T: "trees s (bytes_of h) = Some (Some T)" by blast
    with v obtain bh where "holds env (Some (db_data ?db, Some [])) bh mt (attach ?db T)"
      by (auto simp: visible_def mem_tree_def)
    then have "wp (on_db (bind (on_tree T (get_all env ks)) (\<lambda>(vs, _). ret vs))) P s"
      by (simp only: wp_on_db, subst wp_bind, intro wp_on_tree) (auto simp: wp_ret intro!: gets fin)
    with T show ?thesis by (simp add: wp_def MStore_Get_def)
  next
    case False
    with v have ver: "version env U (db_data ?db) h mt" by (auto simp: visible_def split: option.splits)
    have "wp (on_db (new_tree (bind (attempt (Load env h)) (\<lambda>r.
               case r of Inl e \<Rightarrow> ret (map (\<lambda>_. None) ks) | Inr _ \<Rightarrow> get_all env ks)))) P s"
      unfolding wp_on_db
    proof (rule wp_new_tree [OF db])
      fix T assume "holds env (Some (db_data ?db, Some [])) 0 None T"
      then show "wp (bind (attempt (Load env h)) (\<lambda>r. case r of Inl e \<Rightarrow> ret (map (\<lambda>_. None) ks) | Inr _ \<Rightarrow> get_all env ks))
          (\<lambda>r T'. P r (s\<lparr>ms_db := detach ?db T'\<rparr>)) T"
        using di ver by (auto simp: wp_simps core_db_def intro!: wp_Load [OF p u] gets fin)
    qed
    with False show ?thesis by (auto simp: wp_def MStore_Get_def split: option.splits)
  qed
qed

end
