(* ===== verification/MavlProof.thy ===== *)
theory MavlProof
  imports MavlStore
begin

text \<open>
  Inclusion proofs (\<^verbatim>\<open>proof.go\<close>): the proof the tree constructs for a key it holds is accepted; a proof
  that is accepted shows membership, provided every branch claims a height above zero and the hash
  does not collide on what was hashed. The proviso is needed: \<^verbatim>\<open>Verify\<close> does not check the height of a
  branch, and a leaf is encoded like a branch of height zero.
\<close>

subsection \<open>Completeness\<close>

lemma sealed_child:
  assumes "reps env db t n" "nhash n \<noteq> None"
  shows "leftNode n = Some c \<Longrightarrow> nhash c \<noteq> None" "rightNode n = Some c \<Longrightarrow> nhash c \<noteq> None"
  using reps_hash_ok [OF assms(1)] assms(2) by (auto simp: hash_ok_def sealed_def)

lemma wp_getLeftNode_hashed:
  assumes ev: "evicts_only env" and near: "near env t0 t" and n: "reps env (dbof t0) (Inner k l r) n" "nhash n \<noteq> None"
    and P: "\<And>t' c. near env t0 t' \<Longrightarrow> reps env (dbof t0) l c \<Longrightarrow> nhash c \<noteq> None \<Longrightarrow> P (Ret c) t'"
  shows "wp (getLeftNode env n) P t"
proof (cases "leftNode n")
  case None
  have tree: "tree_ok env t" using near by (simp add: near_def)
  from None n(1) obtain c where c: "dbload env (dbof t) (bytes_of (leftHash n)) = Some c" "reps env (dbof t0) l c"
    using near_dbof [OF near] by (auto simp: reps_Inner half_reps_def slot_def)
  show ?thesis
    unfolding getLeftNode_def using None c(2) dbload_stored [OF c(1)]
    by (auto simp: wp_simps intro!: wp_GetNode [OF ev tree c(1)] P intro: near_step [OF near])
next
  case (Some c)
  with n sealed_child [OF n] near show ?thesis
    by (auto simp: getLeftNode_def wp_simps reps_Inner half_reps_def intro!: P)
qed

lemma wp_getRightNode_hashed:
  assumes ev: "evicts_only env" and near: "near env t0 t" and n: "reps env (dbof t0) (Inner k l r) n" "nhash n \<noteq> None"
    and P: "\<And>t' c. near env t0 t' \<Longrightarrow> reps env (dbof t0) r c \<Longrightarrow> nhash c \<noteq> None \<Longrightarrow> P (Ret c) t'"
  shows "wp (getRightNode env n) P t"
proof (cases "rightNode n")
  case None
  have tree: "tree_ok env t" using near by (simp add: near_def)
  from None n(1) obtain c where c: "dbload env (dbof t) (bytes_of (rightHash n)) = Some c" "reps env (dbof t0) r c"
    using near_dbof [OF near] by (auto simp: reps_Inner half_reps_def slot_def)
  show ?thesis
    unfolding getRightNode_def using None c(2) dbload_stored [OF c(1)]
    by (auto simp: wp_simps intro!: wp_GetNode [OF ev tree c(1)] P intro: near_step [OF near])
next
  case (Some c)
  with n sealed_child [OF n] near show ?thesis
    by (auto simp: getRightNode_def wp_simps reps_Inner half_reps_def intro!: P)
qed

text \<open>The hash a list of branches leads to from a leaf hash.\<close>

definition climb :: "mavl_env \<Rightarrow> InnerNode list \<Rightarrow> bytes \<Rightarrow> bytes" where
  "climb env bs h = fold (\<lambda>b h. InnerNodeProofHash env h b) bs h"

lemma climb_simps [simp]: "climb env [] h = h" "climb env (bs @ [b]) h = InnerNodeProofHash env (climb env bs h) b"
  by (simp_all add: climb_def)

definition branch_ok :: "InnerNode \<Rightarrow> bool" where
  "branch_ok b \<longleftrightarrow> inLeftHash b \<noteq> Some [] \<and> inRightHash b \<noteq> Some [] \<and> is_i32 (inHeight b) \<and> is_i32 (inSize b) \<and>
     (\<forall>x. Some x \<in> {inLeftHash b, inRightHash b} \<longrightarrow> length x < 2 ^ 32)"

definition proves :: "mavl_env \<Rightarrow> bytes \<Rightarrow> mtree \<Rightarrow> (bytes option \<times> bytes option \<times> InnerNode list) option \<Rightarrow> bool" where
  "proves env k t res \<longleftrightarrow>
     (case to_map t k of
        None \<Rightarrow> res = None
      | Some v \<Rightarrow> (\<exists>lh bs. res = Some (v, Some lh, bs) \<and> trunc lh = LeafNode_Hash env k v 0 1 \<and>
                     climb env bs (LeafNode_Hash env k v 0 1) = mhash env t \<and>
                     (enableMavlPrefix env \<or> list_all branch_ok bs)))"

lemma proof_step:
  assumes sha: "sha_len env" and h: "trunc h = mhash env t"
  shows "bytes_of (Some h) \<noteq> []" "trunc (mhash env t) = mhash env t"
  using h length_mhash [OF sha, of t] by (auto simp: bytes_of_def trunc_def)

lemma proves_left:
  assumes sha: "sha_len env" and b: "bst (Inner k' l r)" and k: "k < k'" and s: "sz l + sz r < 2 ^ 31"
    and res: "proves env k l res" and c: "reps env db r c" "nhash c \<noteq> None"
    and n: "nheight n = ht (Inner k' l r)" "nsize n = sz (Inner k' l r)"
  shows "proves env k (Inner k' l r) (map_option (\<lambda>(v, lh, bs).
     (v, lh, bs @ [\<lparr>inLeftHash = None, inRightHash = nhash c, inHeight = nheight n, inSize = nsize n\<rparr>])) res)"
proof -
  have m: "to_map (Inner k' l r) k = to_map l k" using to_map_branch [OF b] k by simp
  obtain h where h: "nhash c = Some h" "trunc h = mhash env r" "enableMavlPrefix env \<or> h = mhash env r"
    using c reps_hash_ok [OF c(1)] by (auto simp: hash_ok_def)
  have ok: "enableMavlPrefix env \<or> branch_ok \<lparr>inLeftHash = None, inRightHash = nhash c, inHeight = nheight n, inSize = nsize n\<rparr>"
    using h child_bounds [OF s] s n length_mhash [OF sha, of r] by (auto simp: branch_ok_def is_i32_def max_def)
  show ?thesis
    using res m h ok n proof_step(2) [OF sha, of _ l]
    by (auto simp: proves_def InnerNodeProofHash_def InnerNode_Hash_def bytes_of_def trunc_id length_mhash [OF sha] split: option.splits)
qed

lemma proves_right:
  assumes sha: "sha_len env" and b: "bst (Inner k' l r)" and k: "\<not> k < k'" and s: "sz l + sz r < 2 ^ 31"
    and res: "proves env k r res" and c: "reps env db l c" "nhash c \<noteq> None"
    and n: "nheight n = ht (Inner k' l r)" "nsize n = sz (Inner k' l r)"
  shows "proves env k (Inner k' l r) (map_option (\<lambda>(v, lh, bs).
     (v, lh, bs @ [\<lparr>inLeftHash = nhash c, inRightHash = None, inHeight = nheight n, inSize = nsize n\<rparr>])) res)"
proof -
  have m: "to_map (Inner k' l r) k = to_map r k" using to_map_branch [OF b] k by simp
  obtain h where h: "nhash c = Some h" "trunc h = mhash env l" "enableMavlPrefix env \<or> h = mhash env l"
    using c reps_hash_ok [OF c(1)] by (auto simp: hash_ok_def)
  have ne: "h \<noteq> []" using proof_step(1) [OF sha h(2)] by (simp add: bytes_of_def)
  have ok: "enableMavlPrefix env \<or> branch_ok \<lparr>inLeftHash = nhash c, inRightHash = None, inHeight = nheight n, inSize = nsize n\<rparr>"
    using h ne child_bounds [OF s] s n length_mhash [OF sha, of l] by (auto simp: branch_ok_def is_i32_def max_def)
  show ?thesis
    using res m h ok n ne
    by (auto simp: proves_def InnerNodeProofHash_def InnerNode_Hash_def bytes_of_def trunc_id length_mhash [OF sha] split: option.splits)
qed

theorem wp_constructProof:
  assumes ev: "evicts_only env" and sha: "sha_len env"
  shows "near env t0 s \<Longrightarrow> reps env (dbof t0) t n \<Longrightarrow> nhash n \<noteq> None \<Longrightarrow> bst t \<Longrightarrow> nat (ht t) < f \<Longrightarrow> sz t < 2 ^ 31 \<Longrightarrow>
    (\<And>s' res. near env t0 s' \<Longrightarrow> proves env k t res \<Longrightarrow> P (Ret res) s') \<Longrightarrow>
    wp (constructProof f env k n) P s"
proof (induction t arbitrary: f n s P)
  case (Leaf k' v')
  then obtain f' where f: "f = Suc f'" by (cases f) auto
  obtain h where h: "nhash n = Some h" "trunc h = LeafNode_Hash env k' v' 0 1"
    using Leaf.prems(3) reps_hash_ok [OF Leaf.prems(2)] by (auto simp: hash_ok_def)
  from Leaf.prems(2) have n: "nheight n = 0" "nkey n = k'" "nvalue n = v'" by auto
  show ?case
    using n h Leaf.prems(1) by (auto simp: f wp_ret proves_def to_map_def intro!: Leaf.prems(7))
next
  case (Inner k' l r)
  then obtain f' where f: "f = Suc f'" by (cases f) auto
  have fuel: "nat (ht l) < f'" "nat (ht r) < f'" using ht_children Inner.prems(5) f by auto
  have s: "sz l + sz r < 2 ^ 31" using Inner.prems(6) by simp
  note b = child_bounds [OF s] and n = reps_InnerD [OF Inner.prems(2)]
  have nn: "nheight n = ht (Inner k' l r)" "nsize n = sz (Inner k' l r)" using n by simp_all
  have bst: "bst l" "bst r" using Inner.prems(4) by auto
  note P = Inner.prems(7)
  show ?case
  proof (cases "k < k'")
    case True
    have step: "wp (case res of None \<Rightarrow> ret None | Some (v, lh, bs) \<Rightarrow> bind (getRightNode env n) (\<lambda>r.
        ret (Some (v, lh, bs @ [\<lparr>inLeftHash = None, inRightHash = nhash r, inHeight = nheight n, inSize = nsize n\<rparr>])))) P s'"
      if near: "near env t0 s'" and res: "proves env k l res" for s' res
    proof (cases res)
      case None
      with res True have "to_map (Inner k' l r) k = None"
        by (auto simp: proves_def to_map_branch [OF Inner.prems(4), of k] split: option.splits)
      with None P [OF near, of None] show ?thesis by (simp add: wp_ret proves_def)
    next
      case (Some x)
      obtain v lh bs where x: "x = (v, lh, bs)" by (cases x)
      have fin: "P (Ret (Some (v, lh, bs @ [\<lparr>inLeftHash = None, inRightHash = nhash c, inHeight = nheight n, inSize = nsize n\<rparr>]))) u"
        if "near env t0 u" "reps env (dbof t0) r c" "nhash c \<noteq> None" for u c
        using P [OF that(1)] proves_left [OF sha Inner.prems(4) True s res that(2,3) nn] Some x by simp
      show ?thesis
        apply (simp only: Some x option.case prod.case wp_bind)
        apply (rule wp_getRightNode_hashed [OF ev near Inner.prems(2,3)])
        by (simp only: outcome.case wp_ret) (rule fin)
    qed
    show ?thesis
      unfolding f constructProof.simps
      apply (simp only: n(2,5) True if_True if_False wp_bind)
      apply (rule wp_getLeftNode_hashed [OF ev Inner.prems(1,2,3)], simp only: outcome.case wp_bind)
      apply (rule Inner.IH(1) [OF _ _ _ bst(1) fuel(1) b(7)], assumption, assumption, assumption)
      by (simp only: outcome.case) (rule step)
  next
    case False
    have step: "wp (case res of None \<Rightarrow> ret None | Some (v, lh, bs) \<Rightarrow> bind (getLeftNode env n) (\<lambda>l.
        ret (Some (v, lh, bs @ [\<lparr>inLeftHash = nhash l, inRightHash = None, inHeight = nheight n, inSize = nsize n\<rparr>])))) P s'"
      if near: "near env t0 s'" and res: "proves env k r res" for s' res
    proof (cases res)
      case None
      with res False have "to_map (Inner k' l r) k = None"
        by (auto simp: proves_def to_map_branch [OF Inner.prems(4), of k] split: option.splits)
      with None P [OF near, of None] show ?thesis by (simp add: wp_ret proves_def)
    next
      case (Some x)
      obtain v lh bs where x: "x = (v, lh, bs)" by (cases x)
      have fin: "P (Ret (Some (v, lh, bs @ [\<lparr>inLeftHash = nhash c, inRightHash = None, inHeight = nheight n, inSize = nsize n\<rparr>]))) u"
        if "near env t0 u" "reps env (dbof t0) l c" "nhash c \<noteq> None" for u c
        using P [OF that(1)] proves_right [OF sha Inner.prems(4) False s res that(2,3) nn] Some x by simp
      show ?thesis
        apply (simp only: Some x option.case prod.case wp_bind)
        apply (rule wp_getLeftNode_hashed [OF ev near Inner.prems(2,3)])
        by (simp only: outcome.case wp_ret) (rule fin)
    qed
    show ?thesis
      unfolding f constructProof.simps
      apply (simp only: n(2,5) False if_False wp_bind)
      apply (rule wp_getRightNode_hashed [OF ev Inner.prems(1,2,3)], simp only: outcome.case wp_bind)
      apply (rule Inner.IH(2) [OF _ _ _ bst(2) fuel(2) b(8)], assumption, assumption, assumption)
      by (simp only: outcome.case) (rule step)
  qed
qed

text \<open>What the code relies on of the encoding of \<^verbatim>\<open>MAVLProof\<close>.\<close>

definition proof_codec :: "(InnerNode list \<Rightarrow> bytes option) \<Rightarrow> (bytes \<Rightarrow> InnerNode list option) \<Rightarrow> bool" where
  "proof_codec enc dec \<longleftrightarrow> (\<forall>bs. list_all branch_ok bs \<longrightarrow> (\<exists>b. enc bs = Some b \<and> dec b = Some bs))"

lemma wp_ConstructProof:
  assumes p: "plain env" and h: "holds env c bh (Some t) T" and sz: "sz t < 2 ^ 31"
    and P: "\<And>T' res. holds env c bh (Some t) T' \<Longrightarrow> proves env k t res \<Longrightarrow>
      P (Ret (case res of None \<Rightarrow> (None, None)
              | Some (v, lh, bs) \<Rightarrow> (v, Some \<lparr>LeafHash = lh, InnerNodes = bs, RootHash = Some (mhash env t)\<rparr>))) T'"
  shows "wp (ConstructProof env k) P T"
proof -
  from h obtain n where n: "root T = Some n" "reps env (dbof T) t n" "near env T T" "bst t" "avl t"
    by (auto elim: holds_SomeE)
  have sha: "sha_len env" "\<not> enableMavlPrefix env" "evicts_only env" using p by (auto simp: plain_def)
  from node_Hash_reps [OF sha(1) _ n(2), of T] n(1) obtain n' hh where n': "node_Hash env T n = Ret n'"
    "reps env (dbof T) t n'" "nhash n' = Some hh" by auto
  have hh: "hh = mhash env t" using reps_hash_ok [OF n'(2)] n'(3) sha(2) by (simp add: hash_ok_def)
  let ?T = "T\<lparr>root := Some n'\<rparr>"
  have h': "holds env c bh (Some t) ?T" using holds_set_root [OF h n(3) _ n'(2)] n(4,5) by simp
  have near: "near env ?T ?T" "dbof ?T = dbof T" using n(3) by (auto simp: near_def tree_ok_def dbof_def)
  have fuel: "nat (ht t) < fuel n'" using reps_basic [OF n'(2)] by (simp add: fuel_def)
  have "wp (constructProof (fuel n') env k n') (\<lambda>r s'. \<exists>res. r = Ret res \<and> near env ?T s' \<and> proves env k t res) ?T"
    using n'(2,3) near fuel by (intro wp_constructProof [OF sha(3,1) near(1) _ _ n(4) _ sz]) auto
  then have "wp (constructProof (fuel n') env k n') (\<lambda>r s'. \<exists>res. r = Ret res \<and> holds env c bh (Some t) s' \<and> proves env k t res) ?T"
    using holds_near [OF h'] by (auto elim: wp_mono)
  then show ?thesis
    using n(1) n'(1,3) hh P [where res=None] P [where res="Some (v, lh, bs)" for v lh bs]
    by (auto simp: ConstructProof_def wp_with_root wp_bind wp_ret elim!: wp_mono split: option.splits)
qed

theorem wp_GetKVPairProof:
  assumes p: "plain env" and u: "universe env U" and db: "mdb_ok env U db" and codec: "proof_codec enc dec"
    and v: "version env U (db_data db) h mt"
    and P: "\<And>db' b. mdb_ok env U db' \<Longrightarrow> db_data db' = db_data db \<Longrightarrow>
      (case contents mt k of
         None \<Rightarrow> b = None
       | Some v \<Rightarrow> \<exists>pr. b = Some pr \<and> VerifyKVPairProof env dec (bytes_of h) k v pr = Ret True) \<Longrightarrow> P (Ret b) db'"
  shows "wp (GetKVPairProof env enc h k) P db"
proof -
  have di: "db_inv env U (db_data db)" using db by (simp add: mdb_ok_def)
  let ?c = "Some (db_data db, Some [])"
  have load: "wp (Load env h) Q T" if "holds env ?c 0 None T"
    "\<And>T'. holds env ?c 0 mt T' \<Longrightarrow> Q (Ret ()) T'" for Q T
    using that(2) v di by (intro wp_Load [OF p u that(1)]) (auto simp: core_db_def)
  have fin: "P (Ret b) (detach db T')" if "holds env ?c 0 mt T'"
    "case contents mt k of None \<Rightarrow> b = None
       | Some v \<Rightarrow> \<exists>pr. b = Some pr \<and> VerifyKVPairProof env dec (bytes_of h) k v pr = Ret True" for b T'
    using that detach_ok [OF that(1) di, of db] by (intro P) auto
  have give: "wp (bind (Tree_Proof env enc k) (\<lambda>(v, p, e). ret (if e then p else None))) (\<lambda>r T'. P r (detach db T')) T"
    if h0: "holds env ?c 0 mt T" for T
  proof (cases mt)
    case None
    with h0 holds_NoneD [of env ?c 0 T] fin [OF h0, of None] show ?thesis
      by (auto simp: Tree_Proof_def ConstructProof_def wp_bind wp_ret wp_with_root)
  next
    case (Some t)
    then have t: "h = Some (mhash env t)" "t \<in> U" using v by (auto simp: version_def)
    have sha: "\<not> enableMavlPrefix env" using p by (simp add: plain_def)
    have ok: "\<exists>pr. enc bs = Some pr \<and> VerifyKVPairProof env dec (bytes_of h) k v pr = Ret True"
      if "proves env k t (Some (v, lh, bs))" "to_map t k = Some v" for v lh bs
    proof -
      have bs: "list_all branch_ok bs" "climb env bs (LeafNode_Hash env k v 0 1) = mhash env t"
        using that sha by (auto simp: proves_def)
      obtain pr where "enc bs = Some pr" "dec pr = Some bs" using codec bs(1) by (auto simp: proof_codec_def)
      moreover have "length (LeafNode_Hash env k v 0 1) = 32" using p by (simp add: LeafNode_Hash_def plain_def sha_len_def)
      ultimately show ?thesis
        using t bs(2) by (simp add: VerifyKVPairProof_def ReadProof_def Verify_def bytes_of_def trunc_id climb_def)
    qed
    have absent: "P (Ret None) (detach db T')" if "proves env k t None" "holds env ?c 0 mt T'" for T'
      using that Some by (intro fin) (auto simp: proves_def contents_Some split: option.splits)
    have present: "\<exists>pr. enc bs = Some pr \<and> P (Ret (Some pr)) (detach db T')"
      if pr: "proves env k t (Some (v, lh, bs))" "holds env ?c 0 mt T'" for v lh bs T'
    proof -
      have m: "to_map t k = Some v" using pr(1) by (auto simp: proves_def split: option.splits)
      from ok [OF pr(1) m] show ?thesis using fin [OF pr(2)] Some m by (auto simp: contents_Some)
    qed
    show ?thesis
      unfolding Tree_Proof_def wp_bind
      apply (rule wp_ConstructProof [OF p h0 [unfolded Some] universeD(2) [OF u t(2)]])
      subgoal premises a for T' res
      proof (cases res)
        case None
        with a absent [of T'] \<open>mt = Some t\<close> show ?thesis by (simp add: wp_ret)
      next
        case (Some x)
        obtain v lh bs where x: "x = (v, lh, bs)" by (cases x)
        with a Some \<open>mt = Some t\<close> present [of v lh bs T'] show ?thesis by (auto simp: wp_ret)
      qed
      done
  qed
  show ?thesis
    unfolding GetKVPairProof_def
    by (rule wp_new_tree [OF db], subst wp_bind, rule load, assumption) (simp only: outcome.case, rule give)
qed

subsection \<open>Soundness\<close>

definition node_fields :: "bytes option \<Rightarrow> bytes option \<Rightarrow> int \<Rightarrow> int \<Rightarrow> (nat \<times> wval) list" where
  "node_fields l r h n = opt_bytes 1 l @ opt_bytes 2 r @ opt_int 3 h @ opt_int 4 n"

definition fields_ok :: "bytes option \<Rightarrow> bytes option \<Rightarrow> int \<Rightarrow> int \<Rightarrow> bool" where
  "fields_ok l r h n \<longleftrightarrow> length (bytes_of l) < 2 ^ 64 \<and> length (bytes_of r) < 2 ^ 64 \<and> is_i32 h \<and> is_i32 n"

definition field_bytes :: "nat \<Rightarrow> (nat \<times> wval) list \<Rightarrow> bytes" where
  "field_bytes f fs = (case map_of fs f of Some (VBytes b) \<Rightarrow> b | _ \<Rightarrow> [])"

definition field_int :: "nat \<Rightarrow> (nat \<times> wval) list \<Rightarrow> int" where
  "field_int f fs = (case map_of fs f of Some (VInt v) \<Rightarrow> i32 (int v) | _ \<Rightarrow> 0)"

lemma field_node:
  "field_bytes 1 (node_fields l r h n) = bytes_of l" "field_bytes 2 (node_fields l r h n) = bytes_of r"
  "is_i32 h \<Longrightarrow> field_int 3 (node_fields l r h n) = h" "is_i32 n \<Longrightarrow> field_int 4 (node_fields l r h n) = n"
  by (auto simp: field_bytes_def field_int_def node_fields_def opt_bytes_def opt_int_def bytes_of_def i32_u64
           split: option.splits)

lemma node_fields_inj:
  assumes "put_fields (node_fields l r h n) = put_fields (node_fields l' r' h' n')" "fields_ok l r h n" "fields_ok l' r' h' n'"
  shows "bytes_of l = bytes_of l'" "bytes_of r = bytes_of r'" "h = h'" "n = n'"
proof -
  have ok: "list_all field_ok (node_fields a b i j)" if "fields_ok a b i j" for a b i j
    unfolding node_fields_def list_all_append using that
    by (intro conjI field_ok_opt) (auto simp: fields_ok_def bytes_of_def)
  have "node_fields l r h n = node_fields l' r' h' n'"
    using wire_parse_put [OF ok [OF assms(2)]] wire_parse_put [OF ok [OF assms(3)]] unfolding assms(1) by simp
  then have "field_bytes f (node_fields l r h n) = field_bytes f (node_fields l' r' h' n')"
    "field_int f (node_fields l r h n) = field_int f (node_fields l' r' h' n')" for f
    by simp_all
  from this(1) [of 1] this(1) [of 2] this(2) [of 3] this(2) [of 4]
  show "bytes_of l = bytes_of l'" "bytes_of r = bytes_of r'" "h = h'" "n = n'"
    using assms(2,3) by (simp_all only: field_node fields_ok_def)
qed

definition wired :: "mavl_env \<Rightarrow> bool" where
  "wired env \<longleftrightarrow> EncodeLeaf env = LeafNode_Marshal \<and> EncodeInner env = InnerNode_Marshal \<and> sha_len env"

text \<open>The texts that are hashed: those of a tree, and those of the verification of a proof.\<close>

fun text_of :: "mavl_env \<Rightarrow> mtree \<Rightarrow> bytes" where
  "text_of env (Leaf k v) = EncodeLeaf env k v 0 1"
| "text_of env (Inner k l r) =
     EncodeInner env (Some (mhash env l)) (Some (mhash env r)) (ht (Inner k l r)) (sz (Inner k l r))"

definition branch_text :: "mavl_env \<Rightarrow> bytes \<Rightarrow> InnerNode \<Rightarrow> bytes" where
  "branch_text env h b =
     (if bytes_of (inLeftHash b) = []
      then EncodeInner env (Some (trunc h)) (map_option trunc (inRightHash b)) (inHeight b) (inSize b)
      else EncodeInner env (map_option trunc (inLeftHash b)) (Some (trunc h)) (inHeight b) (inSize b))"

fun branch_texts :: "mavl_env \<Rightarrow> bytes \<Rightarrow> InnerNode list \<Rightarrow> bytes set" where
  "branch_texts env h [] = {}"
| "branch_texts env h (b # bs) = insert (branch_text env h b) (branch_texts env (InnerNodeProofHash env h b) bs)"

lemma mhash_text: "mhash env t = sha256 env (text_of env t)"
  by (cases t) (simp_all add: LeafNode_Hash_def)

lemma branch_hash: "InnerNodeProofHash env h b = sha256 env (branch_text env h b)"
  by (simp add: InnerNodeProofHash_def branch_text_def InnerNode_Hash_def)

lemma branch_texts_snoc: "branch_texts env h (bs @ [b]) = insert (branch_text env (climb env bs h) b) (branch_texts env h bs)"
  by (induction bs arbitrary: h) (auto simp: climb_def)

definition no_collision :: "mavl_env \<Rightarrow> bytes set \<Rightarrow> mtree \<Rightarrow> bool" where
  "no_collision env A t \<longleftrightarrow> (\<forall>x \<in> A. \<forall>s \<in> subtrees t. sha256 env x = sha256 env (text_of env s) \<longrightarrow> x = text_of env s)"

lemma no_collision_mono: "no_collision env A t \<Longrightarrow> B \<subseteq> A \<Longrightarrow> s \<in> subtrees t \<Longrightarrow> subtrees s \<subseteq> subtrees t \<Longrightarrow> no_collision env B s"
  unfolding no_collision_def by blast

definition sane_leaf :: "bytes \<Rightarrow> bytes option \<Rightarrow> bool" where
  "sane_leaf k v \<longleftrightarrow> length k < 2 ^ 64 \<and> length (bytes_of v) < 2 ^ 64"

lemma bytes_of_Some: "bytes_of (Some x) = x"
  by (simp add: bytes_of_def)

lemma trunc_le: "length (trunc h) \<le> 32"
  by (simp add: trunc_def)

lemma length_climb: "sha_len env \<Longrightarrow> length h = 32 \<Longrightarrow> length (climb env bs h) = 32"
  by (induction bs rule: rev_induct) (auto simp: branch_hash sha_len_def)

lemma wired_enc:
  assumes "wired env"
  shows "EncodeLeaf env k v i j = put_fields (node_fields (Some k) v i j)"
    "EncodeInner env l r i j = put_fields (node_fields l r i j)"
  using assms by (simp_all add: wired_def LeafNode_Marshal_def InnerNode_Marshal_def node_fields_def)

lemma leaf_fields_ok: "sane_leaf k v \<Longrightarrow> fields_ok (Some k) v 0 1"
  by (simp add: fields_ok_def sane_leaf_def bytes_of_def is_i32_def)

lemma inner_fields_ok:
  assumes "wired env" "sz (Inner k l r) < 2 ^ 31"
  shows "fields_ok (Some (mhash env l)) (Some (mhash env r)) (ht (Inner k l r)) (sz (Inner k l r))"
proof -
  have s: "sz l + sz r < 2 ^ 31" using assms(2) by simp
  have sha: "sha_len env" using assms(1) by (simp add: wired_def)
  from child_bounds [OF s] s length_mhash [OF sha] show ?thesis
    by (auto simp: fields_ok_def bytes_of_def is_i32_def max_def)
qed

lemma leaf_text:
  assumes w: "wired env" and eq: "EncodeLeaf env k v 0 1 = text_of env t" and t: "sz t < 2 ^ 31"
    and s: "sane_leaf k v" "\<And>k v. (k, v) \<in> set (leaves t) \<Longrightarrow> sane_leaf k v"
  shows "\<exists>v'. t = Leaf k v' \<and> bytes_of v' = bytes_of v"
proof (cases t)
  case (Leaf k' v')
  with s(2) node_fields_inj [OF _ leaf_fields_ok [OF s(1)] leaf_fields_ok, of k' v'] eq show ?thesis
    by (auto simp: wired_enc [OF w] bytes_of_Some)
next
  case (Inner k' l r)
  with t eq node_fields_inj(3) [OF _ leaf_fields_ok [OF s(1)] inner_fields_ok [OF w, of k' l r]] ht_Inner_ne [of k' l r]
  show ?thesis by (auto simp: wired_enc [OF w])
qed

lemma branch_text_fields:
  assumes w: "wired env" and b: "is_i32 (inHeight b)" "is_i32 (inSize b)"
  shows "\<exists>x y. branch_text env h b = put_fields (node_fields x y (inHeight b) (inSize b)) \<and>
    fields_ok x y (inHeight b) (inSize b) \<and> (bytes_of x = trunc h \<or> bytes_of y = trunc h)"
proof -
  obtain x y where x: "x = (if bytes_of (inLeftHash b) = [] then Some (trunc h) else map_option trunc (inLeftHash b))"
    and y: "y = (if bytes_of (inLeftHash b) = [] then map_option trunc (inRightHash b) else Some (trunc h))"
    by blast
  have short: "length (bytes_of (map_option trunc z)) < 2 ^ 64" "length (trunc h) < 2 ^ 64" for z
    using le_less_trans [OF trunc_le, of "2 ^ 64"] by (cases z, simp_all add: bytes_of_def)
  have "branch_text env h b = put_fields (node_fields x y (inHeight b) (inSize b))"
    "fields_ok x y (inHeight b) (inSize b)" "bytes_of x = trunc h \<or> bytes_of y = trunc h"
    unfolding x y using short b
    by (cases "bytes_of (inLeftHash b) = []"; simp add: branch_text_def wired_enc [OF w] fields_ok_def bytes_of_Some)+
  then show ?thesis by blast
qed

lemma branch_is_inner:
  assumes w: "wired env" and t: "branch_text env h b = text_of env t" "sz t < 2 ^ 31"
    and b: "0 < inHeight b" "is_i32 (inHeight b)" "is_i32 (inSize b)"
    and s: "\<And>k v. (k, v) \<in> set (leaves t) \<Longrightarrow> sane_leaf k v"
  shows "\<exists>k l r. t = Inner k l r \<and> (trunc h = mhash env l \<or> trunc h = mhash env r)"
proof -
  from branch_text_fields [OF w b(2,3), of h] obtain x y
    where xy: "branch_text env h b = put_fields (node_fields x y (inHeight b) (inSize b))"
      "fields_ok x y (inHeight b) (inSize b)" "bytes_of x = trunc h \<or> bytes_of y = trunc h" by blast
  show ?thesis
  proof (cases t)
    case (Leaf k v)
    with node_fields_inj(3) [OF _ xy(2) leaf_fields_ok, of k v] t(1) xy(1) b(1) s show ?thesis
      by (simp add: wired_enc [OF w])
  next
    case (Inner k l r)
    with node_fields_inj(1,2) [OF _ xy(2) inner_fields_ok [OF w, of k l r]] t xy(1,3) show ?thesis
      by (auto simp: wired_enc [OF w] bytes_of_Some)
  qed
qed

lemma subtrees_sub: "s \<in> subtrees t \<Longrightarrow> subtrees s \<subseteq> subtrees t"
  by (induction t) auto

lemma climb_member:
  assumes w: "wired env"
  shows "climb env bs (LeafNode_Hash env k v 0 1) = mhash env t \<Longrightarrow>
    list_all (\<lambda>b. 0 < inHeight b \<and> is_i32 (inHeight b) \<and> is_i32 (inSize b)) bs \<Longrightarrow>
    no_collision env (insert (EncodeLeaf env k v 0 1) (branch_texts env (LeafNode_Hash env k v 0 1) bs)) t \<Longrightarrow>
    (\<And>k v. (k, v) \<in> set (leaves t) \<Longrightarrow> sane_leaf k v) \<Longrightarrow> sane_leaf k v \<Longrightarrow> sz t < 2 ^ 31 \<Longrightarrow>
    \<exists>v'. (k, v') \<in> set (leaves t) \<and> bytes_of v' = bytes_of v"
proof (induction bs arbitrary: t rule: rev_induct)
  case Nil
  have "EncodeLeaf env k v 0 1 = text_of env t"
    using Nil(1,3) unfolding no_collision_def climb_simps mhash_text LeafNode_Hash_def by (auto dest: bspec [OF _ subtrees_self])
  from leaf_text [OF w this Nil(6,5,4)] show ?case by auto
next
  case (snoc b bs)
  let ?h = "climb env bs (LeafNode_Hash env k v 0 1)"
  have eq: "branch_text env ?h b = text_of env t"
    using snoc.prems(1,3) unfolding no_collision_def climb_simps mhash_text branch_hash branch_texts_snoc
    by (auto dest: bspec [OF _ subtrees_self])
  have b: "0 < inHeight b" "is_i32 (inHeight b)" "is_i32 (inSize b)" using snoc.prems(2) by auto
  from branch_is_inner [OF w eq snoc.prems(6) b snoc.prems(4)] obtain k' l r
    where t: "t = Inner k' l r" "trunc ?h = mhash env l \<or> trunc ?h = mhash env r" by blast
  have sha: "sha_len env" using w by (simp add: wired_def)
  have "length (LeafNode_Hash env k v 0 1) = 32" using sha by (simp add: LeafNode_Hash_def sha_len_def)
  then have "trunc ?h = ?h" using length_climb [OF sha] by (simp add: trunc_id)
  with t(2) obtain s where s: "?h = mhash env s" "s = l \<or> s = r" by auto
  have sub: "s \<in> subtrees t" "sz s < 2 ^ 31" "set (leaves s) \<subseteq> set (leaves t)"
    using s(2) t(1) snoc.prems(6) child_bounds [of l r] by auto
  have "no_collision env (insert (EncodeLeaf env k v 0 1) (branch_texts env (LeafNode_Hash env k v 0 1) bs)) s"
    using no_collision_mono [OF snoc.prems(3) _ sub(1) subtrees_sub [OF sub(1)]] by (auto simp: branch_texts_snoc)
  from snoc.IH [OF s(1) _ this _ snoc.prems(5) sub(2)] snoc.prems(2,4) sub(3) show ?case by auto
qed

end
