(* ===== verification/MavlEnv.thy ===== *)
theory MavlEnv
  imports MavlProof
begin

text \<open>
  An environment of the MAVL store with the protobuf encodings of \<open>WireFields\<close>, a cache without
  eviction and a database that accepts every batch. The hash is any function to 32 bytes; the
  examples of the properties use \<open>toy_hash\<close>, which is injective on the few trees they name.
\<close>

definition go_env :: "(bytes \<Rightarrow> bytes) \<Rightarrow> mavl_env" where
  "go_env H =
     \<lparr>enableMavlPrefix = False, enableMvcc = False, sha256 = H, EncodeLeaf = LeafNode_Marshal,
      EncodeInner = InnerNode_Marshal, MarshalStore = StoreNode_Marshal, UnmarshalStore = StoreNode_Unmarshal,
      cacheAdd = (\<lambda>c h n. c(h \<mapsto> n)), batchWrite = (\<lambda>_. None), fmtHeight = (\<lambda>_. [])\<rparr>"

definition toy_hash :: "bytes \<Rightarrow> bytes" where
  "toy_hash b = take 32 (rev b @ replicate 32 (CHR 0x00))"

lemma go_env_plain:
  assumes "\<And>b. length (H b) = 32"
  shows "plain (go_env H)" and "wired (go_env H)"
  using assms StoreNode_round_trip StoreNode_Marshal_ne [of s for s] storable_def [of s for s]
  by (auto simp: plain_def wired_def sha_len_def go_env_def store_codec_def evicts_only_def)

lemma toy_plain: "plain (go_env toy_hash)" "wired (go_env toy_hash)"
  using go_env_plain [of toy_hash] by (auto simp: toy_hash_def)


subsection \<open>The encoding of proofs\<close>

fun InnerNode_field :: "InnerNode \<Rightarrow> (nat \<times> wval) list \<Rightarrow> InnerNode option" where
  "InnerNode_field s [] = Some s"
| "InnerNode_field s ((f, x) # fs) =
     (case x of
        VBytes b \<Rightarrow>
          if f = 1 then InnerNode_field (s\<lparr>inLeftHash := Some b\<rparr>) fs
          else if f = 2 then InnerNode_field (s\<lparr>inRightHash := Some b\<rparr>) fs
          else if f = 3 \<or> f = 4 then None else InnerNode_field s fs
      | VInt v \<Rightarrow>
          if f = 3 then InnerNode_field (s\<lparr>inHeight := i32 (int v)\<rparr>) fs
          else if f = 4 then InnerNode_field (s\<lparr>inSize := i32 (int v)\<rparr>) fs
          else if f = 1 \<or> f = 2 then None else InnerNode_field s fs)"

definition InnerNode_Unmarshal :: "bytes \<Rightarrow> InnerNode option" where
  "InnerNode_Unmarshal b =
     (case wire_parse b of
        None \<Rightarrow> None
      | Some fs \<Rightarrow> InnerNode_field \<lparr>inLeftHash = None, inRightHash = None, inHeight = 0, inSize = 0\<rparr> fs)"

definition branch_bytes :: "InnerNode \<Rightarrow> bytes" where
  "branch_bytes b = InnerNode_Marshal (inLeftHash b) (inRightHash b) (inHeight b) (inSize b)"

definition MAVLProof_Marshal :: "InnerNode list \<Rightarrow> bytes option" where
  "MAVLProof_Marshal bs = Some (put_fields (map (\<lambda>b. (2, VBytes (branch_bytes b))) bs))"

fun MAVLProof_field :: "(nat \<times> wval) list \<Rightarrow> InnerNode list option" where
  "MAVLProof_field [] = Some []"
| "MAVLProof_field ((f, x) # fs) =
     (case x of
        VBytes b \<Rightarrow>
          if f = 2
          then (case InnerNode_Unmarshal b of None \<Rightarrow> None | Some n \<Rightarrow> map_option (Cons n) (MAVLProof_field fs))
          else MAVLProof_field fs
      | VInt v \<Rightarrow> if f = 1 \<or> f = 2 \<or> f = 3 then None else MAVLProof_field fs)"

definition MAVLProof_Unmarshal :: "bytes \<Rightarrow> InnerNode list option" where
  "MAVLProof_Unmarshal b = (case wire_parse b of None \<Rightarrow> None | Some fs \<Rightarrow> MAVLProof_field fs)"

lemma length_appendVarint: "v < 128 ^ n \<Longrightarrow> 0 < n \<Longrightarrow> length (appendVarint v) \<le> n"
proof (induction n arbitrary: v)
  case (Suc n)
  show ?case
  proof (cases "v < 128")
    case True
    then show ?thesis by (subst appendVarint.simps) simp
  next
    case False
    with Suc.prems have "v div 128 < 128 ^ n" "0 < n" by (auto simp: less_mult_imp_div_less mult.commute intro: ccontr)
    with Suc.IH [of "v div 128"] False show ?thesis by (subst appendVarint.simps) simp
  qed
qed simp

lemma InnerNode_fields:
  "l \<noteq> Some [] \<Longrightarrow> inLeftHash s = None \<Longrightarrow> InnerNode_field s (opt_bytes 1 l @ fs) = InnerNode_field (s\<lparr>inLeftHash := l\<rparr>) fs"
  "r \<noteq> Some [] \<Longrightarrow> inRightHash s = None \<Longrightarrow> InnerNode_field s (opt_bytes 2 r @ fs) = InnerNode_field (s\<lparr>inRightHash := r\<rparr>) fs"
  "is_i32 h \<Longrightarrow> inHeight s = 0 \<Longrightarrow> InnerNode_field s (opt_int 3 h @ fs) = InnerNode_field (s\<lparr>inHeight := h\<rparr>) fs"
  "is_i32 n \<Longrightarrow> inSize s = 0 \<Longrightarrow> InnerNode_field s (opt_int 4 n) = Some (s\<lparr>inSize := n\<rparr>)"
  by (cases s; auto simp: opt_bytes_def opt_int_def i32_u64 split: option.splits)+

lemma InnerNode_round_trip:
  assumes b: "branch_ok b"
  shows "InnerNode_Unmarshal (branch_bytes b) = Some b"
proof -
  have "list_all field_ok (opt_bytes 1 (inLeftHash b) @ opt_bytes 2 (inRightHash b) @ opt_int 3 (inHeight b) @ opt_int 4 (inSize b))"
    unfolding list_all_append using b by (intro conjI field_ok_opt) (auto simp: branch_ok_def)
  then show ?thesis
    using b by (cases b) (simp add: InnerNode_Unmarshal_def branch_bytes_def InnerNode_Marshal_def wire_parse_put InnerNode_fields branch_ok_def del: One_nat_def)
qed

lemma length_opt_int: "1 \<le> f \<Longrightarrow> f < 10 \<Longrightarrow> length (put_fields (opt_int f v)) \<le> 20"
  using length_appendVarint [of "8 * f" 10] length_appendVarint [of "u64 v" 10] u64_less [of v]
  by (auto simp: put_fields_def opt_int_def)

lemma length_opt_bytes:
  assumes "1 \<le> f" "f < 10" "\<And>x. b = Some x \<Longrightarrow> length x < 2 ^ 32"
  shows "length (put_fields (opt_bytes f b)) \<le> 20 + 2 ^ 32"
proof (cases b)
  case (Some x)
  with assms length_appendVarint [of "8 * f + 2" 10] length_appendVarint [of "length x" 10] show ?thesis
    by (auto simp: put_fields_def opt_bytes_def)
qed (simp add: put_fields_def opt_bytes_def)

lemma length_branch: "branch_ok b \<Longrightarrow> length (branch_bytes b) < 2 ^ 64"
  using length_opt_bytes [of 1 "inLeftHash b"] length_opt_bytes [of 2 "inRightHash b"]
    length_opt_int [of 3 "inHeight b"] length_opt_int [of 4 "inSize b"]
  by (auto simp: branch_bytes_def InnerNode_Marshal_def put_fields_def branch_ok_def)

lemma MAVLProof_codec: "proof_codec MAVLProof_Marshal MAVLProof_Unmarshal"
proof -
  have "MAVLProof_Unmarshal (put_fields (map (\<lambda>b. (2, VBytes (branch_bytes b))) bs)) = Some bs"
    if bs: "list_all branch_ok bs" for bs
  proof -
    have "list_all field_ok (map (\<lambda>b. (2, VBytes (branch_bytes b))) bs)"
      using bs length_branch by (auto simp: list_all_iff)
    moreover have "MAVLProof_field (map (\<lambda>b. (2, VBytes (branch_bytes b))) bs) = Some bs"
      using bs by (induction bs) (auto simp: InnerNode_round_trip)
    ultimately show ?thesis by (simp add: MAVLProof_Unmarshal_def wire_parse_put)
  qed
  then show ?thesis by (simp add: proof_codec_def MAVLProof_Marshal_def)
qed

subsection \<open>Examples\<close>

text \<open>A few trees over the keys \<^verbatim>\<open>a\<close> and \<^verbatim>\<open>b\<close>.\<close>

definition tree_a :: mtree where "tree_a = Leaf ''a'' (Some ''1'')"
definition tree_a' :: mtree where "tree_a' = Leaf ''a'' (Some ''3'')"
definition tree_b :: mtree where "tree_b = Leaf ''b'' (Some ''2'')"
definition tree_ab :: mtree where "tree_ab = Inner ''b'' tree_a tree_b"

definition toy_trees :: "mtree list" where
  "toy_trees = [tree_a, tree_a', tree_b, tree_ab]"

lemmas toy_tree_defs = tree_a_def tree_a'_def tree_b_def tree_ab_def

lemma toy_hashes: "distinct (emptyRoot # map (mhash (go_env toy_hash)) toy_trees)"
  by code_simp

lemma bst_tree_a: "bst tree_a" "avl tree_a"
  by (simp_all add: tree_a_def)

lemma toy_length: "length (mhash (go_env toy_hash) t) = 32"
  using length_mhash toy_plain(1) by (auto simp: plain_def)

lemma toy_ne: "mhash (go_env toy_hash) t \<noteq> []"
  using toy_length [of t] by auto

lemma toy_universe: "universe (go_env toy_hash) (set toy_trees)"
  unfolding universe_def
proof (intro conjI ballI impI)
  fix s assume s: "s \<in> set toy_trees"
  then show "subtrees s \<subseteq> set toy_trees" by (auto simp: toy_trees_def tree_ab_def tree_a_def tree_a'_def tree_b_def)
  show "sz s < 2 ^ 31" using s by (auto simp: toy_trees_def toy_tree_defs)
  have "snode (go_env toy_hash) s \<in> set (map (snode (go_env toy_hash)) toy_trees)" using s by simp
  then show "storable (snode (go_env toy_hash) s)"
    by (auto simp: toy_trees_def toy_tree_defs storable_def is_i32_def toy_length toy_ne simp del: mhash.simps)
next
  fix s s' assume "s \<in> set toy_trees" "s' \<in> set toy_trees" "mhash (go_env toy_hash) s = mhash (go_env toy_hash) s'"
  then show "snode (go_env toy_hash) s = snode (go_env toy_hash) s'"
    using toy_hashes inj_onD [of "mhash (go_env toy_hash)" "set toy_trees" s s'] by (simp add: distinct_map)
qed

text \<open>A database that holds one of them.\<close>

definition toy_db :: mdb where
  "toy_db = \<lparr>db_cache = None, db_data = [mhash (go_env toy_hash) tree_a \<mapsto> StoreNode_Marshal (snode (go_env toy_hash) tree_a)]\<rparr>"

lemma toy_db_ok: "mdb_ok (go_env toy_hash) (set toy_trees) toy_db"
proof -
  have "db_inv (go_env toy_hash) (set toy_trees) (db_data toy_db)"
    unfolding db_inv_def
  proof (intro ballI impI conjI allI)
    fix s assume s: "s \<in> set toy_trees" "saved (go_env toy_hash) (db_data toy_db) s"
    then have eq: "s = tree_a"
      by (intro mhash_inj [OF toy_universe]) (simp_all add: saved_def toy_db_def toy_trees_def split: if_splits)
    have "MarshalStore (go_env toy_hash) = StoreNode_Marshal" by (simp add: go_env_def)
    with eq show "db_data toy_db (mhash (go_env toy_hash) s) = Some (MarshalStore (go_env toy_hash) (snode (go_env toy_hash) s))"
      by (simp add: toy_db_def)
    fix k l r assume "s = Inner k l r"
    with eq show "saved (go_env toy_hash) (db_data toy_db) l" "saved (go_env toy_hash) (db_data toy_db) r" by (simp_all add: tree_a_def)
  qed
  then show ?thesis by (simp add: mdb_ok_def toy_db_def cache_ok_def)
qed

lemma toy_version: "version (go_env toy_hash) (set toy_trees) (db_data toy_db) (Some (mhash (go_env toy_hash) tree_a)) (Some tree_a)"
  using toy_hashes by (auto simp: version_def saved_def toy_trees_def toy_db_def bst_tree_a simp del: mhash.simps)

end
