(* ===== verification/MavlVersions.thy ===== *)
theory MavlVersions
  imports MavlEnv
begin

text \<open>
  The properties of the MAVL store: a tree in memory is an ordered map of logarithmic height; a
  history of writes on a database gives a list of versions, each readable for ever under its state
  hash; the store module shows what is in memory and persists it on commit; inclusion proofs.
\<close>

lemma wp_ex: "wp m (\<lambda>r s'. r = Ret a \<and> Q s') s \<Longrightarrow> \<exists>s'. m s = (Ret a, s') \<and> Q s'"
  by (auto simp: wp_def split: prod.splits)

lemma wp_ex0: "wp m (\<lambda>r s'. r = Ret a) s \<Longrightarrow> \<exists>s'. m s = (Ret a, s')"
  by (auto simp: wp_def split: prod.splits)

subsection \<open>Trees in memory\<close>

datatype tree_op = TSet bytes "bytes option" | TRemove bytes

fun run_op :: "mavl_env \<Rightarrow> tree_op \<Rightarrow> (Tree, unit) prog" where
  "run_op env (TSet k v) = bind (Tree_Set env k v) (\<lambda>_. ret ())"
| "run_op env (TRemove k) = bind (Remove env k) (\<lambda>_. ret ())"

fun map_op :: "tree_op \<Rightarrow> (bytes \<rightharpoonup> bytes option) \<Rightarrow> (bytes \<rightharpoonup> bytes option)" where
  "map_op (TSet k v) m = m(k \<mapsto> v)"
| "map_op (TRemove k) m = m(k := None)"

lemma entries_oset: "wf_tree mt \<Longrightarrow> length (entries (oset k v mt)) \<le> length (entries mt) + 1"
  by (rule mavl.card_put)

lemma wp_run_op:
  assumes ev: "evicts_only env" and h: "holds env c bh mt T" and s: "length (entries mt) + 1 < 2 ^ 31"
    and P: "\<And>T' mt'. holds env c bh mt' T' \<Longrightarrow> contents mt' = map_op opn (contents mt) \<Longrightarrow>
      length (entries mt') \<le> length (entries mt) + 1 \<Longrightarrow> P (Ret ()) T'"
  shows "wp (run_op env opn) P T"
proof -
  have w: "wf_tree mt" using h by (simp add: holds_def)
  show ?thesis
  proof (cases opn)
    case (TSet k v)
    with P contents_oset [OF w] entries_oset [OF w] show ?thesis
      by (auto simp: wp_bind wp_ret intro!: wp_Tree_Set [OF ev h s])
  next
    case (TRemove k)
    have "length (entries (odel k mt)) \<le> length (entries mt) + 1" using mavl.card_del [OF w, of k] by simp
    with TRemove P contents_odel [OF w] s show ?thesis
      by (auto simp: wp_bind wp_ret intro!: wp_Remove [OF ev h])
  qed
qed

lemma wp_run_ops:
  assumes ev: "evicts_only env"
  shows "holds env c bh mt T \<Longrightarrow> length (entries mt) + length ops < 2 ^ 31 \<Longrightarrow>
    (\<And>T' mt'. holds env c bh mt' T' \<Longrightarrow> contents mt' = fold map_op ops (contents mt) \<Longrightarrow>
      length (entries mt') \<le> length (entries mt) + length ops \<Longrightarrow> P (Ret ()) T') \<Longrightarrow>
    wp (forM ops (run_op env)) P T"
proof (induction ops arbitrary: mt T)
  case Nil
  then show ?case by (simp add: wp_ret)
next
  case (Cons x xs)
  show ?case
    unfolding forM.simps
  proof (subst wp_bind, rule wp_run_op [OF ev Cons.prems(1)])
    show "length (entries mt) + 1 < 2 ^ 31" using Cons.prems(2) by simp
    fix T' mt'
    assume a: "holds env c bh mt' T'" "contents mt' = map_op x (contents mt)" "length (entries mt') \<le> length (entries mt) + 1"
    show "case Ret () of Ret y \<Rightarrow> wp (forM xs (run_op env)) P T' | Err e \<Rightarrow> P (Err e) T' | Panic p \<Rightarrow> P (Panic p) T'"
      unfolding outcome.case
      by (rule Cons.IH [OF a(1)]) (use a Cons.prems(2,3) in auto)
  qed
qed

text \<open>
  C5. A tree is an ordered map. After any sequence of \<^verbatim>\<open>Set\<close> and \<^verbatim>\<open>Remove\<close> on a new tree (with or without
  a database) no call has panicked or run out of fuel, the tree holds exactly the map the sequence
  describes: \<^verbatim>\<open>Has\<close> and \<^verbatim>\<open>Get\<close> look a key up and \<^verbatim>\<open>Get\<close> gives its rank, \<^verbatim>\<open>GetByIndex\<close> lists the entries by
  key, \<^verbatim>\<open>IterateRange\<close> visits those of a range in either order and stops when asked to, \<^verbatim>\<open>Size\<close> counts them,
  and the height stays logarithmic in the size.
\<close>

theorem mavl_tree_is_map:
  fixes a :: 'a
  assumes ev: "evicts_only env" and len: "length ops < 2 ^ 31"
    and d: "d = None \<or> d = Some (newNodeDB (Some Map.empty) db)"
  shows "\<exists>T es. forM ops (run_op env) (NewTree d) = (Ret (), T) \<and>
    sorted_wrt (<) (map fst es) \<and> map_of es = fold map_op ops Map.empty \<and>
    Size T = int (length es) \<and> 2 ^ nat (Height T) \<le> (max 1 (Size T))\<^sup>2 \<and>
    (\<forall>k. \<exists>T'. Tree_Has env k T = (Ret (k \<in> dom (map_of es)), T')) \<and>
    (\<forall>k. \<exists>T'. Tree_Get env k T = (Ret (int (length (filter (\<lambda>x. fst x < k) es)),
        (case map_of es k of None \<Rightarrow> None | Some v \<Rightarrow> v), k \<in> dom (map_of es)), T')) \<and>
    (\<forall>i < length es. \<exists>T'. GetByIndex env (int i) T = (Ret (es ! i), T')) \<and>
    (\<forall>start stop asc fn. \<exists>T'. IterateRange env start stop asc fn a T =
        (Ret (walk fn (selected start stop asc False es) a), T'))"
proof -
  obtain c where h0: "holds env c 0 None (NewTree d)"
    using d by (auto simp: holds_def NewTree_def tree_ok_def newNodeDB_def cache_ok_def)
  have "wp (forM ops (run_op env)) (\<lambda>r T. r = Ret () \<and> (\<exists>mt. holds env c 0 mt T \<and>
      contents mt = fold map_op ops Map.empty \<and> length (entries mt) \<le> length ops)) (NewTree d)"
    using len by (intro wp_run_ops [OF ev h0]) auto
  from wp_ex [OF this] obtain T mt where T: "forM ops (run_op env) (NewTree d) = (Ret (), T)"
    and h: "holds env c 0 mt T" and m: "contents mt = fold map_op ops Map.empty" "length (entries mt) \<le> length ops"
    by blast
  have s: "length (entries mt) < 2 ^ 31" using m(2) len by simp
  have w: "wf_tree mt" using h by (simp add: holds_def)
  have c: "map_of (entries mt) = contents mt" by (simp add: contents_def)
  have "\<exists>T'. Tree_Has env k T = (Ret (k \<in> dom (contents mt)), T')" for k
    by (rule wp_ex0, rule wp_Tree_Has [OF ev h]) simp
  moreover have "\<exists>T'. Tree_Get env k T = (Ret (int (length (filter (\<lambda>x. fst x < k) (entries mt))),
        (case contents mt k of None \<Rightarrow> None | Some v \<Rightarrow> v), k \<in> dom (contents mt)), T')" for k
    by (rule wp_ex0, rule wp_Tree_Get [OF ev h s]) simp
  moreover have "\<exists>T'. GetByIndex env (int i) T = (Ret (entries mt ! i), T')" if "i < length (entries mt)" for i
    by (rule wp_ex0, rule wp_GetByIndex [OF ev h s]) (use that in auto)
  moreover have "\<exists>T'. IterateRange env start stop asc fn a T =
        (Ret (walk fn (selected start stop asc False (entries mt)) a), T')" for start stop asc fn
    by (rule wp_ex0, rule wp_IterateRange [OF ev h]) simp
  ultimately show ?thesis
    using T entries_sorted [OF w] m(1) c Size_Height [OF h] by (intro exI [of _ T] exI [of _ "entries mt"]) simp
qed

theorem mavl_tree_is_map_witness:
  "\<exists>T es. forM [TSet ''b'' (Some ''2''), TSet ''a'' (Some ''1''), TSet ''c'' None, TRemove ''b'']
        (run_op (go_env toy_hash)) (NewTree None) = (Ret (), T) \<and>
     map_of es = Map.empty(''a'' \<mapsto> Some ''1'', ''c'' \<mapsto> None) \<and> Size T = int (length es)"
proof -
  have "evicts_only (go_env toy_hash)" using toy_plain by (simp add: plain_def)
  moreover have "fold map_op [TSet ''b'' (Some ''2''), TSet ''a'' (Some ''1''), TSet ''c'' None, TRemove ''b''] Map.empty =
      Map.empty(''a'' \<mapsto> Some ''1'', ''c'' \<mapsto> None)"
    by (auto simp: fun_eq_iff)
  ultimately show ?thesis
    using mavl_tree_is_map [of "go_env toy_hash" "[TSet ''b'' (Some ''2''), TSet ''a'' (Some ''1''), TSet ''c'' None, TRemove ''b'']" None undefined "()"]
    by (auto simp del: forM.simps)
qed

subsection \<open>Versions on a database\<close>

text \<open>
  A history: each request writes some pairs on top of an earlier version, named by its number; the
  empty state is number 0. The same history on trees, on maps and, with the state hashes \<^verbatim>\<open>SetKVPair\<close>
  returns, on a database.
\<close>

type_synonym request = "nat \<times> (bytes \<times> bytes option) list"

fun history :: "(request \<Rightarrow> 'v list \<Rightarrow> 'v) \<Rightarrow> request list \<Rightarrow> 'v list \<Rightarrow> 'v list" where
  "history f [] vs = vs"
| "history f (r # rs) vs = history f rs (vs @ [f r vs])"

definition tree_history :: "request list \<Rightarrow> mtree option list \<Rightarrow> mtree option list" where
  "tree_history = history (\<lambda>(i, kvs) ts. sets kvs (ts ! i))"

definition map_history :: "request list \<Rightarrow> (bytes \<rightharpoonup> bytes option) list \<Rightarrow> (bytes \<rightharpoonup> bytes option) list" where
  "map_history = history (\<lambda>(i, kvs) ms. ms ! i ++ map_of (rev kvs))"

fun replay :: "mavl_env \<Rightarrow> request list \<Rightarrow> bytes option list \<Rightarrow> (mdb, bytes option list) prog" where
  "replay env [] hs = ret hs"
| "replay env ((i, kvs) # rs) hs =
     bind (SetKVPair env \<lparr>ssStateHash = hs ! i, ssKV = kvs, ssHeight = int (length hs)\<rparr>) (\<lambda>h. replay env rs (hs @ [h]))"

fun requests_ok :: "request list \<Rightarrow> nat \<Rightarrow> bool" where
  "requests_ok [] n = True"
| "requests_ok ((i, kvs) # rs) n \<longleftrightarrow> i < n \<and> requests_ok rs (Suc n)"

lemma length_history: "length (history f rs vs) = length vs + length rs"
  by (induction rs arbitrary: vs) auto

lemma history_prefix: "i < length vs \<Longrightarrow> history f rs vs ! i = vs ! i"
  by (induction rs arbitrary: vs) (auto simp: nth_append)

lemma set_history: "set vs \<subseteq> set (history f rs vs)"
proof (induction rs arbitrary: vs)
  case (Cons r rs)
  from Cons.IH [of "vs @ [f r vs]"] show ?case by simp
qed simp

lemma contents_sets: "wf_tree mt \<Longrightarrow> contents (sets kvs mt) = contents mt ++ map_of (rev kvs)"
  unfolding sets_puts by (rule mavl.table_puts)

lemma wf_sets: "wf_tree mt \<Longrightarrow> wf_tree (sets kvs mt)"
  unfolding sets_puts by (rule mavl.valid_puts)

lemma length_sets: "wf_tree mt \<Longrightarrow> length (entries (sets kvs mt)) \<le> length (entries mt) + length kvs"
proof (induction kvs arbitrary: mt)
  case (Cons kv kvs)
  obtain k v where kv: "kv = (k, v)" by (cases kv)
  from Cons.IH [OF wf_oset [OF Cons.prems], of k v] entries_oset [OF Cons.prems, of k v] show ?case
    by (simp add: sets_def kv)
qed (simp add: sets_def)

lemma history_sim:
  assumes step: "\<And>i kvs vs ws. list_all2 R vs ws \<Longrightarrow> i < length vs \<Longrightarrow> R (f (i, kvs) vs) (g (i, kvs) ws)"
  shows "list_all2 R vs ws \<Longrightarrow> requests_ok rs (length vs) \<Longrightarrow> list_all2 R (history f rs vs) (history g rs ws)"
proof (induction rs arbitrary: vs ws)
  case (Cons r rs)
  obtain i kvs where r: "r = (i, kvs)" by (cases r)
  with step [OF Cons.prems(1), of i kvs] Cons.prems show ?case
    by (auto intro!: Cons.IH list_all2_appendI)
qed simp

lemma history_maps:
  "requests_ok rs (length ts) \<Longrightarrow> list_all2 (\<lambda>mt m. wf_tree mt \<and> contents mt = m) ts ms \<Longrightarrow>
   list_all2 (\<lambda>mt m. wf_tree mt \<and> contents mt = m) (tree_history rs ts) (map_history rs ms)"
  unfolding tree_history_def map_history_def
  by (rule history_sim) (auto simp: list_all2_conv_all_nth contents_sets wf_sets)

lemma wp_replay:
  assumes p: "plain env" and u: "universe env U"
  shows "mdb_ok env U db \<Longrightarrow> list_all2 (version env U (db_data db)) (map (map_option (mhash env)) ts) ts \<Longrightarrow>
    requests_ok rs (length ts) \<Longrightarrow> \<forall>t. Some t \<in> set (tree_history rs ts) \<longrightarrow> t \<in> U \<and> mhash env t \<noteq> emptyRoot \<Longrightarrow>
    \<forall>mt \<in> set ts. wf_tree mt \<and> length (entries mt) \<le> n \<Longrightarrow> n + length (concat (map snd rs)) < 2 ^ 31 \<Longrightarrow>
    (\<And>db'. mdb_ok env U db' \<Longrightarrow>
       list_all2 (version env U (db_data db')) (map (map_option (mhash env)) (tree_history rs ts)) (tree_history rs ts) \<Longrightarrow>
       P (Ret (map (map_option (mhash env)) (tree_history rs ts))) db') \<Longrightarrow>
    wp (replay env rs (map (map_option (mhash env)) ts)) P db"
proof (induction rs arbitrary: ts db n)
  case Nil
  then show ?case by (simp add: wp_ret tree_history_def)
next
  case (Cons r rs)
  obtain i kvs where r: "r = (i, kvs)" by (cases r)
  let ?hs = "map (map_option (mhash env)) ts" and ?t = "sets kvs (ts ! i)"
  let ?d = "\<lparr>ssStateHash = ?hs ! i, ssKV = kvs, ssHeight = int (length ?hs)\<rparr>"
  have i: "i < length ts" "requests_ok rs (length (ts @ [?t]))" using Cons.prems(3) r by auto
  have H: "tree_history (r # rs) ts = tree_history rs (ts @ [?t])" by (simp add: tree_history_def r)
  have w: "wf_tree (ts ! i)" "length (entries (ts ! i)) \<le> n" using Cons.prems(5) i by auto
  have v: "version env U (db_data db) (ssStateHash ?d) (ts ! i)" using Cons.prems(2) i by (auto simp: list_all2_conv_all_nth)
  have "?t \<in> set (tree_history rs (ts @ [?t]))" using set_history [of "ts @ [?t]"] by (auto simp: tree_history_def)
  then have t: "t \<in> U \<and> mhash env t \<noteq> emptyRoot" if "?t = Some t" for t using Cons.prems(4) that H by auto
  have sz: "length (entries (ts ! i)) + length (ssKV ?d) < 2 ^ 31" using Cons.prems(6) w(2) r by simp
  have "wp (replay env rs (?hs @ [map_option (mhash env) ?t])) P db'"
    if a: "mdb_ok env U db'" "db_data db \<subseteq>\<^sub>m db_data db'" "version env U (db_data db') (map_option (mhash env) ?t) ?t" for db'
  proof -
    have "list_all2 (version env U (db_data db')) (map (map_option (mhash env)) (ts @ [?t])) (ts @ [?t])"
      using list_all2_mono [OF Cons.prems(2) version_mono [OF a(2)]] a(3) by (simp add: list_all2_appendI)
    moreover have "\<forall>mt \<in> set (ts @ [?t]). wf_tree mt \<and> length (entries mt) \<le> n + length kvs"
      using Cons.prems(5) wf_sets [OF w(1)] length_sets [OF w(1), of kvs] w(2) by fastforce
    moreover have "n + length kvs + length (concat (map snd rs)) < 2 ^ 31" using Cons.prems(6) r by simp
    ultimately have "wp (replay env rs (map (map_option (mhash env)) (ts @ [?t]))) P db'"
      using Cons.IH [OF a(1) _ i(2)] Cons.prems(4,7) unfolding H by blast
    then show ?thesis by simp
  qed
  then show ?case
    unfolding r replay.simps
    by (subst wp_bind, intro wp_SetKVPair [OF p u Cons.prems(1) v _ sz]) (use t in auto)
qed

lemma version_entries:
  assumes "universe env U" "version env U db h mt"
  shows "length (entries mt) < 2 ^ 31"
  using assms universeD(2) [OF assms(1)] by (auto simp: version_def sz_entries split: option.splits)

definition no_db :: "(bytes \<rightharpoonup> Node) option \<Rightarrow> mdb" where
  "no_db c = \<lparr>db_cache = c, db_data = Map.empty\<rparr>"

lemma no_db_ok: "c = None \<or> c = Some Map.empty \<Longrightarrow> mdb_ok env U (no_db c)"
  by (auto simp: no_db_def mdb_ok_def db_inv_def saved_def cache_ok_def)

definition value_of :: "(bytes \<rightharpoonup> bytes option) \<Rightarrow> bytes \<Rightarrow> bytes option" where
  "value_of m k = (case m k of None \<Rightarrow> None | Some v \<Rightarrow> v)"

text \<open>
  C4. Versions are immutable and named by their hash. Take any history of \<^verbatim>\<open>SetKVPair\<close> calls on an empty
  database, each on top of any earlier state hash. Every call succeeds; it returns the hash of the
  tree built from scratch; afterwards \<^verbatim>\<open>GetKVPair\<close> under the hash of \<^emph>\<open>every\<close> version, old or new, returns
  what the map of that version holds; equal hashes name equal maps. The trees of the history must be
  storable and free of hash collisions among themselves.
\<close>

theorem mavl_history:
  assumes p: "plain env" and u: "universe env U" and c: "c = None \<or> c = Some Map.empty"
    and rs: "requests_ok rs 1" and sz: "length (concat (map snd rs)) < 2 ^ 31"
    and t: "\<And>t. Some t \<in> set (tree_history rs [None]) \<Longrightarrow> t \<in> U \<and> mhash env t \<noteq> emptyRoot"
  shows "\<exists>hs db. replay env rs [None] (no_db c) = (Ret hs, db) \<and>
    hs = map (map_option (mhash env)) (tree_history rs [None]) \<and> length hs = Suc (length rs) \<and>
    (\<forall>i < length hs. \<forall>ks. \<exists>db'. GetKVPair env (hs ! i) ks db =
        (Ret (map (value_of (map_history rs [Map.empty] ! i)) ks), db')) \<and>
    (\<forall>i < length hs. \<forall>j < length hs. hs ! i = hs ! j \<longrightarrow>
        map_history rs [Map.empty] ! i = map_history rs [Map.empty] ! j)"
proof -
  let ?ts = "tree_history rs [None]" and ?ms = "map_history rs [Map.empty]"
  let ?hs = "map (map_option (mhash env)) ?ts"
  have "wp (replay env rs (map (map_option (mhash env)) [None])) (\<lambda>r db. r = Ret ?hs \<and>
      mdb_ok env U db \<and> list_all2 (version env U (db_data db)) ?hs ?ts) (no_db c)"
  proof (rule wp_replay [OF p u no_db_ok [OF c], where n=0])
    show "\<forall>t. Some t \<in> set ?ts \<longrightarrow> t \<in> U \<and> mhash env t \<noteq> emptyRoot" using t by blast
  qed (use rs sz in \<open>simp_all add: version_def\<close>)
  then have "wp (replay env rs [None]) (\<lambda>r db. r = Ret ?hs \<and>
      mdb_ok env U db \<and> list_all2 (version env U (db_data db)) ?hs ?ts) (no_db c)" by simp
  from wp_ex [OF this] obtain db where db: "replay env rs [None] (no_db c) = (Ret ?hs, db)" "mdb_ok env U db"
    and v: "list_all2 (version env U (db_data db)) ?hs ?ts" by blast
  have m: "list_all2 (\<lambda>mt m. wf_tree mt \<and> contents mt = m) ?ts ?ms" using rs by (intro history_maps) auto
  have len: "length ?ts = Suc (length rs)" by (simp add: tree_history_def length_history)
  have c: "contents (?ts ! i) = ?ms ! i" if "i < length ?hs" for i
    using m that by (auto simp: list_all2_conv_all_nth)
  have "\<exists>db'. GetKVPair env (?hs ! i) ks db = (Ret (map (value_of (?ms ! i)) ks), db')" if i: "i < length ?hs" for i ks
  proof -
    have vi: "version env U (db_data db) (?hs ! i) (?ts ! i)" using v i by (auto simp: list_all2_conv_all_nth)
    have "mavl.found (?ts ! i) = value_of (?ms ! i)" by (simp add: fun_eq_iff mavl.found_def value_of_def c [OF i])
    then show ?thesis
      by (intro wp_ex0 wp_GetKVPair [OF p u db(2) vi version_entries [OF u vi]]) simp
  qed
  moreover have "?ms ! i = ?ms ! j" if i: "i < length ?hs" "j < length ?hs" "?hs ! i = ?hs ! j" for i j
  proof -
    have inj: "x = y" if xy: "x \<in> set ?ts" "y \<in> set ?ts" "map_option (mhash env) x = map_option (mhash env) y" for x y
    proof (cases x)
      case (Some a)
      with xy(3) obtain b where "y = Some b" "mhash env a = mhash env b" by (cases y) auto
      with Some xy(1,2) t mhash_inj [OF u, of a b] show ?thesis by blast
    qed (use xy(3) in simp)
    have "?ts ! i = ?ts ! j" using i by (intro inj) (simp_all del: map_option_eq_Some)
    with c [OF i(1)] c [OF i(2)] show ?thesis by (simp only:)
  qed
  ultimately show ?thesis using db(1) len length_map [of "map_option (mhash env)" ?ts] by metis
qed

definition toy_history :: "request list" where
  "toy_history = [(0, [(''a'', Some ''1'')]), (1, [(''b'', Some ''2'')]), (1, [(''a'', Some ''3'')])]"

lemma toy_history_trees: "tree_history toy_history [None] = [None, Some tree_a, Some tree_ab, Some tree_a']"
  by code_simp

theorem mavl_history_witness:
  "\<exists>hs db. replay (go_env toy_hash) toy_history [None] (no_db None) = (Ret hs, db) \<and>
     (\<exists>db'. GetKVPair (go_env toy_hash) (hs ! 1) [''a'', ''b''] db = (Ret [Some ''1'', None], db')) \<and>
     (\<exists>db'. GetKVPair (go_env toy_hash) (hs ! 2) [''a'', ''b''] db = (Ret [Some ''1'', Some ''2''], db')) \<and>
     (\<exists>db'. GetKVPair (go_env toy_hash) (hs ! 3) [''a'', ''b''] db = (Ret [Some ''3'', None], db'))"
proof -
  have t: "t \<in> set toy_trees \<and> mhash (go_env toy_hash) t \<noteq> emptyRoot" if "Some t \<in> set (tree_history toy_history [None])" for t
    using that toy_hashes by (auto simp: toy_history_trees toy_trees_def simp del: mhash.simps)
  have vs: "map (value_of (map_history toy_history [Map.empty] ! 1)) [''a'', ''b''] = [Some ''1'', None]"
      "map (value_of (map_history toy_history [Map.empty] ! 2)) [''a'', ''b''] = [Some ''1'', Some ''2'']"
      "map (value_of (map_history toy_history [Map.empty] ! 3)) [''a'', ''b''] = [Some ''3'', None]"
    by code_simp+
  have rs: "requests_ok toy_history 1" "length (concat (map snd toy_history)) < 2 ^ 31" "length toy_history = 3"
    by (simp_all add: toy_history_def)
  from mavl_history [OF toy_plain(1) toy_universe disjI1 [OF refl] rs(1,2) t] obtain hs db where
    h: "replay (go_env toy_hash) toy_history [None] (no_db None) = (Ret hs, db)" "length hs = Suc (length toy_history)"
      "\<And>i ks. i < length hs \<Longrightarrow> \<exists>db'. GetKVPair (go_env toy_hash) (hs ! i) ks db =
        (Ret (map (value_of (map_history toy_history [Map.empty] ! i)) ks), db')"
    by blast
  from h(3) [of 1 "[''a'', ''b'']"] h(3) [of 2 "[''a'', ''b'']"] h(3) [of 3 "[''a'', ''b'']"] h(1,2) rs(3)
  show ?thesis unfolding vs by auto
qed

subsection \<open>The store module\<close>

lemma found_value: "mavl.found mt = value_of (contents mt)"
  by (simp add: fun_eq_iff mavl.found_def value_of_def)

lemma visible_mono:
  assumes s: "mdb_ok env U (ms_db s')" "db_data (ms_db s) \<subseteq>\<^sub>m db_data (ms_db s')" and t: "trees s' = (trees s)(h := None)"
    and h: "trees s h = None"
    and v: "visible env U s h0 mt"
  shows "visible env U s' h0 mt"
proof -
  have "trees s' = trees s" using t h by (simp add: fun_eq_iff)
  with v mem_tree_mono [OF _ s] version_mono [OF s(2)] show ?thesis
    by (auto simp: visible_def split: option.splits)
qed

text \<open>
  C18. The life of a block's writes in the store. \<^verbatim>\<open>MemSet\<close> on a saved state returns the hash of the new
  state and leaves the database as it was; \<^verbatim>\<open>Get\<close> under that hash already shows the new state. \<^verbatim>\<open>Commit\<close>
  of that hash persists it: a reader of the database alone sees it, every state that was visible
  before still is, and the entry in memory is gone, so a second \<^verbatim>\<open>Commit\<close> is an error. \<^verbatim>\<open>Rollback\<close> instead
  leaves the store as if nothing had been set.
\<close>

theorem mavl_store_lifecycle:
  assumes p: "plain env" and u: "universe env U" and s: "ms_inv env U s" and kv: "ssKV d \<noteq> []"
    and v: "version env U (db_data (ms_db s)) (ssStateHash d) mt"
    and t: "sets (ssKV d) mt = Some t" "t \<in> U" "mhash env t \<noteq> emptyRoot" and new: "trees s (mhash env t) = None"
    and sz: "length (entries mt) + length (ssKV d) < 2 ^ 31"
  shows "\<exists>s1. MemSet env d s = (Ret (Some (mhash env t)), s1) \<and> ms_inv env U s1 \<and> db_data (ms_db s1) = db_data (ms_db s) \<and>
    (\<forall>ks. \<exists>s2. MStore_Get env (Some (mhash env t)) ks s1 =
        (Ret (map (value_of (contents mt ++ map_of (rev (ssKV d)))) ks), s2)) \<and>
    (\<exists>s2. MStore_Commit env (mhash env t) s1 = (Ret (mhash env t), s2) \<and> ms_inv env U s2 \<and>
       (\<forall>ks. \<exists>db. GetKVPair env (Some (mhash env t)) ks (ms_db s2) =
          (Ret (map (value_of (contents mt ++ map_of (rev (ssKV d)))) ks), db)) \<and>
       (\<forall>h0 mt0. visible env U s h0 mt0 \<longrightarrow> visible env U s2 h0 mt0) \<and>
       MStore_Commit env (mhash env t) s2 = (Err ErrHashNotFound, s2)) \<and>
    (\<exists>s2. MStore_Rollback (mhash env t) s1 = (Ret (mhash env t), s2) \<and> ms_inv env U s2 \<and>
       db_data (ms_db s2) = db_data (ms_db s) \<and> trees s2 = trees s)"
proof -
  let ?h = "mhash env t" and ?m = "contents mt ++ map_of (rev (ssKV d))"
  have w: "wf_tree mt" using v by (auto simp: version_def split: option.splits)
  have m: "mavl.found (Some t) = value_of ?m" unfolding found_value using contents_sets [OF w, of "ssKV d"] t(1) by simp
  have szt: "length (entries (Some t)) < 2 ^ 31" using universeD(2) [OF u t(2)] by (simp add: sz_entries)
  have "wp (MemSet env d) (\<lambda>r s1. r = Ret (Some ?h) \<and> ms_inv env U s1 \<and> db_data (ms_db s1) = db_data (ms_db s) \<and>
      (\<exists>T. trees s1 = (trees s)(?h \<mapsto> Some T))) s"
    by (rule wp_MemSet [OF p u s kv v t sz]) auto
  from wp_ex [OF this] obtain s1 T where s1: "MemSet env d s = (Ret (Some ?h), s1)" "ms_inv env U s1"
    "db_data (ms_db s1) = db_data (ms_db s)" and tr: "trees s1 = (trees s)(?h \<mapsto> Some T)" by blast
  have T: "trees s1 ?h = Some (Some T)" using tr by simp
  have mem: "mem_tree env U (ms_db s1) t T"
    using s1(2) T mhash_inj [OF u _ t(2)] unfolding ms_inv_def mem_tree_def by metis
  have vis: "visible env U s1 (Some ?h) (Some t)" using T mem by (simp add: visible_def bytes_of_def)
  have get: "\<exists>s2. MStore_Get env (Some ?h) ks s1 = (Ret (map (value_of ?m) ks), s2)" for ks
    by (intro wp_ex0 wp_MStore_Get [OF p u s1(2) vis szt]) (simp add: m)
  have "wp (MStore_Commit env ?h) (\<lambda>r s2. r = Ret ?h \<and> ms_inv env U s2 \<and> db_data (ms_db s1) \<subseteq>\<^sub>m db_data (ms_db s2) \<and>
      trees s2 = (trees s1)(?h := None) \<and> version env U (db_data (ms_db s2)) (Some ?h) (Some t)) s1"
    by (rule wp_MStore_Commit [OF p u s1(2) T mem]) simp
  from wp_ex [OF this] obtain s2 where s2: "MStore_Commit env ?h s1 = (Ret ?h, s2)" "ms_inv env U s2"
    "db_data (ms_db s1) \<subseteq>\<^sub>m db_data (ms_db s2)" "trees s2 = (trees s1)(?h := None)"
    "version env U (db_data (ms_db s2)) (Some ?h) (Some t)" by blast
  have db2: "mdb_ok env U (ms_db s2)" using s2(2) by (simp add: ms_inv_def)
  have read: "\<exists>db. GetKVPair env (Some ?h) ks (ms_db s2) = (Ret (map (value_of ?m) ks), db)" for ks
    by (intro wp_ex0 wp_GetKVPair [OF p u db2 s2(5) szt]) (simp add: m)
  have keep: "visible env U s2 h0 mt0" if "visible env U s h0 mt0" for h0 mt0
    using visible_mono [OF db2 _ _ new that] s2(3,4) s1(3) tr by simp
  have again: "MStore_Commit env ?h s2 = (Err ErrHashNotFound, s2)" using s2(4) by (simp add: MStore_Commit_def)
  have undo: "\<exists>s2. MStore_Rollback ?h s1 = (Ret ?h, s2) \<and> ms_inv env U s2 \<and> db_data (ms_db s2) = db_data (ms_db s) \<and> trees s2 = trees s"
    using s1(2,3) T tr new by (auto simp: MStore_Rollback_def ms_inv_def fun_eq_iff)
  from s1 get s2(1,2) read keep again undo show ?thesis by blast
qed

definition toy_store :: MavlStore where
  "toy_store = \<lparr>ms_db = no_db None, trees = Map.empty\<rparr>"

theorem mavl_store_lifecycle_witness:
  "\<exists>s1 s2 s3. MemSet (go_env toy_hash) \<lparr>ssStateHash = None, ssKV = [(''a'', Some ''1''), (''b'', Some ''2'')], ssHeight = 1\<rparr> toy_store =
       (Ret (Some (mhash (go_env toy_hash) tree_ab)), s1) \<and>
     MStore_Get (go_env toy_hash) (Some (mhash (go_env toy_hash) tree_ab)) [''b''] s1 = (Ret [Some ''2''], s2) \<and>
     MStore_Commit (go_env toy_hash) (mhash (go_env toy_hash) tree_ab) s1 = (Ret (mhash (go_env toy_hash) tree_ab), s3)"
proof -
  let ?d = "\<lparr>ssStateHash = None, ssKV = [(''a'', Some ''1''), (''b'', Some ''2'')], ssHeight = 1\<rparr>"
  have t: "sets (ssKV ?d) None = Some tree_ab" by code_simp
  have U: "tree_ab \<in> set toy_trees" "mhash (go_env toy_hash) tree_ab \<noteq> emptyRoot"
    using toy_hashes by (auto simp: toy_trees_def simp del: mhash.simps)
  have s: "ms_inv (go_env toy_hash) (set toy_trees) toy_store" by (simp add: ms_inv_def toy_store_def no_db_ok)
  have v: "version (go_env toy_hash) (set toy_trees) (db_data (ms_db toy_store)) (ssStateHash ?d) None" by (simp add: version_def)
  have b: "map (value_of (contents None ++ map_of (rev (ssKV ?d)))) [''b''] = [Some ''2'']" by (simp add: value_of_def)
  from mavl_store_lifecycle [OF toy_plain(1) toy_universe s _ v t U] obtain s1 s3
    where "MemSet (go_env toy_hash) ?d toy_store = (Ret (Some (mhash (go_env toy_hash) tree_ab)), s1)"
      "\<And>ks. \<exists>s2. MStore_Get (go_env toy_hash) (Some (mhash (go_env toy_hash) tree_ab)) ks s1 =
        (Ret (map (value_of (contents None ++ map_of (rev (ssKV ?d)))) ks), s2)"
      "MStore_Commit (go_env toy_hash) (mhash (go_env toy_hash) tree_ab) s1 = (Ret (mhash (go_env toy_hash) tree_ab), s3)"
    by (auto simp: toy_store_def simp del: mhash.simps)
  with b show ?thesis by metis
qed

subsection \<open>Inclusion proofs\<close>

text \<open>
  C19. Proofs are complete. For a state of the database and any key, \<^verbatim>\<open>GetKVPairProof\<close> succeeds; when the
  state holds the key it returns bytes that \<^verbatim>\<open>VerifyKVPairProof\<close> accepts for the key, its value and the
  state hash, and otherwise no bytes.
\<close>

theorem mavl_proof_complete:
  assumes "plain env" "universe env U" "mdb_ok env U db" "proof_codec enc dec" "version env U (db_data db) h mt"
  shows "\<exists>b db'. GetKVPairProof env enc h k db = (Ret b, db') \<and>
    (case contents mt k of
       None \<Rightarrow> b = None
     | Some v \<Rightarrow> (\<exists>pr. b = Some pr \<and> VerifyKVPairProof env dec (bytes_of h) k v pr = Ret True))"
proof -
  have "wp (GetKVPairProof env enc h k) (\<lambda>r db'. \<exists>b. r = Ret b \<and>
    (case contents mt k of
       None \<Rightarrow> b = None
     | Some v \<Rightarrow> (\<exists>pr. b = Some pr \<and> VerifyKVPairProof env dec (bytes_of h) k v pr = Ret True))) db"
    using assms by (rule wp_GetKVPairProof) blast
  then show ?thesis by (simp add: wp_def split: prod.splits)
qed

theorem mavl_proof_complete_witness:
  "\<exists>b db'. GetKVPairProof (go_env toy_hash) MAVLProof_Marshal (Some (mhash (go_env toy_hash) tree_a)) ''a'' toy_db = (Ret (Some b), db') \<and>
    VerifyKVPairProof (go_env toy_hash) MAVLProof_Unmarshal (mhash (go_env toy_hash) tree_a) ''a'' (Some ''1'') b = Ret True"
proof -
  have c: "contents (Some tree_a) ''a'' = Some (Some ''1'')" by (simp add: tree_a_def contents_def)
  from mavl_proof_complete [OF toy_plain(1) toy_universe toy_db_ok MAVLProof_codec toy_version, of "''a''"] c show ?thesis
    by (auto simp: bytes_of_def)
qed

text \<open>
  C20. Proofs are sound, with a proviso. If \<^verbatim>\<open>VerifyKVPairProof\<close> accepts a proof against the root hash of
  a tree, every branch of the proof claims a height above zero, and the hash does not collide between
  a text of the proof and a text of the tree, then the tree holds the key with that value (an empty
  value and a nil one are not told apart).
\<close>

theorem mavl_proof_sound:
  assumes w: "wired env" and ok: "VerifyKVPairProof env dec (mhash env t) k v pb = Ret True" and bs: "dec pb = Some bs"
    and b: "\<And>b. b \<in> set bs \<Longrightarrow> 0 < inHeight b \<and> is_i32 (inHeight b) \<and> is_i32 (inSize b)"
    and c: "no_collision env (insert (EncodeLeaf env k v 0 1) (branch_texts env (LeafNode_Hash env k v 0 1) bs)) t"
    and s: "\<And>k v. (k, v) \<in> set (leaves t) \<Longrightarrow> sane_leaf k v" "sane_leaf k v" "sz t < 2 ^ 31"
  shows "\<exists>v'. (k, v') \<in> set (leaves t) \<and> bytes_of v' = bytes_of v"
proof -
  have "climb env bs (LeafNode_Hash env k v 0 1) = mhash env t"
    using ok bs by (simp add: VerifyKVPairProof_def ReadProof_def Verify_def climb_def bytes_of_Some Let_def split: if_splits)
  from climb_member [OF w this _ c s] b show ?thesis by (simp add: list_all_iff)
qed

definition toy_branches :: "InnerNode list" where
  "toy_branches = [\<lparr>inLeftHash = None, inRightHash = Some (mhash (go_env toy_hash) tree_b), inHeight = 1, inSize = 2\<rparr>]"

theorem mavl_proof_sound_witness:
  "\<exists>v'. (''a'', v') \<in> set (leaves tree_ab) \<and> bytes_of v' = bytes_of (Some ''1'')"
proof (rule mavl_proof_sound [where env="go_env toy_hash" and dec="\<lambda>_. Some toy_branches" and pb="[]" and bs=toy_branches])
  show "VerifyKVPairProof (go_env toy_hash) (\<lambda>_. Some toy_branches) (mhash (go_env toy_hash) tree_ab) ''a'' (Some ''1'') [] = Ret True"
    by code_simp
  show "no_collision (go_env toy_hash) (insert (EncodeLeaf (go_env toy_hash) ''a'' (Some ''1'') 0 1)
      (branch_texts (go_env toy_hash) (LeafNode_Hash (go_env toy_hash) ''a'' (Some ''1'') 0 1) toy_branches)) tree_ab"
    by code_simp
qed (auto simp: toy_plain toy_tree_defs toy_branches_def sane_leaf_def bytes_of_def is_i32_def)

lemma climb_to_root:
  assumes sha: "sha_len env"
  shows "(k, v) \<in> set (leaves t) \<Longrightarrow> \<exists>bs. climb env bs (LeafNode_Hash env k v 0 1) = mhash env t"
proof (induction t)
  case (Leaf k' v')
  then have "climb env [] (LeafNode_Hash env k v 0 1) = mhash env (Leaf k' v')" by simp
  then show ?case by blast
next
  case (Inner k' l r)
  have id: "trunc (mhash env s) = mhash env s" "mhash env s \<noteq> []" for s
    using length_mhash [OF sha, of s] by (auto simp: trunc_id)
  from Inner.prems consider "(k, v) \<in> set (leaves l)" | "(k, v) \<in> set (leaves r)" by auto
  then show ?case
  proof cases
    case 1
    from Inner.IH(1) [OF 1] obtain bs where "climb env bs (LeafNode_Hash env k v 0 1) = mhash env l" by blast
    then have "climb env (bs @ [\<lparr>inLeftHash = None, inRightHash = Some (mhash env r), inHeight = ht (Inner k' l r), inSize = sz (Inner k' l r)\<rparr>])
        (LeafNode_Hash env k v 0 1) = mhash env (Inner k' l r)"
      using id by (simp add: InnerNodeProofHash_def InnerNode_Hash_def bytes_of_def)
    then show ?thesis by blast
  next
    case 2
    from Inner.IH(2) [OF 2] obtain bs where "climb env bs (LeafNode_Hash env k v 0 1) = mhash env r" by blast
    then have "climb env (bs @ [\<lparr>inLeftHash = Some (mhash env l), inRightHash = None, inHeight = ht (Inner k' l r), inSize = sz (Inner k' l r)\<rparr>])
        (LeafNode_Hash env k v 0 1) = mhash env (Inner k' l r)"
      using id by (simp add: InnerNodeProofHash_def InnerNode_Hash_def bytes_of_Some)
    then show ?thesis by blast
  qed
qed

text \<open>
  C36. The proviso on heights is needed: a tree that holds, under some key \<open>K\<close> of at most 32 bytes, the
  leaf hash of a pair \<open>(k, v)\<close> as a value has a proof for \<open>(k, v)\<close> that \<^verbatim>\<open>VerifyKVPairProof\<close> accepts, though
  the tree need not hold \<open>k\<close>. The leaf of \<open>K\<close> is encoded like a branch of height zero, and
  \<^verbatim>\<open>Verify\<close> does not look at the heights of the branches.
\<close>

theorem mavl_proof_forgeable:
  assumes w: "wired env" and K: "(K, Some (LeafNode_Hash env k v 0 1)) \<in> set (leaves t)" "0 < length K" "length K \<le> 32"
  shows "\<exists>bs. \<forall>dec pb. dec pb = Some bs \<longrightarrow> VerifyKVPairProof env dec (mhash env t) k v pb = Ret True"
proof -
  have sha: "sha_len env" using w by (simp add: wired_def)
  let ?h = "LeafNode_Hash env k v 0 1" and ?b = "\<lparr>inLeftHash = Some K, inRightHash = None, inHeight = 0, inSize = 1\<rparr>"
  have h: "length ?h = 32" using sha by (simp add: LeafNode_Hash_def sha_len_def)
  have "InnerNodeProofHash env ?h ?b = LeafNode_Hash env K (Some ?h) 0 1"
    using K(2,3) w h unfolding branch_hash LeafNode_Hash_def [of env K]
    by (simp add: branch_text_def wired_enc bytes_of_Some trunc_id trunc_def)
  moreover from climb_to_root [OF sha K(1)] obtain bs where "climb env bs (LeafNode_Hash env K (Some ?h) 0 1) = mhash env t" by blast
  ultimately have "climb env (?b # bs) ?h = mhash env t" by (simp add: climb_def)
  then have "VerifyKVPairProof env dec (mhash env t) k v pb = Ret True" if "dec pb = Some (?b # bs)" for dec and pb :: bytes
    using h that by (simp add: VerifyKVPairProof_def ReadProof_def Verify_def climb_def bytes_of_Some trunc_id)
  then show ?thesis by blast
qed

theorem mavl_proof_forgeable_witness:
  "\<exists>bs. \<forall>dec pb. dec pb = Some bs \<longrightarrow>
     VerifyKVPairProof (go_env toy_hash) dec
       (mhash (go_env toy_hash) (Leaf ''K'' (Some (LeafNode_Hash (go_env toy_hash) ''gold'' (Some ''1000'') 0 1))))
       ''gold'' (Some ''1000'') pb = Ret True"
  by (rule mavl_proof_forgeable [OF toy_plain(2), where K="''K''"]) simp_all

end
