(* ===== verification/Merkle.thy ===== *)
theory Merkle
  imports Prelude
begin

text \<open>
  Merkle trees of transaction hashes, \<^verbatim>\<open>src/common/merkle/merkle.go\<close>. A hash is a byte slice or nil.
  Double SHA-256 (\<^verbatim>\<open>common.Sha2Sum\<close>) is the parameter \<open>H\<close>. The 64-byte buffer the code hashes from is
  reused between calls and threaded through the model. The parallel \<^verbatim>\<open>GetMerkleRoot\<close> and the
  constant-space \<^verbatim>\<open>Computation\<close> are shown to compute the root that the plain level-by-level definition
  \<open>root_of\<close> gives, and the branch of \<^verbatim>\<open>Computation\<close> to lead back to it.
\<close>

unbundle bit_operations_syntax

type_synonym hash = "bytes option"

subsection \<open>Level by level\<close>

text \<open>Go's \<^verbatim>\<open>copy(dst[off:], src)\<close>.\<close>

definition copy_at :: "nat \<Rightarrow> bytes \<Rightarrow> bytes \<Rightarrow> bytes" where
  "copy_at off src dst =
     take off dst @ take (length dst - off) src @ drop (off + length src) dst"

definition GetHashFromTwoHash :: "(bytes \<Rightarrow> bytes) \<Rightarrow> bytes \<Rightarrow> hash \<Rightarrow> hash \<Rightarrow> hash \<times> bytes" where
  "GetHashFromTwoHash H parent left right =
     (case (left, right) of
        (Some l, Some r) \<Rightarrow> (let parent' = copy_at 32 r (copy_at 0 l parent) in (Some (H parent'), parent'))
      | _ \<Rightarrow> (None, parent))"

fun hash_pairs :: "(bytes \<Rightarrow> bytes) \<Rightarrow> bytes \<Rightarrow> hash list \<Rightarrow> hash list \<times> bytes" where
  "hash_pairs H cache (l # r # hs) =
     (let (h, cache1) = GetHashFromTwoHash H cache l r; (hs', cache2) = hash_pairs H cache1 hs
      in (h # hs', cache2))"
| "hash_pairs H cache hs = ([], cache)"

lemma length_hash_pairs: "length (fst (hash_pairs H cache hs)) = length hs div 2"
  by (induction H cache hs rule: hash_pairs.induct) (auto simp: Let_def split: prod.splits)

function root_loop :: "(bytes \<Rightarrow> bytes) \<Rightarrow> bytes \<Rightarrow> hash list \<Rightarrow> hash" where
  "root_loop H cache hashes =
     (if length hashes > 1 then
        (let hashes1 = (if odd (length hashes) then hashes @ [last hashes] else hashes);
             (hashes2, cache2) = hash_pairs H cache hashes1
         in root_loop H cache2 hashes2)
      else if hashes = [] then None else hashes ! 0)"
  by pat_completeness auto
termination
proof (relation "measure (\<lambda>(H, cache, hs). length hs)", goal_cases)
  case (2 H cache hashes hs1 x hs2 cache2)
  then have "length hs2 = length hs1 div 2" using length_hash_pairs [of H cache hs1] by (metis fst_conv)
  moreover have "length hs1 \<le> length hashes + 1" "even (length hs1)" using 2 by auto
  ultimately show ?case using 2(1) by auto
qed simp

declare root_loop.simps [simp del]

definition new_cache :: bytes where
  "new_cache = replicate 64 (CHR 0x00)"

definition getMerkleRoot :: "(bytes \<Rightarrow> bytes) \<Rightarrow> hash list \<Rightarrow> hash" where
  "getMerkleRoot H hashes = root_loop H new_cache hashes"

subsection \<open>In parallel\<close>

function log2_loop :: "nat \<Rightarrow> nat \<Rightarrow> nat" where
  "log2_loop data level = (let data' = data div 2 in if data' \<le> 1 then level else log2_loop data' (level + 1))"
  by pat_completeness auto
termination by (relation "measure fst") auto

declare log2_loop.simps [simp del]

definition log2 :: "nat \<Rightarrow> nat" where
  "log2 data = (if data = 0 then 0 else log2_loop data 1)"

definition pow2 :: "nat \<Rightarrow> nat" where
  "pow2 d = fold (\<lambda>_ p. p * 2) [0..<d] 1"

function calcLevel_loop :: "nat \<Rightarrow> nat \<Rightarrow> nat" where
  "calcLevel_loop n level =
     (if n > 1 then (let n1 = (if odd n then n + 1 else n) in calcLevel_loop (n1 div 2) (level + 1)) else level)"
  by pat_completeness auto
termination by (relation "measure fst") (auto split: if_splits, presburger+)

declare calcLevel_loop.simps [simp del]

definition calcLevel :: "nat \<Rightarrow> nat" where
  "calcLevel n = (if n = 1 then 1 else calcLevel_loop n 0)"

fun self_hash :: "nat \<Rightarrow> (bytes \<Rightarrow> bytes) \<Rightarrow> bytes \<Rightarrow> hash \<Rightarrow> hash" where
  "self_hash 0 H cache h = h"
| "self_hash (Suc n) H cache h = (case GetHashFromTwoHash H cache h h of (h', cache') \<Rightarrow> self_hash n H cache' h')"

definition getMerkleRootPad :: "(bytes \<Rightarrow> bytes) \<Rightarrow> hash list \<Rightarrow> nat \<Rightarrow> hash" where
  "getMerkleRootPad H hashes step =
     (let level1 = calcLevel (length hashes); level2 = log2 step;
          (rt, cache) = (if length hashes = 1 then GetHashFromTwoHash H new_cache (hashes ! 0) (hashes ! 0)
                         else (getMerkleRoot H hashes, new_cache))
      in self_hash (level2 - level1) H cache rt)"

text \<open>
  One goroutine per chunk; each sends its index and root. \<open>arrival\<close> is the order in which the results
  come out of the channel.
\<close>

definition child_slice :: "nat \<Rightarrow> hash list \<Rightarrow> nat \<Rightarrow> hash list" where
  "child_slice step hashes i =
     (let e = (i + 1) * step; end_pos = (if e > length hashes then length hashes else e)
      in drop (i * step) (take end_pos hashes))"

definition child_root :: "(bytes \<Rightarrow> bytes) \<Rightarrow> nat \<Rightarrow> hash list \<Rightarrow> nat \<Rightarrow> nat \<times> hash" where
  "child_root H step hashes i =
     (let h = child_slice step hashes i
      in (i, if length h \<noteq> step then getMerkleRootPad H h step else getMerkleRoot H h))"

definition receive :: "(nat \<times> hash) list \<Rightarrow> hash list \<Rightarrow> hash list" where
  "receive subs childlist = fold (\<lambda>(index, h) cs. cs[index := h]) subs childlist"

definition chunk_step :: "nat \<Rightarrow> nat \<Rightarrow> nat" where
  "chunk_step ncpu n =
     (let step = log2 (n div ncpu); step1 = (if step < 1 then 1 else step); step2 = pow2 step1
      in if step2 > 256 then 256 else step2)"

definition GetMerkleRoot :: "(bytes \<Rightarrow> bytes) \<Rightarrow> nat \<Rightarrow> ((nat \<times> hash) list \<Rightarrow> (nat \<times> hash) list) \<Rightarrow> hash list \<Rightarrow> hash" where
  "GetMerkleRoot H ncpu arrival hashes =
     (if length hashes \<le> 80 \<or> ncpu \<le> 1 then getMerkleRoot H hashes
      else (let step = chunk_step ncpu (length hashes);
                l = (if length hashes mod step \<noteq> 0 then length hashes div step + 1 else length hashes div step);
                subs = arrival (map (child_root H step hashes) [0..<l])
            in getMerkleRoot H (receive subs (replicate l None))))"

subsection \<open>In constant space\<close>

record comp =
  cp_inner :: "hash list"
  cp_level :: nat
  cp_h :: hash
  cp_matchh :: bool
  cp_matchlevel :: nat
  cp_branch :: "hash list"
  cp_mutated :: bool
  cp_cache :: bytes

text \<open>What a step up does for the branch (when it is asked for).\<close>

definition collect :: "int \<Rightarrow> comp \<Rightarrow> comp" where
  "collect flage s =
     (if flage AND 2 \<noteq> 0 then
        (if cp_matchh s then s\<lparr>cp_branch := cp_branch s @ [cp_inner s ! cp_level s]\<rparr>
         else if cp_matchlevel s = cp_level s then s\<lparr>cp_branch := cp_branch s @ [cp_h s], cp_matchh := True\<rparr>
         else s)
      else s)"

definition join :: "(bytes \<Rightarrow> bytes) \<Rightarrow> comp \<Rightarrow> comp" where
  "join H s =
     (case GetHashFromTwoHash H (cp_cache s) (cp_inner s ! cp_level s) (cp_h s) of
        (h, cache) \<Rightarrow> s\<lparr>cp_h := h, cp_cache := cache, cp_level := cp_level s + 1\<rparr>)"

definition raw :: "hash \<Rightarrow> bytes" where
  "raw h = (case h of None \<Rightarrow> [] | Some b \<Rightarrow> b)"

definition check_mutated :: "comp \<Rightarrow> comp" where
  "check_mutated s = (if raw (cp_inner s ! cp_level s) = raw (cp_h s) then s\<lparr>cp_mutated := True\<rparr> else s)"

text \<open>\<^verbatim>\<open>for level = 0; 0 == count & (1 << level); level++\<close>; \<^verbatim>\<open>inner[level]\<close> panics from level 32 on.\<close>

function climb_levels :: "(bytes \<Rightarrow> bytes) \<Rightarrow> int \<Rightarrow> nat \<Rightarrow> comp \<Rightarrow> comp outcome" where
  "climb_levels H flage cnt s =
     (if bit cnt (cp_level s) then Ret s
      else if cp_level s \<ge> 32 then Panic ''index out of range''
      else climb_levels H flage cnt (join H (check_mutated (collect flage s))))"
  by pat_completeness auto
termination
  by (relation "measure (\<lambda>(H, flage, cnt, s). 32 - cp_level s)")
     (auto simp: join_def check_mutated_def collect_def split: prod.splits)

declare climb_levels.simps [simp del]

definition add_leaf :: "(bytes \<Rightarrow> bytes) \<Rightarrow> int \<Rightarrow> nat \<Rightarrow> nat \<Rightarrow> hash \<Rightarrow> comp \<Rightarrow> comp outcome" where
  "add_leaf H flage branchpos i h s =
     (case climb_levels H flage (i + 1)
             (s\<lparr>cp_h := h, cp_matchh := (i mod 2 ^ 32 = branchpos \<and> flage AND 2 \<noteq> 0), cp_level := 0\<rparr>) of
        Ret s' \<Rightarrow>
          if cp_level s' \<ge> 32 then Panic ''index out of range''
          else Ret (s'\<lparr>cp_inner := (cp_inner s')[cp_level s' := cp_h s'],
                       cp_matchlevel := (if cp_matchh s' then cp_level s' else cp_matchlevel s')\<rparr>)
      | Err e \<Rightarrow> Err e
      | Panic p \<Rightarrow> Panic p)"

fun add_leaves :: "(bytes \<Rightarrow> bytes) \<Rightarrow> int \<Rightarrow> nat \<Rightarrow> nat \<Rightarrow> hash list \<Rightarrow> comp \<Rightarrow> comp outcome" where
  "add_leaves H flage branchpos i [] s = Ret s"
| "add_leaves H flage branchpos i (h # hs) s =
     (case add_leaf H flage branchpos i h s of
        Ret s' \<Rightarrow> add_leaves H flage branchpos (i + 1) hs s'
      | Err e \<Rightarrow> Err e
      | Panic p \<Rightarrow> Panic p)"

text \<open>\<^verbatim>\<open>for level = 0; 0 == (count & (1 << level)); level++ {}\<close> on a positive count.\<close>

function low_level :: "nat \<Rightarrow> nat \<Rightarrow> nat" where
  "low_level cnt level = (if level \<ge> 64 \<or> bit cnt level then level else low_level cnt (level + 1))"
  by pat_completeness auto
termination by (relation "measure (\<lambda>(cnt, level). 64 - level)") auto

declare low_level.simps [simp del]

function propagate :: "(bytes \<Rightarrow> bytes) \<Rightarrow> int \<Rightarrow> nat \<Rightarrow> comp \<Rightarrow> comp outcome" where
  "propagate H flage cnt s =
     (if bit cnt (cp_level s) then Ret s
      else if cp_level s \<ge> 32 then Panic ''index out of range''
      else propagate H flage cnt (join H (collect flage s)))"
  by pat_completeness auto
termination
  by (relation "measure (\<lambda>(H, flage, cnt, s). 32 - cp_level s)") (auto simp: join_def collect_def split: prod.splits)

declare propagate.simps [simp del]

text \<open>A step up from a node without a right sibling, which is hashed with itself.\<close>

definition double :: "(bytes \<Rightarrow> bytes) \<Rightarrow> int \<Rightarrow> comp \<Rightarrow> comp" where
  "double H flage s =
     (let s1 = (if flage AND 2 \<noteq> 0 \<and> cp_matchh s then s\<lparr>cp_branch := cp_branch s @ [cp_h s]\<rparr> else s)
      in case GetHashFromTwoHash H (cp_cache s1) (cp_h s1) (cp_h s1) of
           (h, cache) \<Rightarrow> s1\<lparr>cp_h := h, cp_cache := cache, cp_level := cp_level s1 + 1\<rparr>)"

lemma cp_level_join [simp]: "cp_level (join H s) = cp_level s + 1"
  by (simp add: join_def split: prod.splits)

lemma cp_level_collect [simp]: "cp_level (collect flage s) = cp_level s"
  by (simp add: collect_def)

lemma cp_level_double [simp]: "cp_level (double H flage s) = cp_level s + 1"
  by (simp add: double_def Let_def split: prod.splits)

lemma propagate_level: "propagate H flage cnt s = Ret s' \<Longrightarrow> cp_level s \<le> cp_level s'"
proof (induction H flage cnt s rule: propagate.induct)
  case (1 H flage cnt s)
  from 1(2) show ?case
    by (subst (asm) propagate.simps) (auto split: if_splits dest!: 1(1))
qed

function finish :: "(bytes \<Rightarrow> bytes) \<Rightarrow> int \<Rightarrow> nat \<Rightarrow> comp \<Rightarrow> comp outcome" where
  "finish H flage cnt s =
     (if cnt = 2 ^ cp_level s then Ret s
      else if cp_level s \<ge> 64 then Panic ''count overflows''
      else (case propagate H flage (cnt + 2 ^ cp_level s) (double H flage s) of
              Ret s' \<Rightarrow> finish H flage (cnt + 2 ^ cp_level s) s'
            | Err e \<Rightarrow> Err e
            | Panic p \<Rightarrow> Panic p))"
  by pat_completeness auto
termination
  by (relation "measure (\<lambda>(H, flage, cnt, s). 64 - cp_level s)") (auto dest!: propagate_level)

declare finish.simps [simp del]

definition Computation :: "(bytes \<Rightarrow> bytes) \<Rightarrow> hash list \<Rightarrow> int \<Rightarrow> nat \<Rightarrow> (hash \<times> bool \<times> hash list) outcome" where
  "Computation H leaves flage branchpos =
     (if leaves = [] then Ret (None, False, [])
      else if flage < 1 \<or> flage > 3 then Ret (None, False, [])
      else
        (case add_leaves H flage branchpos 0 leaves
                \<lparr>cp_inner = replicate 32 None, cp_level = 0, cp_h = None, cp_matchh = False, cp_matchlevel = 0xff,
                 cp_branch = [], cp_mutated = False, cp_cache = new_cache\<rparr> of
           Ret s \<Rightarrow>
             (let level = low_level (length leaves) 0
              in if level \<ge> 32 then Panic ''index out of range''
                 else
                   (case finish H flage (length leaves)
                           (s\<lparr>cp_level := level, cp_h := cp_inner s ! level, cp_matchh := (cp_matchlevel s = level)\<rparr>) of
                      Ret s' \<Rightarrow> Ret (cp_h s', cp_mutated s', cp_branch s')
                    | Err e \<Rightarrow> Err e
                    | Panic p \<Rightarrow> Panic p))
         | Err e \<Rightarrow> Err e
         | Panic p \<Rightarrow> Panic p))"

definition GetMerkleBranch :: "(bytes \<Rightarrow> bytes) \<Rightarrow> hash list \<Rightarrow> nat \<Rightarrow> hash list outcome" where
  "GetMerkleBranch H leaves position =
     (case Computation H leaves 2 position of
        Ret (_, _, branchs) \<Rightarrow> Ret branchs | Err e \<Rightarrow> Err e | Panic p \<Rightarrow> Panic p)"

definition GetMerkleRootAndBranch :: "(bytes \<Rightarrow> bytes) \<Rightarrow> hash list \<Rightarrow> nat \<Rightarrow> (hash \<times> hash list) outcome" where
  "GetMerkleRootAndBranch H leaves position =
     (case Computation H leaves 3 position of
        Ret (roothash, _, branchs) \<Rightarrow> Ret (roothash, branchs) | Err e \<Rightarrow> Err e | Panic p \<Rightarrow> Panic p)"

fun from_branch :: "(bytes \<Rightarrow> bytes) \<Rightarrow> bytes \<Rightarrow> hash list \<Rightarrow> hash \<Rightarrow> nat \<Rightarrow> hash" where
  "from_branch H cache [] h index = h"
| "from_branch H cache (b # bs) h index =
     (case (if index AND 1 \<noteq> 0 then GetHashFromTwoHash H cache b h else GetHashFromTwoHash H cache h b) of
        (h', cache') \<Rightarrow> from_branch H cache' bs h' (drop_bit 1 index))"

definition GetMerkleRootFromBranch :: "(bytes \<Rightarrow> bytes) \<Rightarrow> hash list \<Rightarrow> hash \<Rightarrow> nat \<Rightarrow> hash" where
  "GetMerkleRootFromBranch H merkleBranch leaf index = from_branch H new_cache merkleBranch leaf index"

text \<open>The root of a list of transaction hashes; \<^verbatim>\<open>zeroHash\<close> for a block without transactions.\<close>

definition zeroHash :: bytes where
  "zeroHash = replicate 32 (CHR 0x00)"

definition CalcMerkleRoot :: "(bytes \<Rightarrow> bytes) \<Rightarrow> nat \<Rightarrow> ((nat \<times> hash) list \<Rightarrow> (nat \<times> hash) list) \<Rightarrow> ('tx \<Rightarrow> bytes) \<Rightarrow>
    'tx list \<Rightarrow> bytes outcome" where
  "CalcMerkleRoot H ncpu arrival tx_Hash txs =
     (if txs = [] then Ret zeroHash
      else (case GetMerkleRoot H ncpu arrival (map (\<lambda>tx. Some (tx_Hash tx)) txs) of
              None \<Rightarrow> Panic ''calc merkle root error''
            | Some r \<Rightarrow> Ret r))"

section \<open>The reference\<close>

fun up :: "(bytes \<Rightarrow> bytes) \<Rightarrow> bytes list \<Rightarrow> bytes list" where
  "up H (x # y # zs) = H (x @ y) # up H zs"
| "up H [x] = [H (x @ x)]"
| "up H [] = []"

lemma length_up: "length (up H xs) = (length xs + 1) div 2"
  by (induction H xs rule: up.induct) auto

function root_of :: "(bytes \<Rightarrow> bytes) \<Rightarrow> bytes list \<Rightarrow> hash" where
  "root_of H xs = (if length xs > 1 then root_of H (up H xs) else if xs = [] then None else Some (xs ! 0))"
  by pat_completeness auto
termination by (relation "measure (\<lambda>(H, xs). length xs)") (auto simp: length_up)

declare root_of.simps [simp del]

abbreviation lv :: "(bytes \<Rightarrow> bytes) \<Rightarrow> nat \<Rightarrow> bytes list \<Rightarrow> bytes list" where
  "lv H n xs \<equiv> (up H ^^ n) xs"

definition sha32 :: "(bytes \<Rightarrow> bytes) \<Rightarrow> bool" where
  "sha32 H \<longleftrightarrow> (\<forall>b. length (H b) = 32)"

definition hashes32 :: "bytes list \<Rightarrow> bool" where
  "hashes32 xs \<longleftrightarrow> (\<forall>x \<in> set xs. length x = 32)"

lemma hashes32_simps [simp]:
  "hashes32 []" "hashes32 (x # xs) \<longleftrightarrow> length x = 32 \<and> hashes32 xs" "hashes32 (xs @ ys) \<longleftrightarrow> hashes32 xs \<and> hashes32 ys"
  by (auto simp: hashes32_def)

lemma hashes32_sub: "hashes32 xs \<Longrightarrow> hashes32 (take n xs)" "hashes32 xs \<Longrightarrow> hashes32 (drop n xs)"
  "hashes32 xs \<Longrightarrow> i < length xs \<Longrightarrow> length (xs ! i) = 32"
  by (auto simp: hashes32_def dest: in_set_takeD in_set_dropD)

lemma hashes32_up: "sha32 H \<Longrightarrow> hashes32 (up H xs)"
  by (induction H xs rule: up.induct) (auto simp: sha32_def)

lemma hashes32_lv: "sha32 H \<Longrightarrow> hashes32 xs \<Longrightarrow> hashes32 (lv H n xs)"
  by (induction n) (auto intro: hashes32_up)

lemma GetHash_32:
  assumes "length l = 32" "length r = 32" "length parent = 64"
  shows "GetHashFromTwoHash H parent (Some l) (Some r) = (Some (H (l @ r)), l @ r)"
  using assms by (simp add: GetHashFromTwoHash_def copy_at_def Let_def)

lemma hash_pairs_up:
  "hashes32 xs \<Longrightarrow> even (length xs) \<Longrightarrow> length cache = 64 \<Longrightarrow>
   \<exists>cache'. hash_pairs H cache (map Some xs) = (map Some (up H xs), cache') \<and> length cache' = 64"
proof (induction H xs arbitrary: cache rule: up.induct)
  case (1 H x y zs)
  from 1(1) [of "x @ y"] 1(2-) show ?case by (auto simp: GetHash_32 Let_def)
qed auto

lemma up_odd: "odd (length xs) \<Longrightarrow> up H (xs @ [last xs]) = up H xs"
proof (induction H xs rule: up.induct)
  case (1 H x y zs)
  then have "zs \<noteq> []" by auto
  with 1 show ?case by simp
qed auto

lemma root_loop_root_of:
  assumes "sha32 H"
  shows "hashes32 xs \<Longrightarrow> length cache = 64 \<Longrightarrow> root_loop H cache (map Some xs) = root_of H xs"
proof (induction "length xs" arbitrary: xs cache rule: less_induct)
  case less
  show ?case
  proof (cases "length xs > 1")
    case True
    define ys where "ys = (if odd (length xs) then xs @ [last xs] else xs)"
    have ne: "xs \<noteq> []" using True by auto
    have ys: "hashes32 ys" "even (length ys)" "up H ys = up H xs"
      using less(2) up_odd [of xs H] last_in_set [OF ne] by (auto simp: ys_def hashes32_def)
    have m: "(if odd (length (map Some xs)) then map Some xs @ [last (map Some xs)] else map Some xs) = map Some ys"
      using ne by (simp add: ys_def last_map)
    from hash_pairs_up [OF ys(1,2) less(3), of H] obtain c
      where c: "hash_pairs H cache (map Some ys) = (map Some (up H xs), c)" "length c = 64" using ys(3) by auto
    have "root_loop H cache (map Some xs) = root_loop H c (map Some (up H xs))"
      using True c(1) by (subst root_loop.simps) (simp only: m [unfolded length_map] length_map Let_def prod.case if_True)
    also have "\<dots> = root_of H (up H xs)"
      using True c(2) assms by (intro less(1)) (auto simp: length_up hashes32_up)
    also have "\<dots> = root_of H xs" using True by (subst (2) root_of.simps) simp
    finally show ?thesis .
  next
    case False
    then show ?thesis by (subst root_loop.simps, subst root_of.simps) auto
  qed
qed

lemma getMerkleRoot_root_of: "sha32 H \<Longrightarrow> hashes32 xs \<Longrightarrow> getMerkleRoot H (map Some xs) = root_of H xs"
  by (simp add: getMerkleRoot_def root_loop_root_of new_cache_def)

lemma root_of_up: "length xs > 1 \<Longrightarrow> root_of H (up H xs) = root_of H xs"
  by (subst (2) root_of.simps) simp

lemma lv_Suc: "lv H (Suc n) xs = lv H n (up H xs)"
  by (simp add: funpow_swap1)

lemma less_length_lv: "i < length (lv H n xs) \<longleftrightarrow> i * 2 ^ n < length xs"
proof (induction n arbitrary: xs)
  case (Suc n)
  have "i < length (lv H (Suc n) xs) \<longleftrightarrow> i * 2 ^ n < (length xs + 1) div 2" unfolding lv_Suc Suc length_up ..
  then show ?case by auto
qed simp

lemma nat_eq_by_less: "(\<And>i. i < a \<longleftrightarrow> i < b) \<Longrightarrow> a = (b :: nat)"
  by (meson less_irrefl linorder_neqE_nat)

lemma length_lv_mult: "length xs = m * 2 ^ n \<Longrightarrow> length (lv H n xs) = m"
  by (rule nat_eq_by_less) (simp add: less_length_lv)

lemma less_ceil:
  assumes "0 < (q :: nat)"
  shows "i < (if n mod q \<noteq> 0 then n div q + 1 else n div q) \<longleftrightarrow> i * q < n"
proof (cases "n mod q = 0")
  case True
  then have "q dvd n" by (simp add: mod_eq_0_iff_dvd)
  then obtain m where "n = m * q" using dvdE mult.commute by metis
  then show ?thesis using assms by simp
next
  case False
  have "i < n div q + 1 \<longleftrightarrow> i * q \<le> n" using assms by (simp add: less_Suc_eq_le less_eq_div_iff_mult_less_eq)
  also have "\<dots> \<longleftrightarrow> i * q < n" using False mod_mult_self2_is_0 [of i q] by (cases "i * q = n") auto
  finally show ?thesis using False by simp
qed

lemma up_append: "even (length xs) \<Longrightarrow> up H (xs @ ys) = up H xs @ up H ys"
  by (induction H xs rule: up.induct) auto

lemma lv_append: "2 ^ n dvd length xs \<Longrightarrow> lv H n (xs @ ys) = lv H n xs @ lv H n ys"
proof (induction n arbitrary: xs ys)
  case (Suc n)
  then obtain m where m: "length xs = 2 * (2 ^ n * m)" by (auto simp: mult.assoc)
  have "2 ^ n dvd length (up H xs)" by (simp add: length_up m)
  with Suc.IH [of "up H xs" "up H ys"] m show ?case by (simp add: lv_Suc up_append del: funpow.simps)
qed simp

lemma root_of_lv: "length (lv H n xs) > 1 \<Longrightarrow> root_of H (lv H n xs) = root_of H xs"
proof (induction n)
  case (Suc n)
  have "length (lv H n xs) > 1" using Suc.prems by (simp add: length_up)
  with Suc show ?case by (simp add: root_of_up)
qed simp

section \<open>The parallel computation\<close>

lemma calcLevel_loop_add: "calcLevel_loop n (l + a) = calcLevel_loop n l + a"
proof (induction n l rule: calcLevel_loop.induct)
  case (1 n l)
  then show ?case
    by (subst calcLevel_loop.simps, subst (2) calcLevel_loop.simps) (auto simp: Let_def)
qed

lemma calcLevel_loop_up: "1 < n \<Longrightarrow> calcLevel_loop n 0 = Suc (calcLevel_loop ((n + 1) div 2) 0)"
  using calcLevel_loop_add [of _ 0 1] by (subst calcLevel_loop.simps) (auto simp: Let_def elim!: evenE)

lemma calcLevel_root:
  "xs \<noteq> [] \<Longrightarrow> length (lv H (calcLevel_loop (length xs) 0) xs) = 1 \<and>
    root_of H xs = Some (lv H (calcLevel_loop (length xs) 0) xs ! 0)"
proof (induction "length xs" arbitrary: xs rule: less_induct)
  case less
  show ?case
  proof (cases "length xs > 1")
    case True
    then have "up H xs \<noteq> []" "length (up H xs) < length xs" using length_up [of H xs] by auto
    from less(1) [OF this(2,1)] root_of_up [OF True, of H] calcLevel_loop_up [OF True] show ?thesis
      by (simp add: length_up lv_Suc del: funpow.simps)
  next
    case False
    with less(2) have "length xs = 1" by (cases xs) auto
    moreover have "calcLevel_loop 1 0 = 0" by (subst calcLevel_loop.simps) simp
    ultimately show ?thesis using less(2) by (subst root_of.simps) simp
  qed
qed

lemma calcLevel_le: "0 < n \<Longrightarrow> n \<le> 2 ^ k \<Longrightarrow> calcLevel_loop n 0 \<le> k"
proof (induction k arbitrary: n)
  case 0
  then have "n = 1" by simp
  then show ?case by (subst calcLevel_loop.simps) simp
next
  case (Suc k)
  show ?case
  proof (cases "1 < n")
    case True
    have "(n + 1) div 2 \<le> 2 ^ k" "0 < (n + 1) div 2" using Suc.prems by auto
    from Suc.IH [OF this(2,1)] calcLevel_loop_up [OF True] show ?thesis by simp
  next
    case False
    then show ?thesis by (subst calcLevel_loop.simps) simp
  qed
qed

lemma calcLevel_pow: "calcLevel_loop (2 ^ k) 0 = k"
proof (induction k)
  case (Suc k)
  have "((2::nat) ^ Suc k + 1) div 2 = 2 ^ k" by simp
  with Suc calcLevel_loop_up [of "2 ^ Suc k"] one_less_power [of "2::nat" "Suc k"] show ?case by simp
qed (subst calcLevel_loop.simps, simp)

lemma log2_loop_pow: "log2_loop (2 ^ Suc k) (Suc l) = Suc l + k"
proof (induction k arbitrary: l)
  case (Suc k)
  have "\<not> (2::nat) ^ Suc k \<le> 1" using one_less_power [of "2::nat" "Suc k"] by simp
  with Suc show ?case by (subst log2_loop.simps) (simp add: Let_def)
qed (subst log2_loop.simps, simp add: Let_def)

lemma log2_pow: "0 < k \<Longrightarrow> log2 (2 ^ k) = k"
  using log2_loop_pow [of "k - 1" 0] by (cases k) (simp_all add: log2_def del: power_Suc)

lemma log2_loop_le: "2 \<le> d \<Longrightarrow> \<exists>j. log2_loop d l = l + j \<and> 2 ^ Suc j \<le> d"
proof (induction d l rule: log2_loop.induct)
  case (1 d l)
  show ?case
  proof (cases "d div 2 \<le> 1")
    case True
    then show ?thesis using 1(2) by (subst log2_loop.simps) (simp add: Let_def)
  next
    case False
    have "log2_loop d l = log2_loop (d div 2) (l + 1)" using False by (subst log2_loop.simps) (simp add: Let_def)
    moreover obtain j where "log2_loop (d div 2) (l + 1) = l + 1 + j" "2 ^ Suc j \<le> d div 2"
      using 1(1) False by auto
    ultimately show ?thesis by (intro exI [of _ "Suc j"]) simp
  qed
qed

lemma pow2_pow: "pow2 d = 2 ^ d"
  by (induction d) (simp_all add: pow2_def)

lemma chunk_step_pow:
  assumes "80 < n" "1 < ncpu"
  obtains k where "chunk_step ncpu n = 2 ^ k" "0 < k" "2 ^ k < n"
proof -
  let ?d = "n div ncpu" and ?k = "if log2 (n div ncpu) < 1 then 1 else log2 (n div ncpu)"
  have d: "?d \<le> n div 2" using assms by (simp add: div_le_mono2)
  have "2 ^ ?k < n"
  proof (cases "2 \<le> ?d")
    case True
    from log2_loop_le [OF True, of 1] obtain j where "log2 ?d = Suc j" "2 ^ Suc j \<le> ?d" using True by (auto simp: log2_def)
    then have "2 ^ log2 ?d < n" "\<not> log2 ?d < 1" using d assms by simp_all
    then show ?thesis by simp
  next
    case False
    then have "log2 ?d \<le> 1" using False by (cases "?d = 0"; cases "?d = 1") (auto simp: log2_def log2_loop.simps)
    then have "?k = 1" by auto
    then show ?thesis using assms by simp
  qed
  then have "\<exists>k. chunk_step ncpu n = 2 ^ k \<and> 0 < k \<and> 2 ^ k < n"
  proof (cases "pow2 ?k > 256")
    case True
    then have "chunk_step ncpu n = 2 ^ 8" by (simp add: chunk_step_def Let_def)
    moreover have "2 ^ 8 < n" using True \<open>2 ^ ?k < n\<close> by (simp add: pow2_pow)
    ultimately show ?thesis by (intro exI [of _ 8]) simp
  next
    case False
    then have "chunk_step ncpu n = 2 ^ ?k" by (simp add: chunk_step_def Let_def pow2_pow)
    with \<open>2 ^ ?k < n\<close> show ?thesis by (intro exI [of _ ?k]) simp
  qed
  with that show thesis by blast
qed

lemma self_hash_lv:
  "sha32 H \<Longrightarrow> length x = 32 \<Longrightarrow> length cache = 64 \<Longrightarrow> self_hash n H cache (Some x) = Some (lv H n [x] ! 0)"
proof (induction n arbitrary: x cache)
  case (Suc n)
  then have "self_hash n H (x @ x) (Some (H (x @ x))) = Some (lv H n [H (x @ x)] ! 0)" by (intro Suc.IH) (auto simp: sha32_def)
  with Suc.prems show ?case by (simp add: GetHash_32 lv_Suc del: funpow.simps)
qed simp

lemma lv_one: "length xs = 1 \<Longrightarrow> lv H n xs = [lv H n xs ! 0]"
proof (induction n arbitrary: xs)
  case (Suc n)
  have "length (up H xs) = 1" using Suc.prems by (simp add: length_up)
  from Suc.IH [OF this] show ?case unfolding lv_Suc .
qed (auto simp: length_Suc_conv)

lemma getMerkleRootPad_lv:
  assumes H: "sha32 H" and xs: "hashes32 xs" "xs \<noteq> []" and k: "0 < k" "length xs \<le> 2 ^ k"
  shows "getMerkleRootPad H (map Some xs) (2 ^ k) = Some (lv H k xs ! 0)"
proof -
  define l where "l = calcLevel (length xs)"
  have l: "l \<le> k" "length (lv H l xs) = 1"
    using calcLevel_le [of "length xs" k] calcLevel_root [OF xs(2), of H] k xs(2) by (auto simp: l_def calcLevel_def length_up)
  let ?r = "lv H l xs ! 0"
  have r: "length ?r = 32" using hashes32_sub(3) [OF hashes32_lv [OF H xs(1), of l], of 0] l(2) by simp
  have "\<exists>c. (if length xs = 1 then GetHashFromTwoHash H new_cache (map Some xs ! 0) (map Some xs ! 0)
       else (getMerkleRoot H (map Some xs), new_cache)) = (Some ?r, c) \<and> length c = 64"
  proof (cases "length xs = 1")
    case True
    then obtain x where "xs = [x]" by (auto simp: length_Suc_conv)
    with xs(1) show ?thesis by (simp add: GetHash_32 new_cache_def l_def calcLevel_def)
  next
    case False
    then show ?thesis
      using getMerkleRoot_root_of [OF H xs(1)] calcLevel_root [OF xs(2), of H] by (simp add: l_def calcLevel_def new_cache_def)
  qed
  then obtain c where c: "(if length xs = 1 then GetHashFromTwoHash H new_cache (map Some xs ! 0) (map Some xs ! 0)
       else (getMerkleRoot H (map Some xs), new_cache)) = (Some ?r, c)" "length c = 64" by blast
  have "lv H k xs = lv H (k - l) (lv H l xs)" using l(1) funpow_add [of "k - l" l "up H"] by (simp add: o_def)
  also have "\<dots> = lv H (k - l) [?r]" using lv_one [of "lv H l xs" 0 H] l(2) by simp
  finally have "self_hash (k - l) H c (Some ?r) = Some (lv H k xs ! 0)" using self_hash_lv [OF H r c(2)] by simp
  then show ?thesis using c(1) k(1) by (simp add: getMerkleRootPad_def l_def log2_pow Let_def)
qed

text \<open>The chunks, in order.\<close>

definition chunk :: "nat \<Rightarrow> 'a list \<Rightarrow> nat \<Rightarrow> 'a list" where
  "chunk step xs i = take step (drop (i * step) xs)"

lemma lv_chunks:
  assumes i: "i < length (lv H k xs)"
  shows "lv H k xs ! i = lv H k (chunk (2 ^ k) xs i) ! 0"
proof -
  have n: "i * 2 ^ k < length xs" using i by (simp add: less_length_lv)
  let ?a = "take (i * 2 ^ k) xs" and ?b = "chunk (2 ^ k) xs i" and ?c = "drop (i * 2 ^ k + 2 ^ k) xs"
  have split: "xs = ?a @ (?b @ ?c)" by (simp add: chunk_def add.commute flip: drop_drop)
  have a: "length (lv H k ?a) = i" using n by (intro length_lv_mult) simp
  have "lv H k xs = lv H k ?a @ lv H k (?b @ ?c)" using n by (subst split, subst lv_append) (simp_all add: min_absorb2)
  then have "lv H k xs ! i = lv H k (?b @ ?c) ! 0" using a by (simp add: nth_append)
  moreover have "lv H k (?b @ ?c) ! 0 = lv H k ?b ! 0"
  proof (cases "?c = []")
    case False
    then have b: "length ?b = 2 ^ k" by (simp add: chunk_def)
    then have "lv H k (?b @ ?c) = lv H k ?b @ lv H k ?c" by (simp add: lv_append)
    moreover have "lv H k ?b \<noteq> []" using b length_lv_mult [of ?b 1 k H] by auto
    ultimately show ?thesis by (simp add: nth_append)
  qed simp
  ultimately show ?thesis by simp
qed

lemma child_root_lv:
  assumes H: "sha32 H" and xs: "hashes32 xs" and k: "0 < k" and i: "i * 2 ^ k < length xs"
  shows "child_root H (2 ^ k) (map Some xs) i = (i, Some (lv H k (chunk (2 ^ k) xs i) ! 0))"
proof -
  let ?c = "chunk (2 ^ k) xs i"
  have c: "hashes32 ?c" "?c \<noteq> []" "length ?c \<le> 2 ^ k" using xs i by (auto simp: chunk_def hashes32_sub)
  have h: "child_slice (2 ^ k) (map Some xs) i = map Some ?c"
    by (auto simp: child_slice_def chunk_def Let_def drop_map take_map drop_take)
  have "getMerkleRoot H (map Some ?c) = Some (lv H k ?c ! 0)" if f: "length ?c = 2 ^ k"
  proof -
    have "length (lv H k ?c) = 1" using f by (intro length_lv_mult) simp
    then show ?thesis using getMerkleRoot_root_of [OF H c(1)] calcLevel_root [OF c(2), of H] calcLevel_pow [of k] f by simp
  qed
  with getMerkleRootPad_lv [OF H c(1,2) k c(3)] show ?thesis
    by (cases "length ?c = 2 ^ k") (simp_all add: child_root_def h)
qed

lemma receive_fold: "length (receive subs cs) = length cs"
  by (induction subs arbitrary: cs) (auto simp: receive_def split: prod.splits)

lemma receive_all:
  "\<forall>s \<in> set subs. snd s = f (fst s) \<Longrightarrow> i < length cs \<Longrightarrow>
   receive subs cs ! i = (if i \<in> fst ` set subs then f i else cs ! i)"
proof (induction subs arbitrary: cs)
  case (Cons s subs)
  obtain j where j: "s = (j, f j)" using Cons.prems(1) by (cases s) simp
  have "receive (s # subs) cs = receive subs (cs[j := f j])" by (simp add: receive_def j)
  moreover have "receive subs (cs[j := f j]) ! i = (if i \<in> fst ` set subs then f i else cs[j := f j] ! i)"
    by (rule Cons.IH) (use Cons.prems in simp_all)
  ultimately show ?case using Cons.prems(2) j by (cases "i = j") simp_all
qed (simp add: receive_def)

theorem GetMerkleRoot_root_of:
  assumes H: "sha32 H" and xs: "hashes32 xs" and arr: "\<And>subs. set (arrival subs) = set subs"
  shows "GetMerkleRoot H ncpu arrival (map Some xs) = root_of H xs"
proof (cases "length xs \<le> 80 \<or> ncpu \<le> 1")
  case True
  then show ?thesis using getMerkleRoot_root_of [OF H xs] by (simp add: GetMerkleRoot_def)
next
  case False
  then obtain k where k: "chunk_step ncpu (length xs) = 2 ^ k" "0 < k" "2 ^ k < length xs"
    using chunk_step_pow [of "length xs" ncpu] by auto
  define l where "l = (if length xs mod 2 ^ k \<noteq> 0 then length xs div 2 ^ k + 1 else length xs div 2 ^ k)"
  have il: "i < l \<longleftrightarrow> i * 2 ^ k < length xs" for i
    unfolding l_def by (rule less_ceil) simp
  have len: "length (lv H k xs) = l" by (rule nat_eq_by_less) (simp only: il less_length_lv)
  let ?f = "\<lambda>i. Some (lv H k (chunk (2 ^ k) xs i) ! 0)"
  let ?subs = "arrival (map (child_root H (2 ^ k) (map Some xs)) [0..<l])"
  have s: "set ?subs = (\<lambda>i. (i, ?f i)) ` {..<l}"
    using child_root_lv [OF H xs k(2)] il by (auto simp: arr)
  have "receive ?subs (replicate l None) = map Some (lv H k xs)"
  proof (rule nth_equalityI)
    fix i assume "i < length (receive ?subs (replicate l None))"
    then have i: "i < l" by (simp add: receive_fold)
    have "receive ?subs (replicate l None) ! i = ?f i"
      using receive_all [of ?subs ?f i "replicate l None"] i by (simp add: s image_image)
    then show "receive ?subs (replicate l None) ! i = map Some (lv H k xs) ! i"
      using i len lv_chunks [of i k H xs] by simp
  qed (simp add: receive_fold len)
  then have "GetMerkleRoot H ncpu arrival (map Some xs) = getMerkleRoot H (map Some (lv H k xs))"
    using False k(1) unfolding GetMerkleRoot_def Let_def length_map l_def [symmetric] by (simp only: if_False l_def)
  also have "\<dots> = root_of H (lv H k xs)" by (rule getMerkleRoot_root_of [OF H hashes32_lv [OF H xs]])
  also have "\<dots> = root_of H xs" using k(3) by (intro root_of_lv) (simp add: less_length_lv)
  finally show ?thesis .
qed

section \<open>Properties of the root\<close>

lemma CalcMerkleRoot_cases:
  assumes "sha32 H" "hashes32 (map tx_Hash txs)" "\<And>subs. set (arrival subs) = set subs" "txs \<noteq> []"
  shows "\<exists>r. root_of H (map tx_Hash txs) = Some r \<and> CalcMerkleRoot H ncpu arrival tx_Hash txs = Ret r"
  using GetMerkleRoot_root_of [OF assms(1-3), of ncpu] calcLevel_root [of "map tx_Hash txs" H] assms(4)
  by (simp add: CalcMerkleRoot_def o_def)

text \<open>
  C12. The parallel root is the sequential one. For any number of processors and any order in which the
  goroutines deliver their results, \<^verbatim>\<open>GetMerkleRoot\<close> of 32-byte hashes is the root of the plain
  level-by-level computation, and \<^verbatim>\<open>CalcMerkleRoot\<close> of a block with transactions returns it, without the
  panic.
\<close>

theorem merkle_parallel:
  assumes "sha32 H" "hashes32 (map tx_Hash txs)" "\<And>subs. set (arrival subs) = set subs" "txs \<noteq> []"
  shows "CalcMerkleRoot H ncpu arrival tx_Hash txs = Ret (the (getMerkleRoot H (map (\<lambda>tx. Some (tx_Hash tx)) txs))) \<and>
    GetMerkleRoot H ncpu arrival (map (\<lambda>tx. Some (tx_Hash tx)) txs) = getMerkleRoot H (map (\<lambda>tx. Some (tx_Hash tx)) txs)"
  using CalcMerkleRoot_cases [OF assms, of ncpu] GetMerkleRoot_root_of [OF assms(1-3), of ncpu] getMerkleRoot_root_of [OF assms(1,2)]
  by (auto simp: o_def)

definition toy_sha :: "bytes \<Rightarrow> bytes" where
  "toy_sha b = take 32 (rev b @ replicate 32 (CHR 0x00))"

lemma toy_sha32: "sha32 toy_sha"
  by (auto simp: sha32_def toy_sha_def min_def)

definition toy_txs :: "nat list" where
  "toy_txs = [0..<100]"

theorem merkle_parallel_witness:
  "GetMerkleRoot toy_sha 4 rev (map (\<lambda>tx. Some (replicate 32 (char_of tx))) toy_txs) =
     getMerkleRoot toy_sha (map (\<lambda>tx. Some (replicate 32 (char_of tx))) toy_txs)"
  using merkle_parallel [OF toy_sha32, of "\<lambda>tx. replicate 32 (char_of tx)" toy_txs rev 4]
  by (simp add: hashes32_def toy_txs_def)

text \<open>
  C37. Different lists with one root. A list of odd length above one and the same list with its last hash
  repeated have the same root, on every path of the computation: the root alone does not tell a block
  from the block with that transaction twice.
\<close>

theorem merkle_duplicate_last:
  assumes "sha32 H" "hashes32 xs" "odd (length xs)" "1 < length xs" "\<And>subs. set (arrival subs) = set subs"
  shows "GetMerkleRoot H ncpu arrival (map Some (xs @ [last xs])) = GetMerkleRoot H ncpu arrival (map Some xs) \<and>
    xs @ [last xs] \<noteq> xs"
proof -
  have ne: "xs \<noteq> []" using assms(4) by auto
  have 32: "hashes32 (xs @ [last xs])" using assms(2) last_in_set [OF ne] by (simp add: hashes32_def)
  have "1 < length (xs @ [last xs])" using ne by simp
  from root_of_up [OF this, of H] root_of_up [OF assms(4), of H] up_odd [OF assms(3), of H]
  have "root_of H (xs @ [last xs]) = root_of H xs" by simp
  then show ?thesis
    using GetMerkleRoot_root_of [OF assms(1) 32 assms(5), of ncpu] GetMerkleRoot_root_of [OF assms(1,2,5), of ncpu] by simp
qed

theorem merkle_duplicate_last_witness:
  "GetMerkleRoot toy_sha 1 id (map Some [replicate 32 CHR ''a'', replicate 32 CHR ''b'', replicate 32 CHR ''c'', replicate 32 CHR ''c'']) =
   GetMerkleRoot toy_sha 1 id (map Some [replicate 32 CHR ''a'', replicate 32 CHR ''b'', replicate 32 CHR ''c''])"
  using merkle_duplicate_last [OF toy_sha32, of "[replicate 32 CHR ''a'', replicate 32 CHR ''b'', replicate 32 CHR ''c'']" id 1]
  by (simp add: hashes32_def)

end
