(* ===== verification/MerkleBranch.thy ===== *)
theory MerkleBranch
  imports Merkle
begin

text \<open>
  The constant-space \<^verbatim>\<open>Computation\<close> of \<^verbatim>\<open>src/common/merkle/merkle.go\<close> and the branches it collects. While leaves
  are added, \<open>inner\<close> holds one complete subtree per bit of the count (\<open>inner_ok\<close>), and the branch of the wanted
  position grows with the subtree that contains it (\<open>waiting\<close>, \<open>rising\<close>, \<open>closing\<close>).
\<close>

unbundle bit_operations_syntax

section \<open>The computation in constant space\<close>

lemma up_nth:
  "j < length (up H xs) \<Longrightarrow> up H xs ! j = H (xs ! (2 * j) @ xs ! (if 2 * j + 1 < length xs then 2 * j + 1 else 2 * j))"
proof (induction H xs arbitrary: j rule: up.induct)
  case (1 H x y zs)
  then show ?case by (cases j) (auto simp: nth_Cons')
qed auto

text \<open>The sibling of the node above position \<open>p\<close> on level \<open>l\<close>; a last node without one is its own.\<close>

definition sib :: "(bytes \<Rightarrow> bytes) \<Rightarrow> bytes list \<Rightarrow> nat \<Rightarrow> nat \<Rightarrow> hash" where
  "sib H xs p l =
     (let a = p div 2 ^ l
      in Some (lv H l xs ! (if odd a then a - 1 else if a + 1 < length (lv H l xs) then a + 1 else a)))"

definition sibs :: "(bytes \<Rightarrow> bytes) \<Rightarrow> bytes list \<Rightarrow> nat \<Rightarrow> nat \<Rightarrow> hash list" where
  "sibs H xs p l = map (sib H xs p) [0..<l]"

text \<open>\<open>inner\<close> holds, for each bit of the count \<open>i\<close>, the complete subtree that ends there.\<close>

definition inner_ok :: "(bytes \<Rightarrow> bytes) \<Rightarrow> bytes list \<Rightarrow> nat \<Rightarrow> hash list \<Rightarrow> bool" where
  "inner_ok H xs i inn \<longleftrightarrow>
     length inn = 32 \<and> (\<forall>l < 32. odd (i div 2 ^ l) \<longrightarrow> inn ! l = Some (lv H l xs ! (i div 2 ^ l - 1)))"

text \<open>Where the subtree with the position \<open>p\<close> waits, and the part of the branch below it.\<close>

definition waiting :: "(bytes \<Rightarrow> bytes) \<Rightarrow> bytes list \<Rightarrow> nat \<Rightarrow> bool \<Rightarrow> nat \<Rightarrow> nat \<Rightarrow> hash list \<Rightarrow> bool" where
  "waiting H xs p b i L br \<longleftrightarrow>
     (if b \<and> p < i then L < 32 \<and> odd (i div 2 ^ L) \<and> p div 2 ^ L = i div 2 ^ L - 1 \<and> br = sibs H xs p L
      else L = 0xff \<and> br = [])"

text \<open>On the way up: \<open>cp_h\<close> is node \<open>m - 1\<close> of level \<open>l\<close>.\<close>

definition rising :: "(bytes \<Rightarrow> bytes) \<Rightarrow> bytes list \<Rightarrow> nat \<Rightarrow> bool \<Rightarrow> nat \<Rightarrow> nat \<Rightarrow> nat \<Rightarrow> comp \<Rightarrow> bool" where
  "rising H xs p b i m l s \<longleftrightarrow>
     cp_level s = l \<and> i div 2 ^ l = m - 1 \<and> 0 < m \<and> m \<le> length (lv H l xs) \<and> cp_h s = Some (lv H l xs ! (m - 1)) \<and>
     inner_ok H xs i (cp_inner s) \<and> length (cp_cache s) = 64 \<and>
     (if cp_matchh s then b \<and> p div 2 ^ l = m - 1 \<and> cp_branch s = sibs H xs p l
      else (\<not> b \<or> p \<noteq> i) \<and> waiting H xs p b i (cp_matchlevel s) (cp_branch s) \<and> l \<le> cp_matchlevel s)"

lemma sibs_Suc: "sibs H xs p (Suc l) = sibs H xs p l @ [sib H xs p l]"
  by (simp add: sibs_def)

text \<open>Level \<open>l\<close> is not above the root.\<close>

definition top :: "bytes list \<Rightarrow> nat \<Rightarrow> bool" where
  "top xs l \<longleftrightarrow> l = 0 \<or> 2 ^ (l - 1) < length xs"

lemma top_32: "top xs l \<Longrightarrow> length xs < 2 ^ 32 \<Longrightarrow> l \<le> 32"
proof (cases l)
  case (Suc k)
  assume "top xs l" "length xs < 2 ^ 32"
  then have "(2::nat) ^ k < 2 ^ 32" using Suc by (simp add: top_def)
  then have "k < 32" by (simp only: power_strict_increasing_iff one_less_numeral_iff semiring_norm)
  then show ?thesis using Suc by simp
qed simp

lemma root_of_top:
  assumes "length (lv H l xs) = 1" "top xs l"
  shows "root_of H xs = Some (lv H l xs ! 0)"
proof -
  have r: "root_of H (lv H l xs) = Some (lv H l xs ! 0)" using assms(1) by (subst root_of.simps) auto
  show ?thesis
  proof (cases l)
    case (Suc k)
    then have "length (lv H k xs) > 1" using assms(2) by (simp add: top_def less_length_lv)
    with root_of_up [OF this, of H] root_of_lv [OF this] r Suc show ?thesis by simp
  qed (use r in simp)
qed

lemma topI: "1 \<le> k \<Longrightarrow> k * 2 ^ l < length xs \<Longrightarrow> top xs (l + 1)"
proof -
  assume "1 \<le> k" "k * 2 ^ l < length xs"
  moreover from this(1) have "1 * 2 ^ l \<le> k * 2 ^ l" by (rule mult_le_mono1)
  ultimately have "2 ^ l < length xs" by linarith
  then show ?thesis by (simp add: top_def)
qed

lemma rising_below:
  assumes r: "rising H xs p b i m l s" and m: "even m"
  shows "top xs (l + 1)"
proof -
  have "m - 1 < length (lv H l xs)" "1 \<le> m - 1" using r m by (auto simp: rising_def elim!: evenE)
  then show ?thesis by (intro topI) (auto simp: less_length_lv)
qed

lemma rising_bound: "rising H xs p b i m l s \<Longrightarrow> even m \<Longrightarrow> length xs < 2 ^ 32 \<Longrightarrow> l < 32"
  by (drule (1) rising_below, drule (1) top_32) simp

lemma rising_step:
  assumes b: "b \<longleftrightarrow> flage AND 2 \<noteq> 0" and H: "sha32 H" "hashes32 xs" and n: "length xs < 2 ^ 32" and r: "rising H xs p b i m l s" and m: "even m"
  shows "rising H xs p b i (m div 2) (l + 1) (join H (collect flage s))"
proof -
  have l: "l < 32" by (rule rising_bound [OF r m n])
  from r have w: "cp_level s = l" "i div 2 ^ l = m - 1" "0 < m" "m \<le> length (lv H l xs)" "cp_h s = Some (lv H l xs ! (m - 1))"
    "length (cp_cache s) = 64" and inn: "inner_ok H xs i (cp_inner s)"
    by (auto simp: rising_def)
  obtain q where q: "m = 2 * Suc q" using m w(3) by (metis evenE gr0_conv_Suc mult_0_right not_gr_zero)
  have x: "cp_inner s ! l = Some (lv H l xs ! (m - 2))"
    using inn l w(2) q by (auto simp: inner_ok_def)
  have len: "length (lv H l xs ! j) = 32" if "j < m" for j
    using hashes32_sub(3) [OF hashes32_lv [OF H, of l]] that w(4) by simp
  have nxt: "H (lv H l xs ! (m - 2) @ lv H l xs ! (m - 1)) = lv H (l + 1) xs ! q"
    using up_nth [of q H "lv H l xs"] q w(4) by (simp add: length_up)
  have j: "join H t = t\<lparr>cp_h := Some (lv H (l + 1) xs ! q), cp_cache := lv H l xs ! (m - 2) @ lv H l xs ! (m - 1), cp_level := l + 1\<rparr>"
    if "cp_inner t = cp_inner s" "cp_level t = l" "cp_h t = cp_h s" "cp_cache t = cp_cache s" for t
    using that w(5,6) x len [of "m - 2"] len [of "m - 1"] q nxt by (simp add: join_def GetHash_32)
  have half: "a div 2 ^ (l + 1) = a div 2 ^ l div 2" for a :: nat by (simp only: power_add power_one_right div_mult2_eq)
  have i: "i div 2 ^ (l + 1) = q" unfolding half using w(2) q by simp
  have lenq: "q < length (lv H (l + 1) xs)" using w(4) q by (simp add: length_up)
  have base: "rising H xs p b i (Suc q) (l + 1) (join H t)"
    if t: "cp_inner t = cp_inner s" "cp_level t = l" "cp_h t = cp_h s" "cp_cache t = cp_cache s"
      and c: "if cp_matchh t then b \<and> p div 2 ^ (l + 1) = q \<and> cp_branch t = sibs H xs p (l + 1)
        else (\<not> b \<or> p \<noteq> i) \<and> waiting H xs p b i (cp_matchlevel t) (cp_branch t) \<and> l + 1 \<le> cp_matchlevel t"
    for t
    using c inn t(1) i lenq len [of "m - 2"] len [of "m - 1"] q unfolding rising_def j [OF t] by (auto split: if_splits)
  have qm: "m div 2 = Suc q" using q by simp
  from r have match: "if cp_matchh s then b \<and> p div 2 ^ l = m - 1 \<and> cp_branch s = sibs H xs p l
      else (\<not> b \<or> p \<noteq> i) \<and> waiting H xs p b i (cp_matchlevel s) (cp_branch s) \<and> l \<le> cp_matchlevel s"
    unfolding rising_def by blast
  consider (up) "cp_matchh s" | (meet) "\<not> cp_matchh s" "b" "cp_matchlevel s = l"
    | (pass) "\<not> cp_matchh s" "b \<longrightarrow> cp_matchlevel s \<noteq> l" by blast
  then show ?thesis
  proof cases
    case up
    then have c: "collect flage s = s\<lparr>cp_branch := sibs H xs p l @ [Some (lv H l xs ! (m - 2))]\<rparr>"
      using match w(1) x by (simp add: collect_def b [symmetric])
    have "sib H xs p l = Some (lv H l xs ! (m - 2))" using match up q by (simp add: sib_def Let_def)
    then show ?thesis
      unfolding qm c using match up half [of p] q by (intro base) (simp_all add: sibs_Suc w(1))
  next
    case meet
    then have p: "p div 2 ^ l = m - 2" "cp_branch s = sibs H xs p l"
      using match l w(2) q by (auto simp: waiting_def split: if_splits)
    then have "sib H xs p l = Some (lv H l xs ! (m - 1))" using q w(4) by (simp add: sib_def Let_def)
    moreover have c: "collect flage s = s\<lparr>cp_branch := sibs H xs p l @ [cp_h s], cp_matchh := True\<rparr>"
      using meet p w(1) by (simp add: collect_def b [symmetric])
    ultimately show ?thesis
      using meet half [of p] p q w(5) unfolding qm c by (intro base) (simp_all add: sibs_Suc w(1))
  next
    case pass
    then have c: "collect flage s = s" using w(1) by (simp add: collect_def b [symmetric])
    have "l + 1 \<le> cp_matchlevel s" using match pass l by (auto simp: waiting_def split: if_splits)
    with match pass show ?thesis unfolding qm c by (intro base) (simp_all add: w(1))
  qed
qed

lemma rising_mutated: "rising H xs p b i m l (join H (check_mutated s)) = rising H xs p b i m l (join H s)"
  by (simp add: check_mutated_def join_def rising_def split: prod.splits)

lemma bit_mult: "bit (m * 2 ^ l) l \<longleftrightarrow> odd (m :: nat)"
  by (simp add: bit_iff_odd)

lemma climb_levels_rising:
  assumes b: "b \<longleftrightarrow> flage AND 2 \<noteq> 0" and H: "sha32 H" "hashes32 xs" and n: "length xs < 2 ^ 32"
  shows "rising H xs p b i m l s \<Longrightarrow>
    \<exists>m' l' s'. climb_levels H flage (m * 2 ^ l) s = Ret s' \<and> rising H xs p b i m' l' s' \<and> odd m' \<and> m' * 2 ^ l' = m * 2 ^ l"
proof (induction m arbitrary: l s rule: less_induct)
  case (less m)
  have lv: "cp_level s = l" "0 < m" using less.prems by (auto simp: rising_def)
  show ?case
  proof (cases "even m")
    case True
    note step = rising_step [OF b H n less.prems True]
    have eq: "m * 2 ^ l = (m div 2) * 2 ^ (l + 1)" using True by simp
    have "climb_levels H flage (m * 2 ^ l) s = climb_levels H flage (m * 2 ^ l) (join H (check_mutated (collect flage s)))"
      using True lv rising_bound [OF less.prems True n] by (subst climb_levels.simps) (simp add: bit_mult)
    moreover have "rising H xs p b i (m div 2) (l + 1) (join H (check_mutated (collect flage s)))"
      using step by (simp add: rising_mutated)
    from less.IH [OF _ this] lv(2) obtain m' l' s' where "climb_levels H flage ((m div 2) * 2 ^ (l + 1)) (join H (check_mutated (collect flage s))) = Ret s'"
      "rising H xs p b i m' l' s'" "odd m'" "m' * 2 ^ l' = (m div 2) * 2 ^ (l + 1)" by auto
    ultimately show ?thesis using eq by metis
  next
    case False
    then have "climb_levels H flage (m * 2 ^ l) s = Ret s" using lv by (subst climb_levels.simps) (simp add: bit_mult)
    with less.prems False show ?thesis by blast
  qed
qed

lemma propagate_rising:
  assumes b: "b \<longleftrightarrow> flage AND 2 \<noteq> 0" and H: "sha32 H" "hashes32 xs" and n: "length xs < 2 ^ 32"
  shows "rising H xs p b i m l s \<Longrightarrow> m = length (lv H l xs) \<Longrightarrow>
    \<exists>m' l' s'. propagate H flage (m * 2 ^ l) s = Ret s' \<and> rising H xs p b i m' l' s' \<and> odd m' \<and> m' * 2 ^ l' = m * 2 ^ l \<and>
      m' = length (lv H l' xs) \<and> l \<le> l' \<and> (top xs l \<longrightarrow> top xs l')"
proof (induction m arbitrary: l s rule: less_induct)
  case (less m)
  have lv: "cp_level s = l" "0 < m" using less.prems by (auto simp: rising_def)
  show ?case
  proof (cases "even m")
    case True
    note step = rising_step [OF b H n less.prems(1) True]
    have eq: "m * 2 ^ l = (m div 2) * 2 ^ (l + 1)" using True by simp
    have "propagate H flage (m * 2 ^ l) s = propagate H flage (m * 2 ^ l) (join H (collect flage s))"
      using True lv rising_bound [OF less.prems(1) True n] by (subst propagate.simps) (simp add: bit_mult)
    moreover have "m div 2 = length (lv H (l + 1) xs)" using less.prems(2) True by (simp add: length_up)
    from less.IH [OF _ step this] lv(2) obtain m' l' s' where "propagate H flage ((m div 2) * 2 ^ (l + 1)) (join H (collect flage s)) = Ret s'"
      "rising H xs p b i m' l' s'" "odd m'" "m' * 2 ^ l' = (m div 2) * 2 ^ (l + 1)" "m' = length (lv H l' xs)" "l + 1 \<le> l'" "top xs (l + 1) \<longrightarrow> top xs l'" by auto
    moreover have "top xs (l + 1)" using rising_below [OF less.prems(1) True] .
    ultimately show ?thesis unfolding eq by (intro exI [of _ m'] exI [of _ l'] exI [of _ s'] conjI impI) simp_all
  next
    case False
    then have "propagate H flage (m * 2 ^ l) s = Ret s" using lv by (subst propagate.simps) (simp add: bit_mult)
    with less.prems False show ?thesis by blast
  qed
qed

text \<open>Between leaves.\<close>

definition resting :: "(bytes \<Rightarrow> bytes) \<Rightarrow> bytes list \<Rightarrow> nat \<Rightarrow> bool \<Rightarrow> nat \<Rightarrow> comp \<Rightarrow> bool" where
  "resting H xs p b i s \<longleftrightarrow>
     inner_ok H xs i (cp_inner s) \<and> length (cp_cache s) = 64 \<and> waiting H xs p b i (cp_matchlevel s) (cp_branch s)"

lemma div_carry:
  assumes "Suc i = m * 2 ^ l" "odd m"
  shows "l < k \<Longrightarrow> Suc i div 2 ^ k = i div 2 ^ k" and "i div 2 ^ l = m - 1" and "k < l \<Longrightarrow> even (Suc i div 2 ^ k)"
proof -
  obtain k0 where k0: "m = Suc k0" "even k0" using assms(2) by (cases m) auto
  have e: "Suc i = 2 ^ l * k0 + 2 ^ l" "0 < (2::nat) ^ l" using assms(1) k0 by simp_all
  have l: "i div 2 ^ l = k0"
  proof (rule div_nat_eqI)
    show "2 ^ l * k0 \<le> i" "i < 2 ^ l * Suc k0" using e by (linarith, simp)
  qed
  then show "i div 2 ^ l = m - 1" using k0 by simp
  show "Suc i div 2 ^ k = i div 2 ^ k" if lk: "l < k"
  proof -
    obtain d where k: "k = l + Suc d" using less_imp_Suc_add [OF lk] by auto
    have "a div 2 ^ k = a div 2 ^ l div 2 div 2 ^ d" for a :: nat by (simp only: k power_add power_Suc div_mult2_eq mult.assoc)
    moreover have "Suc i div 2 ^ l = Suc k0" using assms(1) k0 by simp
    ultimately show ?thesis using l k0(2) by simp
  qed
  show "even (Suc i div 2 ^ k)" if lk: "k < l"
  proof -
    obtain d where "l = k + Suc d" using less_imp_Suc_add [OF lk] by auto
    then have "Suc i = 2 * (m * 2 ^ d) * 2 ^ k" using assms(1) by (simp add: power_add)
    then have "Suc i div 2 ^ k = 2 * (m * 2 ^ d)" by simp
    then show ?thesis by simp
  qed
qed

lemma add_leaf_resting:
  assumes b: "b \<longleftrightarrow> flage AND 2 \<noteq> 0" and H: "sha32 H" "hashes32 xs" and n: "length xs < 2 ^ 32"
    and i: "i < length xs" and r: "resting H xs p b i s"
  shows "\<exists>s'. add_leaf H flage p i (Some (xs ! i)) s = Ret s' \<and> resting H xs p b (Suc i) s'"
proof -
  let ?s = "s\<lparr>cp_h := Some (xs ! i), cp_matchh := (i mod 2 ^ 32 = p \<and> flage AND 2 \<noteq> 0), cp_level := 0\<rparr>"
  have "rising H xs p b i (Suc i) 0 ?s"
    using r i n b by (auto simp: rising_def resting_def waiting_def sibs_def)
  from climb_levels_rising [OF b H n this] obtain m l s' where c: "climb_levels H flage (i + 1) ?s = Ret s'"
    "rising H xs p b i m l s'" "odd m" "m * 2 ^ l = Suc i" by auto
  note carry = div_carry [OF c(4) [symmetric] c(3)]
  from c(2) have w: "cp_level s' = l" "cp_h s' = Some (lv H l xs ! (m - 1))" "inner_ok H xs i (cp_inner s')" "length (cp_cache s') = 64"
    and match: "if cp_matchh s' then b \<and> p div 2 ^ l = m - 1 \<and> cp_branch s' = sibs H xs p l
      else (\<not> b \<or> p \<noteq> i) \<and> waiting H xs p b i (cp_matchlevel s') (cp_branch s') \<and> l \<le> cp_matchlevel s'"
    unfolding rising_def by blast+
  have m: "Suc i div 2 ^ l = m" using c(4) by (metis nonzero_mult_div_cancel_right power_not_zero zero_neq_numeral)
  have "1 * 2 ^ l \<le> m * 2 ^ l" using c(3) by (intro mult_le_mono1) (auto elim: oddE)
  then have "(2::nat) ^ l < 2 ^ 32" using c(4) i n by linarith
  then have l: "l < 32" by (simp only: power_strict_increasing_iff one_less_numeral_iff semiring_norm)
  have "inner_ok H xs (Suc i) ((cp_inner s')[l := cp_h s'])"
    unfolding inner_ok_def
  proof (intro conjI allI impI)
    show "length ((cp_inner s')[l := cp_h s']) = 32" using w(3) by (simp add: inner_ok_def)
    fix k assume k: "k < 32" "odd (Suc i div 2 ^ k)"
    then have "\<not> k < l" using carry(3) by blast
    then consider "k = l" | "l < k" by linarith
    then show "(cp_inner s')[l := cp_h s'] ! k = Some (lv H k xs ! (Suc i div 2 ^ k - 1))"
    proof cases
      case 1
      then show ?thesis using w(2,3) l m by (simp add: inner_ok_def)
    next
      case 2
      with carry(1) [OF 2] w(3) k show ?thesis by (simp add: inner_ok_def)
    qed
  qed
  moreover have "waiting H xs p b (Suc i) (if cp_matchh s' then l else cp_matchlevel s') (cp_branch s')"
  proof (cases "cp_matchh s'")
    case True
    have "p div 2 ^ l < m" using match True c(3) by (auto elim: oddE)
    then have "p < Suc i" unfolding c(4) [symmetric] by (simp add: div_less_iff_less_mult)
    with match True l m c(3) show ?thesis by (simp add: waiting_def)
  next
    case False
    with match have wt: "waiting H xs p b i (cp_matchlevel s') (cp_branch s')" "\<not> b \<or> p \<noteq> i" "l \<le> cp_matchlevel s'" by auto
    show ?thesis
    proof (cases "b \<and> p < i")
      case True
      with wt(1) have L: "odd (i div 2 ^ cp_matchlevel s')" by (simp add: waiting_def)
      have "cp_matchlevel s' \<noteq> l" using L carry(2) c(3) by auto
      with wt(3) have "Suc i div 2 ^ cp_matchlevel s' = i div 2 ^ cp_matchlevel s'" by (intro carry(1)) simp
      with wt(1) True False show ?thesis by (simp add: waiting_def)
    next
      case no: False
      with wt(1,2) False show ?thesis by (auto simp: waiting_def)
    qed
  qed
  moreover have "add_leaf H flage p i (Some (xs ! i)) s =
      Ret (s'\<lparr>cp_inner := (cp_inner s')[l := cp_h s'], cp_matchlevel := (if cp_matchh s' then l else cp_matchlevel s')\<rparr>)"
    unfolding add_leaf_def c(1) using w(1) l by simp
  ultimately show ?thesis using w(4) by (intro exI conjI) (assumption, simp add: resting_def)
qed

lemma add_leaves_resting:
  assumes b: "b \<longleftrightarrow> flage AND 2 \<noteq> 0" and H: "sha32 H" "hashes32 xs" and n: "length xs < 2 ^ 32"
  shows "i + length ys = length xs \<Longrightarrow> ys = drop i xs \<Longrightarrow> resting H xs p b i s \<Longrightarrow>
    \<exists>s'. add_leaves H flage p i (map Some ys) s = Ret s' \<and> resting H xs p b (length xs) s'"
proof (induction ys arbitrary: i s)
  case (Cons y ys)
  have i: "i < length xs" using Cons.prems(1) by simp
  have y: "y = xs ! i" "ys = drop (Suc i) xs" using Cons.prems(2) i by (metis Cons_nth_drop_Suc list.inject)+
  from add_leaf_resting [OF b H n i Cons.prems(3)] obtain s1 where
    s1: "add_leaf H flage p i (Some y) s = Ret s1" "resting H xs p b (Suc i) s1" using y by auto
  with Cons.IH [of "Suc i" s1] Cons.prems(1) y(2) show ?case by auto
qed auto

text \<open>At the last node of a level, with all leaves in.\<close>

definition closing :: "(bytes \<Rightarrow> bytes) \<Rightarrow> bytes list \<Rightarrow> nat \<Rightarrow> bool \<Rightarrow> nat \<Rightarrow> comp \<Rightarrow> bool" where
  "closing H xs p b l s \<longleftrightarrow>
     cp_level s = l \<and> odd (length (lv H l xs)) \<and> cp_h s = Some (lv H l xs ! (length (lv H l xs) - 1)) \<and>
     inner_ok H xs (length xs) (cp_inner s) \<and> length (cp_cache s) = 64 \<and>
     (if cp_matchh s then b \<and> p div 2 ^ l = length (lv H l xs) - 1 \<and> cp_branch s = sibs H xs p l
      else waiting H xs p b (length xs) (cp_matchlevel s) (cp_branch s) \<and> l < cp_matchlevel s)"

lemma length_lv_div: "length (lv H l xs) = (if length xs mod 2 ^ l \<noteq> 0 then length xs div 2 ^ l + 1 else length xs div 2 ^ l)"
  by (rule nat_eq_by_less) (simp only: less_length_lv less_ceil zero_less_power zero_less_numeral)

lemma rising_closing:
  assumes r: "rising H xs p b (length xs) m l s" and m: "m = length (lv H l xs)" "odd m" and l: "l \<le> 32"
  shows "closing H xs p b l s"
proof -
  from r have w: "length xs div 2 ^ l = m - 1"
    and match: "if cp_matchh s then b \<and> p div 2 ^ l = m - 1 \<and> cp_branch s = sibs H xs p l
      else (\<not> b \<or> p \<noteq> length xs) \<and> waiting H xs p b (length xs) (cp_matchlevel s) (cp_branch s) \<and> l \<le> cp_matchlevel s"
    unfolding rising_def by blast+
  have "l < cp_matchlevel s" if "\<not> cp_matchh s"
  proof -
    have "cp_matchlevel s \<noteq> l" using that match w m(2) l by (auto simp: waiting_def split: if_splits)
    then show ?thesis using that match by simp
  qed
  with match r m show ?thesis unfolding rising_def closing_def by auto
qed

lemma closing_double:
  assumes H: "sha32 H" "hashes32 xs" and b: "b \<longleftrightarrow> flage AND 2 \<noteq> 0" and p: "p < length xs" and c: "closing H xs p b l s"
  shows "rising H xs p b (length xs) ((length (lv H l xs) + 1) div 2) (l + 1) (double H flage s)"
proof -
  let ?m = "length (lv H l xs)" and ?q = "length (lv H l xs) div 2"
  from c have w: "cp_level s = l" "odd ?m" "cp_h s = Some (lv H l xs ! (?m - 1))" "inner_ok H xs (length xs) (cp_inner s)"
    "length (cp_cache s) = 64" and match: "if cp_matchh s then b \<and> p div 2 ^ l = ?m - 1 \<and> cp_branch s = sibs H xs p l
      else waiting H xs p b (length xs) (cp_matchlevel s) (cp_branch s) \<and> l < cp_matchlevel s"
    unfolding closing_def by blast+
  have q: "(?m + 1) div 2 = Suc ?q" "?m = Suc (2 * ?q)" using w(2) by (auto elim: oddE)
  have len: "length (lv H l xs ! (?m - 1)) = 32" using hashes32_sub(3) [OF hashes32_lv [OF H, of l]] q(2) by simp
  have q2: "2 * ?q = ?m - 1" using q(2) by simp
  have nxt: "H (lv H l xs ! (?m - 1) @ lv H l xs ! (?m - 1)) = lv H (l + 1) xs ! ?q"
    using up_nth [of ?q H "lv H l xs"] q(1) w(2) unfolding q2 by (simp add: length_up)
  have half: "a div 2 ^ (l + 1) = a div 2 ^ l div 2" for a :: nat by (simp only: power_add power_one_right div_mult2_eq)
  have i: "length xs div 2 ^ (l + 1) = ?q" unfolding half using length_lv_div [where H=H and l=l and xs=xs] w(2) by (auto split: if_splits)
  have sib: "sib H xs p l = Some (lv H l xs ! (?m - 1))" if "p div 2 ^ l = ?m - 1"
    using that w(2) by (simp add: sib_def Let_def)
  have d: "double H flage s = s\<lparr>cp_branch := (if cp_matchh s then cp_branch s @ [cp_h s] else cp_branch s),
      cp_h := Some (lv H (l + 1) xs ! ?q), cp_cache := lv H l xs ! (?m - 1) @ lv H l xs ! (?m - 1), cp_level := l + 1\<rparr>"
    using match w len nxt by (cases "cp_matchh s") (simp_all add: double_def Let_def GetHash_32 b [symmetric])
  show ?thesis
    unfolding rising_def d q(1)
  proof (intro conjI)
    show "Suc ?q \<le> length (lv H (l + 1) xs)" using q by (simp add: length_up)
    let ?s = "s\<lparr>cp_branch := (if cp_matchh s then cp_branch s @ [cp_h s] else cp_branch s),
      cp_h := Some (lv H (l + 1) xs ! ?q), cp_cache := lv H l xs ! (?m - 1) @ lv H l xs ! (?m - 1), cp_level := l + 1\<rparr>"
    show "if cp_matchh ?s then b \<and> p div 2 ^ (l + 1) = Suc ?q - 1 \<and> cp_branch ?s = sibs H xs p (l + 1)
      else (\<not> b \<or> p \<noteq> length xs) \<and> waiting H xs p b (length xs) (cp_matchlevel ?s) (cp_branch ?s) \<and> l + 1 \<le> cp_matchlevel ?s"
      using match p w(3) sib half [of p] q2 by (cases "cp_matchh s") (simp_all add: sibs_Suc)
  qed (use w(4) i len in simp_all)
qed

lemma finish_closing:
  assumes H: "sha32 H" "hashes32 xs" and n: "length xs < 2 ^ 32" and b: "b \<longleftrightarrow> flage AND 2 \<noteq> 0" and p: "p < length xs"
  shows "closing H xs p b l s \<Longrightarrow> top xs l \<Longrightarrow>
    \<exists>l' s'. finish H flage (length (lv H l xs) * 2 ^ l) s = Ret s' \<and> closing H xs p b l' s' \<and> length (lv H l' xs) = 1 \<and> top xs l'"
proof (induction "length (lv H l xs)" arbitrary: l s rule: less_induct)
  case less
  let ?m = "length (lv H l xs)"
  have w: "cp_level s = l" "odd ?m" using less.prems by (auto simp: closing_def)
  show ?case
  proof (cases "?m = 1")
    case True
    then have "finish H flage (?m * 2 ^ l) s = Ret s" using w by (subst finish.simps) simp
    with less.prems True show ?thesis by blast
  next
    case False
    let ?m' = "length (lv H (l + 1) xs)"
    have m': "?m' = (?m + 1) div 2" by (simp add: length_up)
    have big: "?m * 2 ^ l \<noteq> 2 ^ l" "\<not> 64 \<le> l" using False top_32 [OF less.prems(2) n] by auto
    have cnt: "?m * 2 ^ l + 2 ^ l = ?m' * 2 ^ (l + 1)" using w(2) unfolding m' by (auto elim!: oddE simp: algebra_simps)
    note r = closing_double [OF H b p less.prems(1), folded m']
    have "1 \<le> ?m - 1" using False w(2) by (auto elim!: oddE)
    moreover have "(?m - 1) * 2 ^ l < length xs"
      using w(2) by (simp flip: less_length_lv [of _ _ H], cases ?m) auto
    ultimately have l: "top xs (l + 1)" by (rule topI)
    from propagate_rising [OF b H n r refl] l obtain m l' s' where pr:
      "propagate H flage (?m' * 2 ^ (l + 1)) (double H flage s) = Ret s'" "rising H xs p b (length xs) m l' s'" "odd m"
      "m * 2 ^ l' = ?m' * 2 ^ (l + 1)" "m = length (lv H l' xs)" "l + 1 \<le> l'" "top xs l'" by auto
    have c: "closing H xs p b l' s'" using rising_closing [OF pr(2,5,3) top_32 [OF pr(7) n]] .
    have "m * 2 ^ (l + 1) \<le> m * 2 ^ l'" using pr(6) by (intro mult_le_mono2 power_increasing) simp_all
    then have "m \<le> ?m'" unfolding pr(4) by simp
    also have "\<dots> < ?m" unfolding m' using False w(2) by (auto elim!: oddE)
    finally have "length (lv H l' xs) < ?m" using pr(5) by simp
    from less.hyps [OF this c pr(7)] obtain l2 s2 where
      f: "finish H flage (m * 2 ^ l') s' = Ret s2" "closing H xs p b l2 s2" "length (lv H l2 xs) = 1" "top xs l2" using pr(5) by auto
    have "finish H flage (?m * 2 ^ l) s = finish H flage (m * 2 ^ l') s'"
      using big w(1) cnt pr(1,4) by (subst finish.simps) simp
    with f show ?thesis by auto
  qed
qed

lemma low_level_spec:
  "0 < m \<Longrightarrow> m * 2 ^ l < 2 ^ 64 \<Longrightarrow> \<exists>m' l'. low_level (m * 2 ^ l) l = l' \<and> odd m' \<and> m' * 2 ^ l' = m * 2 ^ l"
proof (induction m arbitrary: l rule: less_induct)
  case (less m)
  have "1 * 2 ^ l \<le> m * 2 ^ l" using less.prems(1) by (intro mult_le_mono1) simp
  then have "(2::nat) ^ l < 2 ^ 64" using less.prems(2) by linarith
  then have l: "l < 64" by (simp only: power_strict_increasing_iff one_less_numeral_iff semiring_norm)
  show ?case
  proof (cases "even m")
    case True
    have eq: "m * 2 ^ l = (m div 2) * 2 ^ (l + 1)" using True by simp
    have "low_level (m * 2 ^ l) l = low_level (m * 2 ^ l) (l + 1)"
      using True l by (subst low_level.simps) (simp add: bit_mult)
    moreover have "0 < m div 2" "m div 2 < m" using True less.prems(1) by auto
    from less.IH [OF this(2,1), of "l + 1"] less.prems(2) have
      "\<exists>m' l'. low_level ((m div 2) * 2 ^ (l + 1)) (l + 1) = l' \<and> odd m' \<and> m' * 2 ^ l' = (m div 2) * 2 ^ (l + 1)" by (simp only: eq)
    ultimately show ?thesis unfolding eq by simp
  next
    case False
    then have "low_level (m * 2 ^ l) l = l" using l by (subst low_level.simps) (simp add: bit_mult)
    with False show ?thesis by blast
  qed
qed

lemma top_le: "length (lv H L xs) = 1 \<Longrightarrow> top xs l \<Longrightarrow> l \<le> L"
proof (cases l)
  case (Suc k)
  assume "length (lv H L xs) = 1" "top xs l"
  then have "2 ^ k < length xs" "length xs \<le> 2 ^ L" using less_length_lv [of 1 L H xs] Suc by (simp_all add: top_def)
  then have "(2::nat) ^ k < 2 ^ L" by (rule less_le_trans)
  then show ?thesis using Suc power_less_imp_less_exp [of 2 k L] by simp
qed simp

lemma low_bit:
  assumes "odd m" "m * 2 ^ l = (n :: nat)" "odd (n div 2 ^ k)"
  shows "l \<le> k"
proof (rule ccontr)
  assume "\<not> l \<le> k"
  moreover have "Suc (n - 1) = m * 2 ^ l" using assms(1,2) by (auto elim!: oddE)
  ultimately show False using div_carry(3) [of "n - 1" m l k] assms by simp
qed

theorem Computation_root_branch:
  assumes H: "sha32 H" "hashes32 xs" and n: "length xs < 2 ^ 32" and f: "1 \<le> flage" "flage \<le> 3" and p: "p < length xs"
  shows "\<exists>mut L. Computation H (map Some xs) flage p =
      Ret (root_of H xs, mut, if flage AND 2 \<noteq> 0 then sibs H xs p L else []) \<and>
      length (lv H L xs) = 1 \<and> top xs L"
proof -
  define b where "b \<longleftrightarrow> flage AND 2 \<noteq> 0"
  let ?s0 = "\<lparr>cp_inner = replicate 32 None, cp_level = 0, cp_h = None, cp_matchh = False, cp_matchlevel = 0xff,
                 cp_branch = [], cp_mutated = False, cp_cache = new_cache\<rparr>"
  have "resting H xs p b 0 ?s0" by (simp add: resting_def inner_ok_def waiting_def new_cache_def)
  from add_leaves_resting [OF b_def H n, of 0 xs p ?s0] this obtain s where
    s: "add_leaves H flage p 0 (map Some xs) ?s0 = Ret s" "resting H xs p b (length xs) s" by auto
  have "length xs < 2 ^ 64" using n by simp
  with low_level_spec [of "length xs" 0] p obtain m l where
    l: "low_level (length xs) 0 = l" "odd m" "m * 2 ^ l = length xs" by (cases xs) auto
  have "2 ^ l \<le> length xs" using l(2,3) by (cases m) auto
  then have top: "top xs l"
  proof (cases l)
    case (Suc k)
    moreover have "(0::nat) < 2 ^ k" by simp
    ultimately show ?thesis using \<open>2 ^ l \<le> length xs\<close> unfolding top_def Suc power_Suc diff_Suc_1 by linarith
  qed (simp add: top_def)
  have "(2::nat) ^ l < 2 ^ 32" using \<open>2 ^ l \<le> length xs\<close> n by linarith
  then have l32: "l < 32" by (simp only: power_strict_increasing_iff one_less_numeral_iff semiring_norm)
  have m: "length (lv H l xs) = m" using l(3) by (intro length_lv_mult) simp
  have md: "length xs div 2 ^ l = m" using l(3) by (metis nonzero_mult_div_cancel_right power_not_zero zero_neq_numeral)
  let ?s = "s\<lparr>cp_level := l, cp_h := cp_inner s ! l, cp_matchh := (cp_matchlevel s = l)\<rparr>"
  have "closing H xs p b l ?s"
    using s(2) l(2) l32 m md p low_bit [OF l(2,3), of "cp_matchlevel s"]
    by (auto simp: closing_def resting_def inner_ok_def waiting_def split: if_splits)
  from finish_closing [OF H n b_def p this top] l(3) m obtain L s' where
    fin: "finish H flage (length xs) ?s = Ret s'" "closing H xs p b L s'" "length (lv H L xs) = 1" "top xs L" by auto
  note root = root_of_top [OF fin(3,4)]
  have "cp_h s' = root_of H xs" using fin(2,3) root by (simp add: closing_def)
  moreover have "cp_branch s' = (if b then sibs H xs p L else [])"
  proof (cases "cp_matchh s'")
    case True
    with fin(2) show ?thesis by (simp add: closing_def)
  next
    case False
    with fin(2) have wt: "waiting H xs p b (length xs) (cp_matchlevel s') (cp_branch s')" "L < cp_matchlevel s'"
      by (auto simp: closing_def)
    have "length xs \<le> 2 ^ L" using fin(3) less_length_lv [of 1 L H xs] by simp
    also have "\<dots> < 2 ^ cp_matchlevel s'" using wt(2) by simp
    finally show ?thesis using wt(1) p by (auto simp: waiting_def split: if_splits)
  qed
  ultimately have "Computation H (map Some xs) flage p = Ret (root_of H xs, cp_mutated s', if b then sibs H xs p L else [])"
    using f p s(1) l(1) l32 fin(1) by (auto simp: Computation_def Let_def)
  with fin(3,4) show ?thesis unfolding b_def by blast
qed

section \<open>Branches\<close>

lemma from_branch_sibs:
  assumes H: "sha32 H" "hashes32 xs" and p: "p < length xs"
  shows "length cache = 64 \<Longrightarrow> from_branch H cache (map (sib H xs p) [k..<k + n]) (Some (lv H k xs ! (p div 2 ^ k))) (p div 2 ^ k) =
    Some (lv H (k + n) xs ! (p div 2 ^ (k + n)))"
proof (induction n arbitrary: k cache)
  case (Suc n)
  let ?a = "p div 2 ^ k" and ?ys = "lv H k xs"
  have "?a * 2 ^ k \<le> p" by simp
  then have a: "?a < length ?ys" using p unfolding less_length_lv by linarith
  have half: "p div 2 ^ Suc k = ?a div 2" by (simp only: power_Suc2 div_mult2_eq)
  define j where "j = (if odd ?a then ?a - 1 else if ?a + 1 < length ?ys then ?a + 1 else ?a)"
  have sib: "sib H xs p k = Some (?ys ! j)" by (simp add: sib_def Let_def j_def)
  have j: "j < length ?ys" using a by (auto simp: j_def)
  have len: "length (?ys ! i) = 32" if "i < length ?ys" for i using hashes32_sub(3) [OF hashes32_lv [OF H, of k]] that by blast
  have nxt: "lv H (Suc k) xs ! (?a div 2) = (if odd ?a then H (?ys ! j @ ?ys ! ?a) else H (?ys ! ?a @ ?ys ! j))"
    using up_nth [of "?a div 2" H ?ys] a by (auto simp: length_up j_def elim!: oddE)
  have bit: "(?a AND 1 \<noteq> 0) = odd ?a" by (simp add: and_one_eq odd_iff_mod_2_eq_one)
  have upt: "map (sib H xs p) [k..<k + Suc n] = sib H xs p k # map (sib H xs p) [Suc k..<Suc k + n]"
    by (subst upt_conv_Cons) simp_all
  have step: "(if ?a AND 1 \<noteq> 0 then GetHashFromTwoHash H cache (sib H xs p k) (Some (?ys ! ?a))
      else GetHashFromTwoHash H cache (Some (?ys ! ?a)) (sib H xs p k)) =
      (Some (lv H (Suc k) xs ! (?a div 2)), if odd ?a then ?ys ! j @ ?ys ! ?a else ?ys ! ?a @ ?ys ! j)"
    unfolding bit sib nxt using Suc.prems len a j by (simp add: GetHash_32)
  have "from_branch H cache (map (sib H xs p) [k..<k + Suc n]) (Some (?ys ! ?a)) ?a =
      from_branch H (if odd ?a then ?ys ! j @ ?ys ! ?a else ?ys ! ?a @ ?ys ! j) (map (sib H xs p) [Suc k..<Suc k + n])
        (Some (lv H (Suc k) xs ! (p div 2 ^ Suc k))) (p div 2 ^ Suc k)"
    unfolding upt from_branch.simps step prod.case half drop_bit_eq_div power_one_right ..
  also have "\<dots> = Some (lv H (Suc k + n) xs ! (p div 2 ^ (Suc k + n)))"
    by (rule Suc.IH) (use len a j in simp)
  finally show ?case by simp
qed simp

text \<open>
  C11. Branches lead back to the root. For every position of a non-empty list of fewer than \<open>2 ^ 32\<close> hashes,
  \<^verbatim>\<open>GetMerkleBranch\<close> succeeds, and \<^verbatim>\<open>GetMerkleRootFromBranch\<close> with its branch, the leaf and the position
  gives the root that \<^verbatim>\<open>getMerkleRoot\<close> computes; \<^verbatim>\<open>GetMerkleRootAndBranch\<close> returns both.
\<close>

theorem merkle_branch_leads_to_root:
  assumes H: "sha32 H" "hashes32 xs" and n: "length xs < 2 ^ 32" and p: "p < length xs"
  shows "\<exists>bs. GetMerkleBranch H (map Some xs) p = Ret bs \<and>
    GetMerkleRootFromBranch H bs (Some (xs ! p)) p = getMerkleRoot H (map Some xs) \<and>
    GetMerkleRootAndBranch H (map Some xs) p = Ret (getMerkleRoot H (map Some xs), bs)"
proof -
  have bits: "(2::int) AND 2 \<noteq> 0" "(3::int) AND 2 \<noteq> 0" by simp_all
  obtain mut L where c: "Computation H (map Some xs) 2 p = Ret (root_of H xs, mut, sibs H xs p L)"
    "length (lv H L xs) = 1" "top xs L"
    using Computation_root_branch [OF H n _ _ p, of 2] bits by auto
  obtain mut' L' where c': "Computation H (map Some xs) 3 p = Ret (root_of H xs, mut', sibs H xs p L')"
    "length (lv H L' xs) = 1" "top xs L'"
    using Computation_root_branch [OF H n _ _ p, of 3] bits by auto
  have L: "L' = L" using top_le [OF c(2) c'(3)] top_le [OF c'(2) c(3)] by simp
  have "p < 2 ^ L" using less_length_lv [of 1 L H xs] c(2) p by simp
  then have "from_branch H new_cache (sibs H xs p L) (Some (xs ! p)) p = root_of H xs"
    using from_branch_sibs [OF H p, of new_cache 0 L] root_of_top [OF c(2,3)] by (simp add: sibs_def new_cache_def)
  then show ?thesis
    using c(1) c'(1) L getMerkleRoot_root_of [OF H]
    by (simp add: GetMerkleBranch_def GetMerkleRootAndBranch_def GetMerkleRootFromBranch_def)
qed

theorem merkle_branch_leads_to_root_witness:
  "\<exists>bs. GetMerkleBranch toy_sha (map Some (map (\<lambda>i. replicate 32 (char_of i)) [0..<5])) 4 = Ret bs \<and>
     GetMerkleRootFromBranch toy_sha bs (Some (replicate 32 (char_of (4::nat)))) 4 =
       getMerkleRoot toy_sha (map Some (map (\<lambda>i. replicate 32 (char_of i)) [0..<5]))"
  using merkle_branch_leads_to_root [OF toy_sha32, of "map (\<lambda>i. replicate 32 (char_of i)) [0..<5]" 4]
  by (auto simp: hashes32_def simp del: upt_Suc)

definition pair_text :: "nat \<Rightarrow> bytes \<Rightarrow> bytes \<Rightarrow> bytes" where
  "pair_text p y z = (if p AND 1 \<noteq> 0 then z @ y else y @ z)"

lemma from_branch_Cons:
  assumes "length y = 32" "length z = 32" "length c = 64"
  shows "from_branch H c (map Some (z # zs)) (Some y) p =
    from_branch H (pair_text p y z) (map Some zs) (Some (H (pair_text p y z))) (drop_bit 1 p)"
  using assms by (cases "p AND 1 \<noteq> 0") (simp_all add: GetHash_32 pair_text_def)

lemma pair_text_inj:
  "length y = 32 \<Longrightarrow> length y' = 32 \<Longrightarrow> length z = 32 \<Longrightarrow> length z' = 32 \<Longrightarrow> pair_text p y z = pair_text p y' z' \<Longrightarrow> y = y' \<and> z = z'"
  by (auto simp: pair_text_def split: if_splits)

lemma from_branch_inj:
  assumes H: "sha32 H" and inj: "\<And>u v. length u = 64 \<Longrightarrow> length v = 64 \<Longrightarrow> H u = H v \<Longrightarrow> u = v"
  shows "from_branch H c (map Some bs) (Some x) p = from_branch H c' (map Some bs') (Some x') p \<Longrightarrow>
    length bs = length bs' \<Longrightarrow> hashes32 (x # bs) \<Longrightarrow> hashes32 (x' # bs') \<Longrightarrow> length c = 64 \<Longrightarrow> length c' = 64 \<Longrightarrow>
    x = x' \<and> bs = bs'"
proof (induction bs arbitrary: bs' x x' p c c')
  case (Cons b bs)
  obtain b' bs2 where b': "bs' = b' # bs2" using Cons.prems(2) by (cases bs') auto
  have len: "length x = 32" "length b = 32" "length x' = 32" "length b' = 32" "hashes32 bs" "hashes32 bs2" "length bs = length bs2"
    using Cons.prems(2-4) by (simp_all add: b')
  let ?t = "pair_text p x b" and ?t' = "pair_text p x' b'"
  have t: "length ?t = 64" "length ?t' = 64" using len by (simp_all add: pair_text_def)
  have "from_branch H ?t (map Some bs) (Some (H ?t)) (drop_bit 1 p) = from_branch H ?t' (map Some bs2) (Some (H ?t')) (drop_bit 1 p)"
    using Cons.prems(1,5,6) len by (simp only: b' from_branch_Cons)
  from Cons.IH [OF this len(7) _ _ t] len H have "H ?t = H ?t' \<and> bs = bs2" by (simp add: sha32_def)
  moreover from this have "?t = ?t'" using inj [OF t] by simp
  ultimately show ?case using pair_text_inj [OF len(1,3,2,4)] b' by simp
qed simp



end
