(* ===== verification/ListMap.thy ===== *)
theory ListMap
  imports Prelude "HOL-Library.Mapping" "HOL-Library.AList_Mapping"
begin

text \<open>
  The ordered map of \<^verbatim>\<open>src/common/listmap/listmap.go\<close>: a doubly linked list of values and a map from keys
  to list elements. An element of the list is known by a number, its address; \<open>lmNext\<close> is the next
  address to be allocated. The locale \<open>ordered_map\<close> is the contract its clients rely on, stated over
  the list of entries in order of insertion; the interpretation \<open>lm\<close> discharges it for the code.
\<close>

record 'v ListMap =
  lmM :: "(string, nat) mapping"
  lmL :: "(nat \<times> 'v) list"
  lmNext :: nat

definition lm_New :: "'v ListMap" where
  "lm_New = \<lparr>lmM = Mapping.empty, lmL = [], lmNext = 0\<rparr>"

definition lm_Size :: "'v ListMap \<Rightarrow> nat" where
  "lm_Size lm = Mapping.size (lmM lm)"

definition lm_Exist :: "'v ListMap \<Rightarrow> string \<Rightarrow> bool" where
  "lm_Exist lm key = (case Mapping.lookup (lmM lm) key of None \<Rightarrow> False | Some _ \<Rightarrow> True)"

text \<open>The value of an element; the map only holds elements of the list.\<close>

definition lm_value :: "'v ListMap \<Rightarrow> nat \<Rightarrow> 'v option" where
  "lm_value lm elm = map_of (lmL lm) elm"

definition lm_GetItem :: "'v ListMap \<Rightarrow> string \<Rightarrow> 'v outcome" where
  "lm_GetItem lm key =
     (case Mapping.lookup (lmM lm) key of
        None \<Rightarrow> Err ErrNotFound
      | Some elm \<Rightarrow> (case lm_value lm elm of Some v \<Rightarrow> Ret v | None \<Rightarrow> Panic ''element not in the list''))"

definition lm_Push :: "string \<Rightarrow> 'v \<Rightarrow> 'v ListMap \<Rightarrow> 'v ListMap" where
  "lm_Push key v lm =
     (case Mapping.lookup (lmM lm) key of
        Some elm \<Rightarrow> lm\<lparr>lmL := map (\<lambda>(a, w). (a, if a = elm then v else w)) (lmL lm)\<rparr>
      | None \<Rightarrow> lm\<lparr>lmL := lmL lm @ [(lmNext lm, v)], lmM := Mapping.update key (lmNext lm) (lmM lm),
                    lmNext := lmNext lm + 1\<rparr>)"

definition lm_GetTop :: "'v ListMap \<Rightarrow> 'v option" where
  "lm_GetTop lm = (case lmL lm of [] \<Rightarrow> None | (_, v) # _ \<Rightarrow> Some v)"

definition lm_Remove :: "string \<Rightarrow> 'v ListMap \<Rightarrow> 'v option \<times> 'v ListMap" where
  "lm_Remove key lm =
     (case Mapping.lookup (lmM lm) key of
        Some elm \<Rightarrow> (lm_value lm elm,
          lm\<lparr>lmL := filter (\<lambda>(a, w). a \<noteq> elm) (lmL lm), lmM := Mapping.delete key (lmM lm)\<rparr>)
      | None \<Rightarrow> (None, lm))"

text \<open>\<^verbatim>\<open>Walk\<close>: the callback changes a state and says whether to go on.\<close>

fun walk_list :: "('v \<Rightarrow> 's \<Rightarrow> bool \<times> 's) \<Rightarrow> (nat \<times> 'v) list \<Rightarrow> 's \<Rightarrow> 's" where
  "walk_list f [] s = s"
| "walk_list f ((a, v) # es) s = (case f v s of (go, s') \<Rightarrow> if go then walk_list f es s' else s')"

definition lm_Walk :: "('v \<Rightarrow> 's \<Rightarrow> bool \<times> 's) option \<Rightarrow> 'v ListMap \<Rightarrow> 's \<Rightarrow> 's" where
  "lm_Walk cb lm s = (case cb of None \<Rightarrow> s | Some f \<Rightarrow> walk_list f (lmL lm) s)"

subsection \<open>The contract of an ordered map\<close>

definition upsert :: "string \<Rightarrow> 'v \<Rightarrow> (string \<times> 'v) list \<Rightarrow> (string \<times> 'v) list" where
  "upsert k v kvs =
     (if k \<in> fst ` set kvs then map (\<lambda>(k', w). (k', if k' = k then v else w)) kvs else kvs @ [(k, v)])"

definition without :: "string \<Rightarrow> (string \<times> 'v) list \<Rightarrow> (string \<times> 'v) list" where
  "without k kvs = filter (\<lambda>p. fst p \<noteq> k) kvs"

locale ordered_map =
  fixes holds :: "'m \<Rightarrow> (string \<times> 'v) list \<Rightarrow> bool"
    and new :: 'm and size_of :: "'m \<Rightarrow> nat" and exist :: "'m \<Rightarrow> string \<Rightarrow> bool"
    and get :: "'m \<Rightarrow> string \<Rightarrow> 'v outcome" and push :: "string \<Rightarrow> 'v \<Rightarrow> 'm \<Rightarrow> 'm"
    and first :: "'m \<Rightarrow> 'v option" and remove :: "string \<Rightarrow> 'm \<Rightarrow> 'v option \<times> 'm"
    and vals :: "'m \<Rightarrow> 'v list"
  assumes holds_new: "holds new []"
    and holds_keys: "holds m kvs \<Longrightarrow> distinct (map fst kvs)"
    and size_of: "holds m kvs \<Longrightarrow> size_of m = length kvs"
    and exist: "holds m kvs \<Longrightarrow> exist m k \<longleftrightarrow> k \<in> fst ` set kvs"
    and get: "holds m kvs \<Longrightarrow> get m k = (case map_of kvs k of None \<Rightarrow> Err ErrNotFound | Some v \<Rightarrow> Ret v)"
    and holds_push: "holds m kvs \<Longrightarrow> holds (push k v m) (upsert k v kvs)"
    and first: "holds m kvs \<Longrightarrow> first m = (case kvs of [] \<Rightarrow> None | (k, v) # _ \<Rightarrow> Some v)"
    and holds_remove: "holds m kvs \<Longrightarrow> holds (snd (remove k m)) (without k kvs)"
    and remove_value: "holds m kvs \<Longrightarrow> fst (remove k m) = map_of kvs k"
    and vals: "holds m kvs \<Longrightarrow> vals m = map snd kvs"
begin

lemma push_new_key:
  "holds m kvs \<Longrightarrow> \<not> exist m k \<Longrightarrow> holds (push k v m) (kvs @ [(k, v)])"
  using holds_push [of m kvs k v] by (simp add: exist upsert_def)

lemma push_get: "holds m kvs \<Longrightarrow> get (push k v m) k = Ret v"
proof -
  assume h: "holds m kvs"
  have "map_of (upsert k v kvs) k = Some v"
  proof (cases "k \<in> fst ` set kvs")
    case True
    then have "map_of (map (\<lambda>(k', w). (k', if k' = k then v else w)) kvs) k = Some v"
      by (induction kvs) auto
    then show ?thesis using True by (simp add: upsert_def)
  next
    case False
    then have "map_of kvs k = None" by (simp add: map_of_eq_None_iff)
    then show ?thesis using False by (simp add: upsert_def map_add_Some_iff)
  qed
  then show ?thesis using get [OF holds_push [OF h]] by simp
qed

lemma remove_absent: "holds m kvs \<Longrightarrow> \<not> exist (snd (remove k m)) k"
  using exist [OF holds_remove] by (fastforce simp: without_def)

lemma remove_shrinks: "holds m kvs \<Longrightarrow> exist m k \<Longrightarrow> Suc (size_of (snd (remove k m))) = size_of m"
proof -
  assume h: "holds m kvs" and "exist m k"
  then have k: "k \<in> fst ` set kvs" and d: "distinct (map fst kvs)" by (simp_all add: exist holds_keys)
  have "k \<in> fst ` set kvs \<Longrightarrow> distinct (map fst kvs) \<Longrightarrow> Suc (length (without k kvs)) = length kvs" for kvs :: "(string \<times> 'v) list"
  proof (induction kvs)
    case (Cons p kvs)
    have "without k kvs = kvs" if "k \<notin> fst ` set kvs"
      using that by (auto simp: without_def filter_id_conv)
    then show ?case using Cons by (cases "fst p = k") (auto simp: without_def)
  qed simp
  then show ?thesis using size_of [OF h] size_of [OF holds_remove [OF h]] k d by simp
qed

end

subsection \<open>The code satisfies it\<close>

text \<open>The elements with their keys and addresses.\<close>

definition lm_elems :: "'v ListMap \<Rightarrow> (string \<times> nat \<times> 'v) list \<Rightarrow> bool" where
  "lm_elems lm es \<longleftrightarrow> lmL lm = map snd es \<and> distinct (map fst es) \<and> distinct (map (fst \<circ> snd) es) \<and>
     Mapping.lookup (lmM lm) = map_of (map (\<lambda>(k, a, v). (k, a)) es) \<and> (\<forall>e \<in> set es. fst (snd e) < lmNext lm)"

definition lm_holds :: "'v ListMap \<Rightarrow> (string \<times> 'v) list \<Rightarrow> bool" where
  "lm_holds lm kvs \<longleftrightarrow> (\<exists>es. lm_elems lm es \<and> kvs = map (\<lambda>(k, a, v). (k, v)) es)"

definition lm_values :: "'v ListMap \<Rightarrow> 'v list" where
  "lm_values lm = map snd (lmL lm)"

lemma map_of_triples:
  "distinct (map fst es) \<Longrightarrow> (k, a, v) \<in> set es \<Longrightarrow>
     map_of (map (\<lambda>(k, a, v). (k, a)) es) k = Some a \<and> map_of (map (\<lambda>(k, a, v). (k, v)) es) k = Some v"
  by (induction es) force+

lemma map_of_no_triple:
  "k \<notin> fst ` set es \<Longrightarrow>
     map_of (map (\<lambda>(k, a, v). (k, a)) es) k = None \<and> map_of (map (\<lambda>(k, a, v). (k, v)) es) k = None"
  by (induction es) force+

lemma map_of_address:
  "distinct (map (fst \<circ> snd) es) \<Longrightarrow> (k, a, v) \<in> set es \<Longrightarrow> map_of (map snd es) a = Some v"
  by (induction es) force+

lemma elem_cases:
  assumes "lm_elems lm es"
  obtains (absent) "k \<notin> fst ` set es" and "Mapping.lookup (lmM lm) k = None"
    and "map_of (map (\<lambda>(k, a, v). (k, v)) es) k = None"
  | (present) a v where "(k, a, v) \<in> set es" and "Mapping.lookup (lmM lm) k = Some a" and "lm_value lm a = Some v"
    and "map_of (map (\<lambda>(k, a, v). (k, v)) es) k = Some v"
proof (cases "k \<in> fst ` set es")
  case True
  then obtain a v where "(k, a, v) \<in> set es" by auto
  with present show thesis
    using assms map_of_triples map_of_address unfolding lm_elems_def lm_value_def by metis
next
  case False
  with absent show thesis using assms map_of_no_triple unfolding lm_elems_def by metis
qed

lemma elems_unique:
  assumes "lm_elems lm es" and "(k, a, v) \<in> set es" and "e \<in> set es"
  shows "fst (snd e) = a \<longleftrightarrow> fst e = k"
proof -
  have "e = (k, a, v)" if "fst (snd e) = a \<or> fst e = k"
    using assms that unfolding lm_elems_def by (auto simp: distinct_map inj_on_def)
  then show ?thesis by (metis fst_conv snd_conv)
qed

lemma holds_length: "lm_elems lm es \<Longrightarrow> lm_Size lm = length es"
proof -
  assume e: "lm_elems lm es"
  then have "Mapping.keys (lmM lm) = set (map fst es)"
    by (auto simp: lm_elems_def keys_dom_lookup dom_map_of_conv_image_fst image_iff) force+
  then show ?thesis using e by (simp add: lm_Size_def Mapping.size_def lm_elems_def distinct_card del: set_map)
qed

lemma push_elems:
  assumes "lm_elems lm es"
  shows "lm_holds (lm_Push k v lm) (upsert k v (map (\<lambda>(k, a, v). (k, v)) es))"
proof (cases rule: elem_cases [OF assms, of k, case_names absent present])
  case absent
  have "[k \<mapsto> a] ++ map_of (map (\<lambda>(k, a, v). (k, a)) es) = (map_of (map (\<lambda>(k, a, v). (k, a)) es))(k \<mapsto> a)" for a
    using map_of_no_triple [OF absent(1)] by (auto simp: fun_eq_iff map_add_def split: option.splits)
  then have "lm_elems (lm_Push k v lm) (es @ [(k, lmNext lm, v)])"
    using assms absent by (auto simp: lm_Push_def lm_elems_def lookup_update')
  then show ?thesis
    using absent unfolding lm_holds_def by (intro exI [of _ "es @ [(k, lmNext lm, v)]"]) (force simp: upsert_def)
next
  case (present a w)
  define es' where "es' = map (\<lambda>(k', b, u). (k', b, if k' = k then v else u)) es"
  have l: "map (\<lambda>(b, u). (b, if b = a then v else u)) (lmL lm) = map snd es'"
    using assms elems_unique [OF assms present(1)] by (auto simp: lm_elems_def es'_def)
  have f: "map fst es' = map fst es" "map (fst \<circ> snd) es' = map (fst \<circ> snd) es"
    "map (\<lambda>(k, a, v). (k, a)) es' = map (\<lambda>(k, a, v). (k, a)) es"
    by (auto simp: es'_def)
  have n: "\<forall>e \<in> set es'. fst (snd e) < lmNext lm"
    using assms f(2) unfolding lm_elems_def by (auto simp: es'_def)
  have "lm_Push k v lm = lm\<lparr>lmL := map snd es'\<rparr>" by (simp add: lm_Push_def present(2) l)
  then have "lm_elems (lm_Push k v lm) es'" using assms n unfolding lm_elems_def f by simp
  moreover have "upsert k v (map (\<lambda>(k, a, v). (k, v)) es) = map (\<lambda>(k, a, v). (k, v)) es'"
    using present(1) by (force simp: upsert_def es'_def)
  ultimately show ?thesis unfolding lm_holds_def by blast
qed

lemma remove_elems:
  assumes "lm_elems lm es"
  shows "lm_holds (snd (lm_Remove k lm)) (without k (map (\<lambda>(k, a, v). (k, v)) es))"
    and "fst (lm_Remove k lm) = map_of (map (\<lambda>(k, a, v). (k, v)) es) k"
proof -
  show "fst (lm_Remove k lm) = map_of (map (\<lambda>(k, a, v). (k, v)) es) k"
    by (cases rule: elem_cases [OF assms, of k, case_names absent present]) (simp_all add: lm_Remove_def)
  show "lm_holds (snd (lm_Remove k lm)) (without k (map (\<lambda>(k, a, v). (k, v)) es))"
  proof (cases rule: elem_cases [OF assms, of k, case_names absent present])
    case absent
    then have "without k (map (\<lambda>(k, a, v). (k, v)) es) = map (\<lambda>(k, a, v). (k, v)) es"
      by (force simp: without_def filter_id_conv)
    then show ?thesis using absent assms by (auto simp: lm_Remove_def lm_holds_def)
  next
    case (present a v)
    let ?es = "filter (\<lambda>e. fst e \<noteq> k) es"
    have "filter (\<lambda>(b, w). b \<noteq> a) (map snd es) = map snd ?es"
      using elems_unique [OF assms present(1)] by (auto simp: filter_map comp_def case_prod_unfold intro!: arg_cong [of _ _ "map snd"] filter_cong)
    moreover have "map_of (map (\<lambda>(k, a, v). (k, a)) ?es) = (map_of (map (\<lambda>(k, a, v). (k, a)) es))(k := None)"
      by (induction es) (auto simp: fun_eq_iff)
    moreover have "distinct (map fst ?es)" "distinct (map (fst \<circ> snd) ?es)"
      using assms by (auto simp: lm_elems_def distinct_map_filter)
    ultimately have "lm_elems (snd (lm_Remove k lm)) ?es"
      using assms present(2) by (simp add: lm_Remove_def lm_elems_def lookup_delete fun_eq_iff)
    moreover have "without k (map (\<lambda>(k, a, v). (k, v)) es) = map (\<lambda>(k, a, v). (k, v)) ?es"
      by (induction es) (auto simp: without_def)
    ultimately show ?thesis unfolding lm_holds_def by blast
  qed
qed

interpretation lm: ordered_map lm_holds lm_New lm_Size lm_Exist lm_GetItem lm_Push lm_GetTop lm_Remove lm_values
proof
  show "lm_holds lm_New []" by (simp add: lm_holds_def lm_elems_def lm_New_def lookup_empty fun_eq_iff)
next
  fix m :: "'a ListMap" and kvs k v
  assume "lm_holds m kvs"
  then obtain es where e: "lm_elems m es" and kvs: "kvs = map (\<lambda>(k, a, v). (k, v)) es" by (auto simp: lm_holds_def)
  have f: "map fst kvs = map fst es" "map snd kvs = map (snd \<circ> snd) es" by (auto simp: kvs)
  have keys: "fst ` set kvs = fst ` set es" by (force simp: kvs)
  show "distinct (map fst kvs)" using e by (simp add: f lm_elems_def)
  show "lm_Size m = length kvs" using holds_length [OF e] by (simp add: kvs)
  show "lm_Exist m k \<longleftrightarrow> k \<in> fst ` set kvs"
    unfolding keys by (cases rule: elem_cases [OF e, of k, case_names absent present]) (force simp: lm_Exist_def)+
  show "lm_GetItem m k = (case map_of kvs k of None \<Rightarrow> Err ErrNotFound | Some v \<Rightarrow> Ret v)"
    unfolding kvs by (cases rule: elem_cases [OF e, of k, case_names absent present]) (simp_all add: lm_GetItem_def)
  show "lm_holds (lm_Push k v m) (upsert k v kvs)" unfolding kvs by (rule push_elems [OF e])
  show "lm_GetTop m = (case kvs of [] \<Rightarrow> None | (k, v) # _ \<Rightarrow> Some v)"
    using e by (cases es) (auto simp: lm_GetTop_def lm_elems_def kvs)
  show "lm_holds (snd (lm_Remove k m)) (without k kvs)" "fst (lm_Remove k m) = map_of kvs k"
    unfolding kvs by (rule remove_elems [OF e])+
  show "lm_values m = map snd kvs" using e by (simp add: lm_values_def lm_elems_def f)
qed

text \<open>\<^verbatim>\<open>Walk\<close> visits the values in order.\<close>

fun walk_vals :: "('v \<Rightarrow> 's \<Rightarrow> bool \<times> 's) \<Rightarrow> 'v list \<Rightarrow> 's \<Rightarrow> 's" where
  "walk_vals f [] s = s"
| "walk_vals f (v # vs) s = (case f v s of (go, s') \<Rightarrow> if go then walk_vals f vs s' else s')"

lemma lm_Walk_values: "lm_Walk (Some f) lm s = walk_vals f (lm_values lm) s"
proof -
  have "walk_list f es s = walk_vals f (map snd es) s" for es
    by (induction f es s rule: walk_list.induct) (auto split: prod.split)
  then show ?thesis by (simp add: lm_Walk_def lm_values_def)
qed

lemma walk_all: "(\<And>v s. fst (f v s)) \<Longrightarrow> walk_vals f vs s = fold (\<lambda>v s. snd (f v s)) vs s"
  by (induction vs arbitrary: s) (auto simp: case_prod_unfold)

subsection \<open>Sequences of updates\<close>

datatype 'v lm_op = OpPush string 'v | OpRemove string

fun lm_run :: "'v lm_op list \<Rightarrow> 'v ListMap \<Rightarrow> 'v ListMap" where
  "lm_run [] lm = lm"
| "lm_run (OpPush k v # ops) lm = lm_run ops (lm_Push k v lm)"
| "lm_run (OpRemove k # ops) lm = lm_run ops (snd (lm_Remove k lm))"

fun list_run :: "'v lm_op list \<Rightarrow> (string \<times> 'v) list \<Rightarrow> (string \<times> 'v) list" where
  "list_run [] kvs = kvs"
| "list_run (OpPush k v # ops) kvs = list_run ops (upsert k v kvs)"
| "list_run (OpRemove k # ops) kvs = list_run ops (without k kvs)"

lemma lm_run_holds: "lm_holds lm kvs \<Longrightarrow> lm_holds (lm_run ops lm) (list_run ops kvs)"
  by (induction ops kvs arbitrary: lm rule: list_run.induct) (simp_all add: lm.holds_push lm.holds_remove)

text \<open>
  C30. The map and the list of a \<^verbatim>\<open>ListMap\<close> stay in step: after any sequence of \<^verbatim>\<open>Push\<close> and \<^verbatim>\<open>Remove\<close> the
  structure is well formed (every key has one element of its own, every element one key) and holds
  the association list that the sequence describes, in order of insertion. \<^verbatim>\<open>Size\<close>, \<^verbatim>\<open>Exist\<close>, \<^verbatim>\<open>GetItem\<close>,
  \<^verbatim>\<open>GetTop\<close> and \<^verbatim>\<open>Walk\<close> read it off; \<^verbatim>\<open>GetItem\<close> never meets an element outside the list.
\<close>

theorem listmap_is_ordered_map:
  fixes ops :: "'v lm_op list"
  defines "lm \<equiv> lm_run ops lm_New" and "kvs \<equiv> list_run ops []"
  shows "lm_holds lm kvs \<and> lm_Size lm = length kvs \<and> lm_Exist lm k = (k \<in> fst ` set kvs) \<and>
    lm_GetItem lm k = (case map_of kvs k of None \<Rightarrow> Err ErrNotFound | Some v \<Rightarrow> Ret v) \<and>
    lm_GetTop lm = (case kvs of [] \<Rightarrow> None | (k, v) # _ \<Rightarrow> Some v) \<and>
    lm_Walk (Some (\<lambda>v vs. (True, vs @ [v]))) lm [] = map snd kvs"
proof -
  have h: "lm_holds lm kvs" unfolding lm_def kvs_def by (rule lm_run_holds [OF lm.holds_new])
  have "fold (\<lambda>v s. s @ [v]) vs s = s @ vs" for vs s :: "'v list" by (induction vs arbitrary: s) auto
  then have "lm_Walk (Some (\<lambda>v vs. (True, vs @ [v]))) lm [] = map snd kvs"
    by (simp add: lm_Walk_values walk_all lm.vals [OF h])
  then show ?thesis using lm.size_of [OF h] lm.exist [OF h] lm.get [OF h] lm.first [OF h] h by simp
qed

end
