(* ===== verification/ChainConfig.thy ===== *)
theory ChainConfig
  imports Forks
begin

text \<open>
  The chain configuration of \<^verbatim>\<open>src/types/config.go\<close>: the table of settings, the title of the chain,
  and the names of executors on parallel chains (\<^verbatim>\<open>src/types/types.go\<close>). The package variables
  \<^verbatim>\<open>chainConfig\<close>, \<^verbatim>\<open>title\<close> and \<^verbatim>\<open>systemFork\<close> are the state \<open>ChainConf\<close>; the mutex that guards them has
  no counterpart, since every operation holds it from its first to its last access.
\<close>

text \<open>A setting is an \<^verbatim>\<open>interface{}\<close>; \<open>COther\<close> is a value of any type the readers do not look for.\<close>

datatype cval = CBool bool | CInt int | CStr string | COther

record ChainConf =
  chainConfig :: "string \<rightharpoonup> cval"
  title :: string
  systemFork :: Forks

definition ParaKeyX :: string where
  "ParaKeyX = ''user.p.''"

definition UserKeyX :: string where
  "UserKeyX = ''user.''"

definition HasPrefix :: "string \<Rightarrow> string \<Rightarrow> bool" where
  "HasPrefix s p \<longleftrightarrow> take (length p) s = p"

definition HasSuffix :: "string \<Rightarrow> string \<Rightarrow> bool" where
  "HasSuffix s p \<longleftrightarrow> length p \<le> length s \<and> drop (length s - length p) s = p"

subsection \<open>Settings\<close>

definition setChainConfig :: "string \<Rightarrow> cval \<Rightarrow> ChainConf \<Rightarrow> ChainConf" where
  "setChainConfig key value c = c\<lparr>chainConfig := (chainConfig c)(key \<mapsto> value)\<rparr>"

definition getChainConfig :: "ChainConf \<Rightarrow> string \<Rightarrow> cval outcome" where
  "getChainConfig c key = (case chainConfig c key of Some data \<Rightarrow> Ret data | None \<Rightarrow> Err ErrNotFound)"

definition G :: "ChainConf \<Rightarrow> string \<Rightarrow> cval outcome" where
  "G c key = getChainConfig c key"

definition GStr :: "ChainConf \<Rightarrow> string \<Rightarrow> string" where
  "GStr c name = (case G c name of Ret (CStr i) \<Rightarrow> i | _ \<Rightarrow> '''')"

fun hex_digit :: "char \<Rightarrow> nat option" where
  "hex_digit c =
     (let x = (of_char c :: nat) in
      if 48 \<le> x \<and> x \<le> 57 then Some (x - 48)
      else if 97 \<le> x \<and> x \<le> 102 then Some (x - 87)
      else if 65 \<le> x \<and> x \<le> 70 then Some (x - 55)
      else None)"

fun hex_value :: "nat \<Rightarrow> string \<Rightarrow> nat option" where
  "hex_value n [] = Some n"
| "hex_value n (c # s) = (case hex_digit c of None \<Rightarrow> None | Some d \<Rightarrow> hex_value (16 * n + d) s)"

text \<open>\<^verbatim>\<open>strconv.ParseUint(s, 0, 64)\<close> on a string that starts with \<^verbatim>\<open>0x\<close>; \<open>None\<close> is an error.\<close>

definition ParseUint_hex :: "string \<Rightarrow> nat option" where
  "ParseUint_hex s =
     (if drop 2 s = [] then None
      else (case hex_value 0 (drop 2 s) of
              None \<Rightarrow> None
            | Some n \<Rightarrow> if n < 2 ^ 64 then Some n else None))"

definition parseInt :: "cval \<Rightarrow> int" where
  "parseInt value =
     (case value of
        CInt i \<Rightarrow> i
      | CStr s \<Rightarrow>
          (if HasPrefix s ''0x''
           then (case ParseUint_hex s of Some i \<Rightarrow> i64 (int i) | None \<Rightarrow> 0)
           else 0)
      | _ \<Rightarrow> 0)"

definition GInt :: "ChainConf \<Rightarrow> string \<Rightarrow> int" where
  "GInt c name = (case G c name of Ret value \<Rightarrow> parseInt value | _ \<Rightarrow> 0)"

definition IsEnable :: "ChainConf \<Rightarrow> string \<Rightarrow> bool outcome" where
  "IsEnable c name =
     (case G c name of
        Ret (CBool isenable) \<Rightarrow> Ret isenable
      | Ret _ \<Rightarrow> Panic ''interface conversion''
      | _ \<Rightarrow> Ret False)"

definition HasConf :: "ChainConf \<Rightarrow> string \<Rightarrow> bool" where
  "HasConf c key \<longleftrightarrow> chainConfig c key \<noteq> None"

definition isLocal :: "ChainConf \<Rightarrow> bool" where
  "isLocal c \<longleftrightarrow> title c = ''local''"

definition isPara :: "ChainConf \<Rightarrow> bool" where
  "isPara c \<longleftrightarrow> count_list (title c) (CHR ''.'') = 3 \<and> HasPrefix (title c) ParaKeyX"

definition isTestPara :: "ChainConf \<Rightarrow> bool" where
  "isTestPara c \<longleftrightarrow> count_list (title c) (CHR ''.'') = 3 \<and> HasPrefix (title c) ParaKeyX \<and>
     HasSuffix (title c) ''test.''"

definition S :: "string \<Rightarrow> cval \<Rightarrow> (ChainConf, unit) prog" where
  "S key value c =
     (if HasPrefix key ''config.'' \<and> \<not> isLocal c \<and> \<not> isTestPara c
      then panic ''prefix config. is readonly'' c
      else ret () (setChainConfig key value c))"

definition setTestNet :: "bool \<Rightarrow> ChainConf \<Rightarrow> ChainConf" where
  "setTestNet isTestNet c = setChainConfig ''TestNet'' (CBool isTestNet) c"

definition IsTestNet :: "ChainConf \<Rightarrow> bool outcome" where
  "IsTestNet c = IsEnable c ''TestNet''"

definition setMinFee :: "int \<Rightarrow> (ChainConf, unit) prog" where
  "setMinFee fee c =
     (if fee < 0 then panic ''fee less than zero'' c
      else ret () (setChainConfig ''MinBalanceTransfer'' (CInt (i64 (fee * 10)))
                    (setChainConfig ''MaxFee'' (CInt (i64 (fee * 10000)))
                      (setChainConfig ''MinFee'' (CInt fee) c))))"

definition GetParaName :: "ChainConf \<Rightarrow> string" where
  "GetParaName c = (if isPara c then title c else '''')"

subsection \<open>Forks of this chain\<close>

definition types_IsFork :: "ChainConf \<Rightarrow> int \<Rightarrow> string \<Rightarrow> bool outcome" where
  "types_IsFork c height fork = IsFork (systemFork c) (title c) height fork"

definition types_IsDappFork :: "ChainConf \<Rightarrow> int \<Rightarrow> string \<Rightarrow> string \<Rightarrow> bool outcome" where
  "types_IsDappFork c height dapp fork = IsDappFork (systemFork c) (title c) height dapp fork"

definition types_GetDappFork :: "ChainConf \<Rightarrow> string \<Rightarrow> string \<Rightarrow> int outcome" where
  "types_GetDappFork c dapp fork = GetDappFork (systemFork c) (title c) dapp fork"

definition types_GetFork :: "ChainConf \<Rightarrow> string \<Rightarrow> int outcome" where
  "types_GetFork c fork = GetFork (systemFork c) (title c) fork"

definition types_HasFork :: "ChainConf \<Rightarrow> string \<Rightarrow> bool" where
  "types_HasFork c fork = HasFork (systemFork c) ''chain33'' fork"

definition types_IsEnableFork :: "ChainConf \<Rightarrow> int \<Rightarrow> string \<Rightarrow> bool \<Rightarrow> bool outcome" where
  "types_IsEnableFork c height fork enable = IsEnableFork (systemFork c) (title c) height fork enable"

subsection \<open>Names of executors\<close>

definition IsParaExecName :: "string \<Rightarrow> bool" where
  "IsParaExecName exec = HasPrefix exec ParaKeyX"

definition IsMyParaExecName :: "ChainConf \<Rightarrow> string \<Rightarrow> bool" where
  "IsMyParaExecName c exec \<longleftrightarrow> IsParaExecName exec \<and> HasPrefix exec (title c)"

definition IsSpecificParaExecName :: "string \<Rightarrow> string \<Rightarrow> bool" where
  "IsSpecificParaExecName t exec \<longleftrightarrow> IsParaExecName exec \<and> HasPrefix exec t"

text \<open>The loop of \<^verbatim>\<open>GetParaExecTitleName\<close>: \<open>rest\<close> is \<open>exec\<close> from the index \<open>i\<close> on.\<close>

fun title_from :: "string \<Rightarrow> nat \<Rightarrow> string \<Rightarrow> string option" where
  "title_from exec i [] = None"
| "title_from exec i (ch # rest) =
     (if ch = CHR ''.'' then Some (take (i + 1) exec) else title_from exec (i + 1) rest)"

definition GetParaExecTitleName :: "string \<Rightarrow> string option" where
  "GetParaExecTitleName exec =
     (if IsParaExecName exec
      then title_from exec (length ParaKeyX) (drop (length ParaKeyX) exec) else None)"

definition GetParaExec :: "ChainConf \<Rightarrow> bytes \<Rightarrow> bytes" where
  "GetParaExec c execer =
     (if \<not> isPara c then execer
      else if \<not> HasPrefix execer (title c) then execer
      else drop (length (title c)) execer)"

text \<open>The loop of \<^verbatim>\<open>GetParaExecName\<close>: \<open>n\<close> dots have been read, \<open>rest\<close> is what follows.\<close>

fun after_dots :: "bytes \<Rightarrow> nat \<Rightarrow> bytes \<Rightarrow> bytes" where
  "after_dots execer n [] = execer"
| "after_dots execer n (ch # rest) =
     (let n' = (if ch = CHR ''.'' then n + 1 else n) in
      if n' = 3 \<and> rest \<noteq> [] then rest else after_dots execer n' rest)"

definition GetParaExecName :: "bytes \<Rightarrow> bytes" where
  "GetParaExecName execer = (if \<not> HasPrefix execer ParaKeyX then execer else after_dots execer 0 execer)"

text \<open>
  The loop of \<^verbatim>\<open>GetRealExecName\<close>: the value \<^verbatim>\<open>index + 1\<close> it ends with, that is the position of the
  second dot, or the length when there is none.
\<close>

fun second_dot :: "nat \<Rightarrow> nat \<Rightarrow> bytes \<Rightarrow> nat" where
  "second_dot n i [] = i"
| "second_dot n i (ch # rest) =
     (let n' = (if ch = CHR ''.'' then n + 1 else n) in
      if n' = 2 then i else second_dot n' (i + 1) rest)"

definition GetRealExecName :: "bytes \<Rightarrow> bytes" where
  "GetRealExecName execer0 =
     (let execer = GetParaExecName execer0 in
      if HasPrefix execer ParaKeyX then execer
      else if HasPrefix execer UserKeyX then
        (let e = drop (length UserKeyX) (take (second_dot 0 0 execer) execer) in
         if e \<noteq> [] then e else execer)
      else execer)"

end
