(* ===== verification/Base58.thy ===== *)
theory Base58
  imports Main
begin

text \<open>
  The base58 encoding of the package \<^verbatim>\<open>decred/base58\<close>, a concrete instance for the parameters of
  \<open>addr_env\<close>, and the proof that it reads what it writes. A byte string is the base-256 number of
  its bytes, with one digit \<^verbatim>\<open>1\<close> in front for every leading zero byte. An invalid character makes
  \<^verbatim>\<open>Decode\<close> return the empty slice, never nil.
\<close>

text \<open>The digits of a number, least significant first.\<close>

function digits :: "nat \<Rightarrow> nat \<Rightarrow> nat list" where
  "digits b n = (if n = 0 \<or> b < 2 then [] else n mod b # digits b (n div b))"
  by pat_completeness auto
termination by (relation "measure snd") (auto intro: div_less_dividend)

declare digits.simps [simp del]

fun value_of :: "nat \<Rightarrow> nat list \<Rightarrow> nat" where
  "value_of b [] = 0"
| "value_of b (d # ds) = d + b * value_of b ds"

definition alphabet :: string where
  "alphabet = ''123456789ABCDEFGHJKLMNPQRSTUVWXYZabcdefghijkmnopqrstuvwxyz''"

fun index_of :: "'a list \<Rightarrow> 'a \<Rightarrow> nat option" where
  "index_of [] x = None"
| "index_of (y # ys) x = (if x = y then Some 0 else map_option Suc (index_of ys x))"

definition base58_Encode :: "char list \<Rightarrow> string" where
  "base58_Encode b =
     (let x = value_of 256 (rev (map of_char b))
      in replicate (length (takeWhile (\<lambda>c. c = CHR 0x00) b)) (CHR ''1'') @
         rev (map (\<lambda>d. alphabet ! d) (digits 58 x)))"

definition base58_Decode :: "string \<Rightarrow> char list option" where
  "base58_Decode s =
     (case those (map (index_of alphabet) s) of
        None \<Rightarrow> Some []
      | Some ds \<Rightarrow>
          Some (replicate (length (takeWhile (\<lambda>c. c = CHR ''1'') s)) (CHR 0x00) @
                rev (map char_of (digits 256 (value_of 58 (rev ds))))))"

lemma value_digits: "2 \<le> b \<Longrightarrow> value_of b (digits b n) = n"
  by (induction b n rule: digits.induct) (subst digits.simps, auto)

lemma digits_less: "d \<in> set (digits b n) \<Longrightarrow> d < b"
  by (induction b n rule: digits.induct) (subst (asm) digits.simps, auto split: if_splits)

lemma digits_zero [simp]: "digits b 0 = []"
  by (simp add: digits.simps)

lemma digits_step: "2 \<le> b \<Longrightarrow> n \<noteq> 0 \<Longrightarrow> digits b n = n mod b # digits b (n div b)"
  by (subst digits.simps) simp

lemma digits_Nil_iff: "2 \<le> b \<Longrightarrow> digits b n = [] \<longleftrightarrow> n = 0"
  by (cases "n = 0") (simp_all add: digits_step)

lemma last_digits: "2 \<le> b \<Longrightarrow> n \<noteq> 0 \<Longrightarrow> last (digits b n) \<noteq> 0"
proof (induction n rule: less_induct)
  case (less n)
  show ?case
  proof (cases "n div b = 0")
    case True
    then show ?thesis using less.prems by (simp add: digits_step div_eq_0_iff)
  next
    case False
    then have "last (digits b (n div b)) \<noteq> 0"
      using less by (intro less.IH) (auto intro: div_less_dividend)
    then show ?thesis using False less.prems by (simp add: digits_step digits_Nil_iff)
  qed
qed

lemma value_zero_iff: "2 \<le> b \<Longrightarrow> ds \<noteq> [] \<Longrightarrow> last ds \<noteq> 0 \<Longrightarrow> value_of b ds \<noteq> 0"
  by (induction ds) (auto split: if_splits)

lemma digits_value:
  "2 \<le> b \<Longrightarrow> \<forall>d \<in> set ds. d < b \<Longrightarrow> ds \<noteq> [] \<longrightarrow> last ds \<noteq> 0 \<Longrightarrow> digits b (value_of b ds) = ds"
proof (induction ds)
  case (Cons d ds)
  have "value_of b (d # ds) \<noteq> 0" using Cons.prems by (intro value_zero_iff) auto
  then have "digits b (value_of b (d # ds)) = d # digits b (value_of b ds)"
    using Cons.prems by (subst digits.simps) auto
  then show ?case using Cons by (auto split: if_splits)
qed simp

lemma value_zeros: "value_of b (replicate k 0) = 0"
  by (induction k) auto

lemma value_leading: "value_of b (ds @ replicate k 0) = value_of b ds"
  by (induction ds) (auto simp: value_zeros)

lemma index_of_nth: "distinct xs \<Longrightarrow> i < length xs \<Longrightarrow> index_of xs (xs ! i) = Some i"
  by (induction xs arbitrary: i) (auto simp: nth_Cons split: nat.splits)

lemma alphabet_facts: "distinct alphabet" "length alphabet = 58" "alphabet ! 0 = CHR ''1''"
  by (code_simp, simp_all add: alphabet_def)

lemma those_index:
  "\<forall>d \<in> set ds. d < 58 \<Longrightarrow> those (map (index_of alphabet) (map ((!) alphabet) ds)) = Some ds"
  by (induction ds) (auto simp: index_of_nth alphabet_facts)

lemma encode_digits:
  "base58_Encode b = map ((!) alphabet)
     (replicate (length (takeWhile (\<lambda>c. c = CHR 0x00) b)) 0 @ rev (digits 58 (value_of 256 (rev (map of_char b)))))"
  by (simp add: base58_Encode_def Let_def alphabet_facts rev_map map_replicate_const)

lemma alphabet_one: "d < 58 \<Longrightarrow> alphabet ! d = CHR ''1'' \<longleftrightarrow> d = 0"
  using alphabet_facts nth_eq_iff_index_eq [of alphabet d 0] by simp

lemma takeWhile_ones:
  "\<forall>d \<in> set ds. d < 58 \<Longrightarrow> length (takeWhile (\<lambda>c. c = CHR ''1'') (map ((!) alphabet) ds)) =
     length (takeWhile (\<lambda>d. d = 0) ds)"
  by (induction ds) (auto simp: alphabet_one)

lemma takeWhile_lead:
  "ds = [] \<or> hd ds \<noteq> 0 \<Longrightarrow> length (takeWhile (\<lambda>d. d = 0) (replicate k 0 @ ds)) = k"
  by (induction k) (auto simp: takeWhile_eq_Nil_iff)

lemma split_leading:
  obtains r where "b = replicate (length (takeWhile (\<lambda>c. c = x) b)) x @ r" and "r = [] \<or> hd r \<noteq> x"
proof -
  have "takeWhile (\<lambda>c. c = x) b = replicate (length (takeWhile (\<lambda>c. c = x) b)) x"
    by (induction b) auto
  then have "b = replicate (length (takeWhile (\<lambda>c. c = x) b)) x @ dropWhile (\<lambda>c. c = x) b"
    by (metis takeWhile_dropWhile_id)
  moreover have "dropWhile (\<lambda>c. c = x) b = [] \<or> hd (dropWhile (\<lambda>c. c = x) b) \<noteq> x"
    using hd_dropWhile [of "\<lambda>c. c = x" b] by blast
  ultimately show thesis using that by blast
qed

lemma base58_round_trip: "base58_Decode (base58_Encode b) = Some b"
proof -
  let ?k = "length (takeWhile (\<lambda>c. c = CHR 0x00) b)"
  obtain r where b: "b = replicate ?k (CHR 0x00) @ r" and r: "r = [] \<or> hd r \<noteq> CHR 0x00"
    by (rule split_leading)
  let ?n = "value_of 256 (rev (map of_char b))"
  let ?ds = "replicate ?k 0 @ rev (digits 58 ?n)"
  have n: "?n = value_of 256 (rev (map of_char r))"
    by (subst b) (simp add: rev_map value_leading map_replicate_const)
  have "hd r \<noteq> CHR 0x00 \<longrightarrow> (of_char (hd r) :: nat) \<noteq> 0"
    by (cases "hd r") auto
  then have "digits 256 ?n = rev (map of_char r)"
    unfolding n using r by (intro digits_value) (auto simp: last_rev hd_map)
  then have backto: "rev (map char_of (digits 256 ?n)) = r"
    by (simp add: rev_map comp_def)
  have small: "\<forall>d \<in> set ?ds. d < 58" using digits_less by auto
  have "rev (digits 58 ?n) = [] \<or> hd (rev (digits 58 ?n)) \<noteq> 0"
    using last_digits [of 58 ?n] by (cases "?n = 0") (simp_all add: hd_rev)
  then have "length (takeWhile (\<lambda>c. c = CHR ''1'') (base58_Encode b)) = ?k"
    unfolding encode_digits takeWhile_ones [OF small] by (rule takeWhile_lead)
  moreover have "those (map (index_of alphabet) (base58_Encode b)) = Some ?ds"
    unfolding encode_digits by (rule those_index [OF small])
  moreover have "value_of 58 (rev ?ds) = ?n"
    by (simp add: value_leading value_digits)
  ultimately show ?thesis
    using b backto by (simp add: base58_Decode_def)
qed

end
