(* ===== verification/Address.thy ===== *)
theory Address
  imports Prelude Base58
begin

text \<open>
  Addresses, \<^verbatim>\<open>src/common/address/address.go\<close>: the base58 text of a version byte, the 20-byte hash of
  a public key and a 4-byte checksum. SHA-256, RIPEMD-160, base58 and the LRU cache are library code
  and parameters of the model (\<open>addr_env\<close>); the five caches of the package are the state
  \<open>AddrCaches\<close>. The lemmas show that the caches are transparent, that what the package prints it
  accepts, and exactly which texts it accepts.
\<close>

record addr_env =
  Sum256 :: "bytes \<Rightarrow> bytes"
  Ripemd160 :: "bytes \<Rightarrow> bytes"
  b58Encode :: "bytes \<Rightarrow> string"
  b58Decode :: "string \<Rightarrow> bytes option"
  lruStr :: "(string \<rightharpoonup> string) \<Rightarrow> string \<Rightarrow> string \<Rightarrow> (string \<rightharpoonup> string)"
  lruErr :: "(string \<rightharpoonup> error option) \<Rightarrow> string \<Rightarrow> error option \<Rightarrow> (string \<rightharpoonup> error option)"

text \<open>An entry of \<open>checkAddressCache\<close> is the error of the check, \<open>None\<close> for nil.\<close>

record AddrCaches =
  addressCache :: "string \<rightharpoonup> string"
  pubkeyCache :: "string \<rightharpoonup> string"
  multisignCache :: "string \<rightharpoonup> string"
  checkAddressCache :: "string \<rightharpoonup> error option"
  multiCheckAddressCache :: "string \<rightharpoonup> error option"

record Address =
  Version :: char
  Hash160 :: bytes
  Checksum :: "bytes option"
  Pubkey :: bytes
  Enc58str :: string

text \<open>\<^verbatim>\<open>copy(dst, src)\<close>: as many bytes as fit.\<close>

definition copy :: "bytes \<Rightarrow> bytes \<Rightarrow> bytes" where
  "copy dst src = take (length dst) src @ drop (length src) dst"

definition zeros :: "nat \<Rightarrow> bytes" where
  "zeros n = replicate n (CHR 0x00)"

definition addrSeed :: bytes where
  "addrSeed = ''address seed bytes for public key''"

definition MaxExecNameLength :: nat where
  "MaxExecNameLength = 100"

definition NormalVer :: char where
  "NormalVer = CHR 0x00"

definition MultiSignVer :: char where
  "MultiSignVer = CHR 0x05"

definition Sha2Sum :: "addr_env \<Rightarrow> bytes \<Rightarrow> bytes" where
  "Sha2Sum e b = Sum256 e (Sum256 e b)"

definition rimpHash :: "addr_env \<Rightarrow> bytes \<Rightarrow> bytes \<Rightarrow> bytes" where
  "rimpHash e inp out = copy out (Ripemd160 e (Sum256 e inp))"

definition Rimp160 :: "addr_env \<Rightarrow> bytes \<Rightarrow> bytes" where
  "Rimp160 e b = rimpHash e b (zeros 20)"

definition SetBytes :: "bytes \<Rightarrow> Address \<Rightarrow> Address" where
  "SetBytes b a = a\<lparr>Hash160 := copy (Hash160 a) b\<rparr>"

definition newAddress :: Address where
  "newAddress = \<lparr>Version = CHR 0x00, Hash160 = zeros 20, Checksum = None, Pubkey = [], Enc58str = ''''\<rparr>"

definition Address_String :: "addr_env \<Rightarrow> Address \<Rightarrow> string \<times> Address" where
  "Address_String e a =
     (if Enc58str a = '''' then
        (let ad = Version a # copy (zeros 20) (Hash160 a);
             a' = (case Checksum a of
                     None \<Rightarrow> a\<lparr>Checksum := Some (copy (zeros 4) (take 4 (Sha2Sum e ad)))\<rparr>
                   | Some _ \<Rightarrow> a);
             s = b58Encode e (ad @ copy (zeros 4) (the (Checksum a')))
         in (s, a'\<lparr>Enc58str := s\<rparr>))
      else (Enc58str a, a))"

definition HashToAddress :: "addr_env \<Rightarrow> char \<Rightarrow> bytes \<Rightarrow> Address" where
  "HashToAddress e version inp =
     SetBytes (Rimp160 e inp) (newAddress\<lparr>Pubkey := copy (zeros (length inp)) inp, Version := version\<rparr>)"

definition ExecPubKey :: "addr_env \<Rightarrow> string \<Rightarrow> bytes outcome" where
  "ExecPubKey e name =
     (if length name > MaxExecNameLength then Panic ''name too long''
      else Ret (Sha2Sum e (addrSeed @ name)))"

definition ExecPubkey :: "addr_env \<Rightarrow> string \<Rightarrow> bytes outcome" where
  "ExecPubkey e name =
     (if length name > MaxExecNameLength then Panic ''name too long''
      else Ret (Sha2Sum e (addrSeed @ name)))"

definition PubKeyToAddress :: "addr_env \<Rightarrow> bytes \<Rightarrow> Address" where
  "PubKeyToAddress e inp = HashToAddress e NormalVer inp"

definition GetExecAddress :: "addr_env \<Rightarrow> string \<Rightarrow> Address outcome" where
  "GetExecAddress e name = obind (ExecPubkey e name) (\<lambda>hash. Ret (PubKeyToAddress e hash))"

definition ExecAddress_text :: "addr_env \<Rightarrow> string \<Rightarrow> (AddrCaches, string) prog" where
  "ExecAddress_text e name s =
     (case addressCache s name of
        Some value \<Rightarrow> ret value s
      | None \<Rightarrow>
          (case GetExecAddress e name of
             Ret addr \<Rightarrow>
               (let addrstr = fst (Address_String e addr)
                in ret addrstr (s\<lparr>addressCache := lruStr e (addressCache s) name addrstr\<rparr>))
           | Err x \<Rightarrow> fail x s
           | Panic p \<Rightarrow> panic p s))"

definition MultiSignAddress :: "addr_env \<Rightarrow> bytes \<Rightarrow> (AddrCaches, string) prog" where
  "MultiSignAddress e pubkey s =
     (case multisignCache s pubkey of
        Some value \<Rightarrow> ret value s
      | None \<Rightarrow>
          (let addrstr = fst (Address_String e (HashToAddress e MultiSignVer pubkey))
           in ret addrstr (s\<lparr>multisignCache := lruStr e (multisignCache s) pubkey addrstr\<rparr>)))"

definition PubKeyToAddr :: "addr_env \<Rightarrow> bytes \<Rightarrow> (AddrCaches, string) prog" where
  "PubKeyToAddr e inp s =
     (case pubkeyCache s inp of
        Some value \<Rightarrow> ret value s
      | None \<Rightarrow>
          (let addr = fst (Address_String e (HashToAddress e NormalVer inp))
           in ret addr (s\<lparr>pubkeyCache := lruStr e (pubkeyCache s) inp addr\<rparr>)))"

definition checksum :: "addr_env \<Rightarrow> bytes \<Rightarrow> bytes" where
  "checksum e input = copy (zeros 4) (take 4 (Sum256 e (Sum256 e input)))"

text \<open>\<^verbatim>\<open>checkAddress\<close>; the error is the value returned, \<open>None\<close> for nil.\<close>

definition checkAddress :: "addr_env \<Rightarrow> char \<Rightarrow> string \<Rightarrow> AddrCaches \<Rightarrow> error option \<times> AddrCaches" where
  "checkAddress e ver addr s =
     (case b58Decode e addr of
        None \<Rightarrow>
          (let er = Some (ErrOther ''Cannot decode b58 string'')
           in (er, s\<lparr>checkAddressCache := lruErr e (checkAddressCache s) addr er\<rparr>))
      | Some dec \<Rightarrow>
          if length dec < 25 then
            (let er = Some (ErrOther ''Address too short'')
             in (er, s\<lparr>checkAddressCache := lruErr e (checkAddressCache s) addr er\<rparr>))
          else if dec ! 0 \<noteq> ver then (Some ErrCheckVersion, s)
          else if length dec = 25 \<and> take 4 (Sha2Sum e (take 21 dec)) \<noteq> drop 21 dec
          then (Some ErrCheckChecksum, s)
          else if checksum e (take (length dec - 4) dec) \<noteq> copy (zeros 4) (drop (length dec - 4) dec)
          then (Some ErrAddressChecksum, s)
          else (None, s))"

definition CheckMultiSignAddress :: "addr_env \<Rightarrow> string \<Rightarrow> AddrCaches \<Rightarrow> error option \<times> AddrCaches" where
  "CheckMultiSignAddress e addr s =
     (case multiCheckAddressCache s addr of
        Some value \<Rightarrow> (value, s)
      | None \<Rightarrow>
          (let (er, s1) = checkAddress e MultiSignVer addr s
           in (er, s1\<lparr>multiCheckAddressCache := lruErr e (multiCheckAddressCache s1) addr er\<rparr>)))"

definition CheckAddress :: "addr_env \<Rightarrow> string \<Rightarrow> AddrCaches \<Rightarrow> error option \<times> AddrCaches" where
  "CheckAddress e addr s =
     (case checkAddressCache s addr of
        Some value \<Rightarrow> (value, s)
      | None \<Rightarrow>
          (let (er, s1) = checkAddress e NormalVer addr s
           in (er, s1\<lparr>checkAddressCache := lruErr e (checkAddressCache s1) addr er\<rparr>)))"

text \<open>\<^verbatim>\<open>NewAddrFromString\<close> returns a pointer, which may be nil, beside the error.\<close>

definition NewAddrFromString :: "addr_env \<Rightarrow> string \<Rightarrow> Address option \<times> error option" where
  "NewAddrFromString e hs =
     (case b58Decode e hs of
        None \<Rightarrow> (None, Some (ErrOther ''Cannot decode b58 string''))
      | Some dec \<Rightarrow>
          if length dec < 25 then (None, Some (ErrOther ''Address too short''))
          else if length dec = 25 then
            (if take 4 (Sha2Sum e (take 21 dec)) \<noteq> drop 21 dec then (None, Some ErrCheckChecksum)
             else (Some (newAddress\<lparr>Version := dec ! 0, Hash160 := copy (zeros 20) (take 20 (drop 1 dec)),
                                    Checksum := Some (copy (zeros 4) (drop 21 dec)), Enc58str := hs\<rparr>), None))
          else (None, None))"

subsection \<open>The text of an address\<close>

text \<open>What the library promises: the hashes have their length, and base58 reads what it wrote.\<close>

definition addr_libs :: "addr_env \<Rightarrow> bool" where
  "addr_libs e \<longleftrightarrow> (\<forall>b. length (Sum256 e b) = 32) \<and> (\<forall>b. length (Ripemd160 e b) = 20) \<and>
     (\<forall>b. b58Decode e (b58Encode e b) = Some b)"

definition addr_body :: "addr_env \<Rightarrow> char \<Rightarrow> bytes \<Rightarrow> bytes" where
  "addr_body e ver pub = ver # Ripemd160 e (Sum256 e pub)"

definition addr_text :: "addr_env \<Rightarrow> char \<Rightarrow> bytes \<Rightarrow> string" where
  "addr_text e ver pub = b58Encode e (addr_body e ver pub @ take 4 (Sha2Sum e (addr_body e ver pub)))"

lemma copy_full [simp]: "length src = length dst \<Longrightarrow> copy dst src = src"
  by (simp add: copy_def)

lemma length_zeros [simp]: "length (zeros n) = n"
  by (simp add: zeros_def)

lemma String_HashToAddress:
  assumes "addr_libs e"
  shows "fst (Address_String e (HashToAddress e ver pub)) = addr_text e ver pub"
  using assms by (simp add: Address_String_def HashToAddress_def SetBytes_def Rimp160_def rimpHash_def
      newAddress_def addr_text_def addr_body_def addr_libs_def Let_def Sha2Sum_def)

subsection \<open>The caches are transparent\<close>

definition evicting :: "(('k \<rightharpoonup> 'v) \<Rightarrow> 'k \<Rightarrow> 'v \<Rightarrow> ('k \<rightharpoonup> 'v)) \<Rightarrow> bool" where
  "evicting add \<longleftrightarrow> (\<forall>c k v. add c k v \<subseteq>\<^sub>m c(k \<mapsto> v))"

definition caches :: "('k \<Rightarrow> 'v) \<Rightarrow> ('k \<rightharpoonup> 'v) \<Rightarrow> bool" where
  "caches f c \<longleftrightarrow> (\<forall>k v. c k = Some v \<longrightarrow> v = f k)"

lemma caches_get: "caches f c \<Longrightarrow> c k = Some v \<Longrightarrow> v = f k"
  by (simp add: caches_def)

lemma caches_add: "evicting add \<Longrightarrow> caches f c \<Longrightarrow> v = f k \<Longrightarrow> caches f (add c k v)"
  unfolding evicting_def caches_def map_le_def
  by (metis domI fun_upd_apply option.inject)

text \<open>The verdict on a text that the code computes when no cache has it.\<close>

definition verdict :: "addr_env \<Rightarrow> char \<Rightarrow> string \<Rightarrow> error option" where
  "verdict e ver addr =
     (case b58Decode e addr of
        None \<Rightarrow> Some (ErrOther ''Cannot decode b58 string'')
      | Some dec \<Rightarrow>
          if length dec < 25 then Some (ErrOther ''Address too short'')
          else if dec ! 0 \<noteq> ver then Some ErrCheckVersion
          else if checksum e (take (length dec - 4) dec) = drop (length dec - 4) dec then None
          else if length dec = 25 then Some ErrCheckChecksum
          else Some ErrAddressChecksum)"

definition caches_ok :: "addr_env \<Rightarrow> AddrCaches \<Rightarrow> bool" where
  "caches_ok e s \<longleftrightarrow> evicting (lruStr e) \<and> evicting (lruErr e) \<and>
     caches (addr_text e NormalVer) (pubkeyCache s) \<and>
     caches (addr_text e MultiSignVer) (multisignCache s) \<and>
     caches (\<lambda>n. addr_text e NormalVer (Sha2Sum e (addrSeed @ n))) (addressCache s) \<and>
     (\<forall>n \<in> dom (addressCache s). length n \<le> MaxExecNameLength) \<and>
     caches (verdict e NormalVer) (checkAddressCache s) \<and>
     caches (verdict e MultiSignVer) (multiCheckAddressCache s)"

lemma checkAddress_run:
  assumes "addr_libs e"
  shows "checkAddress e ver addr s =
     (verdict e ver addr,
      if verdict e ver addr \<in> {Some (ErrOther ''Cannot decode b58 string''), Some (ErrOther ''Address too short'')}
      then s\<lparr>checkAddressCache := lruErr e (checkAddressCache s) addr (verdict e ver addr)\<rparr> else s)"
  using assms by (auto simp: checkAddress_def verdict_def checksum_def Sha2Sum_def addr_libs_def Let_def
      split: option.splits)

lemma verdict_version:
  "verdict e ver addr \<in> {Some (ErrOther ''Cannot decode b58 string''), Some (ErrOther ''Address too short'')} \<Longrightarrow>
     verdict e ver' addr = verdict e ver addr"
  by (auto simp: verdict_def split: option.splits if_splits)

lemma checkAddress_ok:
  assumes "addr_libs e" and "caches_ok e s"
  shows "caches_ok e (snd (checkAddress e ver addr s))"
proof -
  have "caches (verdict e NormalVer) (lruErr e (checkAddressCache s) addr (verdict e ver addr))"
    if "verdict e ver addr \<in> {Some (ErrOther ''Cannot decode b58 string''), Some (ErrOther ''Address too short'')}"
    using assms verdict_version [OF that, of NormalVer] by (simp add: caches_ok_def caches_add)
  then show ?thesis
    using assms by (auto simp: checkAddress_run caches_ok_def)
qed

lemma CheckAddress_run:
  assumes "addr_libs e" and "caches_ok e s"
  shows "\<exists>s'. CheckAddress e addr s = (verdict e NormalVer addr, s') \<and> caches_ok e s'"
proof (cases "checkAddressCache s addr")
  case None
  let ?s = "snd (checkAddress e NormalVer addr s)"
  have "caches_ok e (?s\<lparr>checkAddressCache := lruErr e (checkAddressCache ?s) addr (verdict e NormalVer addr)\<rparr>)"
    using checkAddress_ok [OF assms] by (simp add: caches_ok_def caches_add)
  then show ?thesis
    using None assms by (simp add: CheckAddress_def checkAddress_run)
next
  case (Some v)
  then have "v = verdict e NormalVer addr"
    using assms(2) caches_get unfolding caches_ok_def by metis
  then show ?thesis using Some assms by (simp add: CheckAddress_def)
qed

lemma CheckMultiSignAddress_run:
  assumes "addr_libs e" and "caches_ok e s"
  shows "\<exists>s'. CheckMultiSignAddress e addr s = (verdict e MultiSignVer addr, s') \<and> caches_ok e s'"
proof (cases "multiCheckAddressCache s addr")
  case None
  let ?s = "snd (checkAddress e MultiSignVer addr s)"
  have "caches_ok e (?s\<lparr>multiCheckAddressCache := lruErr e (multiCheckAddressCache ?s) addr (verdict e MultiSignVer addr)\<rparr>)"
    using checkAddress_ok [OF assms] by (simp add: caches_ok_def caches_add)
  then show ?thesis
    using None assms by (simp add: CheckMultiSignAddress_def checkAddress_run)
next
  case (Some v)
  then have "v = verdict e MultiSignVer addr"
    using assms(2) caches_get unfolding caches_ok_def by metis
  then show ?thesis using Some assms by (simp add: CheckMultiSignAddress_def)
qed

lemma PubKeyToAddr_run:
  assumes "addr_libs e" and "caches_ok e s"
  shows "\<exists>s'. PubKeyToAddr e pub s = (Ret (addr_text e NormalVer pub), s') \<and> caches_ok e s'"
proof (cases "pubkeyCache s pub")
  case None
  have "caches_ok e (s\<lparr>pubkeyCache := lruStr e (pubkeyCache s) pub (addr_text e NormalVer pub)\<rparr>)"
    using assms(2) by (simp add: caches_ok_def caches_add)
  then show ?thesis
    using None assms by (simp add: PubKeyToAddr_def String_HashToAddress Let_def)
next
  case (Some v)
  then have "v = addr_text e NormalVer pub"
    using assms(2) caches_get unfolding caches_ok_def by metis
  then show ?thesis using Some assms by (simp add: PubKeyToAddr_def)
qed

lemma MultiSignAddress_run:
  assumes "addr_libs e" and "caches_ok e s"
  shows "\<exists>s'. MultiSignAddress e pub s = (Ret (addr_text e MultiSignVer pub), s') \<and> caches_ok e s'"
proof (cases "multisignCache s pub")
  case None
  have "caches_ok e (s\<lparr>multisignCache := lruStr e (multisignCache s) pub (addr_text e MultiSignVer pub)\<rparr>)"
    using assms(2) by (simp add: caches_ok_def caches_add)
  then show ?thesis
    using None assms by (simp add: MultiSignAddress_def String_HashToAddress Let_def)
next
  case (Some v)
  then have "v = addr_text e MultiSignVer pub"
    using assms(2) caches_get unfolding caches_ok_def by metis
  then show ?thesis using Some assms by (simp add: MultiSignAddress_def)
qed

lemma dom_add: "evicting add \<Longrightarrow> k' \<in> dom (add c k v) \<Longrightarrow> k' = k \<or> k' \<in> dom c"
  unfolding evicting_def map_le_def by (metis domI domIff fun_upd_other)

lemma ExecAddress_run:
  assumes "addr_libs e" and "caches_ok e s"
  shows "\<exists>s'. ExecAddress_text e name s =
      (if length name \<le> MaxExecNameLength
       then Ret (addr_text e NormalVer (Sha2Sum e (addrSeed @ name))) else Panic ''name too long'', s') \<and>
      caches_ok e s'"
proof (cases "addressCache s name")
  case None
  let ?t = "addr_text e NormalVer (Sha2Sum e (addrSeed @ name))"
  have "caches_ok e (s\<lparr>addressCache := lruStr e (addressCache s) name ?t\<rparr>)" if "length name \<le> MaxExecNameLength"
    using assms(2) that dom_add [of "lruStr e" _ "addressCache s" name ?t]
    by (auto simp: caches_ok_def intro: caches_add)
  then show ?thesis
    using None assms
    by (simp add: ExecAddress_text_def GetExecAddress_def ExecPubkey_def PubKeyToAddress_def String_HashToAddress Let_def)
next
  case (Some v)
  then have "v = addr_text e NormalVer (Sha2Sum e (addrSeed @ name))" "length name \<le> MaxExecNameLength"
    using assms(2) caches_get unfolding caches_ok_def by (metis, blast)
  then show ?thesis using Some assms by (simp add: ExecAddress_text_def)
qed

subsection \<open>Sequences of calls\<close>

datatype addr_call =
    CallPubKeyToAddr bytes | CallMultiSignAddress bytes | CallExecAddress string
  | CallCheckAddress string | CallCheckMultiSignAddress string

datatype addr_reply = Text "string outcome" | Verdict "error option"

fun addr_step :: "addr_env \<Rightarrow> addr_call \<Rightarrow> AddrCaches \<Rightarrow> addr_reply \<times> AddrCaches" where
  "addr_step e (CallPubKeyToAddr b) s = map_prod Text id (PubKeyToAddr e b s)"
| "addr_step e (CallMultiSignAddress b) s = map_prod Text id (MultiSignAddress e b s)"
| "addr_step e (CallExecAddress n) s = map_prod Text id (ExecAddress_text e n s)"
| "addr_step e (CallCheckAddress a) s = map_prod Verdict id (CheckAddress e a s)"
| "addr_step e (CallCheckMultiSignAddress a) s = map_prod Verdict id (CheckMultiSignAddress e a s)"

fun addr_steps :: "addr_env \<Rightarrow> addr_call list \<Rightarrow> AddrCaches \<Rightarrow> addr_reply list \<times> AddrCaches" where
  "addr_steps e [] s = ([], s)"
| "addr_steps e (c # cs) s =
     (let (r, s1) = addr_step e c s; (rs, s2) = addr_steps e cs s1 in (r # rs, s2))"

definition no_caches :: AddrCaches where
  "no_caches = \<lparr>addressCache = Map.empty, pubkeyCache = Map.empty, multisignCache = Map.empty,
     checkAddressCache = Map.empty, multiCheckAddressCache = Map.empty\<rparr>"

lemma no_caches_ok: "evicting (lruStr e) \<Longrightarrow> evicting (lruErr e) \<Longrightarrow> caches_ok e no_caches"
  by (simp add: caches_ok_def no_caches_def caches_def)

text \<open>The reply of a call, computed without any cache.\<close>

fun addr_spec :: "addr_env \<Rightarrow> addr_call \<Rightarrow> addr_reply" where
  "addr_spec e (CallPubKeyToAddr b) = Text (Ret (addr_text e NormalVer b))"
| "addr_spec e (CallMultiSignAddress b) = Text (Ret (addr_text e MultiSignVer b))"
| "addr_spec e (CallExecAddress n) =
     Text (if length n \<le> 100 then Ret (addr_text e NormalVer (Sha2Sum e (addrSeed @ n)))
           else Panic ''name too long'')"
| "addr_spec e (CallCheckAddress a) = Verdict (verdict e NormalVer a)"
| "addr_spec e (CallCheckMultiSignAddress a) = Verdict (verdict e MultiSignVer a)"

lemma addr_step_spec:
  assumes "addr_libs e" and "caches_ok e s"
  shows "\<exists>s'. addr_step e c s = (addr_spec e c, s') \<and> caches_ok e s'"
proof (cases c)
  case (CallPubKeyToAddr b)
  then show ?thesis using PubKeyToAddr_run [OF assms, of b] by auto
next
  case (CallMultiSignAddress b)
  then show ?thesis using MultiSignAddress_run [OF assms, of b] by auto
next
  case (CallExecAddress n)
  then show ?thesis using ExecAddress_run [OF assms, of n] by (auto simp: MaxExecNameLength_def)
next
  case (CallCheckAddress a)
  then show ?thesis using CheckAddress_run [OF assms, of a] by auto
next
  case (CallCheckMultiSignAddress a)
  then show ?thesis using CheckMultiSignAddress_run [OF assms, of a] by auto
qed

lemma addr_steps_spec:
  "addr_libs e \<Longrightarrow> caches_ok e s \<Longrightarrow>
     fst (addr_steps e cs s) = map (addr_spec e) cs \<and> caches_ok e (snd (addr_steps e cs s))"
proof (induction cs arbitrary: s)
  case (Cons c cs)
  then obtain s' where "addr_step e c s = (addr_spec e c, s')" and "caches_ok e s'"
    using addr_step_spec by blast
  with Cons show ?case by (auto simp: case_prod_unfold)
qed simp

text \<open>
  C32. Whatever calls have gone before and whatever the LRU caches have evicted, each function of the
  package answers what it computes with no cache at all: the texts of public keys, of multi-signature
  keys and of executor names (a name of more than 100 bytes panics), and the verdicts on a text.
\<close>

theorem addr_caches_transparent:
  assumes "addr_libs e" and "evicting (lruStr e)" and "evicting (lruErr e)"
  shows "fst (addr_steps e cs no_caches) = map (addr_spec e) cs"
  using addr_steps_spec [OF assms(1) no_caches_ok [OF assms(2,3)]] by blast

definition plain_addr :: "(bytes \<Rightarrow> bytes) \<Rightarrow> addr_env" where
  "plain_addr H = \<lparr>Sum256 = H, Ripemd160 = (\<lambda>b. take 20 (H b)), b58Encode = base58_Encode,
     b58Decode = base58_Decode, lruStr = (\<lambda>c k v. c(k \<mapsto> v)), lruErr = (\<lambda>c k v. [k \<mapsto> v])\<rparr>"

lemma plain_addr_libs:
  "(\<And>b. length (H b) = 32) \<Longrightarrow>
     addr_libs (plain_addr H) \<and> evicting (lruStr (plain_addr H)) \<and> evicting (lruErr (plain_addr H))"
  by (simp add: addr_libs_def plain_addr_def base58_round_trip evicting_def map_le_def)

definition pad_hash :: "bytes \<Rightarrow> bytes" where
  "pad_hash b = take 32 (rev b @ zeros 32)"

lemma pad_hash_libs:
  "addr_libs (plain_addr pad_hash)" "evicting (lruStr (plain_addr pad_hash))" "evicting (lruErr (plain_addr pad_hash))"
  using plain_addr_libs [of pad_hash] by (auto simp: pad_hash_def)

theorem addr_caches_transparent_witness:
  "addr_libs (plain_addr pad_hash) \<and> evicting (lruStr (plain_addr pad_hash)) \<and>
   evicting (lruErr (plain_addr pad_hash)) \<and>
   fst (addr_steps (plain_addr pad_hash)
     [CallExecAddress ''coins'', CallCheckAddress ''1'', CallExecAddress ''coins''] no_caches) =
   map (addr_spec (plain_addr pad_hash)) [CallExecAddress ''coins'', CallCheckAddress ''1'', CallExecAddress ''coins'']"
  using addr_caches_transparent [OF pad_hash_libs] pad_hash_libs by blast

lemma length_Sha2Sum: "addr_libs e \<Longrightarrow> length (Sha2Sum e b) = 32"
  by (simp add: addr_libs_def Sha2Sum_def)

lemma verdict_text:
  assumes "addr_libs e" and "length body > 20"
  shows "verdict e ver (b58Encode e (body @ take 4 (Sha2Sum e body))) =
     (if body ! 0 = ver then None else Some ErrCheckVersion)"
  using assms length_Sha2Sum [OF assms(1), of body]
  by (auto simp: verdict_def addr_libs_def checksum_def Sha2Sum_def nth_append)

text \<open>
  C31. An address the package prints it also accepts: \<^verbatim>\<open>CheckAddress\<close> has no error for a normal
  address and a version error for any other, in every state the caches can be in, and
  \<^verbatim>\<open>NewAddrFromString\<close> gives back the version, the hash and the checksum.
\<close>

theorem addr_round_trip:
  assumes "addr_libs e" and "caches_ok e s"
  shows "let a = fst (Address_String e (HashToAddress e ver pub)) in
      fst (CheckAddress e a s) = (if ver = NormalVer then None else Some ErrCheckVersion) \<and>
      NewAddrFromString e a =
        (Some \<lparr>Version = ver, Hash160 = Rimp160 e pub,
               Checksum = Some (take 4 (Sha2Sum e (ver # Rimp160 e pub))), Pubkey = [], Enc58str = a\<rparr>, None)"
proof -
  let ?a = "fst (Address_String e (HashToAddress e ver pub))"
  have r: "Rimp160 e pub = Ripemd160 e (Sum256 e pub)" and l: "length (Ripemd160 e (Sum256 e pub)) = 20"
    using assms(1) by (simp_all add: Rimp160_def rimpHash_def addr_libs_def)
  have a: "?a = b58Encode e (addr_body e ver pub @ take 4 (Sha2Sum e (addr_body e ver pub)))"
    using String_HashToAddress [OF assms(1)] by (simp add: addr_text_def)
  have "verdict e NormalVer ?a = (if ver = NormalVer then None else Some ErrCheckVersion)"
    unfolding a using l by (subst verdict_text [OF assms(1)]) (auto simp: addr_body_def)
  then have "fst (CheckAddress e ?a s) = (if ver = NormalVer then None else Some ErrCheckVersion)"
    using CheckAddress_run [OF assms, of ?a] by auto
  moreover have "NewAddrFromString e ?a =
      (Some \<lparr>Version = ver, Hash160 = Rimp160 e pub,
             Checksum = Some (take 4 (Sha2Sum e (ver # Rimp160 e pub))), Pubkey = [], Enc58str = ?a\<rparr>, None)"
    using assms(1) l length_Sha2Sum [OF assms(1), of "ver # Ripemd160 e (Sum256 e pub)"] unfolding r a
    by (simp add: NewAddrFromString_def addr_libs_def addr_body_def newAddress_def)
  ultimately show ?thesis by (simp add: Let_def)
qed

theorem addr_round_trip_witness:
  "addr_libs (plain_addr pad_hash) \<and> caches_ok (plain_addr pad_hash) no_caches \<and>
   fst (CheckAddress (plain_addr pad_hash)
     (fst (Address_String (plain_addr pad_hash) (HashToAddress (plain_addr pad_hash) NormalVer ''key''))) no_caches) = None"
  using addr_round_trip [OF pad_hash_libs(1) no_caches_ok [OF pad_hash_libs(2,3)], of NormalVer "''key''"]
    pad_hash_libs no_caches_ok by (simp add: Let_def)

lemma verdict_None:
  assumes "addr_libs e"
  shows "verdict e ver a = None \<longleftrightarrow>
      (\<exists>dec. b58Decode e a = Some dec \<and> 25 \<le> length dec \<and> dec ! 0 = ver \<and>
         drop (length dec - 4) dec = take 4 (Sha2Sum e (take (length dec - 4) dec)))"
proof -
  have "checksum e b = take 4 (Sha2Sum e b)" for b
    using length_Sha2Sum [OF assms, of b] by (simp add: checksum_def Sha2Sum_def)
  then show ?thesis by (cases "b58Decode e a") (auto simp: verdict_def)
qed

text \<open>
  C34. \<^verbatim>\<open>CheckAddress\<close> has no error for exactly the texts whose base58 decoding has at least 25 bytes,
  starts with the version of normal addresses and ends with the first four bytes of the double
  SHA-256 of what stands before. The decoding may be longer than the 25 bytes of an address; for
  such a text \<^verbatim>\<open>NewAddrFromString\<close> returns a nil address and a nil error.
\<close>

theorem CheckAddress_exact:
  assumes "addr_libs e" and "caches_ok e s"
  shows "(fst (CheckAddress e a s) = None \<longleftrightarrow>
      (\<exists>dec. b58Decode e a = Some dec \<and> 25 \<le> length dec \<and> dec ! 0 = NormalVer \<and>
         drop (length dec - 4) dec = take 4 (Sha2Sum e (take (length dec - 4) dec)))) \<and>
    (\<forall>dec. b58Decode e a = Some dec \<and> 25 < length dec \<longrightarrow> NewAddrFromString e a = (None, None))"
  using CheckAddress_run [OF assms, of a] verdict_None [OF assms(1), of NormalVer a]
  by (auto simp: NewAddrFromString_def)

definition long_address :: bytes where
  "long_address = zeros 22 @ take 4 (Sha2Sum (plain_addr pad_hash) (zeros 22))"

theorem CheckAddress_exact_witness:
  "fst (CheckAddress (plain_addr pad_hash) (base58_Encode long_address) no_caches) = None \<and>
   NewAddrFromString (plain_addr pad_hash) (base58_Encode long_address) = (None, None)"
proof -
  let ?e = "plain_addr pad_hash"
  note fact = CheckAddress_exact [OF pad_hash_libs(1) no_caches_ok [OF pad_hash_libs(2,3)], of "base58_Encode long_address"]
  have d: "b58Decode ?e (base58_Encode long_address) = Some long_address"
    by (simp add: plain_addr_def base58_round_trip)
  have l: "length long_address = 26" by (simp add: long_address_def length_Sha2Sum [OF pad_hash_libs(1)])
  have "long_address ! 0 = NormalVer" by (simp add: long_address_def zeros_def NormalVer_def nth_append)
  moreover have "drop 22 long_address = take 4 (Sha2Sum ?e (take 22 long_address))"
    by (simp add: long_address_def)
  ultimately show ?thesis using fact d l by auto
qed

end
