(* ===== verification/Tx.thy ===== *)
theory Tx
  imports ChainConfig Address
begin

text \<open>
  Transactions and transaction groups, \<^verbatim>\<open>src/types/tx.go\<close>: hashes, fees, expiry, the check of a
  single transaction, and the construction, the packing and the check of a group. The protobuf
  library and the signature plugins are parameters (\<open>tx_env\<close>, which extends the libraries of
  \<open>Address\<close>); the chain configuration is the field \<open>conf\<close>. A \<^verbatim>\<open>[]byte\<close> field that the code compares
  with nil (\<^verbatim>\<open>Header\<close>, \<^verbatim>\<open>Next\<close>) is an option; the transactions of a slice are distinct objects.
\<close>

record Signature =
  sigTy :: int
  sigPubkey :: bytes
  sigSignature :: bytes

record Transaction =
  Execer :: bytes
  Payload :: bytes
  txSignature :: "Signature option"
  Fee :: int
  Expire :: int
  Nonce :: int
  To :: string
  GroupCount :: int
  Header :: "bytes option"
  Next :: "bytes option"

text \<open>
  \<open>EncodeTx\<close>, \<open>EncodeTxs\<close> and \<open>DecodeTxs\<close> are \<^verbatim>\<open>proto.Marshal\<close> and \<^verbatim>\<open>proto.Unmarshal\<close> at the messages
  \<^verbatim>\<open>Transaction\<close> and \<^verbatim>\<open>Transactions\<close>, \<open>SizeTx\<close> is \<^verbatim>\<open>proto.Size\<close>, \<open>VerifySign\<close> the verification of a
  signature by the plugin of its type.
\<close>

record tx_env = addr_env +
  EncodeTx :: "Transaction \<Rightarrow> bytes"
  SizeTx :: "Transaction \<Rightarrow> int"
  EncodeTxs :: "Transaction list \<Rightarrow> bytes"
  DecodeTxs :: "bytes \<Rightarrow> Transaction list option"
  VerifySign :: "bytes \<Rightarrow> string \<Rightarrow> Signature \<Rightarrow> bool"
  conf :: ChainConf

definition MaxTxSize :: int where
  "MaxTxSize = 100000"

definition MaxTxGroupSize :: int where
  "MaxTxGroupSize = 20"

definition ExpireBound :: int where
  "ExpireBound = 1000000000"

definition TxHeightFlag :: int where
  "TxHeightFlag = 2 ^ 62"

definition HighAllowPackHeight :: int where
  "HighAllowPackHeight = 90"

definition LowAllowPackHeight :: int where
  "LowAllowPackHeight = 30"

text \<open>\<^verbatim>\<open>bytes.Equal\<close> does not tell nil from the empty slice.\<close>

definition raw :: "bytes option \<Rightarrow> bytes" where
  "raw b = (case b of None \<Rightarrow> [] | Some x \<Rightarrow> x)"

subsection \<open>A single transaction\<close>

definition Tx_Hash :: "'a tx_env_scheme \<Rightarrow> Transaction \<Rightarrow> bytes" where
  "Tx_Hash e tx = Sum256 e (EncodeTx e (tx\<lparr>txSignature := None, Header := None\<rparr>))"

definition HashSign :: "'a tx_env_scheme \<Rightarrow> Transaction \<Rightarrow> bytes" where
  "HashSign e tx = Sum256 e (EncodeTx e (tx\<lparr>txSignature := None\<rparr>))"

definition Tx_From :: "'a tx_env_scheme \<Rightarrow> Transaction \<Rightarrow> string" where
  "Tx_From e tx =
     (let pubkey = (case txSignature tx of None \<Rightarrow> [] | Some sg \<Rightarrow> sigPubkey sg) in
      fst (Address_String (addr_env.truncate e) (HashToAddress (addr_env.truncate e) NormalVer pubkey)))"

definition checkSign_tx :: "'a tx_env_scheme \<Rightarrow> Transaction \<Rightarrow> bool" where
  "checkSign_tx e tx =
     (let data = EncodeTx e (tx\<lparr>txSignature := None\<rparr>) in
      case txSignature tx of None \<Rightarrow> False | Some sg \<Rightarrow> VerifySign e data (Execer tx) sg)"

text \<open>A private key: its type and public key and its signing function.\<close>

record PrivKey =
  keyPub :: bytes
  keySign :: "bytes \<Rightarrow> bytes"

definition Tx_Sign :: "'a tx_env_scheme \<Rightarrow> int \<Rightarrow> PrivKey \<Rightarrow> Transaction \<Rightarrow> Transaction" where
  "Tx_Sign e ty priv tx =
     (let data = EncodeTx e (tx\<lparr>txSignature := None\<rparr>)
      in tx\<lparr>txSignature := Some \<lparr>sigTy = ty, sigPubkey = keyPub priv, sigSignature = keySign priv data\<rparr>\<rparr>)"

definition check_tx :: "'a tx_env_scheme \<Rightarrow> int \<Rightarrow> int \<Rightarrow> int \<Rightarrow> Transaction \<Rightarrow> unit outcome" where
  "check_tx e height minfee maxFee tx =
     (let txSize = SizeTx e tx in
      if txSize > MaxTxSize then Err ErrTxMsgSizeTooBig
      else if minfee = 0 then Ret ()
      else if Fee tx < i64 ((txSize div 1000 + 1) * minfee) then Err ErrTxFeeTooLow
      else if Fee tx > maxFee \<and> maxFee > 0 then
        obind (types_IsFork (conf e) height ''ForkBlockCheck'')
          (\<lambda>fork. if fork then Err ErrTxFeeTooHigh else Ret ())
      else Ret ())"

definition GetRealFee :: "'a tx_env_scheme \<Rightarrow> int \<Rightarrow> Transaction \<Rightarrow> int outcome" where
  "GetRealFee e minFee tx =
     (let txSize = SizeTx e tx + (if txSignature tx = None then 300 else 0) in
      if txSize > MaxTxSize then Err ErrTxMsgSizeTooBig
      else Ret (i64 ((txSize div 1000 + 1) * minFee)))"

definition SetRealFee :: "'a tx_env_scheme \<Rightarrow> int \<Rightarrow> Transaction \<Rightarrow> Transaction outcome" where
  "SetRealFee e minFee tx =
     (if Fee tx = 0 then obind (GetRealFee e minFee tx) (\<lambda>fee. Ret (tx\<lparr>Fee := fee\<rparr>)) else Ret tx)"

definition GetTxHeight :: "'a tx_env_scheme \<Rightarrow> int \<Rightarrow> int \<Rightarrow> int outcome" where
  "GetTxHeight e valid height =
     obind (IsEnable (conf e) ''TxHeight'') (\<lambda>enable.
     obind (types_IsEnableFork (conf e) height ''ForkTxHeight'' enable) (\<lambda>on.
       Ret (if on \<and> valid > TxHeightFlag then valid - TxHeightFlag else -1)))"

definition isExpire :: "'a tx_env_scheme \<Rightarrow> Transaction \<Rightarrow> int \<Rightarrow> int \<Rightarrow> bool outcome" where
  "isExpire e tx height blocktime =
     (let valid = Expire tx in
      if valid = 0 then Ret False
      else if valid \<le> ExpireBound then Ret (valid \<le> height)
      else obind (GetTxHeight e valid height) (\<lambda>txHeight.
        if txHeight > 0
        then Ret (\<not> (i64 (txHeight - LowAllowPackHeight) \<le> height \<and> height \<le> i64 (txHeight + HighAllowPackHeight)))
        else Ret (valid \<le> blocktime)))"

text \<open>\<^verbatim>\<open>SetExpire\<close>: \<open>expire\<close> is a duration in nanoseconds or a height; \<open>now\<close> is the clock in seconds.\<close>

definition SetExpire :: "'a tx_env_scheme \<Rightarrow> int \<Rightarrow> int \<Rightarrow> Transaction \<Rightarrow> Transaction outcome" where
  "SetExpire e now expire tx =
     obind (IsEnable (conf e) ''TxHeight'') (\<lambda>on.
       if on \<and> expire > TxHeightFlag then Ret (tx\<lparr>Expire := expire\<rparr>)
       else if expire > ExpireBound then
         (let ex = (if expire < 120 * 1000000000 then 120 * 1000000000 else expire)
          in Ret (tx\<lparr>Expire := i64 (now + ex div 1000000000)\<rparr>))
       else Ret (tx\<lparr>Expire := expire\<rparr>))"

subsection \<open>Groups\<close>

definition GetTxGroup :: "'a tx_env_scheme \<Rightarrow> Transaction \<Rightarrow> Transaction list option outcome" where
  "GetTxGroup e tx =
     (if GroupCount tx < 0 \<or> GroupCount tx = 1 \<or> GroupCount tx > 20 then Err ErrTxGroupCount
      else if GroupCount tx > 0 then
        (case DecodeTxs e (raw (Header tx)) of
           None \<Rightarrow> Err (ErrOther ''proto'')
         | Some txs \<Rightarrow> Ret (Some txs))
      else if Next tx \<noteq> None \<or> Header tx \<noteq> None then Err ErrNomalTx
      else Ret None)"

text \<open>
  The loop of \<^verbatim>\<open>CreateTxGroup\<close> from the last transaction to the first, over the caller's slice;
  \<open>Suc i\<close> transactions are left.
\<close>

fun create_loop :: "'a tx_env_scheme \<Rightarrow> nat \<Rightarrow> int \<Rightarrow> int \<Rightarrow> bytes \<Rightarrow> (Transaction list, bytes) prog" where
  "create_loop e 0 totalfee minfee header txs = ret header txs"
| "create_loop e (Suc i) totalfee minfee header txs =
     (let totalfee1 = i64 (totalfee + Fee (txs ! i));
          t = (txs ! i)\<lparr>GroupCount := i32 (int (length txs)), Header := Some header,
                        Fee := (if i = 0 then 2 ^ 62 else 0)\<rparr>;
          txs1 = txs[i := t]
      in case GetRealFee e (GInt (conf e) ''MinFee'') t of
           Err er \<Rightarrow> fail er txs1
         | Panic p \<Rightarrow> panic p txs1
         | Ret realfee \<Rightarrow>
             (let minfee1 = i64 (minfee + realfee) in
              if i = 0 then
                (let totalfee2 = (if totalfee1 < minfee1 then minfee1 else totalfee1);
                     t0 = t\<lparr>Fee := totalfee2\<rparr>
                 in create_loop e 0 totalfee2 minfee1 (Tx_Hash e t0) (txs1[0 := t0]))
              else
                create_loop e i totalfee1 minfee1 header
                  (txs1[i - 1 := (txs1 ! (i - 1))\<lparr>Next := Some (Tx_Hash e t)\<rparr>])))"

definition CreateTxGroup :: "'a tx_env_scheme \<Rightarrow> (Transaction list, unit) prog" where
  "CreateTxGroup e txs =
     (if length txs < 2 then fail ErrTxGroupCountLessThanTwo txs
      else bind (create_loop e (length txs) 0 0 (Tx_Hash e (txs ! 0)))
             (\<lambda>header txs'. ret () (map (\<lambda>t. t\<lparr>Header := Some header\<rparr>) txs')) txs)"

text \<open>\<^verbatim>\<open>Transactions.Tx\<close> returns nil for fewer than two transactions.\<close>

definition Group_Tx :: "'a tx_env_scheme \<Rightarrow> Transaction list \<Rightarrow> Transaction option" where
  "Group_Tx e txs =
     (if length txs < 2 then None else Some ((txs ! 0)\<lparr>Header := Some (EncodeTxs e txs)\<rparr>))"

definition SignN :: "'a tx_env_scheme \<Rightarrow> nat \<Rightarrow> int \<Rightarrow> PrivKey \<Rightarrow> (Transaction list, unit) prog" where
  "SignN e n ty priv txs =
     (if n \<ge> length txs then fail ErrIndex txs
      else ret () (txs[n := Tx_Sign e ty priv (txs ! n)]))"

fun Group_CheckSign :: "'a tx_env_scheme \<Rightarrow> Transaction list \<Rightarrow> bool" where
  "Group_CheckSign e [] = True"
| "Group_CheckSign e (t # txs) = (if \<not> checkSign_tx e t then False else Group_CheckSign e txs)"

fun rebuild_loop :: "'a tx_env_scheme \<Rightarrow> nat \<Rightarrow> bytes \<Rightarrow> Transaction list \<Rightarrow> bytes \<times> Transaction list" where
  "rebuild_loop e 0 header txs = (header, txs)"
| "rebuild_loop e (Suc i) header txs =
     (let t = (txs ! i)\<lparr>Header := Some header\<rparr>;
          txs1 = txs[i := t]
      in if i = 0 then rebuild_loop e 0 (Tx_Hash e t) txs1
         else rebuild_loop e i header
                (txs1[i - 1 := (txs1 ! (i - 1))\<lparr>Next := Some (Tx_Hash e t)\<rparr>]))"

definition RebuiltGroup :: "'a tx_env_scheme \<Rightarrow> (Transaction list, unit) prog" where
  "RebuiltGroup e txs =
     (if txs = [] then panic ''index out of range'' txs
      else let (header, txs') = rebuild_loop e (length txs) (Tx_Hash e (txs ! 0)) txs
           in ret () (map (\<lambda>t. t\<lparr>Header := Some header\<rparr>) txs'))"

definition Group_SetExpire :: "'a tx_env_scheme \<Rightarrow> int \<Rightarrow> nat \<Rightarrow> int \<Rightarrow> Transaction list \<Rightarrow> Transaction list outcome" where
  "Group_SetExpire e now n expire txs =
     (if n \<ge> length txs then Ret txs
      else obind (SetExpire e now expire (txs ! n)) (\<lambda>t. Ret (txs[n := t])))"

fun Group_IsExpire :: "'a tx_env_scheme \<Rightarrow> Transaction list \<Rightarrow> int \<Rightarrow> int \<Rightarrow> bool outcome" where
  "Group_IsExpire e [] height blocktime = Ret False"
| "Group_IsExpire e (t # txs) height blocktime =
     obind (isExpire e t height blocktime)
       (\<lambda>ex. if ex then Ret True else Group_IsExpire e txs height blocktime)"

text \<open>The first loop of \<^verbatim>\<open>Transactions.Check\<close>; the value is the list of titles it has seen.\<close>

fun check_each :: "'a tx_env_scheme \<Rightarrow> int \<Rightarrow> int \<Rightarrow> string list \<Rightarrow> Transaction option list \<Rightarrow> string list outcome" where
  "check_each e height maxFee para [] = Ret para"
| "check_each e height maxFee para (None # txs) = Err ErrTxGroupEmpty"
| "check_each e height maxFee para (Some t # txs) =
     obind (check_tx e height 0 maxFee t) (\<lambda>_.
       check_each e height maxFee
         (case GetParaExecTitleName (Execer t) of
            Some ti \<Rightarrow> List.insert ti para | None \<Rightarrow> para) txs)"

definition check_para :: "'a tx_env_scheme \<Rightarrow> int \<Rightarrow> string list \<Rightarrow> Transaction list \<Rightarrow> unit outcome" where
  "check_para e height para txs =
     obind (types_IsFork (conf e) height ''ForkTxGroupPara'') (\<lambda>fork.
       if fork then
         (if length para > 1 then Err ErrTxGroupParaCount
          else if length para > 0 \<and> (\<exists>t \<in> set txs. \<not> IsParaExecName (Execer t))
          then Err ErrTxGroupParaMainMixed
          else Ret ())
       else Ret ())"

fun sum_fees :: "'a tx_env_scheme \<Rightarrow> int \<Rightarrow> int \<Rightarrow> Transaction list \<Rightarrow> int outcome" where
  "sum_fees e minfee totalfee [] = Ret totalfee"
| "sum_fees e minfee totalfee (t # txs) =
     obind (GetRealFee e minfee t) (\<lambda>fee. sum_fees e minfee (i64 (totalfee + fee)) txs)"

text \<open>The last loop of \<^verbatim>\<open>Check\<close>, from the transaction \<open>i\<close> on.\<close>

fun check_links :: "'a tx_env_scheme \<Rightarrow> nat \<Rightarrow> bytes option \<Rightarrow> nat \<Rightarrow> Transaction list \<Rightarrow> unit outcome" where
  "check_links e n head i [] = Ret ()"
| "check_links e n head i (t # txs) =
     (if i = 0 \<and> Tx_Hash e t \<noteq> raw (Header t) then Err ErrTxGroupHeader
      else if i \<noteq> 0 \<and> raw head \<noteq> raw (Header t) then Err ErrTxGroupHeader
      else if GroupCount t > MaxTxGroupSize then Err ErrTxGroupCountBigThanMaxSize
      else if GroupCount t \<noteq> i32 (int n) then Err ErrTxGroupCount
      else (case txs of
              u # _ \<Rightarrow> if raw (Next t) \<noteq> Tx_Hash e u then Err ErrTxGroupNext
                       else check_links e n head (Suc i) txs
            | [] \<Rightarrow> if Next t \<noteq> None then Err ErrTxGroupNext else Ret ()))"

definition Group_Check :: "'a tx_env_scheme \<Rightarrow> int \<Rightarrow> int \<Rightarrow> int \<Rightarrow> Transaction option list \<Rightarrow> unit outcome" where
  "Group_Check e height minfee maxFee ptxs =
     (if length ptxs < 2 then Err ErrTxGroupCountLessThanTwo
      else obind (check_each e height maxFee [] ptxs) (\<lambda>para.
        let txs = map the ptxs in
        obind (check_para e height para txs) (\<lambda>_.
        if \<exists>t \<in> set (tl txs). Fee t \<noteq> 0 then Err ErrTxGroupFeeNotZero
        else obind (sum_fees e minfee 0 txs) (\<lambda>totalfee.
          if Fee (txs ! 0) < totalfee then Err ErrTxFeeTooLow
          else obind (if Fee (txs ! 0) > maxFee \<and> maxFee > 0
                      then types_IsFork (conf e) height ''ForkBlockCheck'' else Ret False) (\<lambda>high.
            if high then Err ErrTxFeeTooHigh
            else check_links e (length txs) (Header (txs ! 0)) 0 txs)))))"

subsection \<open>A transaction or a group\<close>

definition Tx_Check :: "'a tx_env_scheme \<Rightarrow> int \<Rightarrow> int \<Rightarrow> int \<Rightarrow> Transaction \<Rightarrow> unit outcome" where
  "Tx_Check e height minfee maxFee tx =
     obind (GetTxGroup e tx) (\<lambda>group.
       case group of
         None \<Rightarrow> check_tx e height minfee maxFee tx
       | Some txs \<Rightarrow> Group_Check e height minfee maxFee (map Some txs))"

text \<open>\<^verbatim>\<open>IsExpire\<close> ignores the error of \<^verbatim>\<open>GetTxGroup\<close>: the group is then nil.\<close>

definition Tx_IsExpire :: "'a tx_env_scheme \<Rightarrow> Transaction \<Rightarrow> int \<Rightarrow> int \<Rightarrow> bool outcome" where
  "Tx_IsExpire e tx height blocktime =
     (case GetTxGroup e tx of
        Ret (Some txs) \<Rightarrow> Group_IsExpire e txs height blocktime
      | _ \<Rightarrow> isExpire e tx height blocktime)"

definition GetTxFee :: "'a tx_env_scheme \<Rightarrow> Transaction \<Rightarrow> int outcome" where
  "GetTxFee e tx =
     (case GetTxGroup e tx of
        Ret (Some txs) \<Rightarrow> (if txs = [] then Panic ''index out of range'' else Ret (Fee (txs ! 0)))
      | _ \<Rightarrow> Ret (Fee tx))"

subsection \<open>Cached transactions\<close>

text \<open>
  \<^verbatim>\<open>TransactionCache\<close>: a transaction with the results computed so far. The cached payload value is
  not modelled.
\<close>

record TransactionCache =
  cTx :: Transaction
  txGroup :: "Transaction list option"
  cHash :: "bytes option"
  cSize :: int
  signok :: int
  checkok :: "error option"
  checked :: bool

definition NewTransactionCache :: "Transaction \<Rightarrow> TransactionCache" where
  "NewTransactionCache tx = \<lparr>cTx = tx, txGroup = None, cHash = None, cSize = 0, signok = 0,
     checkok = None, checked = False\<rparr>"

definition Cache_Hash :: "'a tx_env_scheme \<Rightarrow> (TransactionCache, bytes) prog" where
  "Cache_Hash e tx =
     (case cHash tx of
        Some h \<Rightarrow> ret h tx
      | None \<Rightarrow> let h = Tx_Hash e (cTx tx) in ret h (tx\<lparr>cHash := Some h\<rparr>))"

definition Cache_Size :: "'a tx_env_scheme \<Rightarrow> (TransactionCache, int) prog" where
  "Cache_Size e tx =
     (let tx' = (if cSize tx = 0 then tx\<lparr>cSize := SizeTx e (cTx tx)\<rparr> else tx) in ret (cSize tx') tx')"

definition Cache_GetTxGroup :: "'a tx_env_scheme \<Rightarrow> (TransactionCache, Transaction list option) prog" where
  "Cache_GetTxGroup e tx =
     (case txGroup tx of
        Some g \<Rightarrow> ret (Some g) tx
      | None \<Rightarrow>
          (case GetTxGroup e (cTx tx) of
             Err er \<Rightarrow> fail er (tx\<lparr>txGroup := None\<rparr>)
           | Panic p \<Rightarrow> panic p tx
           | Ret g \<Rightarrow> ret g (tx\<lparr>txGroup := g\<rparr>)))"

definition as_error :: "unit outcome \<Rightarrow> error option outcome" where
  "as_error r = (case r of Ret _ \<Rightarrow> Ret None | Err er \<Rightarrow> Ret (Some er) | Panic p \<Rightarrow> Panic p)"

definition Cache_Check :: "'a tx_env_scheme \<Rightarrow> int \<Rightarrow> int \<Rightarrow> int \<Rightarrow> (TransactionCache, unit) prog" where
  "Cache_Check e height minfee maxFee tx =
     (if checked tx then (case checkok tx of None \<Rightarrow> ret () tx | Some er \<Rightarrow> fail er tx)
      else case Cache_GetTxGroup e (tx\<lparr>checked := True\<rparr>) of
             (Err er, tx1) \<Rightarrow> fail er (tx1\<lparr>checkok := Some er\<rparr>)
           | (Panic p, tx1) \<Rightarrow> panic p tx1
           | (Ret g, tx1) \<Rightarrow>
               (case as_error (case g of
                   None \<Rightarrow> check_tx e height minfee maxFee (cTx tx1)
                 | Some txs \<Rightarrow> Group_Check e height minfee maxFee (map Some txs)) of
                  Ret (Some er) \<Rightarrow> fail er (tx1\<lparr>checkok := Some er\<rparr>)
                | Ret None \<Rightarrow> ret () (tx1\<lparr>checkok := None\<rparr>)
                | Err er \<Rightarrow> fail er tx1
                | Panic p \<Rightarrow> panic p tx1))"

definition Cache_CheckSign :: "'a tx_env_scheme \<Rightarrow> (TransactionCache, bool) prog" where
  "Cache_CheckSign e tx =
     (if signok tx = 0 then
        (case Cache_GetTxGroup e (tx\<lparr>signok := 2\<rparr>) of
           (Err er, tx1) \<Rightarrow> ret False tx1
         | (Panic p, tx1) \<Rightarrow> panic p tx1
         | (Ret g, tx1) \<Rightarrow>
             (let ok = (case g of None \<Rightarrow> checkSign_tx e (cTx tx1) | Some txs \<Rightarrow> Group_CheckSign e txs);
                  tx2 = (if ok then tx1\<lparr>signok := 1\<rparr> else tx1)
              in ret (signok tx2 = 1) tx2))
      else ret (signok tx = 1) tx)"

definition TxsToCache :: "Transaction list \<Rightarrow> TransactionCache list" where
  "TxsToCache txs = map NewTransactionCache txs"

definition CacheToTxs :: "TransactionCache list \<Rightarrow> Transaction list" where
  "CacheToTxs cs = map cTx cs"

end
