(* ===== verification/TxGroup.thy ===== *)
theory TxGroup
  imports Tx Utf8
begin

text \<open>
  Correctness of transaction groups: a group that \<^verbatim>\<open>CreateTxGroup\<close> built and its owners signed
  passes \<^verbatim>\<open>Check\<close>, a group is bound by the hash in its header, and \<^verbatim>\<open>RebuiltGroup\<close> restores the
  links after an edit.
\<close>

definition unsigned :: "Transaction \<Rightarrow> Transaction" where
  "unsigned t = t\<lparr>txSignature := None\<rparr>"

text \<open>What the hash of a transaction covers.\<close>

definition strip :: "Transaction \<Rightarrow> Transaction" where
  "strip t = t\<lparr>txSignature := None, Header := None\<rparr>"

lemma Tx_Hash_strip: "Tx_Hash e t = Sum256 e (EncodeTx e (strip t))"
  by (simp add: Tx_Hash_def strip_def)

lemma Tx_Hash_cong: "strip t = strip u \<Longrightarrow> Tx_Hash e t = Tx_Hash e u"
  by (simp add: Tx_Hash_strip)

lemma strip_upd [simp]:
  "strip (t\<lparr>Header := h\<rparr>) = strip t" "strip (t\<lparr>txSignature := s\<rparr>) = strip t"
  by (simp_all add: strip_def)

lemma Tx_Hash_upd [simp]:
  "Tx_Hash e (t\<lparr>Header := h\<rparr>) = Tx_Hash e t" "Tx_Hash e (t\<lparr>txSignature := s\<rparr>) = Tx_Hash e t"
  by (rule Tx_Hash_cong, simp)+

subsection \<open>What the library promises\<close>

text \<open>
  The size of a message depends on the length of its header, not on its bytes, and a fee up to
  \<open>2 ^ 62\<close> takes at most the room of that fee. The hash has 32 bytes.
\<close>

locale tx_sizes =
  fixes e :: "'a tx_env_scheme"
  assumes size_nonneg: "0 \<le> SizeTx e t"
    and size_header: "length h = length h' \<Longrightarrow>
      SizeTx e (t\<lparr>Header := Some h\<rparr>) = SizeTx e (t\<lparr>Header := Some h'\<rparr>)"
    and size_fee: "0 \<le> f \<Longrightarrow> f \<le> 2 ^ 62 \<Longrightarrow> SizeTx e (t\<lparr>Fee := f\<rparr>) \<le> SizeTx e (t\<lparr>Fee := 2 ^ 62\<rparr>)"
    and hash_length: "length (Sum256 e b) = 32"
begin

lemma length_Tx_Hash: "length (Tx_Hash e t) = 32"
  by (simp add: Tx_Hash_def hash_length)

end

text \<open>
  A transaction as the decoder delivers it: integers of their width, text in UTF-8, no empty slice
  where the decoder leaves nil, and fields of less than 2 GiB.
\<close>

definition short :: "bytes \<Rightarrow> bool" where
  "short b \<longleftrightarrow> length b < 2 ^ 31"

definition wf_sig :: "Signature \<Rightarrow> bool" where
  "wf_sig s \<longleftrightarrow> is_i32 (sigTy s) \<and> short (sigPubkey s) \<and> short (sigSignature s)"

definition wf_tx :: "Transaction \<Rightarrow> bool" where
  "wf_tx t \<longleftrightarrow> short (Execer t) \<and> short (Payload t) \<and> pred_option wf_sig (txSignature t) \<and>
     is_i64 (Fee t) \<and> is_i64 (Expire t) \<and> is_i64 (Nonce t) \<and> is_i32 (GroupCount t) \<and>
     short (To t) \<and> utf8_valid (To t) \<and>
     pred_option (\<lambda>h. short h \<and> h \<noteq> []) (Header t) \<and> pred_option (\<lambda>h. short h \<and> h \<noteq> []) (Next t)"

locale tx_codec = tx_sizes +
  assumes group_round_trip: "list_all wf_tx txs \<Longrightarrow> DecodeTxs e (EncodeTxs e txs) = Some txs"
begin

lemma unpack_group:
  assumes "list_all wf_tx txs" and "2 \<le> length txs" and "length txs \<le> 20"
    and "GroupCount (txs ! 0) = int (length txs)"
  shows "\<exists>t. Group_Tx e txs = Some t \<and> GetTxGroup e t = Ret (Some txs) \<and> Tx_Hash e t = Tx_Hash e (txs ! 0)"
  using assms group_round_trip [OF assms(1)] by (auto simp: Group_Tx_def GetTxGroup_def raw_def)

end

subsection \<open>The loop of CreateTxGroup\<close>

text \<open>The fields that \<^verbatim>\<open>CreateTxGroup\<close> leaves alone.\<close>

definition same_body :: "Transaction \<Rightarrow> Transaction \<Rightarrow> bool" where
  "same_body t u \<longleftrightarrow> Execer t = Execer u \<and> Payload t = Payload u \<and> txSignature t = txSignature u \<and>
     Expire t = Expire u \<and> Nonce t = Nonce u \<and> To t = To u"

text \<open>The fee that the loop computes for a transaction of the finished slice.\<close>

definition build_fee :: "'a tx_env_scheme \<Rightarrow> nat \<Rightarrow> Transaction \<Rightarrow> int outcome" where
  "build_fee e i t = GetRealFee e (GInt (conf e) ''MinFee'') (if i = 0 then t\<lparr>Fee := 2 ^ 62\<rparr> else t)"

definition built :: "'a tx_env_scheme \<Rightarrow> nat \<Rightarrow> bytes \<Rightarrow> Transaction list \<Rightarrow> Transaction list \<Rightarrow> nat \<Rightarrow> bool" where
  "built e k header txs txs' i \<longleftrightarrow> same_body (txs' ! i) (txs ! i) \<and>
     GroupCount (txs' ! i) = i32 (int (length txs)) \<and> Header (txs' ! i) = Some header \<and>
     (0 < i \<longrightarrow> Fee (txs' ! i) = 0) \<and>
     Next (txs' ! i) = (if i + 1 < k then Some (Tx_Hash e (txs' ! (i + 1))) else Next (txs ! i))"

text \<open>One round of the loop: the transaction \<open>i\<close> and its predecessor.\<close>

definition grouped :: "nat \<Rightarrow> bytes \<Rightarrow> Transaction list \<Rightarrow> Transaction" where
  "grouped i header txs = (txs ! i)\<lparr>GroupCount := i32 (int (length txs)), Header := Some header,
     Fee := (if i = 0 then 2 ^ 62 else 0)\<rparr>"

definition link_prev :: "'a tx_env_scheme \<Rightarrow> nat \<Rightarrow> bytes \<Rightarrow> Transaction list \<Rightarrow> Transaction list" where
  "link_prev e i header txs =
     txs[i := grouped i header txs, i - 1 := (txs ! (i - 1))\<lparr>Next := Some (Tx_Hash e (grouped i header txs))\<rparr>]"

lemma create_loop_first:
  "create_loop e (Suc 0) tot minfee header txs =
     (case build_fee e 0 (grouped 0 header txs) of
        Err er \<Rightarrow> (Err er, txs[0 := grouped 0 header txs])
      | Panic p \<Rightarrow> (Panic p, txs[0 := grouped 0 header txs])
      | Ret fee \<Rightarrow>
          (let t0 = (grouped 0 header txs)\<lparr>Fee := max (i64 (tot + Fee (txs ! 0))) (i64 (minfee + fee))\<rparr>
           in (Ret (Tx_Hash e t0), txs[0 := t0])))"
  by (simp add: grouped_def build_fee_def Let_def max_def split: outcome.split)

lemma create_loop_later:
  "0 < i \<Longrightarrow> create_loop e (Suc i) tot minfee header txs =
     (case build_fee e i (grouped i header txs) of
        Err er \<Rightarrow> (Err er, txs[i := grouped i header txs])
      | Panic p \<Rightarrow> (Panic p, txs[i := grouped i header txs])
      | Ret fee \<Rightarrow>
          create_loop e i (i64 (tot + Fee (txs ! i))) (i64 (minfee + fee)) header (link_prev e i header txs))"
  by (simp add: grouped_def build_fee_def link_prev_def Let_def split: outcome.split)

declare create_loop.simps [simp del]

lemma built_prev:
  assumes "0 < i" and "i < length txs" and "length txs' = length txs" and "txs' ! i = grouped i header txs"
    and "\<forall>j < i. built e i header (link_prev e i header txs) txs' j" and "j < Suc i"
  shows "built e (Suc i) header txs txs' j"
proof (cases "j = i")
  case True
  then show ?thesis using assms(1,2,4) by (simp add: built_def same_body_def grouped_def)
next
  case False
  then have "built e i header (link_prev e i header txs) txs' j" using assms by simp
  then show ?thesis
    using assms False by (cases "j = i - 1") (auto simp: built_def same_body_def link_prev_def)
qed

lemma create_loop_built:
  "create_loop e k tot minfee header txs = (Ret h, txs') \<Longrightarrow> 0 < k \<Longrightarrow> k \<le> length txs \<Longrightarrow>
     length txs' = length txs \<and> h = Tx_Hash e (txs' ! 0) \<and>
     (\<forall>i. k \<le> i \<longrightarrow> i < length txs \<longrightarrow> txs' ! i = txs ! i) \<and> (\<forall>i < k. built e k header txs txs' i)"
proof (induction k arbitrary: tot minfee txs)
  case (Suc i)
  show ?case
  proof (cases "i = 0")
    case True
    moreover from Suc.prems(3) have "0 < length txs" by linarith
    ultimately show ?thesis
      using Suc.prems by (auto simp: create_loop_first Let_def built_def same_body_def grouped_def split: outcome.splits)
  next
    case False
    let ?txs = "link_prev e i header txs"
    have l: "length ?txs = length txs" by (simp add: link_prev_def)
    obtain fee where "create_loop e i (i64 (tot + Fee (txs ! i))) (i64 (minfee + fee)) header ?txs = (Ret h, txs')"
      using Suc.prems False by (auto simp: create_loop_later split: outcome.splits)
    from Suc.IH [OF this] have ih: "length txs' = length txs" "h = Tx_Hash e (txs' ! 0)"
      "\<And>j. i \<le> j \<Longrightarrow> j < length txs \<Longrightarrow> txs' ! j = ?txs ! j" "\<forall>j < i. built e i header ?txs txs' j"
      using Suc.prems False l by auto
    have "txs' ! i = grouped i header txs"
      using ih(3) [of i] False Suc.prems by (simp add: link_prev_def)
    moreover have "txs' ! j = txs ! j" if "Suc i \<le> j" "j < length txs" for j
      using ih(3) [of j] that by (simp add: link_prev_def)
    ultimately show ?thesis
      using built_prev [of i txs txs' header e] ih Suc.prems False by auto
  qed
qed simp

subsection \<open>Fees\<close>

definition ret_or :: "'v \<Rightarrow> 'v outcome \<Rightarrow> 'v" where
  "ret_or d r = (case r of Ret v \<Rightarrow> v | _ \<Rightarrow> d)"

lemma ret_or_Ret [simp]: "ret_or d (Ret v) = v"
  by (simp add: ret_or_def)

definition paid_size :: "'a tx_env_scheme \<Rightarrow> Transaction \<Rightarrow> int" where
  "paid_size e t = SizeTx e t + (if txSignature t = None then 300 else 0)"

context tx_sizes
begin

lemma GetRealFee_cases:
  assumes "0 \<le> m" and "m \<le> 2 ^ 40"
  shows "GetRealFee e m t =
      (if paid_size e t > MaxTxSize then Err ErrTxMsgSizeTooBig else Ret ((paid_size e t div 1000 + 1) * m))"
    and "paid_size e t \<le> MaxTxSize \<Longrightarrow> (paid_size e t div 1000 + 1) * m \<le> 2 ^ 47"
    and "0 \<le> (paid_size e t div 1000 + 1) * m"
proof -
  have p: "0 \<le> paid_size e t" using size_nonneg [of t] by (simp add: paid_size_def)
  show nonneg: "0 \<le> (paid_size e t div 1000 + 1) * m" using p assms by (simp add: pos_imp_zdiv_nonneg_iff)
  show bound: "(paid_size e t div 1000 + 1) * m \<le> 2 ^ 47" if "paid_size e t \<le> MaxTxSize"
  proof -
    have "paid_size e t div 1000 \<le> 100" using that by (simp add: MaxTxSize_def)
    then have "(paid_size e t div 1000 + 1) * m \<le> 101 * 2 ^ 40"
      using assms p by (intro mult_mono) (auto simp: pos_imp_zdiv_nonneg_iff)
    also have "\<dots> \<le> (2 ^ 47 :: int)" by simp
    finally show ?thesis .
  qed
  show "GetRealFee e m t =
      (if paid_size e t > MaxTxSize then Err ErrTxMsgSizeTooBig else Ret ((paid_size e t div 1000 + 1) * m))"
    using bound nonneg by (auto simp: GetRealFee_def paid_size_def Let_def i64_id is_i64_def)
qed

lemma build_fee_bounds:
  assumes "build_fee e i t = Ret f" and "0 \<le> GInt (conf e) ''MinFee''" and "GInt (conf e) ''MinFee'' \<le> 2 ^ 40"
  shows "0 \<le> f" and "f \<le> 2 ^ 47"
  using assms(1) GetRealFee_cases [OF assms(2,3), of "if i = 0 then t\<lparr>Fee := 2 ^ 62\<rparr> else t"]
  by (auto simp: build_fee_def split: if_splits)

lemma create_loop_fees:
  assumes m: "0 \<le> GInt (conf e) ''MinFee''" "GInt (conf e) ''MinFee'' \<le> 2 ^ 40"
  shows "create_loop e k tot minfee header txs = (Ret h, txs') \<Longrightarrow> 0 < k \<Longrightarrow> k \<le> length txs \<Longrightarrow>
     (\<And>i. i < k \<Longrightarrow> 0 \<le> Fee (txs ! i) \<and> Fee (txs ! i) \<le> 2 ^ 56) \<Longrightarrow>
     0 \<le> tot \<Longrightarrow> tot + int k * 2 ^ 56 \<le> 2 ^ 62 \<Longrightarrow> 0 \<le> minfee \<Longrightarrow> minfee + int k * 2 ^ 47 \<le> 2 ^ 62 \<Longrightarrow>
     (\<forall>i < k. \<exists>f. build_fee e i (txs' ! i) = Ret f) \<and>
     minfee + (\<Sum>i<k. ret_or 0 (build_fee e i (txs' ! i))) \<le> Fee (txs' ! 0) \<and> Fee (txs' ! 0) \<le> 2 ^ 62"
proof (induction k arbitrary: tot minfee txs)
  case (Suc i)
  let ?g = "grouped i header txs"
  obtain fee where fee: "build_fee e i ?g = Ret fee"
    using Suc.prems(1) by (cases "i = 0") (auto simp: create_loop_first create_loop_later split: outcome.splits)
  note fb = build_fee_bounds [OF fee m]
  have fi: "0 \<le> Fee (txs ! i)" "Fee (txs ! i) \<le> 2 ^ 56" using Suc.prems(4) [of i] by simp_all
  have wrap: "i64 (tot + Fee (txs ! i)) = tot + Fee (txs ! i)" "i64 (minfee + fee) = minfee + fee"
    using fi Suc.prems(5-8) fb by (simp_all add: i64_eq_iff is_i64_def algebra_simps)
  show ?case
  proof (cases "i = 0")
    case True
    have "0 < length txs" using Suc.prems(3) by linarith
    moreover have "build_fee e 0 (?g\<lparr>Fee := f\<rparr>) = Ret fee" for f
      using fee True by (simp add: build_fee_def grouped_def)
    ultimately show ?thesis
      using Suc.prems(1,5-8) fi True fee fb wrap by (auto simp: create_loop_first Let_def)
  next
    case False
    let ?txs = "link_prev e i header txs"
    have run: "create_loop e i (tot + Fee (txs ! i)) (minfee + fee) header ?txs = (Ret h, txs')"
      using Suc.prems(1) False fee wrap by (simp add: create_loop_later)
    have fees: "Fee (?txs ! j) = Fee (txs ! j)" if "j < i" for j
      using that Suc.prems(3) by (cases "j = i - 1") (simp_all add: link_prev_def)
    have "txs' ! i = ?g"
      using create_loop_built [OF run] False Suc.prems(3) by (simp add: link_prev_def)
    moreover have "(\<forall>j < i. \<exists>f. build_fee e j (txs' ! j) = Ret f) \<and>
        minfee + fee + (\<Sum>j<i. ret_or 0 (build_fee e j (txs' ! j))) \<le> Fee (txs' ! 0) \<and> Fee (txs' ! 0) \<le> 2 ^ 62"
    proof (rule Suc.IH [OF run])
      show "0 \<le> Fee (?txs ! j) \<and> Fee (?txs ! j) \<le> 2 ^ 56" if "j < i" for j
        using that fees Suc.prems(4) by simp
    qed (use False Suc.prems(3,5-8) fi fb in \<open>auto simp: link_prev_def algebra_simps\<close>)
    ultimately show ?thesis using fee by (auto simp: less_Suc_eq)
  qed
qed simp

end

subsection \<open>The checks of a group\<close>

definition links_ok :: "'a tx_env_scheme \<Rightarrow> nat \<Rightarrow> bytes \<Rightarrow> Transaction list \<Rightarrow> bool" where
  "links_ok e n header txs \<longleftrightarrow> (\<forall>i < length txs.
     raw (Header (txs ! i)) = header \<and> GroupCount (txs ! i) \<le> 20 \<and> GroupCount (txs ! i) = i32 (int n) \<and>
     (if Suc i < length txs then raw (Next (txs ! i)) = Tx_Hash e (txs ! Suc i) else Next (txs ! i) = None))"

lemma links_ok_Cons:
  "links_ok e n header (t # txs) \<longleftrightarrow> raw (Header t) = header \<and> GroupCount t \<le> 20 \<and> GroupCount t = i32 (int n) \<and>
     (case txs of [] \<Rightarrow> Next t = None | u # _ \<Rightarrow> raw (Next t) = Tx_Hash e u) \<and> links_ok e n header txs"
  by (cases txs) (auto simp: links_ok_def All_less_Suc2)

lemma check_links_step:
  "check_links e n head i (t # u # us) =
     (if i = 0 \<and> Tx_Hash e t \<noteq> raw (Header t) then Err ErrTxGroupHeader
      else if i \<noteq> 0 \<and> raw head \<noteq> raw (Header t) then Err ErrTxGroupHeader
      else if GroupCount t > 20 then Err ErrTxGroupCountBigThanMaxSize
      else if GroupCount t \<noteq> i32 (int n) then Err ErrTxGroupCount
      else if raw (Next t) \<noteq> Tx_Hash e u then Err ErrTxGroupNext
      else check_links e n head (Suc i) (u # us))"
  by (simp add: MaxTxGroupSize_def)

lemma check_links_last:
  "check_links e n head i [t] = Ret () \<longleftrightarrow> (if i = 0 then Tx_Hash e t else raw head) = raw (Header t) \<and>
     GroupCount t \<le> 20 \<and> GroupCount t = i32 (int n) \<and> Next t = None"
  by (auto simp: MaxTxGroupSize_def)

declare check_links.simps [simp del]

lemma links_ok_Nil: "links_ok e n header []"
  by (simp add: links_ok_def)

lemma check_links_later:
  "0 < i \<Longrightarrow> check_links e n head i txs = Ret () \<longleftrightarrow> links_ok e n (raw head) txs"
proof (induction txs arbitrary: i)
  case (Cons t txs)
  show ?case
  proof (cases txs)
    case Nil
    with Cons.prems show ?thesis by (auto simp: links_ok_Cons check_links_last links_ok_Nil)
  next
    case (Cons u us)
    with Cons.prems Cons.IH [of "Suc i"] show ?thesis
      by (auto simp: links_ok_Cons [of e n "raw head" t "u # us"] check_links_step)
  qed
qed (simp add: links_ok_def check_links.simps)

lemma check_links_first:
  assumes "txs \<noteq> []"
  shows "check_links e n (Header (txs ! 0)) 0 txs = Ret () \<longleftrightarrow>
    Tx_Hash e (txs ! 0) = raw (Header (txs ! 0)) \<and> links_ok e n (raw (Header (txs ! 0))) txs"
proof -
  obtain t us where txs: "txs = t # us" using assms by (cases txs) auto
  show ?thesis
  proof (cases us)
    case Nil
    with txs show ?thesis by (auto simp: links_ok_Cons check_links_last links_ok_Nil)
  next
    case (Cons v vs)
    then show ?thesis
      using txs check_links_later [of 1 e n "Header t" us]
      by (auto simp: links_ok_Cons [of e n _ t "v # vs"] check_links_step)
  qed
qed

definition add_title :: "Transaction \<Rightarrow> string list \<Rightarrow> string list" where
  "add_title t para = (case GetParaExecTitleName (Execer t) of Some ti \<Rightarrow> List.insert ti para | None \<Rightarrow> para)"

lemma check_each_run:
  "check_each e height maxFee para (map Some txs) =
     (if \<exists>t \<in> set txs. SizeTx e t > MaxTxSize then Err ErrTxMsgSizeTooBig else Ret (fold add_title txs para))"
  by (induction txs arbitrary: para) (auto simp: check_tx_def add_title_def Let_def)

text \<open>A group of the main chain, or of one parallel chain.\<close>

definition one_chain :: "Transaction list \<Rightarrow> bool" where
  "one_chain txs \<longleftrightarrow> (\<forall>t \<in> set txs. \<not> IsParaExecName (Execer t)) \<or>
     (\<exists>ti. \<forall>t \<in> set txs. GetParaExecTitleName (Execer t) = Some ti)"

lemma one_chain_titles:
  assumes "one_chain txs"
  shows "length (fold add_title txs []) \<le> 1"
    and "fold add_title txs [] \<noteq> [] \<Longrightarrow> \<forall>t \<in> set txs. IsParaExecName (Execer t)"
proof -
  have main: "fold add_title us para = para" if "\<forall>t \<in> set us. \<not> IsParaExecName (Execer t)" for us para
    using that by (induction us arbitrary: para) (auto simp: add_title_def GetParaExecTitleName_def)
  have one: "fold add_title us para \<in> {[], [ti]}"
    if "\<forall>t \<in> set us. GetParaExecTitleName (Execer t) = Some ti" "para \<in> {[], [ti]}" for us para ti
    using that by (induction us arbitrary: para) (simp, fastforce simp: add_title_def)
  have para: "GetParaExecTitleName x = Some ti \<Longrightarrow> IsParaExecName x" for x ti
    by (auto simp: GetParaExecTitleName_def split: if_splits)
  show "length (fold add_title txs []) \<le> 1"
    using assms main [of txs "[]"] one [of txs _ "[]"] unfolding one_chain_def by fastforce
  show "fold add_title txs [] \<noteq> [] \<Longrightarrow> \<forall>t \<in> set txs. IsParaExecName (Execer t)"
    using assms main [of txs "[]"] para unfolding one_chain_def by blast
qed

lemma check_para_one_chain:
  "one_chain txs \<Longrightarrow> types_IsFork (conf e) height ''ForkTxGroupPara'' = Ret b \<Longrightarrow>
     check_para e height (fold add_title txs []) txs = Ret ()"
  using one_chain_titles [of txs] by (cases "fold add_title txs []") (auto simp: check_para_def)

context tx_sizes
begin

definition fee_at :: "int \<Rightarrow> Transaction \<Rightarrow> int" where
  "fee_at m t = (paid_size e t div 1000 + 1) * m"

lemma fee_at_bounds:
  "0 \<le> m \<Longrightarrow> m \<le> 2 ^ 40 \<Longrightarrow> 0 \<le> fee_at m t"
  "0 \<le> m \<Longrightarrow> m \<le> 2 ^ 40 \<Longrightarrow> paid_size e t \<le> MaxTxSize \<Longrightarrow> fee_at m t \<le> 2 ^ 47"
  using GetRealFee_cases [of m t] by (simp_all add: fee_at_def)

lemma sum_fees_run:
  "0 \<le> m \<Longrightarrow> m \<le> 2 ^ 40 \<Longrightarrow> (\<And>t. t \<in> set txs \<Longrightarrow> paid_size e t \<le> MaxTxSize) \<Longrightarrow>
     0 \<le> tot \<Longrightarrow> tot + int (length txs) * 2 ^ 47 \<le> 2 ^ 62 \<Longrightarrow>
     sum_fees e m tot txs = Ret (tot + (\<Sum>t\<leftarrow>txs. fee_at m t))"
proof (induction txs arbitrary: tot)
  case (Cons t txs)
  have b: "0 \<le> fee_at m t" "fee_at m t \<le> 2 ^ 47"
    using fee_at_bounds [OF Cons.prems(1,2), of t] Cons.prems(3) [of t] by simp_all
  have r: "GetRealFee e m t = Ret (fee_at m t)"
    using GetRealFee_cases(1) [OF Cons.prems(1,2), of t] Cons.prems(3) [of t] by (simp add: fee_at_def)
  have w: "i64 (tot + fee_at m t) = tot + fee_at m t"
    using b Cons.prems(4,5) by (simp add: i64_eq_iff is_i64_def algebra_simps)
  show ?case
    using Cons.IH [of "tot + fee_at m t"] Cons.prems b r w by (simp add: algebra_simps)
qed simp

end

subsection \<open>From CreateTxGroup to Check\<close>

text \<open>\<open>s\<close> is \<open>t\<close> with a signature (or still without); a signature field takes at most 300 bytes.\<close>

definition signed_as :: "'a tx_env_scheme \<Rightarrow> Transaction \<Rightarrow> Transaction \<Rightarrow> bool" where
  "signed_as e s t \<longleftrightarrow> unsigned s = t \<and> SizeTx e s \<le> SizeTx e t + 300"

definition grouped_ok :: "'a tx_env_scheme \<Rightarrow> Transaction list \<Rightarrow> Transaction list \<Rightarrow> nat \<Rightarrow> bool" where
  "grouped_ok e txs gs i \<longleftrightarrow> same_body (gs ! i) (txs ! i) \<and> GroupCount (gs ! i) = i32 (int (length txs)) \<and>
     Header (gs ! i) = Some (Tx_Hash e (gs ! 0)) \<and> (0 < i \<longrightarrow> Fee (gs ! i) = 0) \<and>
     Next (gs ! i) = (if Suc i < length txs then Some (Tx_Hash e (gs ! Suc i)) else Next (txs ! i))"

lemma CreateTxGroup_loop:
  assumes "CreateTxGroup e txs = (Ret (), gs)"
  obtains h ts where "create_loop e (length txs) 0 0 (Tx_Hash e (txs ! 0)) txs = (Ret h, ts)"
    and "gs = map (\<lambda>t. t\<lparr>Header := Some h\<rparr>) ts" and "2 \<le> length txs" and "0 < length txs"
    and "length ts = length txs" and "h = Tx_Hash e (ts ! 0)"
    and "\<And>i. i < length txs \<Longrightarrow> built e (length txs) (Tx_Hash e (txs ! 0)) txs ts i"
proof -
  from assms obtain h ts where run: "create_loop e (length txs) 0 0 (Tx_Hash e (txs ! 0)) txs = (Ret h, ts)"
    and gs: "gs = map (\<lambda>t. t\<lparr>Header := Some h\<rparr>) ts" and two: "2 \<le> length txs"
    by (auto simp: CreateTxGroup_def bind_def split: if_splits prod.splits outcome.splits)
  have "0 < length txs" using two by linarith
  with that [OF run gs two] create_loop_built [OF run] show thesis by blast
qed

lemma CreateTxGroup_grouped:
  assumes "CreateTxGroup e txs = (Ret (), gs)"
  shows "length gs = length txs" and "2 \<le> length txs" and "i < length txs \<Longrightarrow> grouped_ok e txs gs i"
proof -
  obtain h ts where "create_loop e (length txs) 0 0 (Tx_Hash e (txs ! 0)) txs = (Ret h, ts)" and
    gs: "gs = map (\<lambda>t. t\<lparr>Header := Some h\<rparr>) ts" and two: "2 \<le> length txs" "0 < length txs"
    and b: "length ts = length txs" "h = Tx_Hash e (ts ! 0)"
      "\<And>i. i < length txs \<Longrightarrow> built e (length txs) (Tx_Hash e (txs ! 0)) txs ts i"
    by (rule CreateTxGroup_loop [OF assms]) blast
  show "length gs = length txs" "2 \<le> length txs" using b two gs by auto
  have nth: "gs ! j = (ts ! j)\<lparr>Header := Some h\<rparr>" if "j < length txs" for j
    using that b(1) by (simp add: gs)
  show "grouped_ok e txs gs i" if "i < length txs"
    using b(3) [OF that] b(2) that two by (auto simp: grouped_ok_def built_def same_body_def nth)
qed

lemma signed_as_same:
  assumes "signed_as e s t"
  shows "strip s = strip t" and "Tx_Hash e s = Tx_Hash e t" and "Fee s = Fee t" and "Header s = Header t"
    and "Next s = Next t" and "GroupCount s = GroupCount t" and "Execer s = Execer t"
proof -
  have t: "t = s\<lparr>txSignature := None\<rparr>" using assms by (simp add: signed_as_def unsigned_def)
  show "strip s = strip t" "Fee s = Fee t" "Header s = Header t"
    "Next s = Next t" "GroupCount s = GroupCount t" "Execer s = Execer t" unfolding t by simp_all
  then show "Tx_Hash e s = Tx_Hash e t" by (intro Tx_Hash_cong) simp
qed

lemma one_chain_cong: "map Execer ss = map Execer txs \<Longrightarrow> one_chain ss = one_chain txs"
proof -
  have "one_chain ts \<longleftrightarrow> (\<forall>x \<in> set (map Execer ts). \<not> IsParaExecName x) \<or>
     (\<exists>ti. \<forall>x \<in> set (map Execer ts). GetParaExecTitleName x = Some ti)" for ts
    by (simp add: one_chain_def)
  then show "map Execer ss = map Execer txs \<Longrightarrow> one_chain ss = one_chain txs" by metis
qed

text \<open>The links of a created group, whoever has signed it.\<close>

lemma grouped_links:
  assumes g: "\<And>i. i < length txs \<Longrightarrow> grouped_ok e txs gs i" and n: "0 < length txs" "length txs \<le> 20"
    and last: "Next (last txs) = None" and l: "length ss = length txs"
    and u: "\<And>i. i < length txs \<Longrightarrow> signed_as e (ss ! i) (gs ! i)"
  shows "Tx_Hash e (ss ! 0) = raw (Header (ss ! 0))" and "links_ok e (length ss) (raw (Header (ss ! 0))) ss"
proof -
  note same = signed_as_same [OF u]
  have h: "raw (Header (ss ! i)) = Tx_Hash e (gs ! 0)" if "i < length txs" for i
    using g [OF that] same(4) [OF that] by (simp add: grouped_ok_def raw_def)
  show "Tx_Hash e (ss ! 0) = raw (Header (ss ! 0))" using h [OF n(1)] same(2) [OF n(1)] by simp
  have gc: "GroupCount (ss ! i) = int (length txs)" "i32 (int (length txs)) = int (length txs)" if "i < length txs" for i
    using g [OF that] same(6) [OF that] n(2) by (simp_all add: grouped_ok_def i32_id is_i32_def)
  have nx: "Next (ss ! i) = Some (Tx_Hash e (ss ! Suc i))" if "Suc i < length txs" for i
    using g [of i] same(5) [of i] same(2) [OF that] that by (simp add: grouped_ok_def)
  have nl: "Next (ss ! i) = None" if "i < length txs" "\<not> Suc i < length txs" for i
  proof -
    have "i = length txs - 1" "txs \<noteq> []" using that by auto
    then show ?thesis using g [of i] same(5) [of i] last that by (simp add: grouped_ok_def last_conv_nth)
  qed
  show "links_ok e (length ss) (raw (Header (ss ! 0))) ss"
    unfolding links_ok_def using h n gc nx nl l by (simp add: raw_def)
qed

context tx_sizes
begin

lemma paid_size_header: "length h = length h' \<Longrightarrow> Header t = Some h \<Longrightarrow> paid_size e (t\<lparr>Header := Some h'\<rparr>) = paid_size e t"
  using size_header [of h' h t] by (cases t) (simp add: paid_size_def)

lemma paid_size_fee: "0 \<le> Fee t \<Longrightarrow> Fee t \<le> 2 ^ 62 \<Longrightarrow> paid_size e t \<le> paid_size e (t\<lparr>Fee := 2 ^ 62\<rparr>)"
  using size_fee [of "Fee t" t] by (simp add: paid_size_def)

lemma paid_size_signed: "signed_as e s t \<Longrightarrow> txSignature t = None \<Longrightarrow> paid_size e s \<le> paid_size e t"
  by (cases s) (auto simp: signed_as_def paid_size_def unsigned_def)

lemma fee_at_mono:
  assumes "paid_size e s \<le> paid_size e t" and "0 \<le> m" and "m \<le> m'"
  shows "fee_at m s \<le> fee_at m' t"
proof -
  have "0 \<le> paid_size e s" using size_nonneg [of s] by (simp add: paid_size_def)
  then have "0 \<le> paid_size e s div 1000" "paid_size e s div 1000 \<le> paid_size e t div 1000"
    using assms(1) by (simp_all add: pos_imp_zdiv_nonneg_iff zdiv_mono1)
  then show ?thesis unfolding fee_at_def using assms(2,3) by (intro mult_mono) auto
qed

lemma group_fees:
  assumes "CreateTxGroup e txs = (Ret (), gs)" and "length txs \<le> 20"
    and f: "\<And>t. t \<in> set txs \<Longrightarrow> 0 \<le> Fee t \<and> Fee t \<le> 2 ^ 56"
    and m: "0 \<le> GInt (conf e) ''MinFee''" "GInt (conf e) ''MinFee'' \<le> 2 ^ 40"
  shows "\<And>t. t \<in> set gs \<Longrightarrow> paid_size e t \<le> MaxTxSize"
    and "(\<Sum>t\<leftarrow>gs. fee_at (GInt (conf e) ''MinFee'') t) \<le> Fee (gs ! 0)" and "Fee (gs ! 0) \<le> 2 ^ 62"
proof -
  let ?m = "GInt (conf e) ''MinFee''" and ?n = "length txs" and ?h = "Tx_Hash e (txs ! 0)"
  obtain h ts where run: "create_loop e ?n 0 0 ?h txs = (Ret h, ts)"
    and gs: "gs = map (\<lambda>t. t\<lparr>Header := Some h\<rparr>) ts" and two: "2 \<le> ?n" "0 < ?n"
    and b: "length ts = ?n" "h = Tx_Hash e (ts ! 0)" "\<And>i. i < ?n \<Longrightarrow> built e ?n ?h txs ts i"
    by (rule CreateTxGroup_loop [OF assms(1)]) blast
  have nth: "gs ! j = (ts ! j)\<lparr>Header := Some h\<rparr>" if "j < ?n" for j
    using that b(1) by (simp add: gs)
  have "(\<forall>i < ?n. \<exists>f. build_fee e i (ts ! i) = Ret f) \<and>
     0 + (\<Sum>i<?n. ret_or 0 (build_fee e i (ts ! i))) \<le> Fee (ts ! 0) \<and> Fee (ts ! 0) \<le> 2 ^ 62"
    by (rule create_loop_fees [OF m run]) (use two f assms(2) in auto)
  then have fees: "\<And>i. i < ?n \<Longrightarrow> \<exists>f. build_fee e i (ts ! i) = Ret f"
    "(\<Sum>i<?n. ret_or 0 (build_fee e i (ts ! i))) \<le> Fee (ts ! 0)" "Fee (ts ! 0) \<le> 2 ^ 62"
    by auto
  define u where "u i = (if i = 0 then (ts ! i)\<lparr>Fee := 2 ^ 62\<rparr> else ts ! i)" for i
  have bf: "paid_size e (u i) \<le> MaxTxSize" "build_fee e i (ts ! i) = Ret (fee_at ?m (u i))" if "i < ?n" for i
    using fees(1) [OF that] GetRealFee_cases(1) [OF m, of "u i"]
    by (auto simp: build_fee_def u_def fee_at_def split: if_splits)
  have "0 \<le> (\<Sum>i<?n. ret_or 0 (build_fee e i (ts ! i)))"
    using bf fee_at_bounds(1) [OF m] by (intro sum_nonneg) simp
  then have pos: "0 \<le> Fee (ts ! 0)" using fees(2) by linarith
  have le: "paid_size e (gs ! i) \<le> paid_size e (u i)" if "i < ?n" for i
  proof -
    have "paid_size e (gs ! i) = paid_size e (ts ! i)"
      using b(3) [OF that] paid_size_header [of ?h h "ts ! i"] by (simp add: nth that built_def length_Tx_Hash b(2))
    then show ?thesis using paid_size_fee [of "ts ! i"] pos fees(3) by (cases "i = 0") (auto simp: u_def)
  qed
  show "\<And>t. t \<in> set gs \<Longrightarrow> paid_size e t \<le> MaxTxSize"
    using le bf(1) b(1) by (fastforce simp: in_set_conv_nth gs intro: order_trans)
  have "(\<Sum>t\<leftarrow>gs. fee_at ?m t) = (\<Sum>i<?n. fee_at ?m (gs ! i))"
    using b(1) by (simp add: sum_list_sum_nth gs atLeast0LessThan)
  also have "\<dots> \<le> (\<Sum>i<?n. ret_or 0 (build_fee e i (ts ! i)))"
    using bf le m by (intro sum_mono) (simp add: fee_at_mono)
  finally show "(\<Sum>t\<leftarrow>gs. fee_at ?m t) \<le> Fee (gs ! 0)"
    using fees(2) nth [OF two(2)] by simp
  show "Fee (gs ! 0) \<le> 2 ^ 62" using fees(3) nth [OF two(2)] by simp
qed

lemma Group_Check_pass:
  assumes "2 \<le> length ss" and "\<And>s. s \<in> set ss \<Longrightarrow> paid_size e s \<le> MaxTxSize" and "one_chain ss"
    and "types_IsFork (conf e) height ''ForkTxGroupPara'' = Ret b" and "\<And>s. s \<in> set (tl ss) \<Longrightarrow> Fee s = 0"
    and m: "0 \<le> minfee" "minfee \<le> 2 ^ 40" and "length ss \<le> 20"
    and "(\<Sum>s\<leftarrow>ss. fee_at minfee s) \<le> Fee (ss ! 0)" and "maxFee = 0 \<or> Fee (ss ! 0) \<le> maxFee"
    and "Tx_Hash e (ss ! 0) = raw (Header (ss ! 0))" and "links_ok e (length ss) (raw (Header (ss ! 0))) ss"
  shows "Group_Check e height minfee maxFee (map Some ss) = Ret ()"
proof -
  have "\<not> SizeTx e s > MaxTxSize" if "s \<in> set ss" for s
    using assms(2) [OF that] by (auto simp: paid_size_def split: if_splits)
  then have each: "check_each e height maxFee [] (map Some ss) = Ret (fold add_title ss [])"
    by (auto simp: check_each_run)
  have sum: "sum_fees e minfee 0 ss = Ret (0 + (\<Sum>s\<leftarrow>ss. fee_at minfee s))"
    by (rule sum_fees_run [OF m]) (use assms(2,8) in auto)
  have "ss \<noteq> []" using assms(1) by auto
  then have "check_links e (length ss) (Header (ss ! 0)) 0 ss = Ret ()"
    using check_links_first [of ss e "length ss"] assms(11,12) by simp
  then show ?thesis
    using assms(1,5,9,10) each sum check_para_one_chain [OF assms(3,4)] by (auto simp: Group_Check_def comp_def)
qed

lemma created_group_passes:
  assumes create: "CreateTxGroup e txs = (Ret (), gs)" and n: "length txs \<le> 20"
    and f: "\<And>t. t \<in> set txs \<Longrightarrow> txSignature t = None \<and> 0 \<le> Fee t \<and> Fee t \<le> 2 ^ 56"
    and last: "Next (last txs) = None" and one: "one_chain txs"
    and m: "0 \<le> minfee" "minfee \<le> GInt (conf e) ''MinFee''" "GInt (conf e) ''MinFee'' \<le> 2 ^ 40"
    and signed: "list_all2 (signed_as e) ss gs" and mx: "maxFee = 0 \<or> Fee (gs ! 0) \<le> maxFee"
    and fork: "types_IsFork (conf e) height ''ForkTxGroupPara'' = Ret b"
  shows "Group_Check e height minfee maxFee (map Some ss) = Ret ()"
proof (rule Group_Check_pass)
  note g = CreateTxGroup_grouped [OF create]
  have l: "length ss = length txs" "length gs = length txs" using list_all2_lengthD [OF signed] g(1) by simp_all
  have pos: "0 < length txs" using g(2) by linarith
  have u: "signed_as e (ss ! i) (gs ! i)" if "i < length txs" for i
    using list_all2_nthD [OF signed] that l by simp
  note same = signed_as_same [OF u]
  have body: "same_body (gs ! i) (txs ! i)" if "i < length txs" for i
    using g(3) [OF that] by (simp add: grouped_ok_def)
  have p: "paid_size e (ss ! i) \<le> paid_size e (gs ! i)" if "i < length txs" for i
    using paid_size_signed [OF u [OF that]] body [OF that] f [OF nth_mem [OF that]] by (simp add: same_body_def)
  have m0: "0 \<le> GInt (conf e) ''MinFee''" using m by linarith
  have gf: "\<And>t. t \<in> set gs \<Longrightarrow> paid_size e t \<le> MaxTxSize"
    "(\<Sum>t\<leftarrow>gs. fee_at (GInt (conf e) ''MinFee'') t) \<le> Fee (gs ! 0)"
    using group_fees [OF create n _ m0 m(3)] f by auto
  show "2 \<le> length ss" "length ss \<le> 20" using l g(2) n by auto
  show "paid_size e s \<le> MaxTxSize" if "s \<in> set ss" for s
    using that p gf(1) l by (metis in_set_conv_nth order_trans)
  have "map Execer ss = map Execer txs"
    using l body same(7) by (intro nth_equalityI) (auto simp: same_body_def)
  then show "one_chain ss" using one one_chain_cong by blast
  show "Fee s = 0" if "s \<in> set (tl ss)" for s
  proof -
    from that obtain i where "i < length (tl ss)" "s = tl ss ! i" by (auto simp: in_set_conv_nth)
    then have "Suc i < length txs" "s = ss ! Suc i" using l by (auto simp: nth_tl)
    then show ?thesis using same(3) [of "Suc i"] g(3) [of "Suc i"] by (simp add: grouped_ok_def)
  qed
  show "0 \<le> minfee" "minfee \<le> 2 ^ 40" using m by auto
  have "(\<Sum>s\<leftarrow>ss. fee_at minfee s) \<le> (\<Sum>t\<leftarrow>gs. fee_at (GInt (conf e) ''MinFee'') t)"
    using l p m by (auto simp: sum_list_sum_nth intro!: sum_mono fee_at_mono)
  then show "(\<Sum>s\<leftarrow>ss. fee_at minfee s) \<le> Fee (ss ! 0)" using gf(2) same(3) [OF pos] by simp
  show "maxFee = 0 \<or> Fee (ss ! 0) \<le> maxFee" using mx same(3) [OF pos] by simp
  show "Tx_Hash e (ss ! 0) = raw (Header (ss ! 0))" "links_ok e (length ss) (raw (Header (ss ! 0))) ss"
    using grouped_links [OF g(3) pos n last l(1) u] by blast+
qed (rule fork)

lemma grouped_wf:
  assumes create: "CreateTxGroup e txs = (Ret (), gs)" and n: "length txs \<le> 20"
    and f: "\<And>t. t \<in> set txs \<Longrightarrow> 0 \<le> Fee t \<and> Fee t \<le> 2 ^ 56"
    and m: "0 \<le> GInt (conf e) ''MinFee''" "GInt (conf e) ''MinFee'' \<le> 2 ^ 40" and wf: "list_all wf_tx txs"
  shows "list_all wf_tx gs"
proof -
  note g = CreateTxGroup_grouped [OF create]
  have h: "short (Tx_Hash e t)" "Tx_Hash e t \<noteq> []" for t
    using length_Tx_Hash [of t] by (auto simp: short_def)
  have "0 \<le> (\<Sum>t\<leftarrow>gs. fee_at (GInt (conf e) ''MinFee'') t)"
    using fee_at_bounds(1) [OF m] by (intro sum_list_nonneg) auto
  then have fee: "is_i64 (Fee (gs ! 0))" and zero: "is_i64 0" using group_fees(2,3) [OF create n f m] by (simp_all add: is_i64_def)
  have "wf_tx (gs ! i)" if i: "i < length txs" for i
  proof -
    have "wf_tx (txs ! i)" using wf i by (simp add: list_all_length)
    then show ?thesis
      using g(3) [OF i] h fee zero by (cases "i = 0") (auto simp: grouped_ok_def same_body_def wf_tx_def)
  qed
  then show ?thesis using g(1) by (simp add: list_all_length)
qed

end

end
