(* ===== verification/TxWire.thy ===== *)
theory TxWire
  imports TxGroup WireFormat
begin

text \<open>
  The protobuf encoding of \<^verbatim>\<open>Signature\<close>, \<^verbatim>\<open>Transaction\<close> and \<^verbatim>\<open>Transactions\<close> (\<^verbatim>\<open>src/types/transaction.pb.go\<close>),
  a concrete instance for the parameters of \<open>tx_env\<close>, and the proof that it satisfies \<open>tx_codec\<close>.
\<close>

definition Signature_fields :: "Signature \<Rightarrow> (nat \<times> wval) list" where
  "Signature_fields s = opt_int 1 (sigTy s) @ opt_bytes 2 (Some (sigPubkey s)) @ opt_bytes 3 (Some (sigSignature s))"

definition sig_field :: "nat \<Rightarrow> Signature option \<Rightarrow> (nat \<times> wval) list" where
  "sig_field f s = (case s of None \<Rightarrow> [] | Some x \<Rightarrow> [(f, VBytes (put_fields (Signature_fields x)))])"

definition Transaction_fields :: "Transaction \<Rightarrow> (nat \<times> wval) list" where
  "Transaction_fields t =
     opt_bytes 1 (Some (Execer t)) @ opt_bytes 2 (Some (Payload t)) @ sig_field 3 (txSignature t) @
     opt_int 4 (Fee t) @ opt_int 5 (Expire t) @ opt_int 6 (Nonce t) @ opt_bytes 7 (Some (To t)) @
     opt_int 8 (GroupCount t) @ opt_bytes 9 (Header t) @ opt_bytes 10 (Next t)"

definition Transaction_Marshal :: "Transaction \<Rightarrow> bytes" where
  "Transaction_Marshal t = put_fields (Transaction_fields t)"

definition Transactions_Marshal :: "Transaction list \<Rightarrow> bytes" where
  "Transactions_Marshal txs = put_fields (map (\<lambda>t. (1, VBytes (Transaction_Marshal t))) txs)"

fun Signature_read :: "Signature \<Rightarrow> (nat \<times> wval) list \<Rightarrow> Signature option" where
  "Signature_read s [] = Some s"
| "Signature_read s ((f, x) # fs) =
     (case x of
        VBytes b \<Rightarrow>
          if f = 2 then Signature_read (s\<lparr>sigPubkey := b\<rparr>) fs
          else if f = 3 then Signature_read (s\<lparr>sigSignature := b\<rparr>) fs
          else if f = 1 then None else Signature_read s fs
      | VInt v \<Rightarrow>
          if f = 1 then Signature_read (s\<lparr>sigTy := i32 (int v)\<rparr>) fs
          else if f = 2 \<or> f = 3 then None else Signature_read s fs)"

definition no_sig :: Signature where
  "no_sig = \<lparr>sigTy = 0, sigPubkey = [], sigSignature = []\<rparr>"

text \<open>A message field is merged into the one read before.\<close>

definition Signature_Unmarshal :: "Signature option \<Rightarrow> bytes \<Rightarrow> Signature option" where
  "Signature_Unmarshal s b =
     (case wire_parse b of
        None \<Rightarrow> None
      | Some fs \<Rightarrow> Signature_read (case s of None \<Rightarrow> no_sig | Some x \<Rightarrow> x) fs)"

fun Transaction_read :: "Transaction \<Rightarrow> (nat \<times> wval) list \<Rightarrow> Transaction option" where
  "Transaction_read t [] = Some t"
| "Transaction_read t ((f, x) # fs) =
     (case x of
        VBytes b \<Rightarrow>
          if f = 1 then Transaction_read (t\<lparr>Execer := b\<rparr>) fs
          else if f = 2 then Transaction_read (t\<lparr>Payload := b\<rparr>) fs
          else if f = 3 then
            (case Signature_Unmarshal (txSignature t) b of
               None \<Rightarrow> None
             | Some s \<Rightarrow> Transaction_read (t\<lparr>txSignature := Some s\<rparr>) fs)
          else if f = 7 then (if utf8_valid b then Transaction_read (t\<lparr>To := b\<rparr>) fs else None)
          else if f = 9 then Transaction_read (t\<lparr>Header := Some b\<rparr>) fs
          else if f = 10 then Transaction_read (t\<lparr>Next := Some b\<rparr>) fs
          else if f \<in> {4, 5, 6, 8} then None else Transaction_read t fs
      | VInt v \<Rightarrow>
          if f = 4 then Transaction_read (t\<lparr>Fee := i64 (int v)\<rparr>) fs
          else if f = 5 then Transaction_read (t\<lparr>Expire := i64 (int v)\<rparr>) fs
          else if f = 6 then Transaction_read (t\<lparr>Nonce := i64 (int v)\<rparr>) fs
          else if f = 8 then Transaction_read (t\<lparr>GroupCount := i32 (int v)\<rparr>) fs
          else if f \<in> {1, 2, 3, 7, 9, 10} then None else Transaction_read t fs)"

definition no_tx :: Transaction where
  "no_tx = \<lparr>Execer = [], Payload = [], txSignature = None, Fee = 0, Expire = 0, Nonce = 0, To = [],
     GroupCount = 0, Header = None, Next = None\<rparr>"

definition Transaction_Unmarshal :: "bytes \<Rightarrow> Transaction option" where
  "Transaction_Unmarshal b = (case wire_parse b of None \<Rightarrow> None | Some fs \<Rightarrow> Transaction_read no_tx fs)"

fun Transactions_read :: "(nat \<times> wval) list \<Rightarrow> Transaction list option" where
  "Transactions_read [] = Some []"
| "Transactions_read ((f, x) # fs) =
     (case x of
        VBytes b \<Rightarrow>
          if f = 1
          then (case Transaction_Unmarshal b of None \<Rightarrow> None | Some t \<Rightarrow> map_option (Cons t) (Transactions_read fs))
          else Transactions_read fs
      | VInt v \<Rightarrow> if f = 1 then None else Transactions_read fs)"

definition Transactions_Unmarshal :: "bytes \<Rightarrow> Transaction list option" where
  "Transactions_Unmarshal b = (case wire_parse b of None \<Rightarrow> None | Some fs \<Rightarrow> Transactions_read fs)"

subsection \<open>Sizes\<close>

lemma length_appendVarint_mono: "v \<le> w \<Longrightarrow> length (appendVarint v) \<le> length (appendVarint w)"
proof (induction w arbitrary: v rule: less_induct)
  case (less w)
  show ?case
  proof (cases "v < 128")
    case True
    then show ?thesis by (subst appendVarint.simps) (use appendVarint_ne [of w] in \<open>simp add: Suc_leI\<close>)
  next
    case False
    then have "length (appendVarint (v div 128)) \<le> length (appendVarint (w div 128))"
      using less.prems by (intro less.IH) (auto intro: div_le_mono)
    then show ?thesis using False less.prems by (simp add: appendVarint.simps [of v] appendVarint.simps [of w])
  qed
qed

lemma length_put_fields_append: "length (put_fields (a @ b)) = length (put_fields a) + length (put_fields b)"
  by (simp add: put_fields_def)

lemma size_opt_int: "0 \<le> f \<Longrightarrow> f \<le> 2 ^ 62 \<Longrightarrow> length (put_fields (opt_int k f)) \<le> length (put_fields (opt_int k (2 ^ 62)))"
proof -
  assume "0 \<le> f" "f \<le> 2 ^ 62"
  then have "u64 f \<le> u64 (2 ^ 62)" by (simp add: u64_def)
  then show ?thesis using length_appendVarint_mono by (simp add: opt_int_def put_fields_def)
qed

lemma size_opt_bytes:
  "length b = length b' \<Longrightarrow> length (put_fields (opt_bytes k (Some b))) = length (put_fields (opt_bytes k (Some b')))"
  by (auto simp: opt_bytes_def put_fields_def)

subsection \<open>Round trip\<close>

lemma length_appendVarint_u64: "v < 2 ^ 64 \<Longrightarrow> length (appendVarint v) \<le> 10"
proof -
  have "length (appendVarint v) \<le> n" if "v < 128 ^ n" "0 < n" for n
    using that
  proof (induction n arbitrary: v)
    case (Suc n)
    then show ?case
      by (cases "v < 128"; subst appendVarint.simps; cases n) (auto simp: less_mult_imp_div_less mult.commute)
  qed simp
  from this [of 10] show "v < 2 ^ 64 \<Longrightarrow> length (appendVarint v) \<le> 10" by simp
qed

lemma length_opt:
  "f < 16 \<Longrightarrow> length (put_fields (opt_int f v)) \<le> 20"
  "f < 16 \<Longrightarrow> pred_option short b \<Longrightarrow> length (put_fields (opt_bytes f b)) \<le> 20 + length (raw b)"
proof -
  have t: "f < 16 \<Longrightarrow> length (appendVarint (8 * f)) \<le> 10" "f < 16 \<Longrightarrow> length (appendVarint (8 * f + 2)) \<le> 10"
    by (rule length_appendVarint_u64, simp)+
  show "f < 16 \<Longrightarrow> length (put_fields (opt_int f v)) \<le> 20"
    using t(1) length_appendVarint_u64 [OF u64_less, of v] by (simp add: opt_int_def put_fields_def)
  show "f < 16 \<Longrightarrow> pred_option short b \<Longrightarrow> length (put_fields (opt_bytes f b)) \<le> 20 + length (raw b)"
    using t(2) length_appendVarint_u64 [of "length (the b)"]
    by (auto simp: opt_bytes_def put_fields_def short_def raw_def split: option.splits simp del: add_2_eq_Suc')
qed

lemma fields_ok:
  "1 \<le> f \<Longrightarrow> f < 16 \<Longrightarrow> list_all field_ok (opt_int f v)"
  "1 \<le> f \<Longrightarrow> f < 16 \<Longrightarrow> pred_option short b \<Longrightarrow> list_all field_ok (opt_bytes f b)"
  using u64_less [of v] by (cases b; auto simp: opt_int_def opt_bytes_def short_def)+

lemma Signature_round_trip:
  assumes "wf_sig s"
  shows "Signature_Unmarshal None (put_fields (Signature_fields s)) = Some s"
    and "length (put_fields (Signature_fields s)) \<le> 60 + length (sigPubkey s) + length (sigSignature s)"
proof -
  have "list_all field_ok (Signature_fields s)"
    using assms by (simp add: Signature_fields_def wf_sig_def fields_ok)
  then have p: "wire_parse (put_fields (Signature_fields s)) = Some (Signature_fields s)"
    by (rule wire_parse_put)
  show "Signature_Unmarshal None (put_fields (Signature_fields s)) = Some s"
    using assms unfolding Signature_Unmarshal_def p
    by (cases s) (simp add: Signature_fields_def no_sig_def opt_int_def opt_bytes_def wf_sig_def i32_u64)
  show "length (put_fields (Signature_fields s)) \<le> 60 + length (sigPubkey s) + length (sigSignature s)"
    using assms length_opt(1) [of 1 "sigTy s"] length_opt(2) [of 2 "Some (sigPubkey s)"]
      length_opt(2) [of 3 "Some (sigSignature s)"]
    by (simp add: Signature_fields_def length_put_fields_append wf_sig_def raw_def)
qed

lemma sig_field_ok:
  assumes "pred_option wf_sig s"
  shows "list_all field_ok (sig_field 3 s)"
    and "s = Some x \<Longrightarrow> length (put_fields (sig_field 3 s)) \<le> 80 + length (sigPubkey x) + length (sigSignature x)"
    and "length (put_fields (sig_field 3 s)) \<le> 2 ^ 33"
proof -
  have l: "length (put_fields (Signature_fields x)) \<le> 60 + length (sigPubkey x) + length (sigSignature x)"
    "length (sigPubkey x) < 2 ^ 31" "length (sigSignature x) < 2 ^ 31" if "s = Some x" for x
    using assms that Signature_round_trip(2) by (simp_all add: wf_sig_def short_def)
  then have small: "length (put_fields (Signature_fields x)) < 2 ^ 64" if "s = Some x" for x
    using l [OF that] by simp
  then show "list_all field_ok (sig_field 3 s)" by (auto simp: sig_field_def split: option.splits)
  have "length (appendVarint 26) \<le> 10" by (rule length_appendVarint_u64) simp
  then show size: "length (put_fields (sig_field 3 s)) \<le> 80 + length (sigPubkey x) + length (sigSignature x)"
    if "s = Some x" for x
    using l(1) [OF that] length_appendVarint_u64 [OF small [OF that]] that
    by (simp add: sig_field_def put_fields_def del: add_2_eq_Suc')
  show "length (put_fields (sig_field 3 s)) \<le> 2 ^ 33"
    using size l(2,3) by (cases s) (fastforce simp: sig_field_def put_fields_def)+
qed

lemma read_opt_bytes:
  "Transaction_read t (opt_bytes 1 (Some b) @ fs) = Transaction_read (if b = [] then t else t\<lparr>Execer := b\<rparr>) fs"
  "Transaction_read t (opt_bytes 2 (Some b) @ fs) = Transaction_read (if b = [] then t else t\<lparr>Payload := b\<rparr>) fs"
  "utf8_valid b \<Longrightarrow> Transaction_read t (opt_bytes 7 (Some b) @ fs) = Transaction_read (if b = [] then t else t\<lparr>To := b\<rparr>) fs"
  "h \<noteq> Some [] \<Longrightarrow> Header t = None \<Longrightarrow> Transaction_read t (opt_bytes 9 h @ fs) = Transaction_read (t\<lparr>Header := h\<rparr>) fs"
  "h \<noteq> Some [] \<Longrightarrow> Next t = None \<Longrightarrow> Transaction_read t (opt_bytes 10 h) = Some (t\<lparr>Next := h\<rparr>)"
  by (cases t; auto simp: opt_bytes_def split: option.splits)+

lemma read_opt_int:
  "is_i64 v \<Longrightarrow> Fee t = 0 \<Longrightarrow> Transaction_read t (opt_int 4 v @ fs) = Transaction_read (t\<lparr>Fee := v\<rparr>) fs"
  "is_i64 v \<Longrightarrow> Expire t = 0 \<Longrightarrow> Transaction_read t (opt_int 5 v @ fs) = Transaction_read (t\<lparr>Expire := v\<rparr>) fs"
  "is_i64 v \<Longrightarrow> Nonce t = 0 \<Longrightarrow> Transaction_read t (opt_int 6 v @ fs) = Transaction_read (t\<lparr>Nonce := v\<rparr>) fs"
  "is_i32 v \<Longrightarrow> GroupCount t = 0 \<Longrightarrow> Transaction_read t (opt_int 8 v @ fs) = Transaction_read (t\<lparr>GroupCount := v\<rparr>) fs"
  by (cases t; simp add: opt_int_def i64_u64 i32_u64)+

lemma read_sig:
  "pred_option wf_sig s \<Longrightarrow> txSignature t = None \<Longrightarrow>
     Transaction_read t (sig_field 3 s @ fs) = Transaction_read (t\<lparr>txSignature := s\<rparr>) fs"
  by (cases t; cases s) (simp_all add: sig_field_def Signature_round_trip)

lemma pred_short: "pred_option (\<lambda>h. short h \<and> h \<noteq> []) b \<Longrightarrow> pred_option short b \<and> b \<noteq> Some []"
  by (cases b) auto

lemma short_raw: "pred_option short b \<Longrightarrow> length (raw b) < 2 ^ 31"
  by (cases b) (simp_all add: short_def raw_def)

lemma Transaction_round_trip:
  assumes "wf_tx t"
  shows "Transaction_Unmarshal (Transaction_Marshal t) = Some t" and "length (Transaction_Marshal t) < 2 ^ 64"
proof -
  have w: "pred_option short (Header t)" "pred_option short (Next t)" "Header t \<noteq> Some []" "Next t \<noteq> Some []"
    using assms pred_short by (auto simp: wf_tx_def)
  have "list_all field_ok (Transaction_fields t)"
    using assms w by (simp add: Transaction_fields_def wf_tx_def fields_ok sig_field_ok)
  then have p: "wire_parse (Transaction_Marshal t) = Some (Transaction_fields t)"
    unfolding Transaction_Marshal_def by (rule wire_parse_put)
  show "Transaction_Unmarshal (Transaction_Marshal t) = Some t"
    using assms w unfolding Transaction_Unmarshal_def p Transaction_fields_def wf_tx_def
    by (cases t) (simp add: read_opt_bytes read_opt_int read_sig no_tx_def del: One_nat_def)
  show "length (Transaction_Marshal t) < 2 ^ 64"
    using assms w length_opt(2) [of 1 "Some (Execer t)"] length_opt(2) [of 2 "Some (Payload t)"]
      length_opt(1) [of 4 "Fee t"] length_opt(1) [of 5 "Expire t"] length_opt(1) [of 6 "Nonce t"]
      length_opt(2) [of 7 "Some (To t)"] length_opt(1) [of 8 "GroupCount t"] length_opt(2) [of 9 "Header t"]
      length_opt(2) [of 10 "Next t"] sig_field_ok(3) [of "txSignature t"] short_raw [OF w(1)] short_raw [OF w(2)]
    by (simp add: Transaction_Marshal_def Transaction_fields_def wf_tx_def length_put_fields_append raw_def short_def)
qed

lemma Transactions_round_trip:
  assumes "list_all wf_tx txs"
  shows "Transactions_Unmarshal (Transactions_Marshal txs) = Some txs"
proof -
  let ?fs = "map (\<lambda>t. (1::nat, VBytes (Transaction_Marshal t)))"
  have "list_all field_ok (?fs txs)"
    using assms Transaction_round_trip(2) by (induction txs) auto
  then have "wire_parse (Transactions_Marshal txs) = Some (?fs txs)"
    unfolding Transactions_Marshal_def by (rule wire_parse_put)
  moreover have "Transactions_read (?fs txs) = Some txs"
    using assms by (induction txs) (simp_all add: Transaction_round_trip(1))
  ultimately show ?thesis by (simp add: Transactions_Unmarshal_def)
qed

text \<open>The environment with this encoding.\<close>

definition wire_env :: "addr_env \<Rightarrow> (bytes \<Rightarrow> string \<Rightarrow> Signature \<Rightarrow> bool) \<Rightarrow> ChainConf \<Rightarrow> tx_env" where
  "wire_env a verify c = addr_env.extend a
     \<lparr>EncodeTx = Transaction_Marshal, SizeTx = (\<lambda>t. int (length (Transaction_Marshal t))),
      EncodeTxs = Transactions_Marshal, DecodeTxs = Transactions_Unmarshal, VerifySign = verify, conf = c\<rparr>"

lemma wire_env_fields [simp]:
  "EncodeTx (wire_env a v c) = Transaction_Marshal" "EncodeTxs (wire_env a v c) = Transactions_Marshal"
  "SizeTx (wire_env a v c) = (\<lambda>t. int (length (Transaction_Marshal t)))"
  "DecodeTxs (wire_env a v c) = Transactions_Unmarshal" "VerifySign (wire_env a v c) = v"
  "conf (wire_env a v c) = c" "Sum256 (wire_env a v c) = Sum256 a" "addr_env.truncate (wire_env a v c) = a"
  by (simp_all add: wire_env_def addr_env.defs)

lemma wire_tx_sizes:
  assumes "\<And>b. length (Sum256 a b) = 32"
  shows "tx_sizes (wire_env a v c)"
proof
  show "length (Sum256 (wire_env a v c) b) = 32" for b using assms by simp
  show "SizeTx (wire_env a v c) (t\<lparr>Header := Some h\<rparr>) = SizeTx (wire_env a v c) (t\<lparr>Header := Some h'\<rparr>)"
    if "length h = length h'" for h h' t
    using size_opt_bytes [OF that, of 9]
    by (simp add: Transaction_Marshal_def Transaction_fields_def length_put_fields_append)
  show "SizeTx (wire_env a v c) (t\<lparr>Fee := f\<rparr>) \<le> SizeTx (wire_env a v c) (t\<lparr>Fee := 2 ^ 62\<rparr>)"
    if "0 \<le> f" "f \<le> 2 ^ 62" for f t
    using size_opt_int [OF that, of 4]
    by (simp add: Transaction_Marshal_def Transaction_fields_def length_put_fields_append)
qed simp

interpretation wire_tx: tx_codec "wire_env (plain_addr pad_hash) v c" for v c
  by (intro tx_codec.intro wire_tx_sizes tx_codec_axioms.intro)
    (simp_all add: Transactions_round_trip plain_addr_def pad_hash_def)

end
