(* ===== verification/TxProps.thy ===== *)
theory TxProps
  imports TxWire
begin

text \<open>
  The properties of transactions and groups, with examples over the wire encoding of \<open>TxWire\<close>.
\<close>

subsection \<open>A created and signed group is accepted\<close>

lemma Group_CheckSign_iff: "Group_CheckSign e txs \<longleftrightarrow> (\<forall>t \<in> set txs. checkSign_tx e t)"
  by (induction txs) auto

lemma Tx_Sign_facts:
  "unsigned (Tx_Sign e ty k t) = unsigned t" "Tx_Hash e (Tx_Sign e ty k t) = Tx_Hash e t"
  "GroupCount (Tx_Sign e ty k t) = GroupCount t"
  by (simp_all add: Tx_Sign_def unsigned_def Let_def)

lemma Tx_Sign_checks:
  "(\<And>d x. VerifySign e d x \<lparr>sigTy = ty, sigPubkey = keyPub k, sigSignature = keySign k d\<rparr>) \<Longrightarrow>
     checkSign_tx e (Tx_Sign e ty k t)"
  by (simp add: checkSign_tx_def Tx_Sign_def Let_def)

text \<open>
  C15. Unsigned transactions that \<^verbatim>\<open>CreateTxGroup\<close> has made into a group and that their owners have
  signed with \<^verbatim>\<open>Sign\<close> pack (\<^verbatim>\<open>Transactions.Tx\<close>) into one transaction that passes \<^verbatim>\<open>Check\<close> and the
  check of every signature, with the hash of the first transaction of the group. The fees of the
  group cover any minimum up to the configured one; the verifier accepts what the keys sign, and a
  signature takes at most the 300 bytes that the fee computation reserves for it.
\<close>

theorem created_group_accepted:
  assumes lib: "tx_codec e" and create: "CreateTxGroup e txs = (Ret (), gs)" and n: "length txs \<le> 20"
    and f: "\<forall>t \<in> set txs. txSignature t = None \<and> 0 \<le> Fee t \<and> Fee t \<le> 2 ^ 56"
    and last: "Next (last txs) = None" and one: "one_chain txs"
    and m: "0 \<le> minfee" "minfee \<le> GInt (conf e) ''MinFee''" "GInt (conf e) ''MinFee'' \<le> 2 ^ 40"
    and mx: "maxFee = 0 \<or> Fee (gs ! 0) \<le> maxFee"
    and fork: "types_IsFork (conf e) height ''ForkTxGroupPara'' = Ret b"
    and keys: "length ks = length txs"
      "\<forall>k \<in> set ks. \<forall>d x. VerifySign e d x \<lparr>sigTy = ty, sigPubkey = keyPub k, sigSignature = keySign k d\<rparr>"
    and ss: "ss = map2 (Tx_Sign e ty) ks gs" and wf: "list_all wf_tx txs"
      "is_i32 ty" "\<forall>k \<in> set ks. short (keyPub k) \<and> (\<forall>d. short (keySign k d))"
    and small: "list_all2 (\<lambda>s t. SizeTx e s \<le> SizeTx e t + 300) ss gs"
  shows "\<exists>t. Group_Tx e ss = Some t \<and> Tx_Check e height minfee maxFee t = Ret () \<and>
    Group_CheckSign e ss \<and> Tx_Hash e t = Tx_Hash e (gs ! 0)"
proof -
  note g = CreateTxGroup_grouped [OF create]
  have l: "length ss = length txs" "length gs = length txs" using ss keys(1) g(1) by simp_all
  have nth: "ss ! i = Tx_Sign e ty (ks ! i) (gs ! i)" if "i < length txs" for i
    using that ss keys(1) g(1) by simp
  have none: "unsigned (gs ! i) = gs ! i" if "i < length txs" for i
    using g(3) [OF that] f nth_mem [OF that] by (cases "gs ! i") (auto simp: grouped_ok_def same_body_def unsigned_def)
  have signed: "list_all2 (signed_as e) ss gs"
    using small nth none l by (simp add: list_all2_conv_all_nth signed_as_def Tx_Sign_facts)
  have pass: "Group_Check e height minfee maxFee (map Some ss) = Ret ()"
    by (rule tx_sizes.created_group_passes [OF tx_codec.axioms(1) [OF lib] create n _ last one m signed mx fork])
      (use f in auto)
  have m0: "0 \<le> GInt (conf e) ''MinFee''" using m by linarith
  have "list_all wf_tx gs"
    using tx_sizes.grouped_wf [OF tx_codec.axioms(1) [OF lib] create n _ m0 m(3) wf(1)] f by blast
  then have "wf_tx (ss ! i)" if "i < length txs" for i
    using nth [OF that] l keys(1) wf(2,3) nth_mem [of i ks] that
    by (auto simp: list_all_length wf_tx_def wf_sig_def Tx_Sign_def Let_def)
  then have wfs: "list_all wf_tx ss" using l by (simp add: list_all_length)
  have pos: "0 < length txs" using g(2) by linarith
  have "GroupCount (ss ! 0) = int (length ss)"
    using g(3) [OF pos] nth [OF pos] n l by (simp add: Tx_Sign_facts grouped_ok_def i32_id is_i32_def)
  then obtain t where t: "Group_Tx e ss = Some t" "GetTxGroup e t = Ret (Some ss)" "Tx_Hash e t = Tx_Hash e (ss ! 0)"
    using tx_codec.unpack_group [OF lib wfs] g(2) n l by auto
  have "checkSign_tx e s" if "s \<in> set ss" for s
    using that keys ss by (auto simp: in_set_zip intro!: Tx_Sign_checks)
  then show ?thesis
    using t pass nth [OF pos] by (auto simp: Tx_Check_def Group_CheckSign_iff Tx_Sign_facts)
qed

text \<open>An example: two transfers, a key whose signatures the verifier accepts, and the default fee.\<close>

definition toy_conf :: ChainConf where
  "toy_conf = \<lparr>chainConfig = [''MinFee'' \<mapsto> CInt 100000], title = ''chain33'', systemFork = \<lparr>forks = Map.empty\<rparr>\<rparr>"

definition toy_verify :: "bytes \<Rightarrow> string \<Rightarrow> Signature \<Rightarrow> bool" where
  "toy_verify d x s \<longleftrightarrow> sigSignature s = take 4 (pad_hash d) @ sigPubkey s"

definition toy_key :: PrivKey where
  "toy_key = \<lparr>keyPub = ''k'', keySign = (\<lambda>d. take 4 (pad_hash d) @ ''k'')\<rparr>"

definition toy_env :: tx_env where
  "toy_env = wire_env (plain_addr pad_hash) toy_verify toy_conf"

definition toy_txs :: "Transaction list" where
  "toy_txs = [no_tx\<lparr>Execer := ''coins'', Payload := ''a'', Fee := 100000, Nonce := 1, To := ''x''\<rparr>,
              no_tx\<lparr>Execer := ''coins'', Payload := ''b'', Fee := 100000, Nonce := 2, To := ''y''\<rparr>]"

definition toy_group :: "Transaction list" where
  "toy_group = snd (CreateTxGroup toy_env toy_txs)"

lemma toy_codec: "tx_codec toy_env"
  unfolding toy_env_def by (rule wire_tx.tx_codec_axioms)

lemmas wire_simps = Transaction_Marshal_def Transaction_fields_def opt_bytes_def opt_int_def sig_field_def
  put_fields_def no_tx_def u64_def appendVarint_less appendVarint_more

lemmas toy_simps = build_fee_def GetRealFee_def MaxTxSize_def toy_conf_def GInt_def G_def getChainConfig_def
  parseInt_def

lemma toy_created: "CreateTxGroup toy_env toy_txs = (Ret (), toy_group)"
proof -
  have "fst (CreateTxGroup toy_env toy_txs) = Ret ()"
    apply (simp add: CreateTxGroup_def toy_txs_def create_loop_later bind_def)
    apply (simp add: grouped_def toy_env_def toy_simps wire_simps i32_def)
    apply (simp add: link_prev_def grouped_def i32_def i64_def)
    apply (simp add: wire_simps Tx_Hash_def plain_addr_def pad_hash_def zeros_def)
    apply (simp add: create_loop_first grouped_def i32_def)
    apply (simp add: wire_simps toy_simps Let_def)
    done
  then show ?thesis by (simp add: toy_group_def prod_eq_iff)
qed

lemma size_signed:
  assumes "length (put_fields (sig_field 3 (txSignature s))) \<le> 300" and "unsigned s = t"
  shows "SizeTx (wire_env a v c) s \<le> SizeTx (wire_env a v c) t + 300"
  using assms(1) unfolding assms(2) [symmetric]
  by (simp add: unsigned_def Transaction_Marshal_def Transaction_fields_def length_put_fields_append sig_field_def
      put_fields_def)

lemma toy_size:
  assumes "txSignature t = None"
  shows "SizeTx toy_env (Tx_Sign toy_env 1 toy_key t) \<le> SizeTx toy_env t + 300"
proof -
  have t: "unsigned t = t" using assms by (cases t) (simp add: unsigned_def)
  let ?s = "Tx_Sign toy_env 1 toy_key t"
  obtain x where x: "txSignature ?s = Some x" "length (sigPubkey x) \<le> 10" "length (sigSignature x) \<le> 10" "wf_sig x"
    by (simp add: Tx_Sign_def Let_def toy_key_def wf_sig_def short_def is_i32_def)
  then have "length (put_fields (sig_field 3 (txSignature ?s))) \<le> 300"
    using sig_field_ok(2) [of "txSignature ?s" x] by simp
  then show ?thesis unfolding toy_env_def by (intro size_signed) (simp_all add: Tx_Sign_facts t)
qed

lemma toy_unsigned: "txSignature (toy_group ! 0) = None" "txSignature (toy_group ! Suc 0) = None"
  using CreateTxGroup_grouped(3) [OF toy_created, of 0] CreateTxGroup_grouped(3) [OF toy_created, of 1]
  by (simp_all add: toy_txs_def grouped_ok_def same_body_def no_tx_def)

theorem created_group_accepted_witness:
  "\<exists>t. Group_Tx toy_env (map2 (Tx_Sign toy_env 1) [toy_key, toy_key] toy_group) = Some t \<and>
     Tx_Check toy_env 0 100000 0 t = Ret () \<and>
     Group_CheckSign toy_env (map2 (Tx_Sign toy_env 1) [toy_key, toy_key] toy_group) \<and>
     Tx_Hash toy_env t = Tx_Hash toy_env (toy_group ! 0)"
proof (rule created_group_accepted [OF toy_codec toy_created])
  let ?ss = "map2 (Tx_Sign toy_env 1) [toy_key, toy_key] toy_group"
  show "list_all2 (\<lambda>s t. SizeTx toy_env s \<le> SizeTx toy_env t + 300) ?ss toy_group"
    using toy_size toy_unsigned CreateTxGroup_grouped(1) [OF toy_created]
    by (simp add: list_all2_conv_all_nth toy_txs_def nth_Cons split: nat.split)
  show "is_i32 (1 :: int)" by (simp add: is_i32_def)
  show "\<forall>k \<in> set [toy_key, toy_key]. short (keyPub k) \<and> (\<forall>d. short (keySign k d))"
    by (simp add: toy_key_def short_def min_less_iff_disj)
qed (simp_all add: toy_txs_def no_tx_def one_chain_def IsParaExecName_def HasPrefix_def ParaKeyX_def toy_env_def
    toy_simps types_IsFork_def IsFork_def GetFork_def toy_verify_def toy_key_def wf_tx_def short_def is_i64_def is_i32_def)

subsection \<open>A group is bound by its header\<close>

lemma Group_Check_links:
  assumes "Group_Check e height minfee maxFee (map Some txs) = Ret ()"
  shows "2 \<le> length txs" and "Tx_Hash e (txs ! 0) = raw (Header (txs ! 0))"
    and "links_ok e (length txs) (raw (Header (txs ! 0))) txs" and "\<forall>t \<in> set (tl txs). Fee t = 0"
proof -
  show two: "2 \<le> length txs" using assms by (auto simp: Group_Check_def split: if_splits)
  then have ne: "txs \<noteq> []" by auto
  from assms two obtain para tot high where
    "check_each e height maxFee [] (map Some txs) = Ret para"
    and f: "\<not> (\<exists>t \<in> set (tl txs). Fee t \<noteq> 0)"
    and c: "check_links e (length txs) (Header (txs ! 0)) 0 txs = Ret ()"
    by (auto simp: Group_Check_def comp_def obind_def split: outcome.splits if_splits)
  show "\<forall>t \<in> set (tl txs). Fee t = 0" using f by blast
  show "Tx_Hash e (txs ! 0) = raw (Header (txs ! 0))" "links_ok e (length txs) (raw (Header (txs ! 0))) txs"
    using check_links_first [OF ne] c by auto
qed

lemma strip_fields: "strip s = strip t \<Longrightarrow> Next s = Next t" "strip s = strip t \<Longrightarrow> GroupCount s = GroupCount t"
  by (cases s; cases t; simp add: strip_def)+

lemma linked_prefix:
  assumes "links_ok e m h1 ss" and "links_ok e n h2 ts" and "strip (ss ! 0) = strip (ts ! 0)"
    and ts: "ts \<noteq> []" and len: "\<And>b. length (Sum256 e b) = 32"
    and inj: "\<And>s t. s \<in> set ss \<Longrightarrow> t \<in> set ts \<Longrightarrow> Tx_Hash e s = Tx_Hash e t \<Longrightarrow> strip s = strip t"
  shows "i < length ss \<Longrightarrow> i < length ts \<and> strip (ss ! i) = strip (ts ! i)"
proof (induction i)
  case (Suc i)
  then have i: "i < length ts" "strip (ss ! i) = strip (ts ! i)" by auto
  have s: "raw (Next (ss ! i)) = Tx_Hash e (ss ! Suc i)" using assms(1) Suc.prems by (simp add: links_ok_def)
  have ne: "Tx_Hash e (ss ! Suc i) \<noteq> []" using len by (metis Tx_Hash_strip list.size(3) zero_neq_numeral)
  have same: "raw (Next (ss ! i)) = raw (Next (ts ! i))" using strip_fields(1) [OF i(2)] by simp
  have n: "Suc i < length ts"
  proof (rule ccontr)
    assume "\<not> Suc i < length ts"
    then have "Next (ts ! i) = None" using assms(2) i(1) by (simp add: links_ok_def)
    then show False using s ne same by (simp add: raw_def)
  qed
  then have "raw (Next (ts ! i)) = Tx_Hash e (ts ! Suc i)" using assms(2) i(1) by (simp add: links_ok_def)
  then show ?case using s same n inj Suc.prems by simp
qed (use assms(3) ts in auto)

text \<open>
  C16. The header binds the group: two groups that pass \<^verbatim>\<open>Check\<close> with the same header contain the same
  transactions in the same order, up to the signatures, unless two different transactions among them
  have the same hash. No transaction can be dropped, added, replaced or moved.
\<close>

theorem group_header_binds:
  assumes "Group_Check e h1 m1 x1 (map Some ss) = Ret ()" and "Group_Check e h2 m2 x2 (map Some ts) = Ret ()"
    and "raw (Header (ss ! 0)) = raw (Header (ts ! 0))" and len: "\<forall>b. length (Sum256 e b) = 32"
    and inj: "\<forall>s \<in> set ss. \<forall>t \<in> set ts. Tx_Hash e s = Tx_Hash e t \<longrightarrow> strip s = strip t"
  shows "map strip ss = map strip ts"
proof -
  note s = Group_Check_links [OF assms(1)] and t = Group_Check_links [OF assms(2)]
  have ne: "ss \<noteq> []" "ts \<noteq> []" using s(1) t(1) by auto
  have "Tx_Hash e (ss ! 0) = Tx_Hash e (ts ! 0)" using s(2) t(2) assms(3) by simp
  then have first: "strip (ss ! 0) = strip (ts ! 0)" using inj ne by (metis length_greater_0_conv nth_mem)
  have "i < length ts \<and> strip (ss ! i) = strip (ts ! i)" if "i < length ss" for i
    using linked_prefix [OF s(3) t(3) first ne(2)] len inj that by blast
  moreover have "i < length ss \<and> strip (ts ! i) = strip (ss ! i)" if "i < length ts" for i
    using linked_prefix [OF t(3) s(3) first [symmetric] ne(1)] len inj that by metis
  ultimately have "length ss = length ts \<and> (\<forall>i < length ss. strip (ss ! i) = strip (ts ! i))"
    by (metis less_irrefl linorder_neqE_nat)
  then show ?thesis by (intro nth_equalityI) auto
qed

lemma toy_second: "strip (toy_group ! Suc 0) = (toy_txs ! 1)\<lparr>GroupCount := 2, Fee := 0\<rparr>"
  using CreateTxGroup_grouped(3) [OF toy_created, of 1]
  by (intro Transaction.equality) (simp_all add: grouped_ok_def same_body_def strip_def toy_txs_def no_tx_def i32_def)

lemma toy_hash_second:
  "hd (Tx_Hash toy_env (toy_group ! Suc 0)) = char_of (2 :: nat)" "last (Tx_Hash toy_env (toy_group ! Suc 0)) = CHR 0x00"
  "length (Tx_Hash toy_env (toy_group ! Suc 0)) = 32"
  unfolding Tx_Hash_strip toy_second
  by (simp_all add: toy_env_def plain_addr_def pad_hash_def zeros_def toy_txs_def wire_simps)

lemma Marshal_ends_with_Next:
  assumes "Next t = Some nx" and "nx \<noteq> []"
  obtains pre where "Transaction_Marshal t = pre @ nx"
proof -
  have "Transaction_Marshal t = put_fields (butlast (Transaction_fields t)) @ put_field (10, VBytes nx)"
    using assms by (simp add: Transaction_Marshal_def Transaction_fields_def opt_bytes_def put_fields_def butlast_append)
  then show thesis using that by simp
qed

lemma toy_hash_first: "Tx_Hash toy_env (toy_group ! 0) = rev (Tx_Hash toy_env (toy_group ! Suc 0))"
proof -
  let ?nx = "Tx_Hash toy_env (toy_group ! Suc 0)"
  have nx: "Next (strip (toy_group ! 0)) = Some ?nx"
    using CreateTxGroup_grouped(3) [OF toy_created, of 0] by (simp add: grouped_ok_def toy_txs_def strip_def)
  have ne: "?nx \<noteq> []" using toy_hash_second(3) by auto
  obtain pre where "Transaction_Marshal (strip (toy_group ! 0)) = pre @ ?nx"
    by (rule Marshal_ends_with_Next [OF nx ne])
  then show ?thesis
    using toy_hash_second(3) by (simp add: Tx_Hash_strip [of _ "toy_group ! 0"]) (simp add: toy_env_def plain_addr_def pad_hash_def)
qed

lemma toy_distinct: "Tx_Hash toy_env (toy_group ! 0) \<noteq> Tx_Hash toy_env (toy_group ! Suc 0)"
proof
  assume "Tx_Hash toy_env (toy_group ! 0) = Tx_Hash toy_env (toy_group ! Suc 0)"
  then have "hd (Tx_Hash toy_env (toy_group ! Suc 0)) = hd (rev (Tx_Hash toy_env (toy_group ! Suc 0)))"
    using toy_hash_first by simp
  then have "char_of (2 :: nat) = CHR 0x00" using toy_hash_second by (simp add: hd_rev)
  moreover have "char_of (2 :: nat) \<noteq> CHR 0x00" by code_simp
  ultimately show False by blast
qed

lemma toy_group_list: "toy_group = [toy_group ! 0, toy_group ! Suc 0]"
  using CreateTxGroup_grouped(1) [OF toy_created] by (intro nth_equalityI) (auto simp: toy_txs_def nth_Cons less_Suc_eq)

lemma toy_passes:
  assumes "list_all2 (signed_as toy_env) ss toy_group"
  shows "Group_Check toy_env 0 100000 0 (map Some ss) = Ret ()"
  by (rule tx_sizes.created_group_passes [OF tx_codec.axioms(1) [OF toy_codec] toy_created])
    (use assms in \<open>auto simp: toy_txs_def no_tx_def one_chain_def IsParaExecName_def HasPrefix_def ParaKeyX_def
       toy_env_def toy_simps types_IsFork_def IsFork_def GetFork_def\<close>)

definition toy_signed :: "Transaction list" where
  "toy_signed = map (Tx_Sign toy_env 1 toy_key) toy_group"

lemma toy_signed_as: "list_all2 (signed_as toy_env) toy_signed toy_group" "list_all2 (signed_as toy_env) toy_group toy_group"
proof -
  have u: "unsigned t = t" if "txSignature t = None" for t using that by (cases t) (simp add: unsigned_def)
  have n: "txSignature t = None" if "t \<in> set toy_group" for t
    using that toy_unsigned by (subst (asm) toy_group_list) auto
  show "list_all2 (signed_as toy_env) toy_signed toy_group" "list_all2 (signed_as toy_env) toy_group toy_group"
    using n u toy_size by (auto simp: toy_signed_def list_all2_conv_all_nth signed_as_def Tx_Sign_facts)
qed

theorem group_header_binds_witness:
  "Group_Check toy_env 0 100000 0 (map Some toy_signed) = Ret () \<and>
   Group_Check toy_env 0 100000 0 (map Some toy_group) = Ret () \<and> map strip toy_signed = map strip toy_group"
proof -
  have d: "Tx_Hash toy_env s = Tx_Hash toy_env t \<longrightarrow> strip s = strip t" if "s \<in> set toy_signed" "t \<in> set toy_group" for s t
    using that toy_distinct unfolding toy_signed_def
    by (subst (asm) toy_group_list, subst (asm) toy_group_list) (auto simp: Tx_Sign_facts Tx_Sign_def Let_def)
  have "raw (Header (toy_signed ! 0)) = raw (Header (toy_group ! 0))"
    unfolding toy_signed_def by (subst toy_group_list) (simp add: Tx_Sign_def Let_def)
  moreover have "\<forall>b. length (Sum256 toy_env b) = 32" using tx_sizes.hash_length [OF tx_codec.axioms(1) [OF toy_codec]] by blast
  ultimately have "map strip toy_signed = map strip toy_group"
    using d by (intro group_header_binds [OF toy_passes [OF toy_signed_as(1)] toy_passes [OF toy_signed_as(2)]]) auto
  then show ?thesis using toy_passes toy_signed_as by blast
qed

end
