(* ===== verification/TxLife.thy ===== *)
theory TxLife
  imports TxProps
begin

text \<open>
  The life of a transaction: \<^verbatim>\<open>RebuiltGroup\<close> after an edit, expiry by height, by time and by the window
  of a transaction height, and the cached results of \<^verbatim>\<open>TransactionCache\<close>.
\<close>

subsection \<open>Rebuilding a group\<close>

definition relink_prev :: "'a tx_env_scheme \<Rightarrow> nat \<Rightarrow> bytes \<Rightarrow> Transaction list \<Rightarrow> Transaction list" where
  "relink_prev e i header txs =
     txs[i := (txs ! i)\<lparr>Header := Some header\<rparr>, i - 1 := (txs ! (i - 1))\<lparr>Next := Some (Tx_Hash e (txs ! i))\<rparr>]"

lemma rebuild_loop_first:
  "rebuild_loop e (Suc 0) header txs = (Tx_Hash e (txs ! 0), txs[0 := (txs ! 0)\<lparr>Header := Some header\<rparr>])"
  by (simp add: Let_def)

lemma rebuild_loop_later:
  "0 < i \<Longrightarrow> rebuild_loop e (Suc i) header txs = rebuild_loop e i header (relink_prev e i header txs)"
  by (simp add: Let_def relink_prev_def)

declare rebuild_loop.simps [simp del]

definition relinked :: "'a tx_env_scheme \<Rightarrow> nat \<Rightarrow> bytes \<Rightarrow> Transaction list \<Rightarrow> Transaction list \<Rightarrow> nat \<Rightarrow> bool" where
  "relinked e k header txs ts i \<longleftrightarrow> ts ! i = (txs ! i)\<lparr>Header := Some header,
     Next := (if Suc i < k then Some (Tx_Hash e (ts ! Suc i)) else Next (txs ! i))\<rparr>"

lemma relinked_prev:
  assumes "0 < i" and "i < length txs" and "ts ! i = (txs ! i)\<lparr>Header := Some header\<rparr>"
    and "\<forall>j < i. relinked e i header (relink_prev e i header txs) ts j" and "j < Suc i"
  shows "relinked e (Suc i) header txs ts j"
proof (cases "j = i")
  case True
  then show ?thesis using assms(3) by (simp add: relinked_def)
next
  case False
  then have r: "relinked e i header (relink_prev e i header txs) ts j" and j: "j < i" using assms by simp_all
  show ?thesis
  proof (cases "Suc j = i")
    case True
    then have "relink_prev e i header txs ! j = (txs ! j)\<lparr>Next := Some (Tx_Hash e (txs ! Suc j))\<rparr>"
      using assms(2) by (auto simp: relink_prev_def)
    moreover have "Tx_Hash e (ts ! Suc j) = Tx_Hash e (txs ! Suc j)" using True assms(3) by simp
    ultimately show ?thesis using r True by (simp add: relinked_def)
  next
    case False
    then have "relink_prev e i header txs ! j = txs ! j" using j by (auto simp: relink_prev_def)
    then show ?thesis using r False j by (simp add: relinked_def)
  qed
qed

lemma rebuild_loop_links:
  "rebuild_loop e k header txs = (h, ts) \<Longrightarrow> 0 < k \<Longrightarrow> k \<le> length txs \<Longrightarrow>
     length ts = length txs \<and> h = Tx_Hash e (ts ! 0) \<and>
     (\<forall>i. k \<le> i \<longrightarrow> i < length txs \<longrightarrow> ts ! i = txs ! i) \<and> (\<forall>i < k. relinked e k header txs ts i)"
proof (induction k arbitrary: txs)
  case (Suc i)
  show ?case
  proof (cases "i = 0")
    case True
    moreover have "0 < length txs" using Suc.prems(3) by linarith
    ultimately show ?thesis using Suc.prems by (auto simp: rebuild_loop_first relinked_def)
  next
    case False
    let ?txs = "relink_prev e i header txs"
    have l: "length ?txs = length txs" by (simp add: relink_prev_def)
    have "rebuild_loop e i header ?txs = (h, ts)" using Suc.prems False by (simp add: rebuild_loop_later)
    from Suc.IH [OF this] have ih: "length ts = length txs" "h = Tx_Hash e (ts ! 0)"
      "\<And>j. i \<le> j \<Longrightarrow> j < length txs \<Longrightarrow> ts ! j = ?txs ! j" "\<forall>j < i. relinked e i header ?txs ts j"
      using Suc.prems False l by auto
    have "ts ! i = (txs ! i)\<lparr>Header := Some header\<rparr>"
      using ih(3) [of i] False Suc.prems by (simp add: relink_prev_def)
    moreover have "ts ! j = txs ! j" if "Suc i \<le> j" "j < length txs" for j
      using ih(3) [of j] that by (simp add: relink_prev_def)
    ultimately show ?thesis
      using relinked_prev [of i txs ts header e] ih Suc.prems False by auto
  qed
qed simp

text \<open>
  \<^verbatim>\<open>RebuiltGroup\<close> restores the links of a group whose transactions have been edited: it changes only
  \<^verbatim>\<open>Header\<close> and \<^verbatim>\<open>Next\<close>, and the result passes the checks of the header, the group count and the next
  hash. On the empty group it panics.
\<close>

theorem RebuiltGroup_links:
  assumes "txs \<noteq> []" and "length txs \<le> 20" and "\<forall>t \<in> set txs. GroupCount t = int (length txs)"
    and "Next (last txs) = None"
  shows "\<exists>gs. RebuiltGroup e txs = (Ret (), gs) \<and> check_links e (length gs) (Header (gs ! 0)) 0 gs = Ret () \<and>
    map (\<lambda>t. t\<lparr>Header := None, Next := None\<rparr>) gs = map (\<lambda>t. t\<lparr>Header := None, Next := None\<rparr>) txs"
proof -
  obtain h ts where run: "rebuild_loop e (length txs) (Tx_Hash e (txs ! 0)) txs = (h, ts)" by fastforce
  have b: "length ts = length txs" "h = Tx_Hash e (ts ! 0)"
    "\<And>i. i < length txs \<Longrightarrow> relinked e (length txs) (Tx_Hash e (txs ! 0)) txs ts i"
    using rebuild_loop_links [OF run] assms(1) by auto
  define gs where "gs = map (\<lambda>t. t\<lparr>Header := Some h\<rparr>) ts"
  have l: "length gs = length txs" using b(1) by (simp add: gs_def)
  have g: "relinked e (length txs) h txs gs i" if "i < length txs" for i
    using b(1) b(3) [OF that] that by (simp add: gs_def relinked_def)
  have g': "Header (gs ! i) = Some h" "GroupCount (gs ! i) = int (length txs)"
    "Next (gs ! i) = (if Suc i < length txs then Some (Tx_Hash e (gs ! Suc i)) else Next (txs ! i))"
    "(gs ! i)\<lparr>Header := None, Next := None\<rparr> = (txs ! i)\<lparr>Header := None, Next := None\<rparr>" if "i < length txs" for i
    using assms(3) nth_mem [OF that] by (simp_all add: g [OF that, unfolded relinked_def])
  have h: "h = Tx_Hash e (gs ! 0)" using b(1,2) assms(1) by (simp add: gs_def)
  have "Next (txs ! i) = None" if "i < length txs" "\<not> Suc i < length txs" for i
  proof -
    have "i = length txs - 1" using that by auto
    then show ?thesis using assms(1,4) by (simp add: last_conv_nth)
  qed
  then have "links_ok e (length gs) h gs"
    unfolding links_ok_def using g' l assms(2) by (simp add: raw_def i32_id is_i32_def)
  moreover have "raw (Header (gs ! 0)) = h" using g'(1) [of 0] assms(1) by (simp add: raw_def)
  moreover have "gs \<noteq> []" using l assms(1) by auto
  ultimately have "check_links e (length gs) (Header (gs ! 0)) 0 gs = Ret ()"
    using check_links_first [of gs e "length gs"] h by simp
  moreover have "RebuiltGroup e txs = (Ret (), gs)" using run assms(1) by (simp add: RebuiltGroup_def gs_def)
  moreover have "map (\<lambda>t. t\<lparr>Header := None, Next := None\<rparr>) gs = map (\<lambda>t. t\<lparr>Header := None, Next := None\<rparr>) txs"
    using g'(4) l by (intro nth_equalityI) auto
  ultimately show ?thesis by blast
qed

definition edited :: "Transaction list" where
  "edited = [no_tx\<lparr>Payload := ''a'', GroupCount := 2\<rparr>, no_tx\<lparr>Payload := ''b'', GroupCount := 2\<rparr>]"

theorem RebuiltGroup_links_witness:
  "\<exists>gs. RebuiltGroup toy_env edited = (Ret (), gs) \<and> check_links toy_env (length gs) (Header (gs ! 0)) 0 gs = Ret () \<and>
    map (\<lambda>t. t\<lparr>Header := None, Next := None\<rparr>) gs = map (\<lambda>t. t\<lparr>Header := None, Next := None\<rparr>) edited"
  by (rule RebuiltGroup_links) (simp_all add: edited_def no_tx_def)

subsection \<open>Expiry\<close>

definition plain_expiry :: "'a tx_env_scheme \<Rightarrow> bool" where
  "plain_expiry e \<longleftrightarrow> (\<exists>on. IsEnable (conf e) ''TxHeight'' = Ret on) \<and>
     (\<forall>h. \<exists>b. types_IsFork (conf e) h ''ForkTxHeight'' = Ret b)"

definition tx_height_on :: "'a tx_env_scheme \<Rightarrow> int \<Rightarrow> bool" where
  "tx_height_on e height \<longleftrightarrow> IsEnable (conf e) ''TxHeight'' = Ret True \<and>
     types_IsFork (conf e) height ''ForkTxHeight'' = Ret True"

text \<open>
  When a transaction counts as expired, for every value of \<^verbatim>\<open>Expire\<close>: never for 0, from the height
  \<^verbatim>\<open>Expire\<close> on up to the bound of one billion, from the block time \<^verbatim>\<open>Expire\<close> on above it, and outside the
  window from 30 blocks before to 90 blocks after \<^verbatim>\<open>Expire - 2^62\<close> for a transaction height.
\<close>

theorem expiry_exact:
  assumes "plain_expiry e" and "is_i64 (Expire tx)"
  shows "isExpire e tx height blocktime = Ret
    (if Expire tx = 0 then False
     else if Expire tx \<le> 1000000000 then Expire tx \<le> height
     else if tx_height_on e height \<and> Expire tx > 2 ^ 62
     then \<not> (Expire tx - 2 ^ 62 - 30 \<le> height \<and> height \<le> Expire tx - 2 ^ 62 + 90)
     else Expire tx \<le> blocktime)"
proof -
  obtain on where on: "IsEnable (conf e) ''TxHeight'' = Ret on" using assms(1) by (auto simp: plain_expiry_def)
  obtain b where b: "types_IsFork (conf e) height ''ForkTxHeight'' = Ret b" using assms(1) by (auto simp: plain_expiry_def)
  have "GetTxHeight e v height = Ret (if tx_height_on e height \<and> v > 2 ^ 62 then v - 2 ^ 62 else -1)" for v
    using on b by (auto simp: GetTxHeight_def types_IsEnableFork_def IsEnableFork_def types_IsFork_def [symmetric]
        tx_height_on_def TxHeightFlag_def)
  moreover have "i64 (Expire tx - 2 ^ 62 - 30) = Expire tx - 2 ^ 62 - 30" "i64 (Expire tx - 2 ^ 62 + 90) = Expire tx - 2 ^ 62 + 90"
    if "Expire tx > 2 ^ 62"
    using assms(2) that by (simp_all add: i64_eq_iff is_i64_def)
  ultimately show ?thesis
    by (auto simp: isExpire_def Let_def ExpireBound_def LowAllowPackHeight_def HighAllowPackHeight_def)
qed

theorem expiry_exact_witness:
  "plain_expiry toy_env \<and> is_i64 (Expire (no_tx\<lparr>Expire := 7\<rparr>)) \<and>
   isExpire toy_env (no_tx\<lparr>Expire := 7\<rparr>) 7 0 = Ret True \<and> isExpire toy_env (no_tx\<lparr>Expire := 7\<rparr>) 6 0 = Ret False"
proof -
  have p: "plain_expiry toy_env"
    by (auto simp: plain_expiry_def toy_env_def toy_conf_def IsEnable_def G_def getChainConfig_def types_IsFork_def IsFork_def
        GetFork_def)
  have i: "is_i64 (Expire (no_tx\<lparr>Expire := 7\<rparr>))" by (simp add: is_i64_def)
  show ?thesis using expiry_exact [OF p i, of 7 0] expiry_exact [OF p i, of 6 0] p i by simp
qed

subsection \<open>Cached results\<close>

datatype cache_call = AskHash | AskSize | AskSign | AskCheck int int int

datatype cache_reply = IsHash "bytes outcome" | IsSize "int outcome" | IsSign "bool outcome" | IsCheck "unit outcome"

fun cache_step :: "'a tx_env_scheme \<Rightarrow> cache_call \<Rightarrow> TransactionCache \<Rightarrow> cache_reply \<times> TransactionCache" where
  "cache_step e AskHash c = map_prod IsHash id (Cache_Hash e c)"
| "cache_step e AskSize c = map_prod IsSize id (Cache_Size e c)"
| "cache_step e AskSign c = map_prod IsSign id (Cache_CheckSign e c)"
| "cache_step e (AskCheck h m x) c = map_prod IsCheck id (Cache_Check e h m x c)"

fun cache_steps :: "'a tx_env_scheme \<Rightarrow> cache_call list \<Rightarrow> TransactionCache \<Rightarrow> cache_reply list" where
  "cache_steps e [] c = []"
| "cache_steps e (q # qs) c = (let (r, c1) = cache_step e q c in r # cache_steps e qs c1)"

definition signs_ok :: "'a tx_env_scheme \<Rightarrow> Transaction \<Rightarrow> bool" where
  "signs_ok e tx = (case GetTxGroup e tx of
      Ret (Some txs) \<Rightarrow> Group_CheckSign e txs | Ret None \<Rightarrow> checkSign_tx e tx | _ \<Rightarrow> False)"

text \<open>The answers without a cache; a check answers for the parameters of the first one.\<close>

fun cache_spec :: "'a tx_env_scheme \<Rightarrow> Transaction \<Rightarrow> (int \<times> int \<times> int) option \<Rightarrow> cache_call list \<Rightarrow> cache_reply list" where
  "cache_spec e tx p [] = []"
| "cache_spec e tx p (AskHash # qs) = IsHash (Ret (Tx_Hash e tx)) # cache_spec e tx p qs"
| "cache_spec e tx p (AskSize # qs) = IsSize (Ret (SizeTx e tx)) # cache_spec e tx p qs"
| "cache_spec e tx p (AskSign # qs) = IsSign (Ret (signs_ok e tx)) # cache_spec e tx p qs"
| "cache_spec e tx p (AskCheck h m x # qs) =
     (let (h1, m1, x1) = (case p of None \<Rightarrow> (h, m, x) | Some q \<Rightarrow> q)
      in IsCheck (Tx_Check e h1 m1 x1 tx) # cache_spec e tx (Some (h1, m1, x1)) qs)"

definition err_of :: "unit outcome \<Rightarrow> error option" where
  "err_of r = (case r of Err er \<Rightarrow> Some er | _ \<Rightarrow> None)"

definition cache_inv :: "'a tx_env_scheme \<Rightarrow> Transaction \<Rightarrow> (int \<times> int \<times> int) option \<Rightarrow> TransactionCache \<Rightarrow> bool" where
  "cache_inv e tx p c \<longleftrightarrow> cTx c = tx \<and> (\<forall>g. txGroup c = Some g \<longrightarrow> GetTxGroup e tx = Ret (Some g)) \<and>
     (\<forall>h. cHash c = Some h \<longrightarrow> h = Tx_Hash e tx) \<and> (cSize c \<noteq> 0 \<longrightarrow> cSize c = SizeTx e tx) \<and>
     (signok c = 0 \<or> (signok c = 1) = signs_ok e tx) \<and> (checked c \<longleftrightarrow> p \<noteq> None) \<and>
     (\<forall>h m x. p = Some (h, m, x) \<longrightarrow> checkok c = err_of (Tx_Check e h m x tx))"

lemma Cache_GetTxGroup_run:
  assumes "cTx c = tx" and "\<forall>g. txGroup c = Some g \<longrightarrow> GetTxGroup e tx = Ret (Some g)"
  obtains g where "Cache_GetTxGroup e c = (GetTxGroup e tx, c\<lparr>txGroup := g\<rparr>)"
    and "\<forall>g'. g = Some g' \<longrightarrow> GetTxGroup e tx = Ret (Some g')"
proof (cases "txGroup c")
  case None
  then have "c\<lparr>txGroup := None\<rparr> = c" by (cases c) simp
  with None show thesis
    using assms that [of None] that [of "ret_or None (GetTxGroup e tx)"]
    by (cases "GetTxGroup e tx") (auto simp: Cache_GetTxGroup_def)
next
  case (Some g)
  then have "c\<lparr>txGroup := Some g\<rparr> = c" by (cases c) simp
  with Some show thesis using assms that [of "Some g"] by (auto simp: Cache_GetTxGroup_def)
qed

lemma GetTxGroup_no_panic: "GetTxGroup e tx \<noteq> Panic p"
  by (auto simp: GetTxGroup_def split: if_splits option.splits)

lemma Cache_Hash_run:
  "cache_inv e tx p c \<Longrightarrow> \<exists>c'. Cache_Hash e c = (Ret (Tx_Hash e tx), c') \<and> cache_inv e tx p c'"
  by (auto simp: Cache_Hash_def cache_inv_def Let_def split: option.splits)

lemma Cache_Size_run:
  "cache_inv e tx p c \<Longrightarrow> \<exists>c'. Cache_Size e c = (Ret (SizeTx e tx), c') \<and> cache_inv e tx p c'"
  by (auto simp: Cache_Size_def cache_inv_def Let_def)

lemma Cache_CheckSign_run:
  assumes "cache_inv e tx p c"
  shows "\<exists>c'. Cache_CheckSign e c = (Ret (signs_ok e tx), c') \<and> cache_inv e tx p c'"
proof (cases "signok c = 0")
  case True
  let ?c = "c\<lparr>signok := 2\<rparr>"
  have tx: "cTx ?c = tx" "\<forall>g. txGroup ?c = Some g \<longrightarrow> GetTxGroup e tx = Ret (Some g)"
    using assms by (auto simp: cache_inv_def)
  obtain g where g: "Cache_GetTxGroup e ?c = (GetTxGroup e tx, ?c\<lparr>txGroup := g\<rparr>)"
    "\<forall>g'. g = Some g' \<longrightarrow> GetTxGroup e tx = Ret (Some g')"
    by (rule Cache_GetTxGroup_run [OF tx])
  let ?c' = "if signs_ok e tx then ?c\<lparr>txGroup := g, signok := 1\<rparr> else ?c\<lparr>txGroup := g\<rparr>"
  have "cache_inv e tx p ?c'" using assms g(2) by (simp add: cache_inv_def)
  moreover have "Cache_CheckSign e c = (Ret (signs_ok e tx), ?c')"
  proof (cases "GetTxGroup e tx")
    case (Ret r)
    then show ?thesis using True g(1) tx by (cases r) (auto simp: Cache_CheckSign_def signs_ok_def)
  next
    case (Err er)
    then show ?thesis using True g(1) by (simp add: Cache_CheckSign_def signs_ok_def)
  qed (simp add: GetTxGroup_no_panic)
  ultimately show ?thesis by blast
next
  case False
  then show ?thesis using assms by (auto simp: Cache_CheckSign_def cache_inv_def)
qed

lemma Cache_Check_run:
  assumes "cache_inv e tx p c" and np: "\<And>h m x q. Tx_Check e h m x tx \<noteq> Panic q"
  shows "\<exists>c'. Cache_Check e h m x c = (case p of None \<Rightarrow> Tx_Check e h m x tx | Some (h1, m1, x1) \<Rightarrow> Tx_Check e h1 m1 x1 tx, c') \<and>
    cache_inv e tx (Some (case p of None \<Rightarrow> (h, m, x) | Some q \<Rightarrow> q)) c'"
proof (cases p)
  case None
  let ?c = "c\<lparr>checked := True\<rparr>"
  have tx: "cTx ?c = tx" "\<forall>g. txGroup ?c = Some g \<longrightarrow> GetTxGroup e tx = Ret (Some g)"
    using assms by (auto simp: cache_inv_def)
  obtain g where g: "Cache_GetTxGroup e ?c = (GetTxGroup e tx, ?c\<lparr>txGroup := g\<rparr>)"
    "\<forall>g'. g = Some g' \<longrightarrow> GetTxGroup e tx = Ret (Some g')"
    by (rule Cache_GetTxGroup_run [OF tx])
  let ?c' = "?c\<lparr>txGroup := g, checkok := err_of (Tx_Check e h m x tx)\<rparr>"
  have "cache_inv e tx (Some (h, m, x)) ?c'" using assms g(2) by (simp add: cache_inv_def)
  moreover have "Cache_Check e h m x c = (Tx_Check e h m x tx, ?c')"
  proof (cases "GetTxGroup e tx")
    case (Ret r)
    define v where "v = (case r of None \<Rightarrow> check_tx e h m x tx | Some txs \<Rightarrow> Group_Check e h m x (map Some txs))"
    have v: "Tx_Check e h m x tx = v" using Ret by (simp add: Tx_Check_def v_def)
    have "\<not> checked c" using assms None by (simp add: cache_inv_def)
    then have "Cache_Check e h m x c = (case as_error v of
        Ret (Some er) \<Rightarrow> fail er (?c\<lparr>txGroup := g, checkok := Some er\<rparr>)
      | Ret None \<Rightarrow> ret () (?c\<lparr>txGroup := g, checkok := None\<rparr>)
      | Err er \<Rightarrow> fail er (?c\<lparr>txGroup := g\<rparr>)
      | Panic p \<Rightarrow> panic p (?c\<lparr>txGroup := g\<rparr>))"
      using g(1) tx Ret by (cases r) (simp_all add: Cache_Check_def v_def)
    then show ?thesis using np [of h m x] unfolding v by (cases v) (auto simp: as_error_def err_of_def)
  next
    case (Err er)
    then show ?thesis using g(1) assms None by (simp add: Cache_Check_def cache_inv_def Tx_Check_def err_of_def)
  qed (simp add: GetTxGroup_no_panic)
  ultimately show ?thesis using None by auto
next
  case (Some q)
  then show ?thesis
    using assms np by (cases q; cases "Tx_Check e (fst q) (fst (snd q)) (snd (snd q)) tx")
      (auto simp: Cache_Check_def cache_inv_def err_of_def)
qed


text \<open>On a chain whose fork table lists no fork, and whose title is not \<^verbatim>\<open>local\<close>, no check panics.\<close>

lemma toy_check_no_panic: "Tx_Check toy_env h m x tx \<noteq> Panic q"
proof -
  have f: "\<exists>b. types_IsFork (conf toy_env) h k = Ret b" for k
    by (simp add: toy_env_def toy_conf_def types_IsFork_def IsFork_def GetFork_def)
  have one: "check_tx toy_env h m' x t \<noteq> Panic q" for t m'
    using f [of "''ForkBlockCheck''"] by (auto simp: check_tx_def Let_def split: if_splits)
  have each: "check_each toy_env h x para ts \<noteq> Panic q" for para ts
    using one by (induction toy_env h x para ts rule: check_each.induct) (auto simp: obind_def split: outcome.splits)
  have sum: "sum_fees toy_env m t ts \<noteq> Panic q" for t ts
    by (induction toy_env m t ts rule: sum_fees.induct) (auto simp: obind_def GetRealFee_def Let_def split: outcome.splits if_splits)
  have para: "check_para toy_env h pa ts \<noteq> Panic q" for pa ts
    using f [of "''ForkTxGroupPara''"] by (auto simp: check_para_def split: if_splits)
  have links: "check_links toy_env n hd i ts \<noteq> Panic q" for n hd i ts
    by (induction toy_env n hd i ts rule: check_links.induct) (auto simp: check_links.simps split: list.splits)
  have "Group_Check toy_env h m x ts \<noteq> Panic q" for ts
    using f [of "''ForkBlockCheck''"] each [of "[]" ts] sum [of 0 "map the ts"] para links
    by (auto simp: Group_Check_def Let_def obind_def split: outcome.splits if_splits)
  then show ?thesis
    using one GetTxGroup_no_panic [of toy_env tx q] by (auto simp: Tx_Check_def obind_def split: outcome.splits option.splits)
qed


end
