(* ===== verification/TxPool.thy ===== *)
theory TxPool
  imports ListMap TxLife
begin

text \<open>
  The caches of the memory pool, \<^verbatim>\<open>src/system/mempool\<close>: the queue of transactions (\<^verbatim>\<open>simplequeue.go\<close>), the
  index by account (\<^verbatim>\<open>accountindex.go\<close>), the latest transactions (\<^verbatim>\<open>lasttx.go\<close>) and the structure that
  keeps the three together (\<^verbatim>\<open>cache.go\<close>). The clock is the parameter \<open>now\<close>, in seconds.
\<close>

definition poolCacheSize :: int where
  "poolCacheSize = 10240"

definition mempoolExpiredInterval :: int where
  "mempoolExpiredInterval = 600"

definition maxTxNumPerAccount :: int where
  "maxTxNumPerAccount = 100"

definition maxTxLast :: int where
  "maxTxLast = 10"

record Item =
  iValue :: Transaction
  iPriority :: int
  iEnterTime :: int

subsection \<open>The queue\<close>

record SubConfig =
  scPoolCacheSize :: int
  scProperFee :: int

record SimpleQueue =
  txList :: "Item ListMap"
  subConfig :: SubConfig

definition NewSimpleQueue :: "SubConfig \<Rightarrow> SimpleQueue" where
  "NewSimpleQueue sc = \<lparr>txList = lm_New, subConfig = sc\<rparr>"

definition sq_Exist :: "SimpleQueue \<Rightarrow> string \<Rightarrow> bool" where
  "sq_Exist q hash = lm_Exist (txList q) hash"

definition sq_GetItem :: "SimpleQueue \<Rightarrow> string \<Rightarrow> Item outcome" where
  "sq_GetItem q hash = lm_GetItem (txList q) hash"

definition sq_Push :: "'a tx_env_scheme \<Rightarrow> Item \<Rightarrow> (SimpleQueue, unit) prog" where
  "sq_Push e item q =
     (let hash = Tx_Hash e (iValue item) in
      if sq_Exist q hash then fail ErrTxExist q
      else if int (lm_Size (txList q)) \<ge> scPoolCacheSize (subConfig q) then fail ErrMemFull q
      else ret () (q\<lparr>txList := lm_Push hash item (txList q)\<rparr>))"

definition sq_Remove :: "string \<Rightarrow> (SimpleQueue, unit) prog" where
  "sq_Remove hash q = ret () (q\<lparr>txList := snd (lm_Remove hash (txList q))\<rparr>)"

definition sq_Size :: "SimpleQueue \<Rightarrow> nat" where
  "sq_Size q = lm_Size (txList q)"

text \<open>\<^verbatim>\<open>Walk\<close> stops when the callback says so or after \<open>n\<close> items; it never stops at the count 0.\<close>

definition sq_Walk :: "int \<Rightarrow> (Item \<Rightarrow> 's \<Rightarrow> bool \<times> 's) \<Rightarrow> SimpleQueue \<Rightarrow> 's \<Rightarrow> 's" where
  "sq_Walk n f q s =
     snd (lm_Walk (Some (\<lambda>item (i, s). case f item s of
            (False, s') \<Rightarrow> (False, (i, s'))
          | (True, s') \<Rightarrow> (i + 1 \<noteq> n, (i + 1, s')))) (txList q) (0, s))"

definition sq_GetProperFee :: "SimpleQueue \<Rightarrow> int" where
  "sq_GetProperFee q = scProperFee (subConfig q)"

subsection \<open>The index by account\<close>

record AccountTxIndex =
  maxperaccount :: int
  accMap :: "(string, Transaction ListMap) mapping"

definition NewAccountTxIndex :: "int \<Rightarrow> AccountTxIndex" where
  "NewAccountTxIndex n = \<lparr>maxperaccount = n, accMap = Mapping.empty\<rparr>"

definition ati_TxNumOfAccount :: "AccountTxIndex \<Rightarrow> string \<Rightarrow> nat" where
  "ati_TxNumOfAccount a addr =
     (case Mapping.lookup (accMap a) addr of Some lm \<Rightarrow> lm_Size lm | None \<Rightarrow> 0)"

record TransactionDetail =
  tdTx :: Transaction
  tdAmount :: int
  tdFromaddr :: string
  tdActionName :: string

text \<open>\<open>amount\<close> and \<open>action\<close> are \<^verbatim>\<open>Amount\<close> and \<^verbatim>\<open>ActionName\<close>, which ask the type of the executor.\<close>

definition ati_GetAccTxs :: "(Transaction \<Rightarrow> int outcome) \<Rightarrow> (Transaction \<Rightarrow> string) \<Rightarrow> AccountTxIndex \<Rightarrow>
    string list \<Rightarrow> TransactionDetail list" where
  "ati_GetAccTxs amount action a addrs =
     fold (\<lambda>addr res.
       case Mapping.lookup (accMap a) addr of
         None \<Rightarrow> res
       | Some lm \<Rightarrow> lm_Walk (Some (\<lambda>v res. (True, res @
           [\<lparr>tdTx = v, tdAmount = (case amount v of Ret n \<Rightarrow> n | _ \<Rightarrow> 0), tdFromaddr = addr,
             tdActionName = action v\<rparr>]))) lm res) addrs []"

definition ati_Remove :: "'a tx_env_scheme \<Rightarrow> Transaction \<Rightarrow> AccountTxIndex \<Rightarrow> AccountTxIndex" where
  "ati_Remove e tx a =
     (let addr = Tx_From e tx in
      case Mapping.lookup (accMap a) addr of
        None \<Rightarrow> a
      | Some lm \<Rightarrow>
          (let lm' = snd (lm_Remove (Tx_Hash e tx) lm) in
           if lm_Size lm' = 0 then a\<lparr>accMap := Mapping.delete addr (accMap a)\<rparr>
           else a\<lparr>accMap := Mapping.update addr lm' (accMap a)\<rparr>))"

definition ati_Push :: "'a tx_env_scheme \<Rightarrow> Transaction \<Rightarrow> (AccountTxIndex, unit) prog" where
  "ati_Push e tx a =
     (let addr = Tx_From e tx;
          a1 = (case Mapping.lookup (accMap a) addr of
                  None \<Rightarrow> a\<lparr>accMap := Mapping.update addr lm_New (accMap a)\<rparr> | Some _ \<Rightarrow> a);
          lm = the (Mapping.lookup (accMap a1) addr)
      in if int (lm_Size lm) \<ge> maxperaccount a1 then fail ErrManyTx a1
         else ret () (a1\<lparr>accMap := Mapping.update addr (lm_Push (Tx_Hash e tx) tx lm) (accMap a1)\<rparr>))"

definition ati_CanPush :: "'a tx_env_scheme \<Rightarrow> Transaction \<Rightarrow> AccountTxIndex \<Rightarrow> bool" where
  "ati_CanPush e tx a =
     (case Mapping.lookup (accMap a) (Tx_From e tx) of
        Some item \<Rightarrow> int (lm_Size item) < maxperaccount a
      | None \<Rightarrow> True)"

subsection \<open>The latest transactions\<close>

record LastTxCache =
  lastMax :: int
  lastL :: "Transaction ListMap"

definition NewLastTxCache :: "int \<Rightarrow> LastTxCache" where
  "NewLastTxCache n = \<lparr>lastMax = n, lastL = lm_New\<rparr>"

definition ltc_GetLatestTx :: "LastTxCache \<Rightarrow> Transaction list" where
  "ltc_GetLatestTx l = lm_Walk (Some (\<lambda>v txs. (True, txs @ [v]))) (lastL l) []"

definition ltc_Remove :: "'a tx_env_scheme \<Rightarrow> Transaction \<Rightarrow> LastTxCache \<Rightarrow> LastTxCache" where
  "ltc_Remove e tx l = l\<lparr>lastL := snd (lm_Remove (Tx_Hash e tx) (lastL l))\<rparr>"

definition ltc_Push :: "'a tx_env_scheme \<Rightarrow> Transaction \<Rightarrow> LastTxCache \<Rightarrow> LastTxCache" where
  "ltc_Push e tx l =
     (let l1 = (if int (lm_Size (lastL l)) \<ge> lastMax l
                then (case lm_GetTop (lastL l) of Some v \<Rightarrow> ltc_Remove e v l | None \<Rightarrow> l) else l)
      in l1\<lparr>lastL := lm_Push (Tx_Hash e tx) tx (lastL l1)\<rparr>)"

subsection \<open>The three together\<close>

text \<open>The field \<^verbatim>\<open>qcache\<close> is an interface, nil until a queue is set.\<close>

record txCache =
  tcIndex :: AccountTxIndex
  tcLast :: LastTxCache
  qcache :: "SimpleQueue option"

definition newCache :: "int \<Rightarrow> int \<Rightarrow> txCache" where
  "newCache maxTxPerAccount sizeLast =
     \<lparr>tcIndex = NewAccountTxIndex maxTxPerAccount, tcLast = NewLastTxCache sizeLast, qcache = None\<rparr>"

definition tc_SetQueueCache :: "SimpleQueue \<Rightarrow> txCache \<Rightarrow> txCache" where
  "tc_SetQueueCache q c = c\<lparr>qcache := Some q\<rparr>"

definition tc_Remove :: "'a tx_env_scheme \<Rightarrow> string \<Rightarrow> (txCache, unit) prog" where
  "tc_Remove e hash c =
     (case qcache c of
        None \<Rightarrow> panic ''nil queue'' c
      | Some q \<Rightarrow>
          (case sq_GetItem q hash of
             Err _ \<Rightarrow> ret () c
           | Panic p \<Rightarrow> panic p c
           | Ret item \<Rightarrow>
               (let tx = iValue item; q' = snd (sq_Remove hash q)
                in ret () (c\<lparr>qcache := Some q', tcIndex := ati_Remove e tx (tcIndex c),
                              tcLast := ltc_Remove e tx (tcLast c)\<rparr>))))"

definition tc_Exist :: "txCache \<Rightarrow> string \<Rightarrow> bool" where
  "tc_Exist c hash = (case qcache c of None \<Rightarrow> False | Some q \<Rightarrow> sq_Exist q hash)"

definition tc_Size :: "txCache \<Rightarrow> nat" where
  "tc_Size c = (case qcache c of None \<Rightarrow> 0 | Some q \<Rightarrow> sq_Size q)"

definition tc_Walk :: "int \<Rightarrow> (Item \<Rightarrow> 's \<Rightarrow> bool \<times> 's) \<Rightarrow> txCache \<Rightarrow> 's \<Rightarrow> 's" where
  "tc_Walk n f c s = (case qcache c of None \<Rightarrow> s | Some q \<Rightarrow> sq_Walk n f q s)"

definition tc_RemoveTxs :: "'a tx_env_scheme \<Rightarrow> string list \<Rightarrow> (txCache, unit) prog" where
  "tc_RemoveTxs e txs = forM txs (tc_Remove e)"

definition tc_Push :: "'a tx_env_scheme \<Rightarrow> int \<Rightarrow> Transaction \<Rightarrow> (txCache, unit) prog" where
  "tc_Push e now tx c =
     (if \<not> ati_CanPush e tx (tcIndex c) then fail ErrManyTx c
      else let item = \<lparr>iValue = tx, iPriority = Fee tx, iEnterTime = now\<rparr> in
        case qcache c of
          None \<Rightarrow> panic ''nil queue'' c
        | Some q \<Rightarrow>
            (case sq_Push e item q of
               (Err er, q') \<Rightarrow> fail er (c\<lparr>qcache := Some q'\<rparr>)
             | (Panic p, q') \<Rightarrow> panic p (c\<lparr>qcache := Some q'\<rparr>)
             | (Ret _, q') \<Rightarrow>
                 (let c1 = c\<lparr>qcache := Some q'\<rparr> in
                  case ati_Push e tx (tcIndex c1) of
                    (Err er, a') \<Rightarrow> fail er (c1\<lparr>tcIndex := a'\<rparr>)
                  | (Panic p, a') \<Rightarrow> panic p (c1\<lparr>tcIndex := a'\<rparr>)
                  | (Ret _, a') \<Rightarrow>
                      ret () (c1\<lparr>tcIndex := a', tcLast := ltc_Push e tx (tcLast c1)\<rparr>))))"

definition isExpired :: "'a tx_env_scheme \<Rightarrow> int \<Rightarrow> Item \<Rightarrow> int \<Rightarrow> int \<Rightarrow> bool outcome" where
  "isExpired e now item height blockTime =
     (if i64 (now - iEnterTime item) \<ge> mempoolExpiredInterval then Ret True
      else obind (Tx_IsExpire e (iValue item) height blockTime) (\<lambda>ex. if ex then Ret True else Ret False))"

text \<open>The hashes that the walk of \<^verbatim>\<open>removeExpiredTx\<close> collects; a panic ends it.\<close>

definition expired_hashes :: "'a tx_env_scheme \<Rightarrow> int \<Rightarrow> int \<Rightarrow> int \<Rightarrow> SimpleQueue \<Rightarrow> string list outcome" where
  "expired_hashes e now height blocktime q =
     sq_Walk 0 (\<lambda>item txs.
       case isExpired e now item height blocktime of
         Ret ex \<Rightarrow> (True, if ex then obind txs (\<lambda>hs. Ret (hs @ [Tx_Hash e (iValue item)])) else txs)
       | Err er \<Rightarrow> (False, Err er)
       | Panic p \<Rightarrow> (False, Panic p)) q (Ret [])"

definition removeExpiredTx :: "'a tx_env_scheme \<Rightarrow> int \<Rightarrow> int \<Rightarrow> int \<Rightarrow> (txCache, unit) prog" where
  "removeExpiredTx e now height blocktime c =
     (case qcache c of
        None \<Rightarrow> panic ''nil queue'' c
      | Some q \<Rightarrow>
          (case expired_hashes e now height blocktime q of
             Ret txs \<Rightarrow> tc_RemoveTxs e txs c
           | Err er \<Rightarrow> fail er c
           | Panic p \<Rightarrow> panic p c))"

subsection \<open>Walking the queue\<close>

definition visited :: "int \<Rightarrow> 'v list \<Rightarrow> 'v list" where
  "visited n vs = (if n \<le> 0 then vs else take (nat n) vs)"

lemma walk_counted:
  "snd (walk_vals (\<lambda>item (i, s). case f item s of
          (False, s') \<Rightarrow> (False, (i, s')) | (True, s') \<Rightarrow> (i + 1 \<noteq> n, (i + 1, s'))) vs (i, s)) =
     walk_vals f (if i < n then take (nat (n - i)) vs else vs) s" for i n :: int
proof (induction vs arbitrary: i s)
  case (Cons v vs)
  obtain go s' where f: "f v s = (go, s')" by fastforce
  show ?case
  proof (cases "i < n")
    case True
    then have "nat (n - i) = Suc (nat (n - (i + 1)))" by simp
    then show ?thesis using Cons [of "i + 1" s'] f True by (cases go) auto
  next
    case False
    then show ?thesis using Cons [of "i + 1" s'] f by (cases go) auto
  qed
qed simp

lemma sq_Walk_visited:
  "lm_holds (txList q) kvs \<Longrightarrow> sq_Walk n f q s = walk_vals f (visited n (map snd kvs)) s"
  using walk_counted [where f = f and n = n and vs = "map snd kvs" and i = 0 and s = s]
  by (simp add: sq_Walk_def lm_Walk_values lm.vals visited_def)

subsection \<open>The invariant of the pool\<close>

definition keyed :: "'a tx_env_scheme \<Rightarrow> Transaction list \<Rightarrow> (string \<times> Transaction) list" where
  "keyed e ts = map (\<lambda>t. (Tx_Hash e t, t)) ts"

definition item_hash :: "'a tx_env_scheme \<Rightarrow> Item \<Rightarrow> string" where
  "item_hash e it = Tx_Hash e (iValue it)"

definition ikeyed :: "'a tx_env_scheme \<Rightarrow> Item list \<Rightarrow> (string \<times> Item) list" where
  "ikeyed e its = map (\<lambda>it. (item_hash e it, it)) its"

definition txs_of :: "'a tx_env_scheme \<Rightarrow> string \<Rightarrow> Item list \<Rightarrow> Transaction list" where
  "txs_of e addr its = map iValue (filter (\<lambda>it. Tx_From e (iValue it) = addr) its)"

definition index_holds :: "'a tx_env_scheme \<Rightarrow> AccountTxIndex \<Rightarrow> Item list \<Rightarrow> bool" where
  "index_holds e a its \<longleftrightarrow> (\<forall>addr. int (length (txs_of e addr its)) \<le> maxperaccount a \<and>
     (case Mapping.lookup (accMap a) addr of
        None \<Rightarrow> txs_of e addr its = []
      | Some lm \<Rightarrow> txs_of e addr its \<noteq> [] \<and> lm_holds lm (keyed e (txs_of e addr its))))"

text \<open>The same, one account at a time.\<close>

definition index_at :: "'a tx_env_scheme \<Rightarrow> int \<Rightarrow> Transaction ListMap option \<Rightarrow> Transaction list \<Rightarrow> bool" where
  "index_at e n m ts \<longleftrightarrow> int (length ts) \<le> n \<and>
     (case m of None \<Rightarrow> ts = [] | Some lm \<Rightarrow> ts \<noteq> [] \<and> lm_holds lm (keyed e ts))"

lemma index_at_iff:
  "index_holds e a its \<longleftrightarrow>
     (\<forall>addr. index_at e (maxperaccount a) (Mapping.lookup (accMap a) addr) (txs_of e addr its))"
  by (simp add: index_holds_def index_at_def)

definition last_holds :: "'a tx_env_scheme \<Rightarrow> LastTxCache \<Rightarrow> Item list \<Rightarrow> bool" where
  "last_holds e l its \<longleftrightarrow> (\<exists>ls. lm_holds (lastL l) (keyed e ls) \<and> set ls \<subseteq> iValue ` set its \<and>
     int (length ls) \<le> max 1 (lastMax l))"

definition queue_holds :: "'a tx_env_scheme \<Rightarrow> SimpleQueue \<Rightarrow> Item list \<Rightarrow> bool" where
  "queue_holds e q its \<longleftrightarrow> lm_holds (txList q) (ikeyed e its) \<and> int (length its) \<le> scPoolCacheSize (subConfig q)"

definition pool_holds :: "'a tx_env_scheme \<Rightarrow> txCache \<Rightarrow> Item list \<Rightarrow> bool" where
  "pool_holds e c its \<longleftrightarrow> (\<exists>q. qcache c = Some q \<and> queue_holds e q its) \<and>
     0 < maxperaccount (tcIndex c) \<and> index_holds e (tcIndex c) its \<and> last_holds e (tcLast c) its"

lemma without_keyed:
  "without h (keyed e ts) = keyed e (filter (\<lambda>t. Tx_Hash e t \<noteq> h) ts)"
  "without h (ikeyed e its) = ikeyed e (filter (\<lambda>it. item_hash e it \<noteq> h) its)"
  by (simp_all add: without_def keyed_def ikeyed_def filter_map comp_def)

lemma keys_keyed: "fst ` set (keyed e ts) = Tx_Hash e ` set ts" "fst ` set (ikeyed e its) = item_hash e ` set its"
  by (force simp: keyed_def ikeyed_def)+

lemma map_of_ikeyed:
  "map_of (ikeyed e its) h = Some it \<Longrightarrow> it \<in> set its \<and> item_hash e it = h"
  by (auto simp: ikeyed_def dest!: map_of_SomeD)

lemma keyed_append: "keyed e (ts @ [t]) = keyed e ts @ [(Tx_Hash e t, t)]" "ikeyed e (its @ [it]) = ikeyed e its @ [(item_hash e it, it)]"
  by (simp_all add: keyed_def ikeyed_def)

lemma queue_distinct: "queue_holds e q its \<Longrightarrow> distinct (map (item_hash e) its)"
  using lm.holds_keys [of "txList q" "ikeyed e its"] by (simp add: queue_holds_def ikeyed_def comp_def)

subsubsection \<open>Queue\<close>

lemma queue_new: "0 \<le> scPoolCacheSize sc \<Longrightarrow> queue_holds e (NewSimpleQueue sc) []"
  by (simp add: queue_holds_def NewSimpleQueue_def ikeyed_def lm.holds_new)

lemma queue_exist: "queue_holds e q its \<Longrightarrow> sq_Exist q h \<longleftrightarrow> h \<in> item_hash e ` set its"
  using lm.exist [of "txList q" "ikeyed e its" h] by (simp add: queue_holds_def sq_Exist_def keys_keyed)

lemma queue_size: "queue_holds e q its \<Longrightarrow> sq_Size q = length its"
  using lm.size_of [of "txList q" "ikeyed e its"] by (simp add: queue_holds_def sq_Size_def ikeyed_def)

lemma queue_get:
  "queue_holds e q its \<Longrightarrow> sq_GetItem q h = (case map_of (ikeyed e its) h of None \<Rightarrow> Err ErrNotFound | Some it \<Rightarrow> Ret it)"
  using lm.get [of "txList q" "ikeyed e its" h] by (simp add: queue_holds_def sq_GetItem_def)

lemma length_kept: "int (length xs) \<le> n \<Longrightarrow> int (length (filter P xs)) \<le> n"
  using length_filter_le [of P xs] by linarith

lemma queue_remove:
  "queue_holds e q its \<Longrightarrow> \<exists>q'. sq_Remove h q = (Ret (), q') \<and>
     queue_holds e q' (filter (\<lambda>it. item_hash e it \<noteq> h) its) \<and> subConfig q' = subConfig q"
  using lm.holds_remove [of "txList q" "ikeyed e its" h] length_kept [where P = "\<lambda>it. item_hash e it \<noteq> h" and xs = its]
  by (simp add: queue_holds_def sq_Remove_def without_keyed)

lemma queue_push:
  assumes "queue_holds e q its"
  shows "item_hash e it \<in> item_hash e ` set its \<Longrightarrow> sq_Push e it q = (Err ErrTxExist, q)"
    and "item_hash e it \<notin> item_hash e ` set its \<Longrightarrow> int (length its) \<ge> scPoolCacheSize (subConfig q) \<Longrightarrow>
      sq_Push e it q = (Err ErrMemFull, q)"
    and "item_hash e it \<notin> item_hash e ` set its \<Longrightarrow> int (length its) < scPoolCacheSize (subConfig q) \<Longrightarrow>
      \<exists>q'. sq_Push e it q = (Ret (), q') \<and> queue_holds e q' (its @ [it]) \<and> subConfig q' = subConfig q"
proof -
  note ex = queue_exist [OF assms] and l = queue_size [OF assms, unfolded sq_Size_def]
  show "item_hash e it \<in> item_hash e ` set its \<Longrightarrow> sq_Push e it q = (Err ErrTxExist, q)"
    using ex by (simp add: sq_Push_def item_hash_def)
  show "item_hash e it \<notin> item_hash e ` set its \<Longrightarrow> int (length its) \<ge> scPoolCacheSize (subConfig q) \<Longrightarrow>
      sq_Push e it q = (Err ErrMemFull, q)"
    using ex l by (simp add: sq_Push_def item_hash_def)
  show "item_hash e it \<notin> item_hash e ` set its \<Longrightarrow> int (length its) < scPoolCacheSize (subConfig q) \<Longrightarrow>
      \<exists>q'. sq_Push e it q = (Ret (), q') \<and> queue_holds e q' (its @ [it]) \<and> subConfig q' = subConfig q"
    using assms ex [of "item_hash e it"] l lm.push_new_key [of "txList q" "ikeyed e its" "item_hash e it" it]
    by (simp add: sq_Push_def queue_holds_def keyed_append sq_Exist_def item_hash_def)
qed

subsubsection \<open>Index by account\<close>

lemma txs_of_append: "txs_of e addr (its @ [it]) = txs_of e addr its @ (if Tx_From e (iValue it) = addr then [iValue it] else [])"
  by (simp add: txs_of_def)

lemma txs_of_filter: "txs_of e addr (filter (\<lambda>it. item_hash e it \<noteq> h) its) = filter (\<lambda>t. Tx_Hash e t \<noteq> h) (txs_of e addr its)"
  by (induction its) (auto simp: txs_of_def item_hash_def)

lemma txs_of_set: "set (txs_of e addr its) \<subseteq> iValue ` set its"
  by (auto simp: txs_of_def)

lemma index_new: "0 \<le> n \<Longrightarrow> index_holds e (NewAccountTxIndex n) []"
  by (simp add: index_holds_def NewAccountTxIndex_def txs_of_def lookup_empty)

lemma index_num: "index_holds e a its \<Longrightarrow> ati_TxNumOfAccount a addr = length (txs_of e addr its)"
  using lm.size_of [of _ "keyed e (txs_of e addr its)"]
  by (cases "Mapping.lookup (accMap a) addr")
    (auto simp: index_holds_def ati_TxNumOfAccount_def keyed_def dest!: spec [of _ addr])

lemma index_can_push:
  assumes "index_holds e a its" and "0 < maxperaccount a"
  shows "ati_CanPush e tx a \<longleftrightarrow> int (length (txs_of e (Tx_From e tx) its)) < maxperaccount a"
  using index_num [OF assms(1), of "Tx_From e tx"] assms
  by (cases "Mapping.lookup (accMap a) (Tx_From e tx)")
    (auto simp: ati_CanPush_def ati_TxNumOfAccount_def index_holds_def dest!: spec [of _ "Tx_From e tx"])

lemma index_push:
  assumes "index_holds e a its" and "0 < maxperaccount a" and tx: "iValue it = tx"
    and "item_hash e it \<notin> item_hash e ` set its" and "int (length (txs_of e (Tx_From e tx) its)) < maxperaccount a"
  shows "\<exists>a'. ati_Push e tx a = (Ret (), a') \<and> index_holds e a' (its @ [it]) \<and> maxperaccount a' = maxperaccount a"
proof -
  let ?addr = "Tx_From e tx" and ?ts = "txs_of e (Tx_From e tx) its"
  define lm where "lm = (case Mapping.lookup (accMap a) ?addr of None \<Rightarrow> lm_New | Some lm \<Rightarrow> lm)"
  have h: "lm_holds lm (keyed e ?ts)"
    using assms(1) by (auto simp: index_holds_def lm_def keyed_def lm.holds_new split: option.splits dest!: spec [of _ ?addr])
  have sz: "lm_Size lm = length ?ts" using lm.size_of [OF h] by (simp add: keyed_def)
  have "Tx_Hash e tx \<notin> Tx_Hash e ` set ?ts"
    using assms(4) txs_of_set [of e ?addr its] by (auto simp: item_hash_def tx)
  then have p: "lm_holds (lm_Push (Tx_Hash e tx) tx lm) (keyed e (?ts @ [tx]))"
    using lm.push_new_key [OF h] lm.exist [OF h] by (simp add: keyed_append keys_keyed)
  let ?m = "Mapping.update ?addr (lm_Push (Tx_Hash e tx) tx lm)
    (case Mapping.lookup (accMap a) ?addr of None \<Rightarrow> Mapping.update ?addr lm_New (accMap a) | Some _ \<Rightarrow> accMap a)"
  have "ati_Push e tx a = (Ret (), a\<lparr>accMap := ?m\<rparr>)"
    using sz assms(5) by (auto simp: ati_Push_def lm_def Let_def lookup_update split: option.splits)
  moreover have "Mapping.lookup ?m x = (if x = ?addr then Some (lm_Push (Tx_Hash e tx) tx lm) else Mapping.lookup (accMap a) x)" for x
    by (auto simp: lookup_update' split: option.splits)
  then have "index_holds e (a\<lparr>accMap := ?m\<rparr>) (its @ [it])"
    using assms(1,5) p by (simp add: index_at_iff txs_of_append tx) (simp add: index_at_def)
  ultimately show ?thesis by auto
qed

lemma index_remove:
  assumes "index_holds e a its" and it: "it \<in> set its" and d: "distinct (map (item_hash e) its)"
  shows "index_holds e (ati_Remove e (iValue it) a) (filter (\<lambda>x. item_hash e x \<noteq> item_hash e it) its)"
proof -
  let ?tx = "iValue it" and ?h = "item_hash e it"
  let ?addr = "Tx_From e ?tx"
  have other: "filter (\<lambda>t. Tx_Hash e t \<noteq> ?h) (txs_of e x its) = txs_of e x its" if "x \<noteq> ?addr" for x
  proof -
    have "Tx_Hash e (iValue y) \<noteq> ?h" if "y \<in> set its" "Tx_From e (iValue y) = x" for y
      using that \<open>x \<noteq> ?addr\<close> d it by (auto simp: distinct_map inj_on_def item_hash_def)
    then show ?thesis by (auto simp: txs_of_def filter_id_conv)
  qed
  have "?tx \<in> set (txs_of e ?addr its)" using it by (auto simp: txs_of_def)
  then obtain lm where lm: "Mapping.lookup (accMap a) ?addr = Some lm" "lm_holds lm (keyed e (txs_of e ?addr its))"
    using assms(1) by (auto simp: index_holds_def split: option.splits dest!: spec [of _ ?addr])
  let ?lm = "snd (lm_Remove ?h lm)" and ?ts = "filter (\<lambda>t. Tx_Hash e t \<noteq> ?h) (txs_of e ?addr its)"
  have r: "lm_holds ?lm (keyed e ?ts)" using lm.holds_remove [OF lm(2)] by (simp add: without_keyed)
  have sz: "lm_Size ?lm = length ?ts" using lm.size_of [OF r] by (simp add: keyed_def)
  let ?a = "ati_Remove e ?tx a"
  have look: "Mapping.lookup (accMap ?a) x =
      (if x = ?addr then if ?ts = [] then None else Some ?lm else Mapping.lookup (accMap a) x)" for x
    using sz by (cases "x = ?addr")
      (auto simp: ati_Remove_def lm(1) Let_def item_hash_def lookup_delete lookup_delete_neq lookup_update lookup_update_neq)
  have mx: "maxperaccount ?a = maxperaccount a"
    by (auto simp: ati_Remove_def Let_def split: option.splits)
  have "index_at e (maxperaccount a) (if ?ts = [] then None else Some ?lm) ?ts"
    using assms(1) r length_kept by (auto simp: index_at_iff index_at_def)
  moreover have "index_at e (maxperaccount a) (Mapping.lookup (accMap a) x) (filter (\<lambda>t. Tx_Hash e t \<noteq> ?h) (txs_of e x its))"
    if "x \<noteq> ?addr" for x
    using assms(1) other [OF that] by (simp add: index_at_iff)
  ultimately show ?thesis unfolding index_at_iff txs_of_filter look mx by (auto split: if_splits)
qed

subsubsection \<open>Latest transactions\<close>

lemma last_new: "last_holds e (NewLastTxCache n) []"
  unfolding last_holds_def by (rule exI [of _ "[]"]) (simp add: NewLastTxCache_def keyed_def lm.holds_new)

lemma last_remove:
  assumes "last_holds e l its"
  shows "last_holds e (ltc_Remove e tx l) (filter (\<lambda>x. item_hash e x \<noteq> Tx_Hash e tx) its)"
proof -
  obtain ls where ls: "lm_holds (lastL l) (keyed e ls)" "set ls \<subseteq> iValue ` set its" "int (length ls) \<le> max 1 (lastMax l)"
    using assms by (auto simp: last_holds_def)
  let ?ls = "filter (\<lambda>t. Tx_Hash e t \<noteq> Tx_Hash e tx) ls"
  have "lm_holds (lastL (ltc_Remove e tx l)) (keyed e ?ls)"
    using lm.holds_remove [OF ls(1), of "Tx_Hash e tx"] by (simp add: ltc_Remove_def without_keyed)
  moreover have "set ?ls \<subseteq> iValue ` set (filter (\<lambda>x. item_hash e x \<noteq> Tx_Hash e tx) its)"
    using ls(2) by (auto simp: item_hash_def)
  moreover have "int (length ?ls) \<le> max 1 (lastMax (ltc_Remove e tx l))"
    using length_kept [OF ls(3)] by (simp add: ltc_Remove_def)
  ultimately show ?thesis unfolding last_holds_def by blast
qed

lemma last_room:
  assumes "lm_holds (lastL l) (keyed e ls)" and "int (length ls) \<le> max 1 (lastMax l)"
  defines "l1 \<equiv> (if int (lm_Size (lastL l)) \<ge> lastMax l
      then (case lm_GetTop (lastL l) of Some v \<Rightarrow> ltc_Remove e v l | None \<Rightarrow> l) else l)"
  shows "\<exists>ls'. lm_holds (lastL l1) (keyed e ls') \<and> set ls' \<subseteq> set ls \<and> int (length ls') < max 1 (lastMax l) \<and> lastMax l1 = lastMax l"
proof (cases "int (length ls) \<ge> lastMax l \<and> ls \<noteq> []")
  case True
  then obtain t ts where ts: "ls = t # ts" by (cases ls) auto
  have sz: "lm_Size (lastL l) = length ls" using lm.size_of [OF assms(1)] by (simp add: keyed_def)
  have top: "lm_GetTop (lastL l) = Some t" using lm.first [OF assms(1)] by (simp add: keyed_def ts)
  have "distinct (map (Tx_Hash e) ls)" using lm.holds_keys [OF assms(1)] by (simp add: keyed_def comp_def)
  then have "filter (\<lambda>u. Tx_Hash e u \<noteq> Tx_Hash e t) ls = ts" by (auto simp: ts filter_id_conv image_iff)
  then have "lm_holds (lastL (ltc_Remove e t l)) (keyed e ts)"
    using lm.holds_remove [OF assms(1), of "Tx_Hash e t"] by (simp add: ltc_Remove_def without_keyed)
  moreover have "l1 = ltc_Remove e t l" using True sz top by (simp add: l1_def)
  ultimately show ?thesis using assms(2) by (intro exI [of _ ts]) (auto simp: ts ltc_Remove_def)
next
  case False
  have sz: "lm_Size (lastL l) = length ls" using lm.size_of [OF assms(1)] by (simp add: keyed_def)
  have "lm_GetTop (lastL l) = None" if "ls = []" using lm.first [OF assms(1)] that by (simp add: keyed_def)
  then have "l1 = l" using False sz by (auto simp: l1_def)
  then show ?thesis using assms(1) False by (intro exI [of _ ls]) auto
qed

lemma last_push:
  assumes "last_holds e l its" and "item_hash e it \<notin> item_hash e ` set its"
  shows "last_holds e (ltc_Push e (iValue it) l) (its @ [it])"
proof -
  let ?tx = "iValue it"
  obtain ls where ls: "lm_holds (lastL l) (keyed e ls)" "set ls \<subseteq> iValue ` set its" "int (length ls) \<le> max 1 (lastMax l)"
    using assms(1) by (auto simp: last_holds_def)
  define l1 where "l1 = (if int (lm_Size (lastL l)) \<ge> lastMax l
      then (case lm_GetTop (lastL l) of Some v \<Rightarrow> ltc_Remove e v l | None \<Rightarrow> l) else l)"
  obtain ls' where ls': "lm_holds (lastL l1) (keyed e ls')" "set ls' \<subseteq> set ls" "int (length ls') < max 1 (lastMax l)"
    "lastMax l1 = lastMax l"
    using last_room [OF ls(1,3)] unfolding l1_def by auto
  have "Tx_Hash e ?tx \<notin> Tx_Hash e ` set ls'"
  proof
    assume "Tx_Hash e ?tx \<in> Tx_Hash e ` set ls'"
    then obtain x where "x \<in> set its" "Tx_Hash e ?tx = Tx_Hash e (iValue x)" using ls(2) ls'(2) by blast
    then show False using assms(2) by (auto simp: item_hash_def)
  qed
  then have "lm_holds (lm_Push (Tx_Hash e ?tx) ?tx (lastL l1)) (keyed e (ls' @ [?tx]))"
    using lm.push_new_key [OF ls'(1)] lm.exist [OF ls'(1)] by (simp add: keyed_append keys_keyed)
  moreover have "ltc_Push e ?tx l = l1\<lparr>lastL := lm_Push (Tx_Hash e ?tx) ?tx (lastL l1)\<rparr>"
    unfolding ltc_Push_def l1_def Let_def ..
  ultimately show ?thesis
    unfolding last_holds_def using ls(2) ls'(2-4) by (intro exI [of _ "ls' @ [?tx]"]) auto
qed

subsubsection \<open>The pool\<close>

lemma pool_new:
  "0 < n \<Longrightarrow> 0 \<le> scPoolCacheSize sc \<Longrightarrow> pool_holds e (tc_SetQueueCache (NewSimpleQueue sc) (newCache n k)) []"
  by (simp add: pool_holds_def tc_SetQueueCache_def newCache_def queue_new index_new last_new)
    (simp add: NewAccountTxIndex_def)

definition pool_cap :: "txCache \<Rightarrow> int" where
  "pool_cap c = (case qcache c of None \<Rightarrow> 0 | Some q \<Rightarrow> scPoolCacheSize (subConfig q))"

definition same_limits :: "txCache \<Rightarrow> txCache \<Rightarrow> bool" where
  "same_limits c c' \<longleftrightarrow> maxperaccount (tcIndex c') = maxperaccount (tcIndex c) \<and> pool_cap c' = pool_cap c \<and>
     lastMax (tcLast c') = lastMax (tcLast c)"

lemma ati_Remove_max [simp]: "maxperaccount (ati_Remove e tx a) = maxperaccount a"
  by (simp add: ati_Remove_def Let_def split: option.split)

lemma ltc_max [simp]: "lastMax (ltc_Remove e tx l) = lastMax l" "lastMax (ltc_Push e tx l) = lastMax l"
  by (simp_all add: ltc_Remove_def ltc_Push_def Let_def split: option.split)

lemma pool_remove:
  assumes "pool_holds e c its"
  shows "\<exists>c'. tc_Remove e h c = (Ret (), c') \<and> pool_holds e c' (filter (\<lambda>it. item_hash e it \<noteq> h) its) \<and> same_limits c c'"
proof -
  obtain q where q: "qcache c = Some q" "queue_holds e q its" using assms by (auto simp: pool_holds_def)
  show ?thesis
  proof (cases "map_of (ikeyed e its) h")
    case None
    then have "h \<notin> item_hash e ` set its" by (metis keys_keyed(2) map_of_eq_None_iff)
    then have "filter (\<lambda>it. item_hash e it \<noteq> h) its = its" by (auto simp: filter_id_conv)
    then show ?thesis using None q queue_get [OF q(2), of h] assms by (simp add: tc_Remove_def same_limits_def)
  next
    case (Some it)
    then have it: "it \<in> set its" "item_hash e it = h" using map_of_ikeyed [OF Some] by auto
    obtain q' where q': "sq_Remove h q = (Ret (), q')" "queue_holds e q' (filter (\<lambda>it. item_hash e it \<noteq> h) its)"
      "subConfig q' = subConfig q"
      using queue_remove [OF q(2), of h] by blast
    have i: "index_holds e (ati_Remove e (iValue it) (tcIndex c)) (filter (\<lambda>it. item_hash e it \<noteq> h) its)"
      using index_remove [OF _ it(1) queue_distinct [OF q(2)]] assms it(2) by (simp add: pool_holds_def)
    have l: "last_holds e (ltc_Remove e (iValue it) (tcLast c)) (filter (\<lambda>it. item_hash e it \<noteq> h) its)"
      using last_remove [of e "tcLast c" its "iValue it"] assms it(2) by (simp add: pool_holds_def item_hash_def)
    show ?thesis
      using Some q q' i l assms queue_get [OF q(2), of h]
      by (simp add: tc_Remove_def pool_holds_def Let_def same_limits_def pool_cap_def)
  qed
qed

lemma pool_removes:
  "pool_holds e c its \<Longrightarrow> \<exists>c'. tc_RemoveTxs e hs c = (Ret (), c') \<and>
     pool_holds e c' (filter (\<lambda>it. item_hash e it \<notin> set hs) its) \<and> same_limits c c'"
proof (induction hs arbitrary: c its)
  case (Cons h hs)
  obtain c1 where c1: "tc_Remove e h c = (Ret (), c1)" "pool_holds e c1 (filter (\<lambda>it. item_hash e it \<noteq> h) its)" "same_limits c c1"
    using pool_remove [OF Cons.prems, of h] by blast
  obtain c2 where "tc_RemoveTxs e hs c1 = (Ret (), c2)"
    "pool_holds e c2 (filter (\<lambda>it. item_hash e it \<notin> set hs) (filter (\<lambda>it. item_hash e it \<noteq> h) its))" "same_limits c1 c2"
    using Cons.IH [OF c1(2)] by blast
  then show ?case
    using c1 by (auto simp: tc_RemoveTxs_def bind_def same_limits_def conj_commute)
qed (simp add: tc_RemoveTxs_def same_limits_def)

definition new_item :: "int \<Rightarrow> Transaction \<Rightarrow> Item" where
  "new_item now tx = \<lparr>iValue = tx, iPriority = Fee tx, iEnterTime = now\<rparr>"

text \<open>The verdict of \<^verbatim>\<open>Push\<close> on the abstract queue: \<open>None\<close> for success.\<close>

definition push_error :: "'a tx_env_scheme \<Rightarrow> txCache \<Rightarrow> Item list \<Rightarrow> Transaction \<Rightarrow> error option" where
  "push_error e c its tx =
     (if int (length (txs_of e (Tx_From e tx) its)) \<ge> maxperaccount (tcIndex c) then Some ErrManyTx
      else if Tx_Hash e tx \<in> item_hash e ` set its then Some ErrTxExist
      else if int (length its) \<ge> pool_cap c then Some ErrMemFull
      else None)"

lemma pool_push:
  assumes "pool_holds e c its"
  shows "push_error e c its tx = Some er \<Longrightarrow> tc_Push e now tx c = (Err er, c)"
    and "push_error e c its tx = None \<Longrightarrow>
      \<exists>c'. tc_Push e now tx c = (Ret (), c') \<and> pool_holds e c' (its @ [new_item now tx]) \<and> same_limits c c'"
proof -
  let ?it = "new_item now tx"
  obtain q where q: "qcache c = Some q" "queue_holds e q its" using assms by (auto simp: pool_holds_def)
  have i: "index_holds e (tcIndex c) its" "0 < maxperaccount (tcIndex c)" and l: "last_holds e (tcLast c) its"
    using assms by (auto simp: pool_holds_def)
  have hash: "item_hash e ?it = Tx_Hash e tx" "iValue ?it = tx" by (simp_all add: item_hash_def new_item_def)
  have same: "c\<lparr>qcache := Some q\<rparr> = c" using q(1) by (cases c) simp
  note can = index_can_push [OF i, of tx] and push = queue_push [OF q(2), of ?it, unfolded hash]
  show "tc_Push e now tx c = (Err er, c)" if "push_error e c its tx = Some er"
    using that q(1) can push(1,2) same
    by (auto simp: push_error_def tc_Push_def new_item_def [symmetric] pool_cap_def split: if_splits)
  show "\<exists>c'. tc_Push e now tx c = (Ret (), c') \<and> pool_holds e c' (its @ [?it]) \<and> same_limits c c'"
    if "push_error e c its tx = None"
  proof -
    have n: "int (length (txs_of e (Tx_From e tx) its)) < maxperaccount (tcIndex c)"
      "Tx_Hash e tx \<notin> item_hash e ` set its" "int (length its) < scPoolCacheSize (subConfig q)"
      using that q(1) by (auto simp: push_error_def pool_cap_def split: if_splits)
    obtain q' where q': "sq_Push e ?it q = (Ret (), q')" "queue_holds e q' (its @ [?it])" "subConfig q' = subConfig q"
      using push(3) n by blast
    obtain a' where a': "ati_Push e tx (tcIndex c) = (Ret (), a')" "index_holds e a' (its @ [?it])"
      "maxperaccount a' = maxperaccount (tcIndex c)"
      using index_push [OF i hash(2)] n hash by auto
    have "last_holds e (ltc_Push e tx (tcLast c)) (its @ [?it])"
      using last_push [OF l, of ?it] n(2) hash by simp
    then show ?thesis
      using q q' a' i n(1) can
      by (simp add: tc_Push_def new_item_def [symmetric] Let_def pool_holds_def same_limits_def pool_cap_def)
  qed
qed

subsubsection \<open>Expiry\<close>

definition is_expired :: "'a tx_env_scheme \<Rightarrow> int \<Rightarrow> int \<Rightarrow> int \<Rightarrow> Item \<Rightarrow> bool" where
  "is_expired e now height blocktime it \<longleftrightarrow> isExpired e now it height blocktime = Ret True"

definition no_panic :: "'a tx_env_scheme \<Rightarrow> int \<Rightarrow> int \<Rightarrow> int \<Rightarrow> Item list \<Rightarrow> bool" where
  "no_panic e now height blocktime its \<longleftrightarrow> (\<forall>it \<in> set its. \<exists>b. isExpired e now it height blocktime = Ret b)"

lemma expired_hashes_run:
  assumes "queue_holds e q its" and "no_panic e now height blocktime its"
  shows "expired_hashes e now height blocktime q = Ret (map (item_hash e) (filter (is_expired e now height blocktime) its))"
proof -
  let ?f = "\<lambda>item txs. case isExpired e now item height blocktime of
         Ret ex \<Rightarrow> (True, if ex then obind txs (\<lambda>hs. Ret (hs @ [Tx_Hash e (iValue item)])) else txs)
       | Err er \<Rightarrow> (False, Err er)
       | Panic p \<Rightarrow> (False, Panic p)"
  have "no_panic e now height blocktime its \<Longrightarrow>
      walk_vals ?f its (Ret hs) = Ret (hs @ map (item_hash e) (filter (is_expired e now height blocktime) its))" for hs
    by (induction its arbitrary: hs) (auto simp: no_panic_def is_expired_def item_hash_def split: if_splits)
  then have "walk_vals ?f its (Ret []) = Ret (map (item_hash e) (filter (is_expired e now height blocktime) its))"
    using assms(2) by simp
  moreover have "map snd (ikeyed e its) = its" by (simp add: ikeyed_def comp_def)
  ultimately show ?thesis
    using sq_Walk_visited [of q "ikeyed e its" 0 ?f "Ret []"] assms(1)
    by (simp add: expired_hashes_def queue_holds_def visited_def)
qed

lemma pool_expire:
  assumes "pool_holds e c its" and "no_panic e now height blocktime its"
  shows "\<exists>c'. removeExpiredTx e now height blocktime c = (Ret (), c') \<and>
    pool_holds e c' (filter (\<lambda>it. \<not> is_expired e now height blocktime it) its) \<and> same_limits c c'"
proof -
  obtain q where q: "qcache c = Some q" "queue_holds e q its" using assms(1) by (auto simp: pool_holds_def)
  let ?x = "filter (is_expired e now height blocktime) its"
  have "item_hash e it \<notin> set (map (item_hash e) ?x) \<longleftrightarrow> \<not> is_expired e now height blocktime it" if "it \<in> set its" for it
    using queue_distinct [OF q(2)] that by (auto simp: distinct_map inj_on_def)
  then have "filter (\<lambda>it. item_hash e it \<notin> set (map (item_hash e) ?x)) its =
      filter (\<lambda>it. \<not> is_expired e now height blocktime it) its"
    by (intro filter_cong) auto
  then show ?thesis
    using pool_removes [OF assms(1), of "map (item_hash e) ?x"] q expired_hashes_run [OF q(2) assms(2)]
    by (simp add: removeExpiredTx_def)
qed

end
