(* ===== verification/Mempool.thy ===== *)
theory Mempool
  imports TxPool
begin

text \<open>
  The memory pool module, \<^verbatim>\<open>src/system/mempool/base.go\<close>, \<^verbatim>\<open>check.go\<close> and \<^verbatim>\<open>eventprocess.go\<close>, with the search
  for duplicates of \<^verbatim>\<open>src/util/exec.go\<close>. The blockchain, the executor and the types of executors are
  parameters (\<open>mem_env\<close>), as is the clock \<open>now\<close>. An operation of the pool runs
  under its mutex from start to end; a handler or a check is a sequence of such sections, and the walk of
  \<^verbatim>\<open>eventGetMempool\<close> takes no lock. The caches of the address package do not change its answers, so the
  checks start it with empty ones. Of a header, a block and the configuration the records hold the
  fields the module reads.
\<close>

record Hdr =
  hHeight :: int
  hBlockTime :: int
  hStateHash :: bytes
  hDifficulty :: int

record MempoolCfg =
  MaxTxNumPerAccount :: int
  MaxTxLast :: int
  PoolCacheSize :: int
  MinTxFee :: int
  MaxTxFee :: int
  ForceAccept :: bool

record Mempool =
  memHeader :: "Hdr option"
  memSync :: bool
  memCfg :: MempoolCfg
  memCache :: txCache

text \<open>
  \<open>ActionName\<close> and \<open>Amount\<close> ask the type of the executor; \<open>TxHashList\<close> is the reply of the blockchain to
  \<^verbatim>\<open>EventTxHashList\<close> (the hashes already on the chain), \<open>ExecCheck\<close> the reply of the executor to
  \<^verbatim>\<open>EventCheckTx\<close> (one error text per transaction, empty for none), \<open>LastHeader\<close> that of the
  blockchain to \<^verbatim>\<open>EventGetLastHeader\<close>; an \<open>Inl\<close> is an error of the queue.
\<close>

record mem_env = tx_env +
  ActionName :: "Transaction \<Rightarrow> string"
  Amount :: "Transaction \<Rightarrow> int outcome"
  TxHashList :: "bytes list \<Rightarrow> int list \<Rightarrow> int \<Rightarrow> error + bytes list"
  ExecCheck :: "Transaction list \<Rightarrow> Hdr \<Rightarrow> error + string list"
  LastHeader :: "error + Hdr"

text \<open>The getters of a nil header return zero values.\<close>

definition GetHeight :: "Hdr option \<Rightarrow> int" where
  "GetHeight h = (case h of None \<Rightarrow> 0 | Some x \<Rightarrow> hHeight x)"

definition GetBlockTime :: "Hdr option \<Rightarrow> int" where
  "GetBlockTime h = (case h of None \<Rightarrow> 0 | Some x \<Rightarrow> hBlockTime x)"

subsection \<open>The pool\<close>

definition NewMempool :: "MempoolCfg \<Rightarrow> Mempool" where
  "NewMempool cfg0 =
     (let cfg1 = (if MaxTxNumPerAccount cfg0 = 0 then cfg0\<lparr>MaxTxNumPerAccount := maxTxNumPerAccount\<rparr> else cfg0);
          cfg2 = (if MaxTxLast cfg1 = 0 then cfg1\<lparr>MaxTxLast := maxTxLast\<rparr> else cfg1);
          cfg = (if PoolCacheSize cfg2 = 0 then cfg2\<lparr>PoolCacheSize := poolCacheSize\<rparr> else cfg2)
      in \<lparr>memHeader = None, memSync = False, memCfg = cfg,
          memCache = newCache (MaxTxNumPerAccount cfg) (MaxTxLast cfg)\<rparr>)"

definition mem_SetQueueCache :: "SimpleQueue \<Rightarrow> Mempool \<Rightarrow> Mempool" where
  "mem_SetQueueCache q mem = mem\<lparr>memCache := tc_SetQueueCache q (memCache mem)\<rparr>"

text \<open>The constructor of the \<^verbatim>\<open>timeline\<close> plugin, \<open>sub\<close> its decoded configuration.\<close>

definition timeline_New :: "MempoolCfg \<Rightarrow> SubConfig \<Rightarrow> Mempool" where
  "timeline_New cfg0 sub =
     (let c = NewMempool cfg0; cfg = memCfg c;
          sub1 = (if scPoolCacheSize sub = 0 then sub\<lparr>scPoolCacheSize := PoolCacheSize cfg\<rparr> else sub);
          sub2 = (if scProperFee sub1 = 0 then sub1\<lparr>scProperFee := MinTxFee cfg\<rparr> else sub1)
      in mem_SetQueueCache (NewSimpleQueue sub2) c)"

definition mem_Size :: "Mempool \<Rightarrow> nat" where
  "mem_Size mem = tc_Size (memCache mem)"

definition SetMinFee :: "int \<Rightarrow> Mempool \<Rightarrow> Mempool" where
  "SetMinFee fee mem = mem\<lparr>memCfg := (memCfg mem)\<lparr>MinTxFee := fee\<rparr>\<rparr>"

definition setSync :: "bool \<Rightarrow> Mempool \<Rightarrow> Mempool" where
  "setSync status mem = mem\<lparr>memSync := status\<rparr>"

definition setHeader :: "Hdr \<Rightarrow> Mempool \<Rightarrow> Mempool" where
  "setHeader h mem = mem\<lparr>memHeader := Some h\<rparr>"

definition mem_Height :: "Mempool \<Rightarrow> int" where
  "mem_Height mem = (case memHeader mem of None \<Rightarrow> -1 | Some h \<Rightarrow> hHeight h)"

definition on_cache :: "(txCache, 'r) prog \<Rightarrow> (Mempool, 'r) prog" where
  "on_cache m mem = (case m (memCache mem) of (r, c) \<Rightarrow> (r, mem\<lparr>memCache := c\<rparr>))"

definition filterTxList :: "'a tx_env_scheme \<Rightarrow> int \<Rightarrow> Mempool \<Rightarrow> int \<Rightarrow> bytes list option \<Rightarrow> Transaction list outcome" where
  "filterTxList e now mem n dupMap =
     (let height = GetHeight (memHeader mem); blocktime = GetBlockTime (memHeader mem) in
      tc_Walk n (\<lambda>item txs.
        if (case dupMap of None \<Rightarrow> False | Some d \<Rightarrow> Tx_Hash e (iValue item) \<in> set d) then (True, txs)
        else (case isExpired e now item height blocktime of
                Ret ex \<Rightarrow> (True, if ex then txs else obind txs (\<lambda>ts. Ret (ts @ [iValue item])))
              | Err er \<Rightarrow> (False, Err er)
              | Panic p \<Rightarrow> (False, Panic p))) (memCache mem) (Ret []))"

definition getTxList :: "'a tx_env_scheme \<Rightarrow> int \<Rightarrow> Mempool \<Rightarrow> int \<Rightarrow> bytes list \<Rightarrow> Transaction list outcome" where
  "getTxList e now mem n hashes = filterTxList e now mem n (Some hashes)"

definition mem_RemoveTxs :: "'a tx_env_scheme \<Rightarrow> bytes list \<Rightarrow> (Mempool, unit) prog" where
  "mem_RemoveTxs e hashes =
     forM hashes (\<lambda>hash mem. if tc_Exist (memCache mem) hash then on_cache (tc_Remove e hash) mem else ret () mem)"

definition PushTx :: "'a tx_env_scheme \<Rightarrow> int \<Rightarrow> Transaction \<Rightarrow> (Mempool, unit) prog" where
  "PushTx e now tx = on_cache (tc_Push e now tx)"

definition mem_GetAccTxs :: "'a mem_env_scheme \<Rightarrow> Mempool \<Rightarrow> string list \<Rightarrow> TransactionDetail list" where
  "mem_GetAccTxs e mem addrs = ati_GetAccTxs (Amount e) (ActionName e) (tcIndex (memCache mem)) addrs"

definition mem_TxNumOfAccount :: "Mempool \<Rightarrow> string \<Rightarrow> int" where
  "mem_TxNumOfAccount mem addr = int (ati_TxNumOfAccount (tcIndex (memCache mem)) addr)"

definition mem_GetLatestTx :: "Mempool \<Rightarrow> Transaction list" where
  "mem_GetLatestTx mem = ltc_GetLatestTx (tcLast (memCache mem))"

definition removeExpired :: "'a tx_env_scheme \<Rightarrow> int \<Rightarrow> (Mempool, unit) prog" where
  "removeExpired e now mem =
     on_cache (removeExpiredTx e now (GetHeight (memHeader mem)) (GetBlockTime (memHeader mem))) mem"

definition RemoveTxsOfBlock :: "'a tx_env_scheme \<Rightarrow> Transaction list \<Rightarrow> (Mempool, unit) prog" where
  "RemoveTxsOfBlock e txs =
     forM txs (\<lambda>tx mem. let hash = Tx_Hash e tx in
       if tc_Exist (memCache mem) hash then on_cache (tc_Remove e hash) mem else ret () mem)"

subsection \<open>Checks\<close>

definition checkExpireValid :: "'a tx_env_scheme \<Rightarrow> int \<Rightarrow> Mempool \<Rightarrow> Transaction \<Rightarrow> bool outcome" where
  "checkExpireValid e now mem tx =
     obind (Tx_IsExpire e tx (GetHeight (memHeader mem)) (GetBlockTime (memHeader mem))) (\<lambda>ex.
       if ex then Ret False
       else if Expire tx > 1000000000 \<and> Expire tx < i64 (now + 60) then Ret False
       else Ret True)"

definition CheckExpireValid :: "'a tx_env_scheme \<Rightarrow> int \<Rightarrow> Mempool \<Rightarrow> Transaction \<Rightarrow> bool outcome" where
  "CheckExpireValid e now mem tx =
     (if memHeader mem = None then Err ErrHeaderNotSet
      else obind (checkExpireValid e now mem tx) (\<lambda>ok. if ok then Ret ok else Err ErrTxExpire))"

definition mem_checkTx :: "'a tx_env_scheme \<Rightarrow> int \<Rightarrow> Mempool \<Rightarrow> Transaction \<Rightarrow> unit outcome" where
  "mem_checkTx e now mem tx =
     (case fst (CheckAddress (addr_env.truncate e) (To tx) no_caches) of
        Some _ \<Rightarrow> Err ErrInvalidAddress
      | None \<Rightarrow>
          (let from = Tx_From e tx in
           if mem_TxNumOfAccount mem from \<ge> MaxTxNumPerAccount (memCfg mem) then Err ErrManyTx
           else obind (CheckExpireValid e now mem tx) (\<lambda>_. Ret ())))"

fun checkTx_each :: "'a tx_env_scheme \<Rightarrow> int \<Rightarrow> Mempool \<Rightarrow> Transaction list \<Rightarrow> unit outcome" where
  "checkTx_each e now mem [] = Ret ()"
| "checkTx_each e now mem (tx # txs) = obind (mem_checkTx e now mem tx) (\<lambda>_. checkTx_each e now mem txs)"

text \<open>
  The message of \<^verbatim>\<open>checkTxs\<close> holds a transaction, \<open>None\<close> for nil data; it leaves with the transaction
  in its cache, or with an error.
\<close>

definition checkTxs :: "'a tx_env_scheme \<Rightarrow> int \<Rightarrow> Mempool \<Rightarrow> Transaction option \<Rightarrow> TransactionCache outcome" where
  "checkTxs e now mem msg =
     (case msg of
        None \<Rightarrow> Err ErrEmptyTx
      | Some txmsg \<Rightarrow>
          (case Cache_Check e (GetHeight (memHeader mem)) (MinTxFee (memCfg mem)) (MaxTxFee (memCfg mem))
                  (NewTransactionCache txmsg) of
             (Err er, _) \<Rightarrow> Err er
           | (Panic p, _) \<Rightarrow> Panic p
           | (Ret _, tx) \<Rightarrow>
               (case Cache_GetTxGroup e tx of
                  (Err er, _) \<Rightarrow> Err er
                | (Panic p, _) \<Rightarrow> Panic p
                | (Ret None, tx1) \<Rightarrow> obind (mem_checkTx e now mem (cTx tx1)) (\<lambda>_. Ret tx1)
                | (Ret (Some txs), tx1) \<Rightarrow> obind (checkTx_each e now mem txs) (\<lambda>_. Ret tx1))))"

text \<open>\<^verbatim>\<open>checkSign\<close>, the first step of the pipeline.\<close>

definition mem_checkSign :: "'a tx_env_scheme \<Rightarrow> TransactionCache \<Rightarrow> TransactionCache outcome" where
  "mem_checkSign e tx =
     (case Cache_CheckSign e tx of
        (Ret ok, tx1) \<Rightarrow> if ok then Ret tx1 else Err ErrSign
      | (Err er, _) \<Rightarrow> Err er
      | (Panic p, _) \<Rightarrow> Panic p)"

subsection \<open>Duplicates\<close>

text \<open>The hash that a cached transaction answers; the copy it stores is not seen by its callers.\<close>

definition hash_of :: "'a tx_env_scheme \<Rightarrow> TransactionCache \<Rightarrow> bytes" where
  "hash_of e tx = (case cHash tx of Some h \<Rightarrow> h | None \<Rightarrow> Tx_Hash e (cTx tx))"

text \<open>The indices of \<^verbatim>\<open>DelDupTx\<close>: for every hash the last position at which it occurs.\<close>

fun dup_index :: "'a tx_env_scheme \<Rightarrow> nat \<Rightarrow> TransactionCache list \<Rightarrow> (bytes, nat) mapping \<times> bool \<Rightarrow> (bytes, nat) mapping \<times> bool" where
  "dup_index e i [] s = s"
| "dup_index e i (tx # txs) (m, hasdup) =
     dup_index e (i + 1) txs (Mapping.update (hash_of e tx) i m, hasdup \<or> Mapping.lookup m (hash_of e tx) \<noteq> None)"

definition DelDupTx :: "'a tx_env_scheme \<Rightarrow> TransactionCache list \<Rightarrow> TransactionCache list" where
  "DelDupTx e txs =
     (case dup_index e 0 txs (Mapping.empty, False) of (dupindex, hasdup) \<Rightarrow>
      if \<not> hasdup then txs
      else map snd (filter (\<lambda>(i, tx). Mapping.lookup dupindex (hash_of e tx) = Some i) (enumerate 0 txs)))"

definition CheckTxDup :: "'a mem_env_scheme \<Rightarrow> TransactionCache list \<Rightarrow> int \<Rightarrow> TransactionCache list outcome" where
  "CheckTxDup e txs0 height =
     obind (types_IsFork (conf e) height ''ForkCheckTxDup'') (\<lambda>fork.
       let txs = (if fork then DelDupTx e txs0 else txs0) in
       case TxHashList e (map (hash_of e) txs) (map (\<lambda>tx. Expire (cTx tx)) txs) height of
         Inl er \<Rightarrow> Err er
       | Inr dups \<Rightarrow> Ret (filter (\<lambda>tx. hash_of e tx \<notin> set dups) txs))"

definition CheckDupTx :: "'a mem_env_scheme \<Rightarrow> Transaction list \<Rightarrow> int \<Rightarrow> Transaction list outcome" where
  "CheckDupTx e txs height =
     obind (CheckTxDup e (map NewTransactionCache txs) height) (\<lambda>cache. Ret (map cTx cache))"

text \<open>
  \<^verbatim>\<open>checkTxRemote\<close>, the second step of the pipeline, up to its call of \<^verbatim>\<open>PushTx\<close>: the transaction to push,
  or the error that the message carries back. It reads the header of the pool once.
\<close>

definition remote_checks :: "'a mem_env_scheme \<Rightarrow> Hdr option \<Rightarrow> TransactionCache \<Rightarrow> Transaction outcome" where
  "remote_checks e header tx =
     obind (fst (Cache_GetTxGroup e tx)) (\<lambda>grp.
       let txs = (case grp of None \<Rightarrow> [cTx tx] | Some g \<Rightarrow> g) in
       case header of
         None \<Rightarrow> Panic ''nil header''
       | Some lastheader \<Rightarrow>
           obind (CheckDupTx e txs (hHeight lastheader)) (\<lambda>newtxs.
             if length newtxs \<noteq> length txs then Err ErrDupTx
             else case ExecCheck e [cTx tx] lastheader of
                    Inl er \<Rightarrow> Err er
                  | Inr [] \<Rightarrow> Panic ''index out of range''
                  | Inr (errstr # _) \<Rightarrow> if errstr = [] then Ret (cTx tx) else Err (ErrOther errstr)))"

definition checkTxRemote :: "'a mem_env_scheme \<Rightarrow> int \<Rightarrow> TransactionCache \<Rightarrow> (Mempool, unit) prog" where
  "checkTxRemote e now tx mem =
     (case remote_checks e (memHeader mem) tx of
        Ret t \<Rightarrow> PushTx e now t mem
      | Err er \<Rightarrow> fail er mem
      | Panic p \<Rightarrow> panic p mem)"

subsection \<open>Handlers\<close>

text \<open>
  \<^verbatim>\<open>delBlock\<close> from the position \<open>i\<close> on: a group is packed again into one transaction; a transaction
  that fails its checks is skipped.
\<close>

definition requeue :: "'a mem_env_scheme \<Rightarrow> int \<Rightarrow> Hdr option \<Rightarrow> Transaction \<Rightarrow> (Mempool, unit) prog" where
  "requeue e now header tx mem =
     (case Tx_Check e (GetHeight header) (MinTxFee (memCfg mem)) (MaxTxFee (memCfg mem)) tx of
        Panic p \<Rightarrow> panic p mem
      | Err _ \<Rightarrow> ret () mem
      | Ret _ \<Rightarrow>
          (case checkExpireValid e now mem tx of
             Panic p \<Rightarrow> panic p mem
           | Err er \<Rightarrow> fail er mem
           | Ret ok \<Rightarrow> if \<not> ok then ret () mem else bind (attempt (PushTx e now tx)) (\<lambda>_. ret ()) mem))"

function del_from :: "'a mem_env_scheme \<Rightarrow> int \<Rightarrow> Hdr option \<Rightarrow> bool \<Rightarrow> Transaction list \<Rightarrow> (Mempool, unit) prog" where
  "del_from e now header first [] mem = ret () mem"
| "del_from e now header first (tx # txs) mem =
     (if first \<and> ActionName e tx = ''miner'' then del_from e now header False txs mem
      else
        (let groupCount = nat (GroupCount tx) in
         if GroupCount tx > 1 \<and> groupCount \<le> length (tx # txs) then
           (case Group_Tx e (take groupCount (tx # txs)) of
              None \<Rightarrow> panic ''nil transaction'' mem
            | Some t \<Rightarrow>
                bind (requeue e now header t)
                  (\<lambda>_. del_from e now header False (drop groupCount (tx # txs))) mem)
         else bind (requeue e now header tx) (\<lambda>_. del_from e now header False txs) mem))"
  by pat_completeness auto
termination
  by (relation "measure (\<lambda>(e, now, header, first, txs, mem). length txs)") auto

definition delBlock :: "'a mem_env_scheme \<Rightarrow> int \<Rightarrow> Transaction list \<Rightarrow> (Mempool, unit) prog" where
  "delBlock e now txs mem = (if length txs \<le> 0 then ret () mem else del_from e now (memHeader mem) True txs mem)"

record Block =
  bHeight :: int
  bBlockTime :: int
  bStateHash :: bytes
  bTxs :: "Transaction list"

definition eventAddBlock :: "'a tx_env_scheme \<Rightarrow> Block \<Rightarrow> (Mempool, unit) prog" where
  "eventAddBlock e block mem =
     (let mem1 = (if bHeight block > mem_Height mem \<or> (bHeight block = 0 \<and> mem_Height mem = 0)
                  then setHeader \<lparr>hHeight = bHeight block, hBlockTime = bBlockTime block,
                                  hStateHash = bStateHash block, hDifficulty = 0\<rparr> mem
                  else mem)
      in RemoveTxsOfBlock e (bTxs block) mem1)"

definition eventDelBlock :: "'a mem_env_scheme \<Rightarrow> int \<Rightarrow> Block \<Rightarrow> (Mempool, unit) prog" where
  "eventDelBlock e now block mem =
     (if bHeight block \<noteq> GetHeight (memHeader mem) then ret () mem
      else (case LastHeader e of
              Inl _ \<Rightarrow> ret () mem
            | Inr h \<Rightarrow> delBlock e now (bTxs block) (setHeader h mem)))"

definition eventDelTxList :: "'a tx_env_scheme \<Rightarrow> bytes list \<Rightarrow> (Mempool, unit) prog" where
  "eventDelTxList e hashes = (if hashes = [] then fail ErrSize else mem_RemoveTxs e hashes)"

definition eventTxList :: "'a tx_env_scheme \<Rightarrow> int \<Rightarrow> Mempool \<Rightarrow> int \<Rightarrow> bytes list \<Rightarrow> Transaction list outcome" where
  "eventTxList e now mem n hashes = (if n \<le> 0 then Err ErrSize else getTxList e now mem n hashes)"

definition eventGetMempool :: "'a tx_env_scheme \<Rightarrow> int \<Rightarrow> Mempool \<Rightarrow> Transaction list outcome" where
  "eventGetMempool e now mem = filterTxList e now mem 0 None"

definition eventGetMempoolSize :: "Mempool \<Rightarrow> int" where
  "eventGetMempoolSize mem = int (mem_Size mem)"

definition eventGetLastMempool :: "Mempool \<Rightarrow> Transaction list" where
  "eventGetLastMempool mem = mem_GetLatestTx mem"

definition eventGetAddrTxs :: "'a mem_env_scheme \<Rightarrow> Mempool \<Rightarrow> string list \<Rightarrow> TransactionDetail list" where
  "eventGetAddrTxs e mem addrs = mem_GetAccTxs e mem addrs"

definition eventGetProperFee :: "Mempool \<Rightarrow> int outcome" where
  "eventGetProperFee mem =
     (case qcache (memCache mem) of None \<Rightarrow> Panic ''nil queue'' | Some q \<Rightarrow> Ret (sq_GetProperFee q))"

text \<open>
  A transaction on its way from \<^verbatim>\<open>eventTx\<close> through the two steps of \<^verbatim>\<open>pipeLine\<close> when no other message
  comes between; the value is the reply.
\<close>

definition eventTx :: "'a mem_env_scheme \<Rightarrow> int \<Rightarrow> Transaction option \<Rightarrow> (Mempool, unit) prog" where
  "eventTx e now msg mem =
     (if \<not> memSync mem then fail ErrNotSync mem
      else case obind (checkTxs e now mem msg) (mem_checkSign e) of
             Err er \<Rightarrow> fail er mem
           | Panic p \<Rightarrow> panic p mem
           | Ret tx \<Rightarrow> checkTxRemote e now tx mem)"

subsection \<open>Start\<close>

text \<open>
  The loops that run until the blockchain answers: \<open>reply i\<close> is the answer in round \<open>i\<close> and \<open>closed i\<close> says
  whether the module is closed then. \<open>None\<close> is a loop that never returns.
\<close>

partial_function (option) pollLastHeader :: "(nat \<Rightarrow> bool) \<Rightarrow> (nat \<Rightarrow> error + Hdr) \<Rightarrow> nat \<Rightarrow> Mempool \<Rightarrow> Mempool option" where
  "pollLastHeader closed reply i mem =
     (if closed i then Some mem
      else case reply i of
             Inl err \<Rightarrow> pollLastHeader closed reply (i + 1) mem
           | Inr h \<Rightarrow> Some (setHeader h mem))"

partial_function (option) sync_loop :: "(nat \<Rightarrow> bool) \<Rightarrow> (nat \<Rightarrow> error + bool) \<Rightarrow> nat \<Rightarrow> Mempool \<Rightarrow> Mempool option" where
  "sync_loop closed reply i mem =
     (if closed i then Some mem
      else case reply i of
             Inl err \<Rightarrow> sync_loop closed reply (i + 1) mem
           | Inr caughtup \<Rightarrow> if caughtup then Some (setSync True mem) else sync_loop closed reply (i + 1) mem)"

definition checkSync :: "(nat \<Rightarrow> bool) \<Rightarrow> (nat \<Rightarrow> error + bool) \<Rightarrow> Mempool \<Rightarrow> Mempool option" where
  "checkSync closed reply mem =
     (if memSync mem then Some mem
      else sync_loop closed reply 0 (if ForceAccept (memCfg mem) then setSync True mem else mem))"

end
