(* ===== verification/MempoolRun.thy ===== *)
theory MempoolRun
  imports Mempool
begin

text \<open>
  The memory pool as it runs: the goroutines of the module interleave at the sections that the mutex
  protects. \<open>mem_step\<close> is one such section; the reachable states keep the invariant of the caches and
  hold only transactions that passed the checks of \<^verbatim>\<open>eventTx\<close> and of the pipeline, or that a rolled back
  block gave back.
\<close>

subsection \<open>Operations on the pool\<close>

definition pool_items :: "Mempool \<Rightarrow> Item list" where
  "pool_items mem = tc_Walk 0 (\<lambda>it its. (True, its @ [it])) (memCache mem) []"

abbreviation mem_holds :: "'a tx_env_scheme \<Rightarrow> Mempool \<Rightarrow> Item list \<Rightarrow> bool" where
  "mem_holds e mem its \<equiv> pool_holds e (memCache mem) its"

text \<open>The step left everything but the contents of the caches as it was.\<close>

definition same_rest :: "Mempool \<Rightarrow> Mempool \<Rightarrow> bool" where
  "same_rest mem mem' \<longleftrightarrow> memHeader mem' = memHeader mem \<and> memSync mem' = memSync mem \<and>
     memCfg mem' = memCfg mem \<and> same_limits (memCache mem) (memCache mem')"

lemma same_rest_refl [simp]: "same_rest mem mem" "same_limits c c"
  by (simp_all add: same_rest_def same_limits_def)

lemma same_rest_trans: "same_rest m1 m2 \<Longrightarrow> same_rest m2 m3 \<Longrightarrow> same_rest m1 m3"
  by (simp add: same_rest_def same_limits_def)

lemma ikeyed_values [simp]: "map snd (ikeyed e its) = its"
  by (simp add: ikeyed_def comp_def)

lemma pool_walk:
  "pool_holds e c its \<Longrightarrow> tc_Walk n f c s = walk_vals f (visited n its) s"
  by (auto simp: pool_holds_def tc_Walk_def queue_holds_def sq_Walk_visited)

lemma mem_items: "mem_holds e mem its \<Longrightarrow> pool_items mem = its"
proof -
  have "walk_vals (\<lambda>it its. (True, its @ [it])) xs acc = acc @ xs" for xs acc :: "Item list"
    by (induction xs arbitrary: acc) auto
  then show "mem_holds e mem its \<Longrightarrow> pool_items mem = its"
    by (simp add: pool_items_def pool_walk visited_def)
qed

lemma mem_size: "mem_holds e mem its \<Longrightarrow> mem_Size mem = length its"
  by (auto simp: pool_holds_def mem_Size_def tc_Size_def queue_size)

lemma mem_num: "mem_holds e mem its \<Longrightarrow> mem_TxNumOfAccount mem addr = int (length (txs_of e addr its))"
  by (simp add: pool_holds_def mem_TxNumOfAccount_def index_num)

lemma mem_latest:
  assumes "mem_holds e mem its"
  shows "set (mem_GetLatestTx mem) \<subseteq> iValue ` set its \<and> distinct (mem_GetLatestTx mem) \<and>
    int (length (mem_GetLatestTx mem)) \<le> max 1 (lastMax (tcLast (memCache mem)))"
proof -
  obtain ls where ls: "lm_holds (lastL (tcLast (memCache mem))) (keyed e ls)" "set ls \<subseteq> iValue ` set its"
    "int (length ls) \<le> max 1 (lastMax (tcLast (memCache mem)))"
    using assms by (auto simp: pool_holds_def last_holds_def)
  have "walk_vals (\<lambda>it its. (True, its @ [it])) xs acc = acc @ xs" for xs acc :: "Transaction list"
    by (induction xs arbitrary: acc) auto
  moreover have "map snd (keyed e ls) = ls" by (simp add: keyed_def comp_def)
  ultimately have "mem_GetLatestTx mem = ls"
    by (simp add: mem_GetLatestTx_def ltc_GetLatestTx_def lm_Walk_values lm.vals [OF ls(1)])
  moreover have "distinct ls" using lm.holds_keys [OF ls(1)] by (auto simp: keyed_def comp_def distinct_map)
  ultimately show ?thesis using ls by simp
qed

lemma mem_push:
  assumes "mem_holds e mem its"
  shows "push_error e (memCache mem) its tx = Some er \<Longrightarrow> PushTx e now tx mem = (Err er, mem)"
    and "push_error e (memCache mem) its tx = None \<Longrightarrow>
      \<exists>mem'. PushTx e now tx mem = (Ret (), mem') \<and> mem_holds e mem' (its @ [new_item now tx]) \<and> same_rest mem mem'"
proof -
  have same: "mem\<lparr>memCache := memCache mem\<rparr> = mem" by simp
  show "PushTx e now tx mem = (Err er, mem)" if "push_error e (memCache mem) its tx = Some er"
    using pool_push(1) [OF assms that, of now] by (simp add: PushTx_def on_cache_def)
  show "\<exists>mem'. PushTx e now tx mem = (Ret (), mem') \<and> mem_holds e mem' (its @ [new_item now tx]) \<and> same_rest mem mem'"
    if "push_error e (memCache mem) its tx = None"
    using pool_push(2) [OF assms that, of now] by (auto simp: PushTx_def on_cache_def same_rest_def)
qed

lemma mem_remove:
  "mem_holds e mem its \<Longrightarrow> \<exists>mem'. mem_RemoveTxs e hs mem = (Ret (), mem') \<and>
     mem_holds e mem' (filter (\<lambda>it. item_hash e it \<notin> set hs) its) \<and> same_rest mem mem'"
proof (induction hs arbitrary: mem its)
  case (Cons h hs)
  let ?f = "\<lambda>mem. if tc_Exist (memCache mem) h then on_cache (tc_Remove e h) mem else ret () mem"
  let ?its = "filter (\<lambda>it. item_hash e it \<noteq> h) its"
  obtain m1 where m1: "?f mem = (Ret (), m1)" "mem_holds e m1 ?its" "same_rest mem m1"
  proof (cases "tc_Exist (memCache mem) h")
    case True
    then show ?thesis using pool_remove [OF Cons.prems, of h] that by (auto simp: on_cache_def same_rest_def)
  next
    case False
    then have "h \<notin> item_hash e ` set its" using Cons.prems by (auto simp: pool_holds_def tc_Exist_def queue_exist)
    then have "?its = its" by (auto simp: filter_id_conv)
    then show ?thesis using that [of mem] False Cons.prems by simp
  qed
  obtain m2 where m2: "mem_RemoveTxs e hs m1 = (Ret (), m2)"
    "mem_holds e m2 (filter (\<lambda>it. item_hash e it \<notin> set hs) ?its)" "same_rest m1 m2"
    using Cons.IH [OF m1(2)] by blast
  have "mem_RemoveTxs e (h # hs) mem = (Ret (), m2)"
    using m1(1) m2(1) by (simp add: mem_RemoveTxs_def bind_def split: if_splits)
  then show ?case using m2 same_rest_trans [OF m1(3) m2(3)] by (auto simp: conj_commute)
qed (simp add: mem_RemoveTxs_def)

lemma RemoveTxsOfBlock_hashes: "RemoveTxsOfBlock e txs = mem_RemoveTxs e (map (Tx_Hash e) txs)"
  by (induction txs) (simp_all add: RemoveTxsOfBlock_def mem_RemoveTxs_def Let_def)

lemma mem_expire:
  assumes "mem_holds e mem its" and "no_panic e now (GetHeight (memHeader mem)) (GetBlockTime (memHeader mem)) its"
  shows "\<exists>mem'. removeExpired e now mem = (Ret (), mem') \<and> same_rest mem mem' \<and>
    mem_holds e mem' (filter (\<lambda>it. \<not> is_expired e now (GetHeight (memHeader mem)) (GetBlockTime (memHeader mem)) it) its)"
  using pool_expire [OF assms] by (auto simp: removeExpired_def on_cache_def same_rest_def)

lemma mem_expire_some:
  assumes "mem_holds e mem its" and "removeExpired e now mem = (Ret (), mem')"
  obtains P where "mem_holds e mem' (filter P its)" and "same_rest mem mem'"
proof -
  obtain hs c' where "tc_RemoveTxs e hs (memCache mem) = (Ret (), c')" "mem' = mem\<lparr>memCache := c'\<rparr>"
    using assms(2) by (auto simp: removeExpired_def on_cache_def removeExpiredTx_def split: option.splits outcome.splits prod.splits)
  then show thesis using pool_removes [OF assms(1), of hs] that by (auto simp: same_rest_def)
qed

subsection \<open>Steps\<close>

text \<open>
  The state of the module: the pool, the messages between \<^verbatim>\<open>eventTx\<close> and the first step of the pipeline,
  those between its two steps, and the transactions on their way to \<^verbatim>\<open>PushTx\<close>.
\<close>

record MemSys =
  sysMem :: Mempool
  toSign :: "TransactionCache list"
  toRemote :: "TransactionCache list"
  toPush :: "Transaction list"

definition mem_start :: "MempoolCfg \<Rightarrow> SubConfig \<Rightarrow> MemSys" where
  "mem_start cfg sub = \<lparr>sysMem = timeline_New cfg sub, toSign = [], toRemote = [], toPush = []\<rparr>"

text \<open>
  The goroutines of the pipeline take the messages in any order; a message that fails a step goes back
  to its sender. \<open>B\<close> holds the transactions, and the groups packed into one, of the blocks rolled back.
\<close>

inductive mem_step :: "'a mem_env_scheme \<Rightarrow> Transaction set \<Rightarrow> MemSys \<Rightarrow> MemSys \<Rightarrow> bool" for e B where
  step_header: "mem_step e B s (s\<lparr>sysMem := setHeader h (sysMem s)\<rparr>)"
| step_sync: "mem_step e B s (s\<lparr>sysMem := setSync b (sysMem s)\<rparr>)"
| step_fee: "mem_step e B s (s\<lparr>sysMem := SetMinFee fee (sysMem s)\<rparr>)"
| step_recv: "memSync (sysMem s) \<Longrightarrow> checkTxs e now (sysMem s) msg = Ret c \<Longrightarrow>
    mem_step e B s (s\<lparr>toSign := toSign s @ [c]\<rparr>)"
| step_sign: "toSign s = ps @ c # qs \<Longrightarrow> mem_checkSign e c = Ret c' \<Longrightarrow>
    mem_step e B s (s\<lparr>toSign := ps @ qs, toRemote := toRemote s @ [c']\<rparr>)"
| step_unsigned: "toSign s = ps @ c # qs \<Longrightarrow> mem_checkSign e c = Err er \<Longrightarrow>
    mem_step e B s (s\<lparr>toSign := ps @ qs\<rparr>)"
| step_remote: "toRemote s = ps @ c # qs \<Longrightarrow> remote_checks e (memHeader (sysMem s)) c = Ret t \<Longrightarrow>
    mem_step e B s (s\<lparr>toRemote := ps @ qs, toPush := toPush s @ [t]\<rparr>)"
| step_refused: "toRemote s = ps @ c # qs \<Longrightarrow> remote_checks e (memHeader (sysMem s)) c = Err er \<Longrightarrow>
    mem_step e B s (s\<lparr>toRemote := ps @ qs\<rparr>)"
| step_back: "t \<in> B \<Longrightarrow> Tx_Check e height (MinTxFee (memCfg (sysMem s))) (MaxTxFee (memCfg (sysMem s))) t = Ret () \<Longrightarrow>
    checkExpireValid e now (sysMem s) t = Ret True \<Longrightarrow> mem_step e B s (s\<lparr>toPush := toPush s @ [t]\<rparr>)"
| step_push: "toPush s = ps @ t # qs \<Longrightarrow> attempt (PushTx e now t) (sysMem s) = (Ret r, mem) \<Longrightarrow>
    mem_step e B s (s\<lparr>toPush := ps @ qs, sysMem := mem\<rparr>)"
| step_remove: "mem_RemoveTxs e hs (sysMem s) = (Ret (), mem) \<Longrightarrow> mem_step e B s (s\<lparr>sysMem := mem\<rparr>)"
| step_block: "RemoveTxsOfBlock e txs (sysMem s) = (Ret (), mem) \<Longrightarrow> mem_step e B s (s\<lparr>sysMem := mem\<rparr>)"
| step_expire: "removeExpired e now (sysMem s) = (Ret (), mem) \<Longrightarrow> mem_step e B s (s\<lparr>sysMem := mem\<rparr>)"

inductive_cases mem_stepE: "mem_step e B s s'"

abbreviation mem_steps :: "'a mem_env_scheme \<Rightarrow> Transaction set \<Rightarrow> MemSys \<Rightarrow> MemSys \<Rightarrow> bool" where
  "mem_steps e B \<equiv> (mem_step e B)\<^sup>*\<^sup>*"

subsection \<open>What a message has passed\<close>

text \<open>The transactions of a group, or the transaction alone.\<close>

definition members :: "'a tx_env_scheme \<Rightarrow> Transaction \<Rightarrow> Transaction list" where
  "members e t = (case GetTxGroup e t of Ret (Some ts) \<Rightarrow> ts | _ \<Rightarrow> [t])"

definition valid_to :: "'a tx_env_scheme \<Rightarrow> Transaction \<Rightarrow> bool" where
  "valid_to e t \<longleftrightarrow> fst (CheckAddress (addr_env.truncate e) (To t) no_caches) = None"

definition fee_checked :: "'a tx_env_scheme \<Rightarrow> int \<Rightarrow> Transaction \<Rightarrow> bool" where
  "fee_checked e mx t \<longleftrightarrow> (\<exists>height minfee. Tx_Check e height minfee mx t = Ret ())"

definition entered :: "'a tx_env_scheme \<Rightarrow> int \<Rightarrow> TransactionCache \<Rightarrow> bool" where
  "entered e mx c \<longleftrightarrow> (\<exists>p. cache_inv e (cTx c) p c) \<and> fee_checked e mx (cTx c) \<and> (\<forall>u \<in> set (members e (cTx c)). valid_to e u)"

definition signed :: "'a tx_env_scheme \<Rightarrow> int \<Rightarrow> TransactionCache \<Rightarrow> bool" where
  "signed e mx c \<longleftrightarrow> entered e mx c \<and> signs_ok e (cTx c)"

definition executor_accepts :: "'a mem_env_scheme \<Rightarrow> Transaction \<Rightarrow> bool" where
  "executor_accepts e t \<longleftrightarrow> (\<exists>h errs. ExecCheck e [t] h = Inr ([] # errs))"

definition admitted :: "'a mem_env_scheme \<Rightarrow> Transaction set \<Rightarrow> int \<Rightarrow> Transaction \<Rightarrow> bool" where
  "admitted e B mx t \<longleftrightarrow> fee_checked e mx t \<and>
     (t \<in> B \<or> signs_ok e t \<and> (\<forall>u \<in> set (members e t). valid_to e u) \<and> executor_accepts e t)"

lemma new_cache_inv: "cache_inv e t None (NewTransactionCache t)"
  by (simp add: cache_inv_def NewTransactionCache_def)

lemma obind_RetE:
  assumes "obind m f = Ret b"
  obtains a where "m = Ret a" and "f a = Ret b"
  using assms by (cases m) auto

lemma Cache_Check_passed:
  assumes "Cache_Check e h m x (NewTransactionCache t) = (Ret r, c)"
  shows "Tx_Check e h m x t = Ret () \<and> cache_inv e t (Some (h, m, x)) c"
proof (cases "GetTxGroup e t")
  case (Ret g)
  define v where "v = Tx_Check e h m x t"
  have v: "v = (case g of None \<Rightarrow> check_tx e h m x t | Some txs \<Rightarrow> Group_Check e h m x (map Some txs))"
    using Ret by (simp add: Tx_Check_def v_def)
  have "v = Ret ()" using assms Ret unfolding v
    by (cases g; cases v) (auto simp: Cache_Check_def Cache_GetTxGroup_def NewTransactionCache_def as_error_def v)
  then show ?thesis
    using assms Ret unfolding v_def [symmetric]
    by (cases g) (auto simp: Cache_Check_def Cache_GetTxGroup_def NewTransactionCache_def as_error_def v cache_inv_def err_of_def v_def [symmetric])
qed (use assms in \<open>simp_all add: Cache_Check_def Cache_GetTxGroup_def NewTransactionCache_def\<close>)

lemma inv_GetTxGroup:
  assumes "cache_inv e t p c"
  obtains c' where "Cache_GetTxGroup e c = (GetTxGroup e t, c')" and "cache_inv e t p c'"
proof -
  have "cTx c = t" "\<forall>g. txGroup c = Some g \<longrightarrow> GetTxGroup e t = Ret (Some g)" using assms by (auto simp: cache_inv_def)
  then obtain g where "Cache_GetTxGroup e c = (GetTxGroup e t, c\<lparr>txGroup := g\<rparr>)"
    "\<forall>g'. g = Some g' \<longrightarrow> GetTxGroup e t = Ret (Some g')"
    by (rule Cache_GetTxGroup_run)
  then show thesis using that [of "c\<lparr>txGroup := g\<rparr>"] assms by (simp add: cache_inv_def)
qed

lemma inv_cTx: "cache_inv e t p c \<Longrightarrow> cTx c = t"
  by (simp add: cache_inv_def)

lemma checkTx_valid: "mem_checkTx e now mem t = Ret r \<Longrightarrow> valid_to e t"
  by (auto simp: mem_checkTx_def valid_to_def split: option.splits)

lemma checkTx_each_valid: "checkTx_each e now mem ts = Ret r \<Longrightarrow> u \<in> set ts \<Longrightarrow> valid_to e u"
  by (induction ts) (auto elim!: obind_RetE dest: checkTx_valid)

lemma checkTxs_entered:
  assumes "checkTxs e now mem msg = Ret c"
  shows "entered e (MaxTxFee (memCfg mem)) c \<and> msg = Some (cTx c)"
proof -
  obtain t where t: "msg = Some t" using assms by (cases msg) (auto simp: checkTxs_def)
  let ?h = "GetHeight (memHeader mem)" and ?m = "MinTxFee (memCfg mem)" and ?x = "MaxTxFee (memCfg mem)"
  obtain c1 where c1: "Cache_Check e ?h ?m ?x (NewTransactionCache t) = (Ret (), c1)"
    using assms t by (auto simp: checkTxs_def split: outcome.splits prod.splits)
  note ok = Cache_Check_passed [OF c1]
  then have inv: "cache_inv e t (Some (?h, ?m, ?x)) c1" by blast
  obtain c2 where c2: "Cache_GetTxGroup e c1 = (GetTxGroup e t, c2)" "cache_inv e t (Some (?h, ?m, ?x)) c2"
    using inv_GetTxGroup [OF inv] .
  obtain g where g: "GetTxGroup e t = Ret g"
    using assms t c1 c2(1) by (auto simp: checkTxs_def split: outcome.splits)
  have "c = c2 \<and> (\<forall>u \<in> set (members e t). valid_to e u)"
    using assms t c1 c2 g inv_cTx [OF c2(2)]
    by (cases g) (auto simp: checkTxs_def members_def elim!: obind_RetE dest: checkTx_valid checkTx_each_valid)
  then show ?thesis using ok c2(2) inv_cTx [OF c2(2)] t by (auto simp: entered_def fee_checked_def)
qed

lemma checkSign_signed:
  assumes "entered e mx c" and "mem_checkSign e c = Ret c'"
  shows "signed e mx c' \<and> cTx c' = cTx c"
proof -
  obtain p where p: "cache_inv e (cTx c) p c" using assms(1) by (auto simp: entered_def)
  obtain c1 where c1: "Cache_CheckSign e c = (Ret (signs_ok e (cTx c)), c1)" "cache_inv e (cTx c) p c1"
    using Cache_CheckSign_run [OF p] by blast
  then have "signs_ok e (cTx c) \<and> c' = c1" using assms(2) by (simp add: mem_checkSign_def split: if_splits)
  then show ?thesis using assms(1) c1(2) inv_cTx [OF c1(2)] by (auto simp: signed_def entered_def)
qed

lemma remote_admitted:
  assumes "signed e mx c" and "remote_checks e h c = Ret t"
  shows "t = cTx c \<and> admitted e B mx t"
proof -
  obtain newtxs hd1 where "(case ExecCheck e [cTx c] hd1 of Inl er \<Rightarrow> Err er | Inr [] \<Rightarrow> Panic ''index out of range''
      | Inr (errstr # _) \<Rightarrow> if errstr = [] then Ret (cTx c) else Err (ErrOther errstr)) = Ret t"
    using assms(2) by (auto simp: remote_checks_def Let_def elim!: obind_RetE split: option.splits if_splits)
  then obtain errs where "ExecCheck e [cTx c] hd1 = Inr ([] # errs)" "t = cTx c"
    by (auto split: sum.splits list.splits if_splits)
  then show ?thesis using assms(1) by (auto simp: admitted_def signed_def entered_def executor_accepts_def)
qed

subsection \<open>The invariant of the reachable states\<close>

definition pool_inv :: "'a mem_env_scheme \<Rightarrow> Transaction set \<Rightarrow> Mempool \<Rightarrow> Mempool \<Rightarrow> bool" where
  "pool_inv e B mem0 mem \<longleftrightarrow> same_limits (memCache mem0) (memCache mem) \<and>
     MaxTxFee (memCfg mem) = MaxTxFee (memCfg mem0) \<and>
     (\<exists>its. mem_holds e mem its \<and> (\<forall>it \<in> set its. admitted e B (MaxTxFee (memCfg mem0)) (iValue it)))"

definition sys_inv :: "'a mem_env_scheme \<Rightarrow> Transaction set \<Rightarrow> Mempool \<Rightarrow> MemSys \<Rightarrow> bool" where
  "sys_inv e B mem0 s \<longleftrightarrow> pool_inv e B mem0 (sysMem s) \<and>
     (\<forall>c \<in> set (toSign s). entered e (MaxTxFee (memCfg mem0)) c) \<and>
     (\<forall>c \<in> set (toRemote s). signed e (MaxTxFee (memCfg mem0)) c) \<and>
     (\<forall>t \<in> set (toPush s). admitted e B (MaxTxFee (memCfg mem0)) t)"

lemma pool_inv_keeps:
  "pool_inv e B mem0 mem \<Longrightarrow> pool_inv e B mem0 (setHeader h mem)"
  "pool_inv e B mem0 mem \<Longrightarrow> pool_inv e B mem0 (setSync b mem)"
  "pool_inv e B mem0 mem \<Longrightarrow> pool_inv e B mem0 (SetMinFee fee mem)"
  by (simp_all add: pool_inv_def setHeader_def setSync_def SetMinFee_def)

lemma pool_inv_fewer:
  assumes "pool_inv e B mem0 mem" and "same_rest mem mem'"
    and "\<And>its. mem_holds e mem its \<Longrightarrow> \<exists>P. mem_holds e mem' (filter P its)"
  shows "pool_inv e B mem0 mem'"
proof -
  obtain its where "mem_holds e mem its" "\<forall>it \<in> set its. admitted e B (MaxTxFee (memCfg mem0)) (iValue it)"
    using assms(1) by (auto simp: pool_inv_def)
  moreover from this(1) obtain P where "mem_holds e mem' (filter P its)" using assms(3) by blast
  ultimately show ?thesis using assms(1,2) by (auto simp: pool_inv_def same_rest_def same_limits_def)
qed

lemma pool_inv_removes:
  assumes "pool_inv e B mem0 mem" and "mem_RemoveTxs e hs mem = (Ret (), mem')"
  shows "pool_inv e B mem0 mem'"
proof (rule pool_inv_fewer [OF assms(1)])
  show "same_rest mem mem'" using assms mem_remove [of e mem _ hs] by (fastforce simp: pool_inv_def)
  show "\<exists>P. mem_holds e mem' (filter P its)" if "mem_holds e mem its" for its
    using mem_remove [OF that, of hs] assms(2) by fastforce
qed

lemma pool_inv_expires:
  assumes "pool_inv e B mem0 mem" and "removeExpired e now mem = (Ret (), mem')"
  shows "pool_inv e B mem0 mem'"
proof (rule pool_inv_fewer [OF assms(1)])
  obtain its where "mem_holds e mem its" using assms(1) by (auto simp: pool_inv_def)
  then show "same_rest mem mem'" using assms(2) by (rule mem_expire_some)
  show "\<exists>P. mem_holds e mem' (filter P its)" if "mem_holds e mem its" for its
    using mem_expire_some [OF that assms(2)] by blast
qed

lemma pool_inv_pushes:
  assumes "pool_inv e B mem0 mem" and "admitted e B (MaxTxFee (memCfg mem0)) t"
    and "attempt (PushTx e now t) mem = (Ret r, mem')"
  shows "pool_inv e B mem0 mem'"
proof -
  obtain its where its: "mem_holds e mem its" "\<forall>it \<in> set its. admitted e B (MaxTxFee (memCfg mem0)) (iValue it)"
    using assms(1) by (auto simp: pool_inv_def)
  show ?thesis
  proof (cases "push_error e (memCache mem) its t")
    case None
    then obtain m1 where "PushTx e now t mem = (Ret (), m1)" "mem_holds e m1 (its @ [new_item now t])" "same_rest mem m1"
      using mem_push(2) [OF its(1)] by blast
    moreover have "\<forall>it \<in> set (its @ [new_item now t]). admitted e B (MaxTxFee (memCfg mem0)) (iValue it)"
      using its(2) assms(2) by (simp add: new_item_def)
    ultimately have "mem' = m1"
      "\<exists>its. mem_holds e m1 its \<and> (\<forall>it \<in> set its. admitted e B (MaxTxFee (memCfg mem0)) (iValue it))" "same_rest mem m1"
      using assms(3) by (simp add: attempt_def, blast+)
    then show ?thesis using assms(1) by (simp add: pool_inv_def same_rest_def same_limits_def)
  next
    case (Some er)
    then show ?thesis using mem_push(1) [OF its(1) Some, of now] assms(1,3) by (auto simp: attempt_def)
  qed
qed

lemma sys_inv_step:
  assumes "mem_step e B s s'" and "sys_inv e B mem0 s"
  shows "sys_inv e B mem0 s'"
  using assms
proof (induction rule: mem_step.induct)
  case (step_recv s now msg c)
  then show ?case using checkTxs_entered [OF step_recv(2)] by (auto simp: sys_inv_def pool_inv_def)
next
  case (step_sign s ps c qs c')
  then show ?case using checkSign_signed [of e _ c c'] by (auto simp: sys_inv_def)
next
  case (step_remote s ps c qs t)
  then show ?case using remote_admitted [of e _ c _ t B] by (auto simp: sys_inv_def)
next
  case (step_back t height s now)
  then show ?case by (auto simp: sys_inv_def pool_inv_def admitted_def fee_checked_def)
next
  case (step_push s ps t qs now r mem)
  then show ?case using pool_inv_pushes [of e B mem0 "sysMem s" t] by (auto simp: sys_inv_def)
next
  case (step_expire now s mem)
  then show ?case using pool_inv_expires [of e B mem0 "sysMem s"] by (auto simp: sys_inv_def)
qed (auto simp: sys_inv_def pool_inv_keeps RemoveTxsOfBlock_hashes intro: pool_inv_removes)

lemma sys_inv_steps: "mem_steps e B s s' \<Longrightarrow> sys_inv e B mem0 s \<Longrightarrow> sys_inv e B mem0 s'"
  by (induction rule: rtranclp_induct) (auto intro: sys_inv_step)

text \<open>The limits that a configuration gives, the defaults of \<^verbatim>\<open>NewMempool\<close> and \<^verbatim>\<open>New\<close> included.\<close>

definition account_limit :: "MempoolCfg \<Rightarrow> int" where
  "account_limit cfg = (if MaxTxNumPerAccount cfg = 0 then 100 else MaxTxNumPerAccount cfg)"

definition pool_limit :: "MempoolCfg \<Rightarrow> SubConfig \<Rightarrow> int" where
  "pool_limit cfg sub = (if scPoolCacheSize sub \<noteq> 0 then scPoolCacheSize sub
     else if PoolCacheSize cfg \<noteq> 0 then PoolCacheSize cfg else 10240)"

definition last_limit :: "MempoolCfg \<Rightarrow> int" where
  "last_limit cfg = (if MaxTxLast cfg = 0 then 10 else MaxTxLast cfg)"

lemma start_limits:
  "maxperaccount (tcIndex (memCache (timeline_New cfg sub))) = account_limit cfg"
  "pool_cap (memCache (timeline_New cfg sub)) = pool_limit cfg sub"
  "lastMax (tcLast (memCache (timeline_New cfg sub))) = last_limit cfg"
  "MaxTxFee (memCfg (timeline_New cfg sub)) = MaxTxFee cfg"
  by (auto simp: timeline_New_def NewMempool_def Let_def mem_SetQueueCache_def tc_SetQueueCache_def newCache_def
      NewAccountTxIndex_def NewLastTxCache_def NewSimpleQueue_def account_limit_def pool_limit_def last_limit_def
      pool_cap_def maxTxNumPerAccount_def poolCacheSize_def maxTxLast_def)

lemma start_holds:
  assumes "0 < account_limit cfg" and "0 \<le> pool_limit cfg sub"
  shows "mem_holds e (timeline_New cfg sub) []"
proof -
  obtain n sc k where c: "memCache (timeline_New cfg sub) = tc_SetQueueCache (NewSimpleQueue sc) (newCache n k)"
    by (simp add: timeline_New_def NewMempool_def Let_def mem_SetQueueCache_def)
  then have "n = account_limit cfg" "scPoolCacheSize sc = pool_limit cfg sub"
    using start_limits(1,2) [of cfg sub]
    by (auto simp: tc_SetQueueCache_def newCache_def NewAccountTxIndex_def NewSimpleQueue_def pool_cap_def)
  then show ?thesis using pool_new [of n sc e k] assms c by simp
qed

lemma start_inv:
  assumes "0 < account_limit cfg" and "0 \<le> pool_limit cfg sub"
  shows "sys_inv e B (timeline_New cfg sub) (mem_start cfg sub)"
proof -
  have "pool_inv e B (timeline_New cfg sub) (timeline_New cfg sub)"
    using start_holds [OF assms, of e] by (auto simp: pool_inv_def)
  then show ?thesis by (simp add: sys_inv_def mem_start_def)
qed

end
