(* ===== verification/MempoolToy.thy ===== *)
theory MempoolToy
  imports MempoolRun
begin

text \<open>
  An example of a memory pool for the witnesses: the protobuf encoding of transactions, a chain whose
  addresses are their own texts, an executor that accepts everything and one signed transaction.
\<close>

definition quiet_addr :: addr_env where
  "quiet_addr = (plain_addr pad_hash)\<lparr>b58Encode := (\<lambda>b. b), b58Decode := Some\<rparr>"

definition quiet_env :: mem_env where
  "quiet_env = tx_env.extend (wire_env quiet_addr toy_verify toy_conf)
     \<lparr>ActionName = (\<lambda>_. ''transfer''), Amount = (\<lambda>_. Ret 0), TxHashList = (\<lambda>_ _ _. Inr []),
      ExecCheck = (\<lambda>txs _. Inr (map (\<lambda>_. []) txs)), LastHeader = Inl ErrNotFound\<rparr>"

lemma quiet_fields [simp]:
  "EncodeTx quiet_env = Transaction_Marshal" "SizeTx quiet_env = (\<lambda>t. int (length (Transaction_Marshal t)))"
  "VerifySign quiet_env = toy_verify" "conf quiet_env = toy_conf" "Sum256 quiet_env = pad_hash"
  "addr_env.truncate quiet_env = quiet_addr" "TxHashList quiet_env a b c = Inr []"
  "ExecCheck quiet_env txs h = Inr (map (\<lambda>_. []) txs)"
  by (simp_all add: quiet_env_def wire_env_def quiet_addr_def addr_env.defs tx_env.defs plain_addr_def)

definition quiet_tx :: Transaction where
  "quiet_tx = Tx_Sign quiet_env 1 toy_key (no_tx\<lparr>Fee := 100000, To := zeros 25\<rparr>)"

lemma quiet_valid: "fst (CheckAddress quiet_addr (zeros 25) no_caches) = None"
  by (simp add: CheckAddress_def checkAddress_def no_caches_def quiet_addr_def plain_addr_def checksum_def pad_hash_def zeros_def NormalVer_def Let_def Sha2Sum_def)

lemma quiet_sign: "checkSign_tx quiet_env quiet_tx"
  by (simp add: quiet_tx_def Tx_Sign_def checkSign_tx_def toy_verify_def toy_key_def Let_def)

lemma quiet_size: "length (Transaction_Marshal quiet_tx) \<le> 1000"
  by (simp add: quiet_tx_def Tx_Sign_def toy_key_def wire_simps Let_def zeros_def Signature_fields_def pad_hash_def)

lemma quiet_group: "GetTxGroup quiet_env quiet_tx = Ret None"
  by (simp add: GetTxGroup_def quiet_tx_def Tx_Sign_def no_tx_def)

lemma quiet_to: "To quiet_tx = zeros 25" "Expire quiet_tx = 0" "Fee quiet_tx = 100000"
  by (simp_all add: quiet_tx_def Tx_Sign_def no_tx_def)

definition quiet_cfg :: MempoolCfg where
  "quiet_cfg = \<lparr>MaxTxNumPerAccount = 0, MaxTxLast = 0, PoolCacheSize = 0, MinTxFee = 0, MaxTxFee = 0, ForceAccept = False\<rparr>"

definition quiet_sub :: SubConfig where
  "quiet_sub = \<lparr>scPoolCacheSize = 0, scProperFee = 0\<rparr>"

lemma quiet_limits: "account_limit quiet_cfg = 100" "pool_limit quiet_cfg quiet_sub = 10240" "last_limit quiet_cfg = 10"
  by (simp_all add: quiet_cfg_def quiet_sub_def account_limit_def pool_limit_def last_limit_def)

lemma quiet_check: "Tx_Check quiet_env h m x quiet_tx = Ret () \<or> m \<noteq> 0"
  using quiet_size by (simp add: Tx_Check_def quiet_group check_tx_def MaxTxSize_def)

definition quiet_pool :: Mempool where
  "quiet_pool = setSync True (setHeader \<lparr>hHeight = 3, hBlockTime = 4, hStateHash = [], hDifficulty = 0\<rparr> (timeline_New quiet_cfg quiet_sub))"

lemma quiet_empty: "mem_holds quiet_env quiet_pool []" "mem_holds quiet_env (timeline_New quiet_cfg quiet_sub) []"
  using start_holds [of quiet_cfg quiet_sub quiet_env] by (simp_all add: quiet_limits quiet_pool_def setSync_def setHeader_def)

lemma quiet_expire: "Tx_IsExpire quiet_env quiet_tx h t = Ret False"
  by (simp add: Tx_IsExpire_def quiet_group isExpire_def quiet_to)

lemma quiet_pushed:
  assumes "mem_holds quiet_env mem []" and "same_limits (memCache (timeline_New quiet_cfg quiet_sub)) (memCache mem)"
  obtains mem' where "PushTx quiet_env now quiet_tx mem = (Ret (), mem')" and "pool_items mem' = [new_item now quiet_tx]"
proof -
  have "push_error quiet_env (memCache mem) [] quiet_tx = None"
    using assms(2) start_limits(1,2) [of quiet_cfg quiet_sub]
    by (simp add: push_error_def same_limits_def quiet_limits txs_of_def)
  from mem_push(2) [OF assms(1) this, of now] obtain m where "PushTx quiet_env now quiet_tx mem = (Ret (), m)"
    "mem_holds quiet_env m [new_item now quiet_tx]" by auto
  then show thesis using that mem_items by blast
qed

lemma quiet_eventTx: "eventTx quiet_env now (Some quiet_tx) quiet_pool = PushTx quiet_env now quiet_tx quiet_pool"
proof -
  have m: "memSync quiet_pool" "memHeader quiet_pool = Some \<lparr>hHeight = 3, hBlockTime = 4, hStateHash = [], hDifficulty = 0\<rparr>"
    "MinTxFee (memCfg quiet_pool) = 0" "MaxTxNumPerAccount (memCfg quiet_pool) = 100"
    by (simp_all add: quiet_pool_def setSync_def setHeader_def timeline_New_def NewMempool_def Let_def
        mem_SetQueueCache_def quiet_cfg_def maxTxNumPerAccount_def)
  have "check_tx quiet_env 3 0 x quiet_tx = Ret ()" for x
    using quiet_size by (simp add: check_tx_def MaxTxSize_def)
  moreover have "mem_TxNumOfAccount quiet_pool a = 0" for a
    using mem_num [OF quiet_empty(1), of a] by (simp add: txs_of_def)
  moreover have "CheckExpireValid quiet_env now quiet_pool quiet_tx = Ret True"
    by (simp add: CheckExpireValid_def checkExpireValid_def m quiet_expire quiet_to)
  ultimately have "mem_checkTx quiet_env now quiet_pool quiet_tx = Ret ()" "\<And>x. check_tx quiet_env 3 0 x quiet_tx = Ret ()"
    by (simp_all add: mem_checkTx_def quiet_to quiet_valid m)
  then have "checkTxs quiet_env now quiet_pool (Some quiet_tx) = Ret ((NewTransactionCache quiet_tx)\<lparr>checked := True\<rparr>)"
    by (simp add: checkTxs_def Cache_Check_def Cache_GetTxGroup_def NewTransactionCache_def quiet_group m GetHeight_def as_error_def)
  moreover have "mem_checkSign quiet_env ((NewTransactionCache quiet_tx)\<lparr>checked := True\<rparr>) =
      Ret ((NewTransactionCache quiet_tx)\<lparr>checked := True, signok := 1\<rparr>)"
    using quiet_sign by (simp add: mem_checkSign_def Cache_CheckSign_def Cache_GetTxGroup_def NewTransactionCache_def quiet_group)
  moreover have "remote_checks quiet_env (memHeader quiet_pool) ((NewTransactionCache quiet_tx)\<lparr>checked := True, signok := 1\<rparr>) = Ret quiet_tx"
    by (simp add: remote_checks_def Cache_GetTxGroup_def NewTransactionCache_def quiet_group m CheckDupTx_def CheckTxDup_def
        types_IsFork_def IsFork_def GetFork_def toy_conf_def MaxHeight_def Let_def)
  ultimately show ?thesis by (simp add: eventTx_def m checkTxRemote_def)
qed

text \<open>A run of the pool: the transaction comes back from a block, is pushed, and leaves at a tick.\<close>

definition quiet_back :: MemSys where
  "quiet_back = (mem_start quiet_cfg quiet_sub)\<lparr>toPush := [quiet_tx]\<rparr>"

definition quiet_full :: MemSys where
  "quiet_full = (mem_start quiet_cfg quiet_sub)\<lparr>sysMem := snd (PushTx quiet_env 7 quiet_tx (timeline_New quiet_cfg quiet_sub))\<rparr>"

definition quiet_done :: MemSys where
  "quiet_done = quiet_full\<lparr>sysMem := snd (removeExpired quiet_env 607 (sysMem quiet_full))\<rparr>"

fun quiet_run :: "nat \<Rightarrow> MemSys" where
  "quiet_run 0 = mem_start quiet_cfg quiet_sub"
| "quiet_run (Suc 0) = quiet_back"
| "quiet_run (Suc (Suc 0)) = quiet_full"
| "quiet_run (Suc (Suc (Suc n))) = quiet_done"

lemma quiet_start: "timeline_New quiet_cfg quiet_sub = sysMem (mem_start quiet_cfg quiet_sub)" "toPush (mem_start quiet_cfg quiet_sub) = []"
  by (simp_all add: mem_start_def)

lemma quiet_step_back: "mem_step quiet_env {quiet_tx} (quiet_run 0) (quiet_run 1)"
proof -
  have m: "MinTxFee (memCfg (timeline_New quiet_cfg quiet_sub)) = 0" "memHeader (timeline_New quiet_cfg quiet_sub) = None"
    by (simp_all add: timeline_New_def NewMempool_def Let_def mem_SetQueueCache_def quiet_cfg_def)
  have "mem_step quiet_env {quiet_tx} (mem_start quiet_cfg quiet_sub)
      ((mem_start quiet_cfg quiet_sub)\<lparr>toPush := toPush (mem_start quiet_cfg quiet_sub) @ [quiet_tx]\<rparr>)"
  proof (rule step_back)
    show "Tx_Check quiet_env 0 (MinTxFee (memCfg (sysMem (mem_start quiet_cfg quiet_sub))))
        (MaxTxFee (memCfg (sysMem (mem_start quiet_cfg quiet_sub)))) quiet_tx = Ret ()"
      unfolding quiet_start(1) [symmetric] m using quiet_check by blast
    show "checkExpireValid quiet_env 7 (sysMem (mem_start quiet_cfg quiet_sub)) quiet_tx = Ret True"
      by (simp add: checkExpireValid_def quiet_expire quiet_to)
  qed simp
  then show ?thesis by (simp add: quiet_back_def quiet_start(2))
qed

lemma quiet_push: "PushTx quiet_env 7 quiet_tx (sysMem quiet_back) = (Ret (), sysMem quiet_full)"
    "mem_holds quiet_env (sysMem quiet_full) [new_item 7 quiet_tx]"
proof -
  have "push_error quiet_env (memCache (timeline_New quiet_cfg quiet_sub)) [] quiet_tx = None"
    using start_limits(1,2) [of quiet_cfg quiet_sub] by (simp add: push_error_def quiet_limits txs_of_def)
  from mem_push(2) [OF quiet_empty(2) this, of 7]
  show "PushTx quiet_env 7 quiet_tx (sysMem quiet_back) = (Ret (), sysMem quiet_full)"
    "mem_holds quiet_env (sysMem quiet_full) [new_item 7 quiet_tx]"
    by (auto simp: quiet_back_def quiet_full_def mem_start_def)
qed

lemma quiet_step_push: "mem_step quiet_env {quiet_tx} (quiet_run 1) (quiet_run 2)"
proof -
  have "mem_step quiet_env {quiet_tx} quiet_back (quiet_back\<lparr>toPush := [] @ [], sysMem := sysMem quiet_full\<rparr>)"
    by (rule step_push [where t = quiet_tx and now = 7 and r = "Inr ()"])
      (simp_all add: attempt_def quiet_push(1), simp add: quiet_back_def)
  then show ?thesis by (simp add: quiet_back_def quiet_full_def mem_start_def numeral_2_eq_2)
qed

lemma quiet_tick: "removeExpired quiet_env 607 (sysMem quiet_full) = (Ret (), sysMem quiet_done)"
    "mem_holds quiet_env (sysMem quiet_done) []"
proof -
  have x: "isExpired quiet_env 607 (new_item 7 quiet_tx) h t = Ret True" for h t
    by (simp add: isExpired_def new_item_def mempoolExpiredInterval_def i64_def)
  have "no_panic quiet_env 607 h t [new_item 7 quiet_tx]" for h t by (auto simp: no_panic_def x)
  from mem_expire [OF quiet_push(2) this]
  show "removeExpired quiet_env 607 (sysMem quiet_full) = (Ret (), sysMem quiet_done)"
    "mem_holds quiet_env (sysMem quiet_done) []"
    by (auto simp: quiet_done_def is_expired_def x)
qed

lemma quiet_idle: "removeExpired quiet_env now (sysMem quiet_done) = (Ret (), sysMem quiet_done)"
proof -
  obtain q where q: "qcache (memCache (sysMem quiet_done)) = Some q" "queue_holds quiet_env q []"
    using quiet_tick(2) by (auto simp: pool_holds_def)
  have "expired_hashes quiet_env now h t q = Ret []" for h t
    using expired_hashes_run [OF q(2), of now h t] by (simp add: no_panic_def)
  then show ?thesis by (simp add: removeExpired_def removeExpiredTx_def q(1) tc_RemoveTxs_def on_cache_def)
qed

lemma quiet_steps: "mem_step quiet_env {quiet_tx} (quiet_run k) (quiet_run (Suc k))"
proof (cases k rule: quiet_run.cases)
  case 3
  have "mem_step quiet_env {quiet_tx} quiet_full (quiet_full\<lparr>sysMem := sysMem quiet_done\<rparr>)"
    by (rule step_expire [OF quiet_tick(1)])
  then show ?thesis by (simp add: 3 quiet_done_def)
next
  case (4 n)
  have "mem_step quiet_env {quiet_tx} quiet_done (quiet_done\<lparr>sysMem := sysMem quiet_done\<rparr>)"
    by (rule step_expire [OF quiet_idle])
  then show ?thesis by (simp add: 4)
qed (use quiet_step_back quiet_step_push in \<open>simp_all add: numeral_2_eq_2\<close>)

lemma quiet_reach: "mem_steps quiet_env {quiet_tx} (mem_start quiet_cfg quiet_sub) (quiet_run k)"
  by (induction k) (use quiet_steps in \<open>simp, meson rtranclp.rtrancl_into_rtrancl\<close>)

end
