(* ===== verification/MempoolProps.thy ===== *)
theory MempoolProps
  imports MempoolToy
begin

text \<open>
  The properties of the memory pool: its limits and what it admits in every reachable state, the
  queue it implements, what it hands to the miner, how its handlers divide into steps, and that its
  loops end.
\<close>

subsection \<open>Handlers as sequences of steps\<close>

text \<open>The transactions that \<^verbatim>\<open>delBlock\<close> gives back, a group packed into one.\<close>

function block_units :: "'a mem_env_scheme \<Rightarrow> bool \<Rightarrow> Transaction list \<Rightarrow> Transaction list" where
  "block_units e first [] = []"
| "block_units e first (tx # txs) =
     (if first \<and> ActionName e tx = ''miner'' then block_units e False txs
      else if GroupCount tx > 1 \<and> nat (GroupCount tx) \<le> length (tx # txs)
        then (case Group_Tx e (take (nat (GroupCount tx)) (tx # txs)) of None \<Rightarrow> [] | Some t \<Rightarrow> [t]) @
          block_units e False (drop (nat (GroupCount tx)) (tx # txs))
      else tx # block_units e False txs)"
  by pat_completeness auto
termination
  by (relation "measure (\<lambda>(e, first, txs). length txs)") auto

declare block_units.simps [simp del] del_from.simps [simp del]
lemmas block_units_simps = block_units.simps
lemmas del_from_simps = del_from.simps

lemma steps_one: "mem_step e B s s' \<Longrightarrow> mem_steps e B s s'"
  by blast

lemma push_now:
  assumes "mem_step e B s (s\<lparr>toPush := toPush s @ [t]\<rparr>)" and "attempt (PushTx e now t) (sysMem s) = (Ret r, mem)"
  shows "mem_steps e B s (s\<lparr>sysMem := mem\<rparr>)"
proof -
  let ?s = "s\<lparr>toPush := toPush s @ [t]\<rparr>"
  have "mem_step e B ?s (?s\<lparr>toPush := toPush s @ [], sysMem := mem\<rparr>)"
    by (rule step_push [where t = t and now = now and r = r]) (use assms(2) in simp_all)
  moreover have "?s\<lparr>toPush := toPush s @ [], sysMem := mem\<rparr> = s\<lparr>sysMem := mem\<rparr>" by (cases s) simp
  ultimately show ?thesis using assms(1) by (metis converse_rtranclp_into_rtranclp steps_one)
qed

lemma requeue_steps:
  assumes "requeue e now header t (sysMem s) = (Ret r, mem)" and "t \<in> B"
  shows "mem_steps e B s (s\<lparr>sysMem := mem\<rparr>)"
proof (cases "mem = sysMem s")
  case False
  then have c: "Tx_Check e (GetHeight header) (MinTxFee (memCfg (sysMem s))) (MaxTxFee (memCfg (sysMem s))) t = Ret ()"
    "checkExpireValid e now (sysMem s) t = Ret True"
    and p: "bind (attempt (PushTx e now t)) (\<lambda>_. ret ()) (sysMem s) = (Ret r, mem)"
    using assms(1) by (auto simp: requeue_def split: outcome.splits if_splits)
  from p obtain r' where "attempt (PushTx e now t) (sysMem s) = (Ret r', mem)"
    by (auto simp: bind_def split: outcome.splits prod.splits)
  then show ?thesis by (rule push_now [OF step_back [OF assms(2) c]])
qed simp

lemma bind_RetE:
  assumes "bind m f s = (Ret b, s')"
  obtains a s1 where "m s = (Ret a, s1)" and "f a s1 = (Ret b, s')"
  using assms by (auto simp: bind_def split: outcome.splits prod.splits)

lemma del_from_steps:
  "del_from e now header first txs (sysMem s) = (Ret r, mem) \<Longrightarrow> set (block_units e first txs) \<subseteq> B \<Longrightarrow>
   mem_steps e B s (s\<lparr>sysMem := mem\<rparr>)"
proof (induction e first txs arbitrary: s rule: block_units.induct)
  case (1 e first)
  then show ?case by (auto simp: del_from_simps)
next
  case (2 e first tx txs)
  show ?case
  proof (cases "first \<and> ActionName e tx = ''miner''")
    case True
    then show ?thesis using 2(1) [OF True] 2(4,5) by (simp add: del_from_simps block_units_simps)
  next
    case miner: False
    show ?thesis
    proof (cases "GroupCount tx > 1 \<and> nat (GroupCount tx) \<le> length (tx # txs)")
      case True
      obtain t m1 where t: "Group_Tx e (take (nat (GroupCount tx)) (tx # txs)) = Some t"
        "requeue e now header t (sysMem s) = (Ret (), m1)"
        "del_from e now header False (drop (nat (GroupCount tx)) (tx # txs)) m1 = (Ret r, mem)"
        using 2(4) True miner by (auto simp: del_from_simps Let_def elim!: bind_RetE split: option.splits)
      have B: "t \<in> B" "set (block_units e False (drop (nat (GroupCount tx)) (tx # txs))) \<subseteq> B"
        using 2(5) True miner t(1) by (auto simp: block_units_simps)
      then show ?thesis
        using requeue_steps [OF t(2) B(1)] 2(2) [OF miner True, of "s\<lparr>sysMem := m1\<rparr>"] t(3) by simp
    next
      case False
      have "bind (requeue e now header tx) (\<lambda>_. del_from e now header False txs) (sysMem s) = (Ret r, mem)"
        using 2(4) by (simp only: del_from_simps Let_def miner False if_False)
      then obtain u m1 where t: "requeue e now header tx (sysMem s) = (Ret u, m1)" "del_from e now header False txs m1 = (Ret r, mem)"
        by (rule bind_RetE)
      have "block_units e first (tx # txs) = tx # block_units e False txs"
        by (simp only: block_units_simps miner False if_False)
      then have B: "tx \<in> B" "set (block_units e False txs) \<subseteq> B" using 2(5) by auto
      then show ?thesis
        using requeue_steps [OF t(1) B(1)] 2(3) [OF miner False, of "s\<lparr>sysMem := m1\<rparr>"] t(2) by simp
    qed
  qed
qed

lemma eventTx_steps:
  assumes "attempt (eventTx e now msg) (sysMem s) = (Ret r, mem)"
  shows "mem_steps e B s (s\<lparr>sysMem := mem\<rparr>)"
proof (cases "mem = sysMem s")
  case False
  then obtain c c' t where c: "memSync (sysMem s)" "checkTxs e now (sysMem s) msg = Ret c" "mem_checkSign e c = Ret c'"
      "remote_checks e (memHeader (sysMem s)) c' = Ret t" "attempt (PushTx e now t) (sysMem s) = (Ret r, mem)"
    using assms by (auto simp: attempt_def eventTx_def checkTxRemote_def obind_def split: if_splits outcome.splits prod.splits)
  let ?a = "s\<lparr>toSign := toSign s @ [c]\<rparr>" and ?b = "s\<lparr>toRemote := toRemote s @ [c']\<rparr>"
  have ab: "mem_steps e B s ?b"
  proof -
    have "mem_step e B ?a (?a\<lparr>toSign := toSign s @ [], toRemote := toRemote ?a @ [c']\<rparr>)"
      by (rule step_sign [where c = c]) (simp_all add: c)
    moreover have "?a\<lparr>toSign := toSign s @ [], toRemote := toRemote ?a @ [c']\<rparr> = ?b" by (cases s) simp
    ultimately show ?thesis using step_recv [OF c(1,2)] by (metis converse_rtranclp_into_rtranclp steps_one)
  qed
  let ?p = "s\<lparr>toPush := toPush s @ [t]\<rparr>"
  have bp: "mem_steps e B ?b ?p"
  proof -
    have "mem_step e B ?b (?b\<lparr>toRemote := toRemote s @ [], toPush := toPush ?b @ [t]\<rparr>)"
      by (rule step_remote [where c = c']) (simp_all add: c)
    moreover have "?b\<lparr>toRemote := toRemote s @ [], toPush := toPush ?b @ [t]\<rparr> = ?p" by (cases s) simp
    ultimately show ?thesis by (metis steps_one)
  qed
  have "mem_step e B ?p (?p\<lparr>toPush := toPush s @ [], sysMem := mem\<rparr>)"
    by (rule step_push [where t = t and now = now and r = r]) (simp_all add: c)
  moreover have "?p\<lparr>toPush := toPush s @ [], sysMem := mem\<rparr> = s\<lparr>sysMem := mem\<rparr>" by (cases s) simp
  ultimately show ?thesis using ab bp by (metis rtranclp_trans steps_one)
qed simp

lemma eventAddBlock_steps:
  assumes "eventAddBlock e block (sysMem s) = (Ret r, mem)"
  shows "mem_steps e B s (s\<lparr>sysMem := mem\<rparr>)"
proof -
  obtain m1 where m1: "m1 = sysMem s \<or> (\<exists>h. m1 = setHeader h (sysMem s))" "RemoveTxsOfBlock e (bTxs block) m1 = (Ret (), mem)"
    using assms by (auto simp: eventAddBlock_def Let_def split: if_splits)
  have "mem_steps e B s (s\<lparr>sysMem := m1\<rparr>)" using m1(1) by (auto intro: steps_one step_header)
  moreover have "mem_step e B (s\<lparr>sysMem := m1\<rparr>) (s\<lparr>sysMem := m1\<rparr>\<lparr>sysMem := mem\<rparr>)"
    by (rule step_block) (use m1(2) in simp)
  ultimately show ?thesis by simp
qed

text \<open>The handlers that change the pool; an error of the first two is only the reply to the sender.\<close>

definition replying :: "(Mempool, unit) prog \<Rightarrow> (Mempool, unit) prog" where
  "replying m = bind (attempt m) (\<lambda>_. ret ())"

datatype handler = HTx int "Transaction option" | HDelTxs "bytes list" | HAddBlock Block | HDelBlock int Block | HExpire int

fun handle :: "'a mem_env_scheme \<Rightarrow> handler \<Rightarrow> (Mempool, unit) prog" where
  "handle e (HTx now msg) = replying (eventTx e now msg)"
| "handle e (HDelTxs hs) = replying (eventDelTxList e hs)"
| "handle e (HAddBlock b) = eventAddBlock e b"
| "handle e (HDelBlock now b) = eventDelBlock e now b"
| "handle e (HExpire now) = removeExpired e now"

fun gives_back :: "'a mem_env_scheme \<Rightarrow> handler \<Rightarrow> Transaction set" where
  "gives_back e (HDelBlock now b) = set (block_units e True (bTxs b))"
| "gives_back e _ = {}"

lemma replying_attempt: "replying m mem = (Ret r, mem') \<Longrightarrow> \<exists>r'. attempt m mem = (Ret r', mem')"
  by (auto simp: replying_def elim!: bind_RetE)

lemma removes_no_error: "fst (mem_RemoveTxs e hs mem) \<noteq> Err er"
proof (induction hs arbitrary: mem)
  case (Cons h hs)
  obtain r m1 where r: "(if tc_Exist (memCache mem) h then on_cache (tc_Remove e h) mem else ret () mem) = (r, m1)" by fastforce
  then have "r \<noteq> Err er"
    by (auto simp: on_cache_def tc_Remove_def Let_def split: if_splits option.splits outcome.splits)
  then show ?case using r Cons [of m1] by (cases r) (auto simp: mem_RemoveTxs_def bind_def)
qed (simp add: mem_RemoveTxs_def)

lemma eventDelTxList_steps:
  assumes "attempt (eventDelTxList e hs) (sysMem s) = (Ret r, mem)"
  shows "mem_steps e B s (s\<lparr>sysMem := mem\<rparr>)"
proof (cases "hs = []")
  case True
  then show ?thesis using assms by (auto simp: eventDelTxList_def attempt_def)
next
  case False
  then have "mem_RemoveTxs e hs (sysMem s) = (Ret (), mem)"
    using assms removes_no_error [of e hs "sysMem s"]
    by (auto simp: eventDelTxList_def attempt_def split: outcome.splits prod.splits)
  then show ?thesis by (intro steps_one step_remove)
qed

lemma eventDelBlock_steps:
  assumes "eventDelBlock e now block (sysMem s) = (Ret r, mem)" and "set (block_units e True (bTxs block)) \<subseteq> B"
  shows "mem_steps e B s (s\<lparr>sysMem := mem\<rparr>)"
proof (cases "mem = sysMem s")
  case False
  then obtain h where h: "delBlock e now (bTxs block) (setHeader h (sysMem s)) = (Ret r, mem)"
    using assms(1) by (auto simp: eventDelBlock_def split: if_splits sum.splits)
  let ?s = "s\<lparr>sysMem := setHeader h (sysMem s)\<rparr>"
  have "mem_steps e B ?s (?s\<lparr>sysMem := mem\<rparr>)"
  proof (cases "bTxs block = []")
    case True
    then have "mem = sysMem ?s" using h by (auto simp: delBlock_def)
    then show ?thesis by simp
  next
    case False
    then show ?thesis
      using h del_from_steps [where s = ?s and first = True and txs = "bTxs block", OF _ assms(2)] by (simp add: delBlock_def)
  qed
  then show ?thesis using step_header [of e B s h] by simp
qed simp



end
