(* ===== verification/MempoolQueue.thy ===== *)
theory MempoolQueue
  imports MempoolProps
begin

text \<open>
  What the pool promises in every reachable state, the queue it implements, and that its loops end.
\<close>

subsection \<open>Reachable states\<close>

lemma reachable_holds:
  assumes "0 < account_limit cfg" and "0 \<le> pool_limit cfg sub" and "mem_steps e B (mem_start cfg sub) s"
  obtains "mem_holds e (sysMem s) (pool_items (sysMem s))"
    and "\<forall>it \<in> set (pool_items (sysMem s)). admitted e B (MaxTxFee cfg) (iValue it)"
    and "same_limits (memCache (timeline_New cfg sub)) (memCache (sysMem s))"
proof -
  have "pool_inv e B (timeline_New cfg sub) (sysMem s)"
    using sys_inv_steps [OF assms(3) start_inv [OF assms(1,2)]] by (simp add: sys_inv_def)
  then obtain its where its: "mem_holds e (sysMem s) its" "\<forall>it \<in> set its. admitted e B (MaxTxFee cfg) (iValue it)"
    "same_limits (memCache (timeline_New cfg sub)) (memCache (sysMem s))"
    unfolding pool_inv_def start_limits by blast
  with mem_items [OF its(1)] show thesis using that by simp
qed

text \<open>
  C13. However the goroutines of the pool interleave: the queued transactions have distinct hashes, the pool
  never holds more of them than its configured size, no account has more than its share, the index by
  account counts exactly the queued transactions of each account, and the latest transactions are
  queued ones, at most the configured number of them.
\<close>

theorem mempool_limits:
  assumes "0 < account_limit cfg" and "0 \<le> pool_limit cfg sub" and "mem_steps e B (mem_start cfg sub) s"
  shows "distinct (map (item_hash e) (pool_items (sysMem s))) \<and>
     mem_Size (sysMem s) = length (pool_items (sysMem s)) \<and> int (mem_Size (sysMem s)) \<le> pool_limit cfg sub \<and>
     mem_TxNumOfAccount (sysMem s) addr = int (length (txs_of e addr (pool_items (sysMem s)))) \<and>
     mem_TxNumOfAccount (sysMem s) addr \<le> account_limit cfg \<and>
     set (mem_GetLatestTx (sysMem s)) \<subseteq> iValue ` set (pool_items (sysMem s)) \<and>
     int (length (mem_GetLatestTx (sysMem s))) \<le> max 1 (last_limit cfg)"
proof (intro conjI)
  obtain h: "mem_holds e (sysMem s) (pool_items (sysMem s))"
    and l: "same_limits (memCache (timeline_New cfg sub)) (memCache (sysMem s))"
    by (rule reachable_holds [OF assms]) blast
  obtain q where q: "qcache (memCache (sysMem s)) = Some q" "queue_holds e q (pool_items (sysMem s))"
    using h by (auto simp: pool_holds_def)
  show "distinct (map (item_hash e) (pool_items (sysMem s)))" by (rule queue_distinct [OF q(2)])
  show n: "mem_Size (sysMem s) = length (pool_items (sysMem s))" by (rule mem_size [OF h])
  show "int (mem_Size (sysMem s)) \<le> pool_limit cfg sub"
    using q l start_limits(2) [of cfg sub] unfolding n by (simp add: queue_holds_def same_limits_def pool_cap_def)
  show m: "mem_TxNumOfAccount (sysMem s) addr = int (length (txs_of e addr (pool_items (sysMem s))))" by (rule mem_num [OF h])
  show "mem_TxNumOfAccount (sysMem s) addr \<le> account_limit cfg"
    using h l start_limits(1) [of cfg sub] unfolding m by (simp add: pool_holds_def index_holds_def same_limits_def)
  show "set (mem_GetLatestTx (sysMem s)) \<subseteq> iValue ` set (pool_items (sysMem s))" using mem_latest [OF h] by blast
  show "int (length (mem_GetLatestTx (sysMem s))) \<le> max 1 (last_limit cfg)"
    using mem_latest [OF h] l start_limits(3) [of cfg sub] by (simp add: same_limits_def)
qed

theorem mempool_limits_witness:
  "mem_Size (sysMem (quiet_run 2)) = 1 \<and> int (mem_Size (sysMem (quiet_run 2))) \<le> 10240 \<and>
   mem_TxNumOfAccount (sysMem (quiet_run 2)) (Tx_From quiet_env quiet_tx) = 1"
proof -
  have "pool_items (sysMem (quiet_run 2)) = [new_item 7 quiet_tx]"
    using mem_items [OF quiet_push(2)] by (simp add: numeral_2_eq_2)
  then show ?thesis
    using mempool_limits [OF _ _ quiet_reach [of 2], of "Tx_From quiet_env quiet_tx"]
    by (simp add: quiet_limits txs_of_def new_item_def)
qed

text \<open>
  C14. However the goroutines interleave, every transaction in the pool passed \<^verbatim>\<open>Check\<close> at some height against
  the configured largest fee, and unless a rolled back block gave it back its signatures, all of them for
  a group, are valid, every receiver has a valid address, and the executor accepted it.
\<close>

theorem mempool_admits_checked:
  assumes "0 < account_limit cfg" and "0 \<le> pool_limit cfg sub" and "mem_steps e B (mem_start cfg sub) s"
    and "it \<in> set (pool_items (sysMem s))"
  shows "(\<exists>height minfee. Tx_Check e height minfee (MaxTxFee cfg) (iValue it) = Ret ()) \<and>
    (iValue it \<in> B \<or> signs_ok e (iValue it) \<and>
      (\<forall>u \<in> set (members e (iValue it)). fst (CheckAddress (addr_env.truncate e) (To u) no_caches) = None) \<and>
      (\<exists>h errs. ExecCheck e [iValue it] h = Inr ([] # errs)))"
  using reachable_holds [OF assms(1-3)] assms(4)
  by (auto simp: admitted_def fee_checked_def valid_to_def executor_accepts_def)

theorem mempool_admits_checked_witness:
  "\<exists>s. mem_steps quiet_env {} (mem_start quiet_cfg quiet_sub) s \<and> map iValue (pool_items (sysMem s)) = [quiet_tx] \<and>
     signs_ok quiet_env quiet_tx \<and> fst (CheckAddress quiet_addr (To quiet_tx) no_caches) = None"
proof -
  let ?s = "mem_start quiet_cfg quiet_sub" and ?h = "\<lparr>hHeight = 3, hBlockTime = 4, hStateHash = [], hDifficulty = 0\<rparr>"
  have "same_limits (memCache (timeline_New quiet_cfg quiet_sub)) (memCache quiet_pool)"
    by (simp add: quiet_pool_def setSync_def setHeader_def)
  from quiet_pushed [OF quiet_empty(1) this, of 7] obtain m
    where m: "PushTx quiet_env 7 quiet_tx quiet_pool = (Ret (), m)" "pool_items m = [new_item 7 quiet_tx]" .
  have "mem_steps quiet_env {} ?s (?s\<lparr>sysMem := quiet_pool\<rparr>)"
    using step_header [of quiet_env "{}" ?s ?h] step_sync [of quiet_env "{}" "?s\<lparr>sysMem := setHeader ?h (sysMem ?s)\<rparr>" True]
    by (simp add: quiet_pool_def quiet_start(1))
  moreover have "mem_steps quiet_env {} (?s\<lparr>sysMem := quiet_pool\<rparr>) (?s\<lparr>sysMem := quiet_pool\<rparr>\<lparr>sysMem := m\<rparr>)"
    by (rule eventTx_steps [where now = 7 and msg = "Some quiet_tx" and r = "Inr ()"]) (simp add: attempt_def quiet_eventTx m(1))
  ultimately have s: "mem_steps quiet_env {} ?s (?s\<lparr>sysMem := m\<rparr>)" by simp
  have "signs_ok quiet_env quiet_tx \<and> fst (CheckAddress quiet_addr (To quiet_tx) no_caches) = None"
    using mempool_admits_checked [OF _ _ s, of "new_item 7 quiet_tx"] m(2)
    by (simp add: quiet_limits new_item_def members_def quiet_group)
  then show ?thesis using s m(2) by (intro exI [of _ "?s\<lparr>sysMem := m\<rparr>"]) (simp add: new_item_def)
qed

subsection \<open>The list for the miner\<close>

definition expiry_total :: "'a tx_env_scheme \<Rightarrow> bool" where
  "expiry_total e \<longleftrightarrow> (\<forall>tx height blocktime. \<exists>b. Tx_IsExpire e tx height blocktime = Ret b)"

lemma isExpired_total:
  assumes "expiry_total e"
  shows "\<exists>b. isExpired e now it height blocktime = Ret b"
proof -
  obtain b where "Tx_IsExpire e (iValue it) height blocktime = Ret b" using assms unfolding expiry_total_def by blast
  then show ?thesis by (cases b) (auto simp: isExpired_def)
qed

lemma total_no_panic: "expiry_total e \<Longrightarrow> no_panic e now height blocktime its"
  by (simp add: no_panic_def isExpired_total)

lemma filter_walk:
  assumes "expiry_total e"
  shows "walk_vals (\<lambda>item txs.
        if (case dupMap of None \<Rightarrow> False | Some d \<Rightarrow> Tx_Hash e (iValue item) \<in> set d) then (True, txs)
        else (case isExpired e now item height blocktime of
                Ret ex \<Rightarrow> (True, if ex then txs else obind txs (\<lambda>ts. Ret (ts @ [iValue item])))
              | Err er \<Rightarrow> (False, Err er)
              | Panic p \<Rightarrow> (False, Panic p))) its (Ret ts) =
     Ret (ts @ map iValue (filter (\<lambda>it. \<not> (case dupMap of None \<Rightarrow> False | Some d \<Rightarrow> Tx_Hash e (iValue it) \<in> set d) \<and>
       \<not> is_expired e now height blocktime it) its))"
proof (induction its arbitrary: ts)
  case (Cons it its)
  obtain b where "isExpired e now it height blocktime = Ret b" using isExpired_total [OF assms] by blast
  then show ?case using Cons by (auto simp: is_expired_def)
qed simp

lemma filterTxList_run:
  assumes "expiry_total e" and "mem_holds e mem its"
  shows "filterTxList e now mem n dupMap = Ret (map iValue (filter (\<lambda>it.
     \<not> (case dupMap of None \<Rightarrow> False | Some d \<Rightarrow> Tx_Hash e (iValue it) \<in> set d) \<and>
     \<not> is_expired e now (GetHeight (memHeader mem)) (GetBlockTime (memHeader mem)) it) (visited n its)))"
  unfolding filterTxList_def Let_def pool_walk [OF assms(2)] by (simp add: filter_walk [OF assms(1)])

text \<open>
  C29. The transactions handed out for a request of \<open>n\<close>: of the first \<open>n\<close> queued ones, in their order, those
  that neither are excluded by hash nor have expired. The number bounds the transactions looked at,
  so fewer than \<open>n\<close> come back although more could.
\<close>

theorem eventTxList_exact:
  assumes "0 < account_limit cfg" and "0 \<le> pool_limit cfg sub" and "mem_steps e B (mem_start cfg sub) s"
    and "expiry_total e"
  shows "eventTxList e now (sysMem s) n hashes = (if n \<le> 0 then Err ErrSize else
    Ret (map iValue (filter (\<lambda>it. Tx_Hash e (iValue it) \<notin> set hashes \<and>
      isExpired e now it (GetHeight (memHeader (sysMem s))) (GetBlockTime (memHeader (sysMem s))) = Ret False)
      (take (nat n) (pool_items (sysMem s))))))"
proof -
  have "\<not> is_expired e now h t it \<longleftrightarrow> isExpired e now it h t = Ret False" for h t it
    using isExpired_total [OF assms(4), of now it h t] by (auto simp: is_expired_def)
  moreover obtain "mem_holds e (sysMem s) (pool_items (sysMem s))" by (rule reachable_holds [OF assms(1-3)])
  ultimately show ?thesis
    using filterTxList_run [OF assms(4), of "sysMem s"] by (simp add: eventTxList_def getTxList_def visited_def)
qed

lemma quiet_expiry: "expiry_total quiet_env"
proof -
  have "IsEnable toy_conf ''TxHeight'' = Ret False"
    by (simp add: IsEnable_def G_def getChainConfig_def toy_conf_def)
  then have "GetTxHeight quiet_env v h = Ret (- 1)" for v h
    by (simp add: GetTxHeight_def types_IsEnableFork_def IsEnableFork_def)
  then have one: "\<exists>b. isExpire quiet_env tx h t = Ret b" for tx h t
    by (auto simp: isExpire_def Let_def)
  have "\<exists>b. Group_IsExpire quiet_env ts h t = Ret b" for ts h t
  proof (induction ts)
    case (Cons tx ts)
    obtain b where "isExpire quiet_env tx h t = Ret b" using one by blast
    then show ?case using Cons by (cases b) auto
  qed auto
  then show ?thesis using one by (auto simp: expiry_total_def Tx_IsExpire_def split: outcome.splits option.splits)
qed

theorem eventTxList_exact_witness:
  "eventTxList quiet_env 8 (sysMem (quiet_run 2)) 5 [] = Ret [quiet_tx] \<and>
   eventTxList quiet_env 607 (sysMem (quiet_run 2)) 5 [] = Ret []"
proof -
  have p: "pool_items (sysMem (quiet_run 2)) = [new_item 7 quiet_tx]"
    using mem_items [OF quiet_push(2)] by (simp add: numeral_2_eq_2)
  have "isExpired quiet_env 8 (new_item 7 quiet_tx) h t = Ret False" "isExpired quiet_env 607 (new_item 7 quiet_tx) h t = Ret True" for h t
    by (simp_all add: isExpired_def new_item_def mempoolExpiredInterval_def i64_def quiet_expire)
  then show ?thesis
    using eventTxList_exact [OF _ _ quiet_reach [of 2] quiet_expiry, of 8 5 "[]"]
      eventTxList_exact [OF _ _ quiet_reach [of 2] quiet_expiry, of 607 5 "[]"] p
    by (simp add: quiet_limits new_item_def)
qed

subsection \<open>The queue\<close>

datatype pool_request = QPush int Transaction | QRemove "bytes list" | QAddBlock Block | QExpire int

fun pool_call :: "'a tx_env_scheme \<Rightarrow> pool_request \<Rightarrow> (Mempool, unit) prog" where
  "pool_call e (QPush now tx) = PushTx e now tx"
| "pool_call e (QRemove hs) = eventDelTxList e hs"
| "pool_call e (QAddBlock b) = eventAddBlock e b"
| "pool_call e (QExpire now) = removeExpired e now"

text \<open>The same calls on the header of the last block and a list of items; \<open>a\<close> and \<open>p\<close> are the limits.\<close>

fun queue_call :: "'a tx_env_scheme \<Rightarrow> int \<Rightarrow> int \<Rightarrow> pool_request \<Rightarrow> (Hdr option \<times> Item list, unit) prog" where
  "queue_call e a p (QPush now tx) (hdr, its) =
     (if int (length (txs_of e (Tx_From e tx) its)) \<ge> a then (Err ErrManyTx, (hdr, its))
      else if Tx_Hash e tx \<in> item_hash e ` set its then (Err ErrTxExist, (hdr, its))
      else if int (length its) \<ge> p then (Err ErrMemFull, (hdr, its))
      else (Ret (), (hdr, its @ [new_item now tx])))"
| "queue_call e a p (QRemove hs) (hdr, its) =
     (if hs = [] then (Err ErrSize, (hdr, its)) else (Ret (), (hdr, filter (\<lambda>it. item_hash e it \<notin> set hs) its)))"
| "queue_call e a p (QAddBlock b) (hdr, its) =
     (Ret (), (if hdr = None \<and> bHeight b > -1 \<or> (\<exists>h. hdr = Some h \<and> (bHeight b > hHeight h \<or> bHeight b = 0 \<and> hHeight h = 0))
               then Some \<lparr>hHeight = bHeight b, hBlockTime = bBlockTime b, hStateHash = bStateHash b, hDifficulty = 0\<rparr>
               else hdr,
               filter (\<lambda>it. item_hash e it \<notin> Tx_Hash e ` set (bTxs b)) its))"
| "queue_call e a p (QExpire now) (hdr, its) =
     (Ret (), (hdr, filter (\<lambda>it. isExpired e now it (GetHeight hdr) (GetBlockTime hdr) = Ret False) its))"

fun run_calls :: "('q \<Rightarrow> ('s, unit) prog) \<Rightarrow> 'q list \<Rightarrow> 's \<Rightarrow> unit outcome list \<times> 's" where
  "run_calls f [] s = ([], s)"
| "run_calls f (q # qs) s = (let (r, s1) = f q s; (rs, s2) = run_calls f qs s1 in (r # rs, s2))"

definition queue_view :: "Mempool \<Rightarrow> Hdr option \<times> Item list" where
  "queue_view mem = (memHeader mem, pool_items mem)"

lemma pool_call_view:
  assumes "expiry_total e" and h: "mem_holds e mem its"
  obtains r mem' its' where "pool_call e q mem = (r, mem')" and "mem_holds e mem' its'"
    and "same_limits (memCache mem) (memCache mem')"
    and "queue_call e (maxperaccount (tcIndex (memCache mem))) (pool_cap (memCache mem)) q (memHeader mem, its) = (r, (memHeader mem', its'))"
proof (cases q)
  case (QPush now tx)
  show thesis
  proof (cases "push_error e (memCache mem) its tx")
    case None
    then obtain m1 where m1: "PushTx e now tx mem = (Ret (), m1)" "mem_holds e m1 (its @ [new_item now tx])" "same_rest mem m1"
      using mem_push(2) [OF h] by blast
    show thesis
      by (rule that [of "Ret ()" m1 "its @ [new_item now tx]"]) (use m1 None QPush in \<open>auto simp: push_error_def same_rest_def split: if_splits\<close>)
  next
    case (Some er)
    note m1 = mem_push(1) [OF h Some, of now]
    show thesis by (rule that [of "Err er" mem its]) (use m1 Some QPush h in \<open>auto simp: push_error_def split: if_splits\<close>)
  qed
next
  case (QRemove hs)
  obtain m1 where m1: "mem_RemoveTxs e hs mem = (Ret (), m1)" "mem_holds e m1 (filter (\<lambda>it. item_hash e it \<notin> set hs) its)" "same_rest mem m1"
    using mem_remove [OF h] by blast
  show thesis
  proof (cases "hs = []")
    case True
    show thesis by (rule that [of "Err ErrSize" mem its]) (use True QRemove h in \<open>simp_all add: eventDelTxList_def\<close>)
  next
    case False
    show thesis by (rule that [OF _ m1(2), of "Ret ()"]) (use False QRemove m1 in \<open>simp_all add: eventDelTxList_def same_rest_def\<close>)
  qed
next
  case (QAddBlock b)
  let ?h = "\<lparr>hHeight = bHeight b, hBlockTime = bBlockTime b, hStateHash = bStateHash b, hDifficulty = 0\<rparr>"
  define m where "m = (if bHeight b > mem_Height mem \<or> (bHeight b = 0 \<and> mem_Height mem = 0) then setHeader ?h mem else mem)"
  have c: "memCache m = memCache mem" by (simp add: setHeader_def m_def)
  then have "mem_holds e m its" using h by simp
  then obtain m2 where m2: "mem_RemoveTxs e (map (Tx_Hash e) (bTxs b)) m = (Ret (), m2)"
    "mem_holds e m2 (filter (\<lambda>it. item_hash e it \<notin> Tx_Hash e ` set (bTxs b)) its)" "same_rest m m2"
    using mem_remove [of e m its "map (Tx_Hash e) (bTxs b)"] by auto
  have hm: "memHeader m = (if memHeader mem = None \<and> bHeight b > -1 \<or>
      (\<exists>h. memHeader mem = Some h \<and> (bHeight b > hHeight h \<or> bHeight b = 0 \<and> hHeight h = 0)) then Some ?h else memHeader mem)"
    by (cases "memHeader mem") (auto simp: mem_Height_def setHeader_def m_def)
  have "memHeader m2 = memHeader m" "same_limits (memCache mem) (memCache m2)" using m2(3) c by (simp_all add: same_rest_def)
  then show thesis
    by (intro that [OF _ m2(2), of "Ret ()"]) (use m2(1) hm QAddBlock in \<open>simp_all add: eventAddBlock_def RemoveTxsOfBlock_hashes m_def [symmetric]\<close>)
next
  case (QExpire now)
  have x: "\<not> is_expired e now h t it \<longleftrightarrow> isExpired e now it h t = Ret False" for h t it
    using isExpired_total [OF assms(1), of now it h t] by (auto simp: is_expired_def)
  obtain m1 where m1: "removeExpired e now mem = (Ret (), m1)" "same_rest mem m1"
    "mem_holds e m1 (filter (\<lambda>it. isExpired e now it (GetHeight (memHeader mem)) (GetBlockTime (memHeader mem)) = Ret False) its)"
    using mem_expire [OF h total_no_panic [OF assms(1)], of now] unfolding x by blast
  show thesis by (rule that [OF _ m1(3), of "Ret ()"]) (use QExpire m1 in \<open>simp_all add: same_rest_def\<close>)
qed

text \<open>
  C25. Any sequence of pushes, removals, blocks and ticks of the clean-up on a new pool has the outcomes and
  leaves the contents of a plain first-in first-out list: a push is refused for an account at its limit, a
  known hash, or a full pool, in this order, and else goes to the end; the other calls drop entries and
  keep the order.
\<close>

theorem mempool_is_queue:
  assumes "0 < account_limit cfg" and "0 \<le> pool_limit cfg sub" and "expiry_total e"
    and "run_calls (pool_call e) qs (timeline_New cfg sub) = (rs, mem)"
  shows "run_calls (queue_call e (account_limit cfg) (pool_limit cfg sub)) qs (None, []) = (rs, queue_view mem)"
proof -
  let ?a = "account_limit cfg" and ?p = "pool_limit cfg sub"
  have "run_calls (pool_call e) qs mem0 = (rs, mem) \<Longrightarrow> mem_holds e mem0 its \<Longrightarrow>
      maxperaccount (tcIndex (memCache mem0)) = ?a \<Longrightarrow> pool_cap (memCache mem0) = ?p \<Longrightarrow>
      run_calls (queue_call e ?a ?p) qs (memHeader mem0, its) = (rs, queue_view mem)" for mem0 its
  proof (induction qs arbitrary: mem0 its rs)
    case Nil
    then show ?case by (auto simp: queue_view_def mem_items)
  next
    case (Cons q qs)
    obtain r m1 its' where m1: "pool_call e q mem0 = (r, m1)" "mem_holds e m1 its'" "same_limits (memCache mem0) (memCache m1)"
      "queue_call e ?a ?p q (memHeader mem0, its) = (r, (memHeader m1, its'))"
      using pool_call_view [OF assms(3) Cons.prems(2), of q] Cons.prems(3,4) by metis
    obtain rs' where "run_calls (pool_call e) qs m1 = (rs', mem)" "rs = r # rs'"
      using Cons.prems(1) m1(1) by (auto split: prod.splits)
    then show ?case using Cons.IH [OF _ m1(2), of rs'] m1(3,4) Cons.prems(3,4) by (simp add: same_limits_def)
  qed
  moreover have "memHeader (timeline_New cfg sub) = None"
    by (simp add: timeline_New_def NewMempool_def Let_def mem_SetQueueCache_def)
  ultimately show ?thesis using assms(4) start_holds [OF assms(1,2), of e] start_limits(1,2) [of cfg sub] by metis
qed

theorem mempool_is_queue_witness:
  "\<exists>rs mem. run_calls (pool_call quiet_env) [QPush 7 quiet_tx, QPush 8 quiet_tx, QExpire 607] (timeline_New quiet_cfg quiet_sub) = (rs, mem) \<and>
     rs = [Ret (), Err ErrTxExist, Ret ()] \<and> pool_items mem = []"
proof -
  let ?qs = "[QPush 7 quiet_tx, QPush 8 quiet_tx, QExpire 607]"
  obtain rs mem where r: "run_calls (pool_call quiet_env) ?qs (timeline_New quiet_cfg quiet_sub) = (rs, mem)" by fastforce
  have "isExpired quiet_env 607 (new_item 7 quiet_tx) h t = Ret True" for h t
    by (simp add: isExpired_def new_item_def mempoolExpiredInterval_def i64_def)
  then have "rs = [Ret (), Err ErrTxExist, Ret ()] \<and> pool_items mem = []"
    using mempool_is_queue [OF _ _ quiet_expiry r]
    by (auto simp: quiet_limits txs_of_def queue_view_def item_hash_def new_item_def split: if_splits)
  then show ?thesis using r by blast
qed

subsection \<open>Entries leave\<close>

text \<open>
  C27. In every run of the pool in which the clean-up ticks again and again while the clock goes on, every
  entry leaves the pool, whatever the other goroutines do: no transaction stays for ever.
\<close>

theorem mempool_entries_leave:
  assumes "0 < account_limit cfg" and "0 \<le> pool_limit cfg sub" and "expiry_total e"
    and "run 0 = mem_start cfg sub" and steps: "\<forall>k. mem_step e B (run k) (run (Suc k))"
    and ticks: "\<forall>n t. t < 2 ^ 62 \<longrightarrow> (\<exists>k \<ge> n. \<exists>now. t \<le> now \<and> now < 2 ^ 63 \<and>
      removeExpired e now (sysMem (run k)) = (Ret (), sysMem (run (Suc k))))"
    and it: "it \<in> set (pool_items (sysMem (run n)))" "0 \<le> iEnterTime it" "iEnterTime it < 2 ^ 62 - 600"
  shows "\<exists>k > n. it \<notin> set (pool_items (sysMem (run k)))"
proof -
  have reach: "mem_steps e B (mem_start cfg sub) (run k)" for k
    using assms(4) steps by (induction k) (auto intro: rtranclp.rtrancl_into_rtrancl)
  obtain k now where k: "k \<ge> n" "iEnterTime it + 600 \<le> now" "now < 2 ^ 63"
    "removeExpired e now (sysMem (run k)) = (Ret (), sysMem (run (Suc k)))"
    using ticks it(3) by (meson add_strict_right_mono less_diff_eq)
  have h: "mem_holds e (sysMem (run k)) (pool_items (sysMem (run k)))"
    using reachable_holds [OF assms(1,2) reach] .
  have old: "isExpired e now it x y = Ret True" for x y
    using it k by (simp add: isExpired_def mempoolExpiredInterval_def i64_def)
  have "pool_items (sysMem (run (Suc k))) = filter (\<lambda>it. \<not> is_expired e now (GetHeight (memHeader (sysMem (run k))))
      (GetBlockTime (memHeader (sysMem (run k)))) it) (pool_items (sysMem (run k)))"
    using mem_expire [OF h total_no_panic [OF assms(3)], of now] k(4) by (auto intro: mem_items)
  then have "it \<notin> set (pool_items (sysMem (run (Suc k))))" using old by (simp add: is_expired_def)
  then show ?thesis using k(1) by (intro exI [of _ "Suc k"]) simp
qed

theorem mempool_entries_leave_witness:
  "new_item 7 quiet_tx \<in> set (pool_items (sysMem (quiet_run 2))) \<and>
   (\<exists>k > 2. new_item 7 quiet_tx \<notin> set (pool_items (sysMem (quiet_run k))))"
proof -
  have i: "new_item 7 quiet_tx \<in> set (pool_items (sysMem (quiet_run 2)))"
    using mem_items [OF quiet_push(2)] by (simp add: numeral_2_eq_2)
  have "\<exists>k \<ge> n. \<exists>now. t \<le> now \<and> now < 2 ^ 63 \<and>
      removeExpired quiet_env now (sysMem (quiet_run k)) = (Ret (), sysMem (quiet_run (Suc k)))" if "t < 2 ^ 62" for n t
  proof (intro exI conjI)
    show "n \<le> n + 3" "t \<le> t" "t < 2 ^ 63" using that by simp_all
    show "removeExpired quiet_env t (sysMem (quiet_run (n + 3))) = (Ret (), sysMem (quiet_run (Suc (n + 3))))"
      by (simp add: numeral_3_eq_3 quiet_idle)
  qed
  then show ?thesis
    using mempool_entries_leave [of quiet_cfg quiet_sub quiet_env quiet_run "{quiet_tx}" "new_item 7 quiet_tx" 2]
      quiet_expiry quiet_steps i by (simp add: quiet_limits new_item_def)
qed

subsection \<open>The loops of the start\<close>

lemma poll_some: "pollLastHeader closed reply i mem = Some m \<Longrightarrow>
    \<exists>k \<ge> i. closed k \<and> m = mem \<or> (\<exists>h. reply k = Inr h \<and> m = setHeader h mem)"
proof (induction rule: pollLastHeader.raw_induct [rotated 1, consumes 1, case_names step])
  case (step poll closed reply i mem m)
  have "poll closed reply (i + 1) mem = Some m \<Longrightarrow> ?case" using step(1) [of closed reply "i + 1" mem m] by (meson add_leD1)
  then show ?case using step(2) by (auto split: if_splits sum.splits)
qed

lemma poll_returns: "closed k \<or> (\<exists>h. reply k = Inr h) \<Longrightarrow> i \<le> k \<Longrightarrow> \<exists>m. pollLastHeader closed reply i mem = Some m"
proof (induction "k - i" arbitrary: i)
  case 0
  then show ?case by (subst pollLastHeader.simps) (auto split: sum.split)
next
  case (Suc d)
  then have "\<exists>m. pollLastHeader closed reply (i + 1) mem = Some m" by simp
  then show ?case by (subst pollLastHeader.simps) (auto split: sum.split)
qed

lemma sync_some: "sync_loop closed reply i mem = Some m \<Longrightarrow>
    \<exists>k \<ge> i. closed k \<and> m = mem \<or> reply k = Inr True \<and> m = setSync True mem"
proof (induction rule: sync_loop.raw_induct [rotated 1, consumes 1, case_names step])
  case (step poll closed reply i mem m)
  have "poll closed reply (i + 1) mem = Some m \<Longrightarrow> ?case" using step(1) [of closed reply "i + 1" mem m] by (meson add_leD1)
  then show ?case using step(2) by (auto split: if_splits sum.splits)
qed

lemma sync_returns: "closed k \<or> reply k = Inr True \<Longrightarrow> i \<le> k \<Longrightarrow> \<exists>m. sync_loop closed reply i mem = Some m"
proof (induction "k - i" arbitrary: i)
  case 0
  then show ?case by (subst sync_loop.simps) auto
next
  case (Suc d)
  then have "\<exists>m. sync_loop closed reply (i + 1) mem = Some m" by simp
  then show ?case by (subst sync_loop.simps) (auto split: sum.split)
qed

text \<open>
  C28. The loops of the start return exactly when they have a reason: \<^verbatim>\<open>pollLastHeader\<close> iff in some round the
  module is closed or the blockchain sends its last header, \<^verbatim>\<open>checkSync\<close> iff the pool is synchronised
  already, the module is closed, or the blockchain says that it caught up. A pool that is not closed
  then has a header, and is open for transactions.
\<close>

theorem mempool_start_returns:
  "(pollLastHeader closed headers 0 mem \<noteq> None \<longleftrightarrow> (\<exists>k. closed k \<or> (\<exists>h. headers k = Inr h))) \<and>
   (checkSync closed syncs mem \<noteq> None \<longleftrightarrow> memSync mem \<or> (\<exists>k. closed k \<or> syncs k = Inr True)) \<and>
   (\<forall>m. pollLastHeader closed headers 0 mem = Some m \<longrightarrow> (\<exists>k. closed k) \<or> memHeader m \<noteq> None) \<and>
   (\<forall>m. checkSync closed syncs mem = Some m \<longrightarrow> (\<exists>k. closed k) \<or> memSync m)"
proof (intro conjI allI impI)
  show "pollLastHeader closed headers 0 mem \<noteq> None \<longleftrightarrow> (\<exists>k. closed k \<or> (\<exists>h. headers k = Inr h))"
    using poll_some [of closed headers 0 mem] poll_returns [of closed _ headers 0 mem] by blast
  show "checkSync closed syncs mem \<noteq> None \<longleftrightarrow> memSync mem \<or> (\<exists>k. closed k \<or> syncs k = Inr True)"
    using sync_some [of closed syncs 0] sync_returns [of closed _ syncs 0] unfolding checkSync_def by fastforce
  show "(\<exists>k. closed k) \<or> memHeader m \<noteq> None" if "pollLastHeader closed headers 0 mem = Some m" for m
    using poll_some [OF that] by (auto simp: setHeader_def)
  show "(\<exists>k. closed k) \<or> memSync m" if "checkSync closed syncs mem = Some m" for m
    using that sync_some [of closed syncs 0 _ m] by (fastforce simp: checkSync_def setSync_def split: if_splits)
qed

theorem mempool_start_returns_witness:
  "pollLastHeader (\<lambda>_. False) (\<lambda>k. if k < 2 then Inl ErrNotFound else Inr \<lparr>hHeight = 3, hBlockTime = 4, hStateHash = [], hDifficulty = 0\<rparr>) 0
     (timeline_New quiet_cfg quiet_sub) \<noteq> None \<and>
   checkSync (\<lambda>_. False) (\<lambda>_. Inr False) (timeline_New quiet_cfg quiet_sub) = None"
proof -
  have "\<not> memSync (timeline_New quiet_cfg quiet_sub)"
    by (simp add: timeline_New_def NewMempool_def Let_def mem_SetQueueCache_def)
  moreover have "\<not> (2 :: nat) < 2" by simp
  ultimately show ?thesis
    using mempool_start_returns [of "\<lambda>_. False" "\<lambda>k. if k < 2 then Inl ErrNotFound else Inr \<lparr>hHeight = 3, hBlockTime = 4, hStateHash = [], hDifficulty = 0\<rparr>"
        "timeline_New quiet_cfg quiet_sub" "\<lambda>_. Inr False"] by (metis Inr_inject)
qed

end
