(* ===== verification/ExecKeys.thy ===== *)
theory ExecKeys
  imports Tx
begin

text \<open>
  Names of executors and the layout of the keys they write: \<^verbatim>\<open>ExecName\<close>, \<^verbatim>\<open>IsAllowExecName\<close>, \<^verbatim>\<open>GetExecKey\<close>,
  \<^verbatim>\<open>FindExecer\<close> and the keys of the configuration of \<^verbatim>\<open>src/types/types.go\<close>, and the rule for keys of the
  local database of \<^verbatim>\<open>src/executor/allow.go\<close>. The lemmas say which keys the two rules accept.
\<close>

subsection \<open>Names\<close>

definition types_ExecName :: "ChainConf \<Rightarrow> string \<Rightarrow> string" where
  "types_ExecName c name =
     (if length name > 1 \<and> name ! 0 = CHR ''#'' then drop 1 name
      else if IsParaExecName name then name
      else if isPara c then title c @ name
      else name)"

text \<open>\<open>allowed\<close> is the package variable \<^verbatim>\<open>AllowUserExec\<close>.\<close>

definition IsAllowExecName :: "bytes list \<Rightarrow> bytes \<Rightarrow> bytes \<Rightarrow> bool" where
  "IsAllowExecName allowed name ex =
     (if length name > MaxExecNameLength \<or> length ex > MaxExecNameLength then False
      else if length name < 3 \<or> length ex < 3 then False
      else if CHR ''-'' \<in> set name \<or> CHR ''#'' \<in> set name then False
      else if name \<noteq> ex \<and> name \<noteq> GetRealExecName ex then False
      else if HasPrefix name UserKeyX then True
      else name \<in> set allowed)"

subsection \<open>Keys of the state\<close>

definition bytesExec :: bytes where
  "bytesExec = ''exec-''"

definition commonPrefix :: bytes where
  "commonPrefix = ''mavl-''"

text \<open>The first loop of \<^verbatim>\<open>GetExecKey\<close> from the index \<open>i\<close> on: the values of \<open>start\<close> and \<open>end\<close>.\<close>

fun exec_marks :: "nat \<Rightarrow> nat \<Rightarrow> nat \<Rightarrow> bytes \<Rightarrow> nat \<times> nat" where
  "exec_marks n start i [] = (start, 0)"
| "exec_marks n start i (ch # rest) =
     (if ch = CHR ''-'' then
        (let n' = n + 1;
             start' = (if n' = 2 then i + 1 else start)
         in if n' = 3 then (start', i) else exec_marks n' start' (i + 1) rest)
      else exec_marks n start (i + 1) rest)"

text \<open>The second loop: the position of the next colon.\<close>

fun colon_from :: "nat \<Rightarrow> bytes \<Rightarrow> nat option" where
  "colon_from k [] = None"
| "colon_from k (ch # rest) = (if ch = CHR '':'' then Some k else colon_from (k + 1) rest)"

definition GetExecKey :: "bytes \<Rightarrow> string option" where
  "GetExecKey key =
     (let (start, end1) = exec_marks 0 0 (length commonPrefix) (drop (length commonPrefix) key) in
      if start > 0 \<and> end1 > 0 then
        (if take (end1 + 1 - start) (drop start key) = bytesExec then
           (case colon_from end1 (drop end1 key) of
              Some k \<Rightarrow> Some (take (k - (end1 + 1)) (drop (end1 + 1) key))
            | None \<Rightarrow> None)
         else None)
      else None)"

fun until_slash :: "bytes \<Rightarrow> bytes option" where
  "until_slash [] = None"
| "until_slash (ch # rest) = (if ch = CHR ''-'' then Some [] else map_option ((#) ch) (until_slash rest))"

definition FindExecer :: "bytes \<Rightarrow> error + bytes" where
  "FindExecer key =
     (if \<not> HasPrefix key commonPrefix then Inl ErrMavlKeyNotStartWithMavl
      else case until_slash (drop (length commonPrefix) key) of
             Some ex \<Rightarrow> Inr ex
           | None \<Rightarrow> Inl ErrNoExecerInMavlKey)"

subsection \<open>Keys of the configuration\<close>

definition ConfigKey :: "string \<Rightarrow> string" where
  "ConfigKey key = ''mavl-config-'' @ ''-'' @ key"

definition ManageKey :: "string \<Rightarrow> string" where
  "ManageKey key = ''mavl-'' @ ''manage'' @ ''-'' @ key"

definition ManaeKeyWithHeigh :: "ChainConf \<Rightarrow> string \<Rightarrow> int \<Rightarrow> string outcome" where
  "ManaeKeyWithHeigh c key height =
     obind (types_IsFork c height ''ForkExecKey'')
       (\<lambda>fork. Ret (if fork then ManageKey key else ConfigKey key))"

subsection \<open>Keys of the local database\<close>

definition LocalPrefix :: bytes where
  "LocalPrefix = ''LODB''"

text \<open>The errors carry a text that no caller reads; \<open>None\<close> is nil.\<close>

definition isAllowLocalKey2 :: "bytes \<Rightarrow> bytes \<Rightarrow> error option" where
  "isAllowLocalKey2 ex key =
     (if length ex < 1 then Some ErrLocalPrefix
      else
        (let minkeylen = length LocalPrefix + length ex + 2 in
         if length key \<le> minkeylen then Some ErrLocalKeyLen
         else if key ! (minkeylen - 1) \<noteq> CHR ''-'' \<or> key ! length LocalPrefix \<noteq> CHR ''-'' then Some ErrLocalPrefix
         else if \<not> HasPrefix key LocalPrefix then Some ErrLocalPrefix
         else if \<not> HasPrefix (drop (length LocalPrefix + 1) key) ex then Some ErrLocalPrefix
         else None))"

definition isAllowLocalKey :: "bytes \<Rightarrow> bytes \<Rightarrow> error option" where
  "isAllowLocalKey ex key =
     (case isAllowLocalKey2 ex key of
        None \<Rightarrow> None
      | Some er \<Rightarrow>
          (let realexec = GetRealExecName ex in
           if realexec \<noteq> ex then isAllowLocalKey2 realexec key else Some er))"

subsection \<open>Which keys the rules accept\<close>

lemma until_slash_append: "CHR ''-'' \<notin> set ex \<Longrightarrow> until_slash (ex @ CHR ''-'' # rest) = Some ex"
  by (induction ex) auto

lemma until_slash_Some:
  "until_slash bs = Some ex \<longleftrightarrow> CHR ''-'' \<notin> set ex \<and> (\<exists>rest. bs = ex @ CHR ''-'' # rest)"
proof
  show "until_slash bs = Some ex \<Longrightarrow> CHR ''-'' \<notin> set ex \<and> (\<exists>rest. bs = ex @ CHR ''-'' # rest)"
    by (induction bs arbitrary: ex) (auto split: if_splits)
qed (auto simp: until_slash_append)

lemma length_prefixes [simp]: "length commonPrefix = 5" "length LocalPrefix = 4"
  by (simp_all add: commonPrefix_def LocalPrefix_def)

lemma HasPrefix_iff: "HasPrefix s p \<longleftrightarrow> (\<exists>rest. s = p @ rest)"
proof
  assume "HasPrefix s p"
  then show "\<exists>rest. s = p @ rest"
    unfolding HasPrefix_def by (metis append_take_drop_id)
qed (auto simp: HasPrefix_def)

lemma FindExecer_iff:
  "FindExecer key = Inr ex \<longleftrightarrow> CHR ''-'' \<notin> set ex \<and> (\<exists>rest. key = ''mavl-'' @ ex @ ''-'' @ rest)"
proof
  assume a: "FindExecer key = Inr ex"
  then obtain r where r: "key = commonPrefix @ r"
    by (auto simp: FindExecer_def HasPrefix_iff split: if_splits)
  with a have "until_slash r = Some ex"
    by (auto simp: FindExecer_def split: if_splits option.splits)
  with r show "CHR ''-'' \<notin> set ex \<and> (\<exists>rest. key = ''mavl-'' @ ex @ ''-'' @ rest)"
    by (auto simp: until_slash_Some commonPrefix_def)
next
  assume "CHR ''-'' \<notin> set ex \<and> (\<exists>rest. key = ''mavl-'' @ ex @ ''-'' @ rest)"
  then obtain rest where "CHR ''-'' \<notin> set ex" "key = commonPrefix @ ex @ CHR ''-'' # rest"
    by (auto simp: commonPrefix_def)
  then show "FindExecer key = Inr ex"
    by (simp add: FindExecer_def HasPrefix_def until_slash_append)
qed

lemma exec_marks_skip:
  "CHR ''-'' \<notin> set xs \<Longrightarrow> exec_marks n start i (xs @ ys) = exec_marks n start (i + length xs) ys"
  by (induction xs arbitrary: i) auto

lemma colon_from_append:
  "CHR '':'' \<notin> set xs \<Longrightarrow> colon_from k (xs @ CHR '':'' # ys) = Some (k + length xs)"
  by (induction xs arbitrary: k) auto

text \<open>The address of the contract in the key of an account inside a contract.\<close>

lemma GetExecKey_exec:
  assumes "CHR ''-'' \<notin> set ex" and "CHR ''-'' \<notin> set sy" and "CHR '':'' \<notin> set addr"
  shows "GetExecKey (''mavl-'' @ ex @ ''-'' @ sy @ ''-exec-'' @ addr @ '':'' @ rest) = Some addr"
proof -
  define p where "p = ex @ ''-'' @ sy @ ''-''"
  define tl1 where "tl1 = addr @ '':'' @ rest"
  define key where "key = commonPrefix @ p @ ''exec-'' @ tl1"
  have k: "''mavl-'' @ ex @ ''-'' @ sy @ ''-exec-'' @ addr @ '':'' @ rest = key"
    by (simp add: key_def p_def tl1_def commonPrefix_def)
  have lp: "length p = 2 + length ex + length sy" by (simp add: p_def)
  have "exec_marks 0 0 5 (drop 5 key) = (5 + length p, 9 + length p)"
    using assms by (simp add: key_def p_def exec_marks_skip)
  moreover have "take 5 (drop (5 + length p) key) = ''exec-''"
    by (simp add: key_def)
  moreover have "drop (10 + length p) key = tl1"
    by (simp add: key_def drop_append)
  moreover have "colon_from (9 + length p) (drop (9 + length p) key) = Some (10 + length p + length addr)"
    using assms(3) colon_from_append [of addr "10 + length p" rest] by (simp add: key_def drop_append tl1_def)
  ultimately show ?thesis
    unfolding k by (simp add: GetExecKey_def bytesExec_def tl1_def add.commute)
qed

lemma isAllowLocalKey2_iff:
  "isAllowLocalKey2 ex key = None \<longleftrightarrow>
     ex \<noteq> [] \<and> (\<exists>rest. rest \<noteq> [] \<and> key = ''LODB-'' @ ex @ ''-'' @ rest)"
proof
  assume a: "isAllowLocalKey2 ex key = None"
  then obtain r where r: "key = LocalPrefix @ r" and ne: "ex \<noteq> []"
    by (auto simp: isAllowLocalKey2_def HasPrefix_iff Let_def split: if_splits)
  with a have len: "length r > length ex + 2" and sep: "r ! Suc (length ex) = CHR ''-''"
    and four: "r ! 0 = CHR ''-''" and mid: "HasPrefix (drop 1 r) ex"
    by (auto simp: isAllowLocalKey2_def Let_def nth_append split: if_splits)
  then obtain x r1 where "r = x # r1" by (cases r) auto
  moreover from this mid obtain r2 where "r1 = ex @ r2" by (auto simp: HasPrefix_iff)
  moreover from calculation len obtain y r3 where "r2 = y # r3" "r3 \<noteq> []" by (cases r2) auto
  ultimately show "ex \<noteq> [] \<and> (\<exists>rest. rest \<noteq> [] \<and> key = ''LODB-'' @ ex @ ''-'' @ rest)"
    using ne r sep four by (simp add: LocalPrefix_def)
next
  assume "ex \<noteq> [] \<and> (\<exists>rest. rest \<noteq> [] \<and> key = ''LODB-'' @ ex @ ''-'' @ rest)"
  then obtain rest where "ex \<noteq> []" "rest \<noteq> []" "key = LocalPrefix @ CHR ''-'' # ex @ CHR ''-'' # rest"
    by (auto simp: LocalPrefix_def)
  then show "isAllowLocalKey2 ex key = None"
    by (simp add: isAllowLocalKey2_def HasPrefix_def Let_def nth_append Suc_le_eq)
qed

lemma isAllowLocalKey_iff:
  "isAllowLocalKey ex key = None \<longleftrightarrow>
     (\<exists>e \<in> {ex, GetRealExecName ex}. e \<noteq> [] \<and> (\<exists>rest. rest \<noteq> [] \<and> key = ''LODB-'' @ e @ ''-'' @ rest))"
proof -
  have "isAllowLocalKey ex key = None \<longleftrightarrow>
      isAllowLocalKey2 ex key = None \<or> isAllowLocalKey2 (GetRealExecName ex) key = None"
    by (auto simp: isAllowLocalKey_def Let_def split: option.splits)
  then show ?thesis by (simp add: isAllowLocalKey2_iff)
qed

end
