(* ===== verification/LocalStore.thy ===== *)
theory LocalStore
  imports StateDB
begin

text \<open>
  The local database of the executor, \<^verbatim>\<open>src/executor/localdb.go\<close>, and the service behind it: the handlers
  of \<^verbatim>\<open>src/blockchain/localdb.go\<close>, which keep one \<^verbatim>\<open>LocalDB\<close> of \<^verbatim>\<open>src/common/db/localdb.go\<close> per client in the
  table of pointers of \<^verbatim>\<open>src/common/common.go\<close>. The queue between the two delivers every message; the
  in-memory databases of the library are maps. Listing and counting by prefix are not part of this
  theory. A nil value is \<open>None\<close>.
\<close>

subsection \<open>The database on the side of the blockchain\<close>

record DbLocal =
  ldTx :: "(bytes \<rightharpoonup> bytes) option"
  ldCache :: "bytes \<rightharpoonup> bytes"
  ldMain :: "bytes \<rightharpoonup> bytes"
  ldIntx :: bool

definition db_NewLocalDB :: "(bytes \<rightharpoonup> bytes) \<Rightarrow> DbLocal" where
  "db_NewLocalDB maindb = \<lparr>ldTx = Some Map.empty, ldCache = Map.empty, ldMain = maindb, ldIntx = False\<rparr>"

definition db_get :: "bytes \<Rightarrow> (DbLocal, bytes) prog" where
  "db_get key l =
     (case (if ldIntx l then Option.bind (ldTx l) (\<lambda>tx. tx key) else None) of
        Some value \<Rightarrow> ret value l
      | None \<Rightarrow>
          (case ldCache l key of
             Some value \<Rightarrow> ret value l
           | None \<Rightarrow>
               (case ldMain l key of
                  None \<Rightarrow> fail ErrNotFound l
                | Some value \<Rightarrow> ret value (l\<lparr>ldCache := (ldCache l)(key \<mapsto> value)\<rparr>))))"

definition setdb :: "(bytes \<rightharpoonup> bytes) \<Rightarrow> bytes \<Rightarrow> bytes option \<Rightarrow> (bytes \<rightharpoonup> bytes)" where
  "setdb d key value = (case value of None \<Rightarrow> d(key := None) | Some v \<Rightarrow> d(key \<mapsto> v))"

definition db_Set :: "bytes \<Rightarrow> bytes option \<Rightarrow> (DbLocal, unit) prog" where
  "db_Set key value l =
     (if ldIntx l then
        (let tx = (case ldTx l of None \<Rightarrow> Map.empty | Some tx \<Rightarrow> tx)
         in ret () (l\<lparr>ldTx := Some (setdb tx key value)\<rparr>))
      else ret () (l\<lparr>ldCache := setdb (ldCache l) key value\<rparr>))"

definition db_resetTx :: "DbLocal \<Rightarrow> DbLocal" where
  "db_resetTx l = l\<lparr>ldIntx := False, ldTx := None\<rparr>"

definition db_Begin :: "DbLocal \<Rightarrow> DbLocal" where
  "db_Begin l = l\<lparr>ldIntx := True, ldTx := None\<rparr>"

definition db_Rollback :: "DbLocal \<Rightarrow> DbLocal" where
  "db_Rollback l = db_resetTx l"

text \<open>\<^verbatim>\<open>Commit\<close> copies what an iterator over the transaction cache yields.\<close>

definition db_Commit :: "(DbLocal, unit) prog" where
  "db_Commit l =
     (case ldTx l of
        None \<Rightarrow> ret () (db_resetTx l)
      | Some tx \<Rightarrow> ret () (db_resetTx (l\<lparr>ldCache := ldCache l ++ tx\<rparr>)))"

subsection \<open>The service\<close>

record LocalSvc =
  svcPtrs :: "(int \<times> DbLocal) list"
  svcId :: int
  svcMain :: "bytes \<rightharpoonup> bytes"

definition GetPointer :: "LocalSvc \<Rightarrow> int \<Rightarrow> error + DbLocal" where
  "GetPointer s id1 = (case map_of (svcPtrs s) id1 of None \<Rightarrow> Inl ErrPointerNotFound | Some p \<Rightarrow> Inr p)"

function free_id :: "int list \<Rightarrow> int \<Rightarrow> int" where
  "free_id ids id1 = (if id1 \<in> set ids then free_id ids (id1 + 1) else id1)"
  by pat_completeness auto
termination
proof (relation "measure (\<lambda>(ids, id1). card {i \<in> set ids. i \<ge> id1})", simp_all)
  fix ids :: "int list" and id1 :: int
  assume "id1 \<in> set ids"
  then have "{i \<in> set ids. id1 + 1 \<le> i} \<subset> {i \<in> set ids. id1 \<le> i}" by force
  then show "card {i \<in> set ids. id1 + 1 \<le> i} < card {i \<in> set ids. id1 \<le> i}"
    by (intro psubset_card_mono) auto
qed

definition StorePointer :: "DbLocal \<Rightarrow> (LocalSvc, int) prog" where
  "StorePointer p s =
     (let id1 = free_id (map fst (svcPtrs s)) (svcId s + 1)
      in ret id1 (s\<lparr>svcId := id1, svcPtrs := (id1, p) # svcPtrs s\<rparr>))"

definition RemovePointer :: "int \<Rightarrow> LocalSvc \<Rightarrow> LocalSvc" where
  "RemovePointer id1 s = s\<lparr>svcPtrs := filter (\<lambda>(i, p). i \<noteq> id1) (svcPtrs s)\<rparr>"

text \<open>A method of the database behind a pointer.\<close>

definition with_ptr :: "int \<Rightarrow> (DbLocal, 'r) prog \<Rightarrow> (LocalSvc, 'r) prog" where
  "with_ptr id1 m s =
     (case GetPointer s id1 of
        Inl er \<Rightarrow> fail er s
      | Inr p \<Rightarrow> (case m p of (r, p') \<Rightarrow>
          (r, s\<lparr>svcPtrs := map (\<lambda>(i, q). if i = id1 then (i, p') else (i, q)) (svcPtrs s)\<rparr>)))"

definition localNew :: "(LocalSvc, int) prog" where
  "localNew s = StorePointer (db_NewLocalDB (svcMain s)) s"

definition localClose :: "int \<Rightarrow> (LocalSvc, unit) prog" where
  "localClose id1 s =
     (case GetPointer s id1 of
        Inl er \<Rightarrow> fail er (RemovePointer id1 s)
      | Inr _ \<Rightarrow> ret () (RemovePointer id1 s))"

definition localBegin :: "int \<Rightarrow> (LocalSvc, unit) prog" where
  "localBegin id1 = with_ptr id1 (\<lambda>p. ret () (db_Begin p))"

definition localCommit :: "int \<Rightarrow> (LocalSvc, unit) prog" where
  "localCommit id1 = with_ptr id1 db_Commit"

definition localRollback :: "int \<Rightarrow> (LocalSvc, unit) prog" where
  "localRollback id1 = with_ptr id1 (\<lambda>p. ret () (db_Rollback p))"

text \<open>A key that is not found has the value nil in the reply; the id 0 reads the block store.\<close>

fun db_gets :: "bytes list \<Rightarrow> (DbLocal, bytes option list) prog" where
  "db_gets [] = ret []"
| "db_gets (key # keys) =
     bind (attempt (db_get key)) (\<lambda>r. bind (db_gets keys) (\<lambda>vs.
       ret ((case r of Inl _ \<Rightarrow> None | Inr v \<Rightarrow> Some v) # vs)))"

definition localGet :: "int \<Rightarrow> bytes list \<Rightarrow> (LocalSvc, bytes option list) prog" where
  "localGet id1 keys s =
     (if id1 = 0 then ret (map (svcMain s) keys) s else with_ptr id1 (db_gets keys) s)"

definition localSet :: "int \<Rightarrow> (bytes \<times> bytes option) list \<Rightarrow> (LocalSvc, unit) prog" where
  "localSet id1 kvs s =
     (if id1 = 0 then fail ErrNotSetInTransaction s
      else with_ptr id1 (forM kvs (\<lambda>(k, v). db_Set k v)) s)"

subsection \<open>The database on the side of the executor\<close>

record LocalDB =
  l_cache :: "bytes \<rightharpoonup> bytes option"
  l_txcache :: "(bytes \<rightharpoonup> bytes) option"
  l_keys :: "bytes list"
  l_intx :: bool
  l_hasbegin :: bool
  l_kvs :: "(bytes \<times> bytes option) list"
  l_txid :: int
  l_disableread :: bool
  l_disablewrite :: bool
  l_svc :: LocalSvc

text \<open>A call of the API on the other side of the queue.\<close>

definition l_api :: "(LocalSvc, 'r) prog \<Rightarrow> (LocalDB, 'r) prog" where
  "l_api m l = (case m (l_svc l) of (r, s) \<Rightarrow> (r, l\<lparr>l_svc := s\<rparr>))"

definition NewLocalDB :: "LocalSvc \<Rightarrow> LocalDB outcome" where
  "NewLocalDB s =
     (case localNew s of
        (Ret txid, s') \<Rightarrow>
          Ret \<lparr>l_cache = Map.empty, l_txcache = None, l_keys = [], l_intx = False, l_hasbegin = False,
               l_kvs = [], l_txid = txid, l_disableread = False, l_disablewrite = False, l_svc = s'\<rparr>
      | (_, s') \<Rightarrow> Panic ''LocalNew'')"

definition DisableRead :: "LocalDB \<Rightarrow> LocalDB" where
  "DisableRead l = l\<lparr>l_disableread := True\<rparr>"

definition DisableWrite :: "LocalDB \<Rightarrow> LocalDB" where
  "DisableWrite l = l\<lparr>l_disablewrite := True\<rparr>"

definition EnableRead :: "LocalDB \<Rightarrow> LocalDB" where
  "EnableRead l = l\<lparr>l_disableread := False\<rparr>"

definition EnableWrite :: "LocalDB \<Rightarrow> LocalDB" where
  "EnableWrite l = l\<lparr>l_disablewrite := False\<rparr>"

definition l_resetTx :: "LocalDB \<Rightarrow> LocalDB" where
  "l_resetTx l = l\<lparr>l_intx := False, l_txcache := None, l_keys := [], l_hasbegin := False\<rparr>"

definition l_StartTx :: "LocalDB \<Rightarrow> LocalDB" where
  "l_StartTx l = l\<lparr>l_keys := []\<rparr>"

definition l_GetSetKeys :: "LocalDB \<Rightarrow> bytes list" where
  "l_GetSetKeys l = l_keys l"

definition l_Begin :: "LocalDB \<Rightarrow> LocalDB" where
  "l_Begin l = l\<lparr>l_intx := True, l_keys := [], l_txcache := None, l_hasbegin := False\<rparr>"

definition l_begin :: "(LocalDB, unit) prog" where
  "l_begin l = must (l_api (localBegin (l_txid l))) l"

definition l_save :: "(LocalDB, unit) prog" where
  "l_save l =
     (if l_kvs l \<noteq> [] then
        bind (\<lambda>l. if \<not> l_hasbegin l then bind l_begin (\<lambda>_ l. ret () (l\<lparr>l_hasbegin := True\<rparr>)) l else ret () l)
          (\<lambda>_ l. bind (l_api (localSet (l_txid l) (l_kvs l))) (\<lambda>_ l. ret () (l\<lparr>l_kvs := []\<rparr>)) l) l
      else ret () l)"

definition l_Commit :: "(LocalDB, unit) prog" where
  "l_Commit l =
     (let l1 = l\<lparr>l_cache := (case l_txcache l of None \<Rightarrow> l_cache l
                              | Some tx \<Rightarrow> l_cache l ++ (\<lambda>k. map_option Some (tx k)))\<rparr>
      in bind l_save (\<lambda>_ l2.
           if l_hasbegin l2 then
             (case l_api (localCommit (l_txid l2)) l2 of (r, l3) \<Rightarrow> (r, l_resetTx l3))
           else ret () (l_resetTx l2)) l1)"

definition l_Close :: "(LocalDB, unit) prog" where
  "l_Close l = l_api (localClose (l_txid l)) (l_resetTx (l\<lparr>l_cache := Map.empty\<rparr>))"

definition l_Rollback :: "(LocalDB, unit) prog" where
  "l_Rollback l =
     bind (\<lambda>l. if l_hasbegin l then must (l_api (localRollback (l_txid l))) l else ret () l)
       (\<lambda>_ l. ret () (l_resetTx l)) l"

definition l_Get :: "bytes \<Rightarrow> (LocalDB, bytes) prog" where
  "l_Get key l =
     (if l_disableread l then fail ErrDisableRead l
      else
        (case (if l_intx l then Option.bind (l_txcache l) (\<lambda>tx. tx key) else None) of
           Some value \<Rightarrow> ret value l
         | None \<Rightarrow>
             (case l_cache l key of
                Some None \<Rightarrow> fail ErrNotFound l
              | Some (Some value) \<Rightarrow> ret value l
              | None \<Rightarrow>
                  bind (must (l_api (localGet (l_txid l) [key])))
                    (\<lambda>values l. case values of
                        [] \<Rightarrow> fail ErrNotFound (l\<lparr>l_cache := (l_cache l)(key \<mapsto> None)\<rparr>)
                      | None # _ \<Rightarrow> fail ErrNotFound (l\<lparr>l_cache := (l_cache l)(key \<mapsto> None)\<rparr>)
                      | Some value # _ \<Rightarrow> ret value (l\<lparr>l_cache := (l_cache l)(key \<mapsto> Some value)\<rparr>)) l)))"

definition l_Set :: "bytes \<Rightarrow> bytes option \<Rightarrow> (LocalDB, unit) prog" where
  "l_Set key value l =
     (if l_disablewrite l then fail ErrDisableWrite l
      else
        let l1 = (if l_intx l then
                    (let tx = (case l_txcache l of None \<Rightarrow> Map.empty | Some tx \<Rightarrow> tx)
                     in l\<lparr>l_keys := l_keys l @ [key], l_txcache := Some (setmap tx key value)\<rparr>)
                  else l\<lparr>l_cache := (case value of None \<Rightarrow> (l_cache l)(key := None)
                                                 | Some v \<Rightarrow> (l_cache l)(key \<mapsto> Some v))\<rparr>)
        in ret () (l1\<lparr>l_kvs := l_kvs l1 @ [(key, value)]\<rparr>))"

end
