(* ===== verification/Driver.thy ===== *)
theory Driver
  imports ExecKeys Account LocalStore
begin

text \<open>
  The interface between the executor module and the contracts, \<^verbatim>\<open>src/system/dapp\<close>: what every driver
  inherits (\<^verbatim>\<open>driver.go\<close>, \<^verbatim>\<open>allow.go\<close>), the table of drivers (\<^verbatim>\<open>register.go\<close>) and the default driver
  \<^verbatim>\<open>none\<close>. A driver object is a record of methods (\<open>Driver\<close>) and the fields of its \<^verbatim>\<open>DriverBase\<close>; the
  methods run over the two databases of the executor (\<open>DrvSt\<close>). The dispatch by reflection is a table
  of methods by name whose entries have the type the caller expects. The address package is used
  without its caches, which do not change any answer.
\<close>

subsection \<open>Databases of a driver\<close>

record DrvSt =
  dsState :: StateDB
  dsLocal :: "LocalDB option"

definition on_state :: "(StateDB, 'r) prog \<Rightarrow> (DrvSt, 'r) prog" where
  "on_state m st = (case m (dsState st) of (r, s) \<Rightarrow> (r, st\<lparr>dsState := s\<rparr>))"

text \<open>A method call on a nil database panics.\<close>

definition on_local :: "(LocalDB, 'r) prog \<Rightarrow> (DrvSt, 'r) prog" where
  "on_local m st =
     (case dsLocal st of
        None \<Rightarrow> panic ''nil pointer'' st
      | Some l \<Rightarrow> (case m l of (r, l') \<Rightarrow> (r, st\<lparr>dsLocal := Some l'\<rparr>)))"

definition liftO :: "'r outcome \<Rightarrow> ('s, 'r) prog" where
  "liftO r s = (r, s)"

text \<open>A deferred \<^verbatim>\<open>recover\<close> that turns a panic into an error.\<close>

definition recover_err :: "error \<Rightarrow> ('s, 'r) prog \<Rightarrow> ('s, 'r) prog" where
  "recover_err er m s = (case m s of (Panic p, s') \<Rightarrow> (Err er, s') | (r, s') \<Rightarrow> (r, s'))"

subsection \<open>The parts of the chain a driver reads\<close>

record ExecutorType =
  ety_GetRealToAddr :: "Transaction \<Rightarrow> string outcome"
  ety_ActionName :: "Transaction \<Rightarrow> string"

text \<open>
  \<open>executorMap\<close> is the table of executor types, \<open>execDrivers\<close> the heights in the table of driver
  addresses, \<open>accPb\<close> the encoding of accounts and receipts, \<open>coinSymbol\<close> and \<open>minerExecs\<close> settings, \<open>errText\<close> the
  text of an error.
\<close>

record dapp_env = tx_env +
  executorMap :: "string \<rightharpoonup> ExecutorType"
  execDrivers :: "string \<rightharpoonup> int"
  execAddressNameMap :: "string \<rightharpoonup> string"
  accPb :: codec
  coinSymbol :: string
  minerExecs :: "string list"
  AllowUserExec :: "bytes list"
  errText :: "error \<Rightarrow> bytes"

definition LoadExecutorType :: "'a dapp_env_scheme \<Rightarrow> string \<Rightarrow> ExecutorType option" where
  "LoadExecutorType e execstr = executorMap e (GetRealExecName execstr)"

definition GetRealToAddr :: "'a dapp_env_scheme \<Rightarrow> Transaction \<Rightarrow> string outcome" where
  "GetRealToAddr e tx =
     (case LoadExecutorType e (Execer tx) of
        None \<Rightarrow> Ret (To tx)
      | Some exec \<Rightarrow> ety_GetRealToAddr exec tx)"

definition ActionName :: "'a dapp_env_scheme \<Rightarrow> Transaction \<Rightarrow> string" where
  "ActionName e tx =
     (case LoadExecutorType e (Execer tx) of
        Some exec \<Rightarrow> ety_ActionName exec tx
      | None \<Rightarrow>
          (case LoadExecutorType e (GetRealExecName (Execer tx)) of
             None \<Rightarrow> ''unknown''
           | Some exec \<Rightarrow> ety_ActionName exec tx))"

definition address_ExecAddress :: "'a dapp_env_scheme \<Rightarrow> string \<Rightarrow> string outcome" where
  "address_ExecAddress e name = fst (ExecAddress_text (addr_env.truncate e) name no_caches)"

definition address_CheckAddress :: "'a dapp_env_scheme \<Rightarrow> string \<Rightarrow> error option" where
  "address_CheckAddress e addr = fst (CheckAddress (addr_env.truncate e) addr no_caches)"

definition isFork :: "'a dapp_env_scheme \<Rightarrow> int \<Rightarrow> string \<Rightarrow> bool outcome" where
  "isFork e height fork = types_IsFork (conf e) height fork"

definition coinsAccount :: "'a dapp_env_scheme \<Rightarrow> StateDB AccDB" where
  "coinsAccount e =
     NewCoinsAccount (StateDB_KV (systemFork (conf e)) (title (conf e))) (accPb e) (coinSymbol e)"

subsection \<open>Addresses of drivers (register.go, driver.go)\<close>

definition IsDriverAddress :: "'a dapp_env_scheme \<Rightarrow> string \<Rightarrow> int \<Rightarrow> bool" where
  "IsDriverAddress e addr height =
     (case execDrivers e addr of
        None \<Rightarrow> False
      | Some h \<Rightarrow> if height \<ge> h \<or> height = -1 then True else False)"

definition dapp_ExecAddress :: "'a dapp_env_scheme \<Rightarrow> string \<Rightarrow> string outcome" where
  "dapp_ExecAddress e name =
     (case execAddressNameMap e name of
        Some addr \<Rightarrow> Ret addr
      | None \<Rightarrow> address_ExecAddress e name)"

definition dapp_CheckAddress :: "'a dapp_env_scheme \<Rightarrow> string \<Rightarrow> int \<Rightarrow> unit outcome" where
  "dapp_CheckAddress e addr height =
     (if IsDriverAddress e addr height then Ret ()
      else
        (let err = address_CheckAddress e addr in
         obind (isFork e height ''ForkMultiSignAddress'') (\<lambda>multi.
           if \<not> multi \<and> err = Some ErrCheckVersion then Ret ()
           else obind (isFork e height ''ForkBase58AddressCheck'') (\<lambda>base58.
             if \<not> base58 \<and> err = Some ErrAddressChecksum then Ret ()
             else case err of None \<Rightarrow> Ret () | Some er \<Rightarrow> Err er))))"

subsection \<open>Drivers\<close>

record ReceiptData =
  rdTy :: int
  rdLogs :: "ReceiptLog list"

text \<open>
  A \<^verbatim>\<open>*LocalDBSet\<close>; the callers do not tell a nil pointer from a nil slice in it, both are \<open>None\<close>.
\<close>

type_synonym LocalDBSet = "KeyValue list option"

record DriverBase =
  d_height :: int
  d_blocktime :: int
  d_difficulty :: int
  d_parentHash :: bytes
  d_mainHash :: bytes
  d_mainHeight :: int
  d_name :: string
  d_curname :: string
  d_isFree :: bool
  d_txs :: "Transaction list"
  d_receipts :: "ReceiptData list"

record Driver =
  GetDriverName :: string
  drvAllow :: "DriverBase \<Rightarrow> Transaction \<Rightarrow> int \<Rightarrow> unit outcome"
  drvIsFriend :: "DriverBase \<Rightarrow> bytes \<Rightarrow> bytes \<Rightarrow> Transaction \<Rightarrow> bool"
  drvCheckTx :: "DriverBase \<Rightarrow> Transaction \<Rightarrow> int \<Rightarrow> (DrvSt, unit) prog"
  drvExec :: "DriverBase \<Rightarrow> Transaction \<Rightarrow> int \<Rightarrow> (DrvSt, Receipt option) prog"
  drvExecLocal :: "DriverBase \<Rightarrow> Transaction \<Rightarrow> ReceiptData \<Rightarrow> int \<Rightarrow> (DrvSt, LocalDBSet) prog"
  drvExecDelLocal :: "DriverBase \<Rightarrow> Transaction \<Rightarrow> ReceiptData \<Rightarrow> int \<Rightarrow> (DrvSt, LocalDBSet) prog"
  drvExecutorOrder :: "DriverBase \<Rightarrow> int"

definition newBase :: DriverBase where
  "newBase = \<lparr>d_height = 0, d_blocktime = 0, d_difficulty = 0, d_parentHash = [], d_mainHash = [],
     d_mainHeight = 0, d_name = [], d_curname = [], d_isFree = False, d_txs = [], d_receipts = []\<rparr>"

definition ExecLocalSameTime :: int where
  "ExecLocalSameTime = 1"

definition SetEnv :: "int \<Rightarrow> int \<Rightarrow> int \<Rightarrow> DriverBase \<Rightarrow> DriverBase" where
  "SetEnv height blocktime difficulty d =
     d\<lparr>d_height := height, d_blocktime := blocktime, d_difficulty := difficulty\<rparr>"

definition SetBlockInfo :: "bytes \<Rightarrow> bytes \<Rightarrow> int \<Rightarrow> DriverBase \<Rightarrow> DriverBase" where
  "SetBlockInfo parentHash mainHash mainHeight d =
     d\<lparr>d_parentHash := parentHash, d_mainHash := mainHash, d_mainHeight := mainHeight\<rparr>"

definition drv_GetName :: "Driver \<times> DriverBase \<Rightarrow> string" where
  "drv_GetName d = (if d_name (snd d) = [] then GetDriverName (fst d) else d_name (snd d))"

definition GetCurrentExecName :: "Driver \<times> DriverBase \<Rightarrow> string" where
  "GetCurrentExecName d = (if d_curname (snd d) = [] then GetDriverName (fst d) else d_curname (snd d))"

definition GetLastHash :: "'a dapp_env_scheme \<Rightarrow> DriverBase \<Rightarrow> bytes" where
  "GetLastHash e d = (if isPara (conf e) then d_mainHash d else d_parentHash d)"

definition GetMainHeight :: "'a dapp_env_scheme \<Rightarrow> DriverBase \<Rightarrow> int" where
  "GetMainHeight e d = (if isPara (conf e) then d_mainHeight d else d_height d)"

subsection \<open>What a driver allows (allow.go)\<close>

definition AllowIsSame :: "'a dapp_env_scheme \<Rightarrow> string \<Rightarrow> bytes \<Rightarrow> bool" where
  "AllowIsSame e dname ex \<longleftrightarrow> dname = GetParaExec (conf e) ex"

definition AllowIsUserDot1 :: "'a dapp_env_scheme \<Rightarrow> string \<Rightarrow> bytes \<Rightarrow> bool" where
  "AllowIsUserDot1 e dname ex0 =
     (let ex = GetParaExec (conf e) ex0 in
      if \<not> HasPrefix ex UserKeyX then False
      else AllowIsSame e dname (drop (length UserKeyX) ex))"

text \<open>The loop of \<^verbatim>\<open>AllowIsUserDot2\<close>: the number of dots and the position of the last.\<close>

fun dots_from :: "nat \<Rightarrow> nat \<Rightarrow> nat \<Rightarrow> bytes \<Rightarrow> nat \<times> nat" where
  "dots_from cnt index i [] = (cnt, index)"
| "dots_from cnt index i (ch # rest) =
     (if ch = CHR ''.'' then dots_from (cnt + 1) i (i + 1) rest else dots_from cnt index (i + 1) rest)"

definition AllowIsUserDot2 :: "'a dapp_env_scheme \<Rightarrow> string \<Rightarrow> bytes \<Rightarrow> bool" where
  "AllowIsUserDot2 e dname ex0 =
     (let ex = GetParaExec (conf e) ex0 in
      if \<not> HasPrefix ex UserKeyX then False
      else
        (let s = length UserKeyX;
             (cnt, index) = dots_from 0 0 s (drop s ex)
         in if cnt = 1 \<and> AllowIsSame e dname (drop s (take index ex)) then True else False))"

definition base_Allow :: "'a dapp_env_scheme \<Rightarrow> string \<Rightarrow> Transaction \<Rightarrow> unit outcome" where
  "base_Allow e dname tx = (if AllowIsSame e dname (Execer tx) then Ret () else Err ErrNotAllow)"

definition base_IsFriend :: "bytes \<Rightarrow> bytes \<Rightarrow> Transaction \<Rightarrow> bool" where
  "base_IsFriend myexec writekey othertx = False"

subsection \<open>What every driver inherits (driver.go)\<close>

definition base_CheckTx :: "'a dapp_env_scheme \<Rightarrow> Transaction \<Rightarrow> (DrvSt, unit) prog" where
  "base_CheckTx e tx =
     bind (liftO (dapp_ExecAddress e (Execer tx)))
       (\<lambda>addr. if addr \<noteq> To tx then fail ErrToAddrNotSameToExecAddr else ret ())"

text \<open>
  An executor type as the dispatch uses it: whether it has a payload, and the action name and the
  value it decodes from a transaction. \<open>None\<close> is a driver without executor type.
\<close>

record 'v ExecType =
  ety_payload :: bool
  ety_decode :: "Transaction \<Rightarrow> (string \<times> 'v) outcome"

definition base_Exec ::
  "'v ExecType option \<Rightarrow> (string \<rightharpoonup> ('v \<Rightarrow> Transaction \<Rightarrow> int \<Rightarrow> (DrvSt, Receipt option) prog)) \<Rightarrow>
   Transaction \<Rightarrow> int \<Rightarrow> (DrvSt, Receipt option) prog" where
  "base_Exec ety funcmap tx index =
     (case ety of
        None \<Rightarrow> ret None
      | Some t \<Rightarrow>
          recover_err ErrActionNotSupport
            (if \<not> ety_payload t then ret None
             else bind (liftO (ety_decode t tx)) (\<lambda>(name, value).
               case funcmap (''Exec_'' @ name) of
                 None \<Rightarrow> fail ErrActionNotSupport
               | Some f \<Rightarrow> f value tx index)))"

definition callLocal ::
  "'v ExecType option \<Rightarrow> bool \<Rightarrow>
   (string \<rightharpoonup> ('v \<Rightarrow> Transaction \<Rightarrow> ReceiptData \<Rightarrow> int \<Rightarrow> (DrvSt, LocalDBSet) prog)) \<Rightarrow>
   string \<Rightarrow> Transaction \<Rightarrow> ReceiptData \<Rightarrow> int \<Rightarrow> (DrvSt, LocalDBSet) prog" where
  "callLocal ety checkReceiptExecOk funcmap prefix tx receipt index =
     (case ety of
        None \<Rightarrow> fail ErrActionNotSupport
      | Some t \<Rightarrow>
          if checkReceiptExecOk \<and> rdTy receipt \<noteq> ExecOk then ret None
          else
            recover_err ErrActionNotSupport
              (bind (liftO (ety_decode t tx)) (\<lambda>(name, value).
                 case funcmap (prefix @ name) of
                   None \<Rightarrow> fail ErrActionNotSupport
                 | Some f \<Rightarrow> f value tx receipt index)))"

text \<open>\<^verbatim>\<open>ExecLocal\<close> and \<^verbatim>\<open>ExecDelLocal\<close> drop the error of the call; appending nothing leaves nil.\<close>

definition merge_set :: "error + LocalDBSet \<Rightarrow> LocalDBSet" where
  "merge_set r = (case r of Inr (Some kvs) \<Rightarrow> (if kvs = [] then None else Some kvs) | _ \<Rightarrow> None)"

definition base_ExecLocal ::
  "'v ExecType option \<Rightarrow> bool \<Rightarrow>
   (string \<rightharpoonup> ('v \<Rightarrow> Transaction \<Rightarrow> ReceiptData \<Rightarrow> int \<Rightarrow> (DrvSt, LocalDBSet) prog)) \<Rightarrow>
   Transaction \<Rightarrow> ReceiptData \<Rightarrow> int \<Rightarrow> (DrvSt, LocalDBSet) prog" where
  "base_ExecLocal ety okOnly funcmap tx receipt index =
     bind (attempt (callLocal ety okOnly funcmap ''ExecLocal_'' tx receipt index)) (\<lambda>r. ret (merge_set r))"

definition base_ExecDelLocal ::
  "'v ExecType option \<Rightarrow> bool \<Rightarrow>
   (string \<rightharpoonup> ('v \<Rightarrow> Transaction \<Rightarrow> ReceiptData \<Rightarrow> int \<Rightarrow> (DrvSt, LocalDBSet) prog)) \<Rightarrow>
   Transaction \<Rightarrow> ReceiptData \<Rightarrow> int \<Rightarrow> (DrvSt, LocalDBSet) prog" where
  "base_ExecDelLocal ety okOnly funcmap tx receipt index =
     bind (attempt (callLocal ety okOnly funcmap ''ExecDelLocal_'' tx receipt index)) (\<lambda>r. ret (merge_set r))"

text \<open>
  The loop of \<^verbatim>\<open>GetTxGroup\<close> from the index \<open>i\<close> down to \<open>index - c\<close> or 0; \<open>Suc i\<close> positions are left.
  The slice of transactions has no spare capacity, so a group that ends behind it panics.
\<close>

fun find_header :: "'a dapp_env_scheme \<Rightarrow> DriverBase \<Rightarrow> nat \<Rightarrow> int \<Rightarrow> nat \<Rightarrow> Transaction list outcome" where
  "find_header e d c low 0 = Err ErrTxGroupFormat"
| "find_header e d c low (Suc i) =
     (if int i < low then Err ErrTxGroupFormat
      else
        (let tx = d_txs d ! i in
         if raw (Header tx) = Tx_Hash e tx then
           (if i + c > length (d_txs d) then Panic ''slice bounds out of range''
            else
              (let txs = take c (drop i (d_txs d)) in
               obind (Group_Check e (d_height d) (GInt (conf e) ''MinFee'') (GInt (conf e) ''MaxFee'') (map Some txs))
                 (\<lambda>_. Ret txs)))
         else find_header e d c low i))"

definition drv_GetTxGroup :: "'a dapp_env_scheme \<Rightarrow> DriverBase \<Rightarrow> int \<Rightarrow> Transaction list outcome" where
  "drv_GetTxGroup e d index =
     (if int (length (d_txs d)) \<le> index then Err ErrTxGroupIndex
      else if index < 0 then Panic ''index out of range''
      else
        (let c = GroupCount (d_txs d ! nat index) in
         if c \<le> 0 \<or> c > MaxTxGroupSize then Err ErrTxGroupCount
         else find_header e d (nat c) (index - c) (Suc (nat index))))"

subsection \<open>The driver none\<close>

definition newNone :: "'a dapp_env_scheme \<Rightarrow> Driver \<times> DriverBase" where
  "newNone e =
     (\<lparr>GetDriverName = ''none'',
       drvAllow = (\<lambda>d tx index. base_Allow e ''none'' tx),
       drvIsFriend = (\<lambda>d. base_IsFriend),
       drvCheckTx = (\<lambda>d tx index. base_CheckTx e tx),
       drvExec = (\<lambda>d. base_Exec (None :: unit ExecType option) Map.empty),
       drvExecLocal = (\<lambda>d. base_ExecLocal (None :: unit ExecType option) False Map.empty),
       drvExecDelLocal = (\<lambda>d. base_ExecDelLocal (None :: unit ExecType option) False Map.empty),
       drvExecutorOrder = (\<lambda>d. 0)\<rparr>, newBase)"

subsection \<open>The table of drivers (register.go)\<close>

record driverWithHeight =
  create :: "Driver \<times> DriverBase"
  dh_height :: int

record Registry =
  reg_drivers :: "string \<rightharpoonup> driverWithHeight"
  reg_names :: "string \<rightharpoonup> string"
  registedExecDriver :: "string \<rightharpoonup> driverWithHeight"

text \<open>\<open>addrOf\<close> is \<^verbatim>\<open>address.ExecAddress\<close>.\<close>

definition registerAddress :: "(string \<Rightarrow> string) \<Rightarrow> string \<Rightarrow> (Registry, unit) prog" where
  "registerAddress addrOf name r =
     (if length name = 0 then panic ''empty name string'' r
      else
        (let addr = (case reg_names r name of Some a \<Rightarrow> a | None \<Rightarrow> addrOf name)
         in ret () (r\<lparr>reg_names := (reg_names r)(name \<mapsto> addr)\<rparr>)))"

definition Register ::
  "(string \<Rightarrow> string) \<Rightarrow> string \<Rightarrow> (Driver \<times> DriverBase) option \<Rightarrow> int \<Rightarrow> (Registry, unit) prog" where
  "Register addrOf name cr height r =
     (case cr of
        None \<Rightarrow> panic ''Execute: Register driver is nil'' r
      | Some c \<Rightarrow>
          if registedExecDriver r name \<noteq> None then panic ''Execute: Register called twice'' r
          else
            (let dh = \<lparr>create = c, dh_height = height\<rparr>
             in bind (registerAddress addrOf name) (\<lambda>_ r2.
                  let addr = (case reg_names r2 name of Some a \<Rightarrow> a | None \<Rightarrow> addrOf name)
                  in ret () (r2\<lparr>reg_drivers := (reg_drivers r2)(addr \<mapsto> dh)\<rparr>))
                (r\<lparr>registedExecDriver := (registedExecDriver r)(name \<mapsto> dh)\<rparr>)))"

definition LoadDriver :: "Registry \<Rightarrow> string \<Rightarrow> int \<Rightarrow> error + (Driver \<times> DriverBase)" where
  "LoadDriver r name0 height =
     (let name = GetRealExecName name0 in
      case registedExecDriver r name of
        None \<Rightarrow> Inl ErrUnRegistedDriver
      | Some c \<Rightarrow> if height \<ge> dh_height c \<or> height = -1 then Inr (create c) else Inl ErrUnknowDriver)"

definition LoadDriverAllow :: "Registry \<Rightarrow> Transaction \<Rightarrow> int \<Rightarrow> int \<Rightarrow> (Driver \<times> DriverBase) outcome" where
  "LoadDriverAllow r tx index height =
     obind (case LoadDriver r (Execer tx) height of
              Inl er \<Rightarrow> Ret None
            | Inr (exec, d) \<Rightarrow>
                (let d1 = SetEnv height 0 0 d in
                 case drvAllow exec d1 tx index of
                   Ret _ \<Rightarrow> Ret (Some (exec, d1))
                 | Err _ \<Rightarrow> Ret None
                 | Panic p \<Rightarrow> Panic p))
       (\<lambda>found. case found of
          None \<Rightarrow> (case LoadDriver r ''none'' height of Inl _ \<Rightarrow> Panic ''err'' | Inr nd \<Rightarrow> Ret nd)
        | Some (exec, d1) \<Rightarrow> Ret (exec, d1\<lparr>d_name := GetRealExecName (Execer tx), d_curname := Execer tx\<rparr>))"

end
