(* ===== verification/Coins.thy ===== *)
theory Coins
  imports Driver
begin

text \<open>
  The contract \<^verbatim>\<open>coins\<close>, \<^verbatim>\<open>src/system/dapp/coins\<close>: its actions on the state (\<^verbatim>\<open>executor/exec.go\<close>), its
  index of received amounts in the local database (\<^verbatim>\<open>coinsdb.go\<close>, \<^verbatim>\<open>exec_local.go\<close>,
  \<^verbatim>\<open>exec_del_local.go\<close>) and its executor type (\<^verbatim>\<open>types/types.go\<close>). The protobuf messages are decoded by
  parameters of the environment; fields the contract does not read are left out.
\<close>

subsection \<open>Actions\<close>

record AssetsTransfer =
  at_Amount :: int
  at_To :: string

record AssetsTransferToExec =
  ae_Amount :: int
  ae_ExecName :: string
  ae_To :: string

record AssetsWithdraw =
  aw_Amount :: int
  aw_ExecName :: string
  aw_To :: string

record AssetsGenesis =
  ag_Amount :: int
  ag_ReturnAddress :: string

datatype CoinsValue =
    ActTransfer AssetsTransfer
  | ActTransferToExec AssetsTransferToExec
  | ActWithdraw AssetsWithdraw
  | ActGenesis AssetsGenesis

record CoinsAction =
  ca_Value :: "CoinsValue option"
  ca_Ty :: int

text \<open>The pointers the getters of \<^verbatim>\<open>CoinsAction\<close> return; \<open>None\<close> is a nil pointer of the type.\<close>

datatype CoinsPtr =
    PTransfer "AssetsTransfer option"
  | PTransferToExec "AssetsTransferToExec option"
  | PWithdraw "AssetsWithdraw option"
  | PGenesis "AssetsGenesis option"

record coins_env = dapp_env +
  DecodeCoins :: "bytes \<Rightarrow> CoinsAction option"
  EncodeInt64 :: "int \<Rightarrow> bytes"
  DecodeInt64 :: "bytes \<Rightarrow> int option"

definition GetTransfer :: "CoinsAction \<Rightarrow> AssetsTransfer option" where
  "GetTransfer a = (case ca_Value a of Some (ActTransfer v) \<Rightarrow> Some v | _ \<Rightarrow> None)"

definition GetTransferToExec :: "CoinsAction \<Rightarrow> AssetsTransferToExec option" where
  "GetTransferToExec a = (case ca_Value a of Some (ActTransferToExec v) \<Rightarrow> Some v | _ \<Rightarrow> None)"

definition GetWithdraw :: "CoinsAction \<Rightarrow> AssetsWithdraw option" where
  "GetWithdraw a = (case ca_Value a of Some (ActWithdraw v) \<Rightarrow> Some v | _ \<Rightarrow> None)"

definition GetGenesis :: "CoinsAction \<Rightarrow> AssetsGenesis option" where
  "GetGenesis a = (case ca_Value a of Some (ActGenesis v) \<Rightarrow> Some v | _ \<Rightarrow> None)"

text \<open>
  \<^verbatim>\<open>decodePayloadValue\<close>: the value is an interface that holds a pointer, so its test for nil is true
  only for an unknown type of action, not for a nil pointer.
\<close>

definition coins_decode :: "'a coins_env_scheme \<Rightarrow> Transaction \<Rightarrow> (string \<times> CoinsPtr) outcome" where
  "coins_decode e tx =
     (case DecodeCoins e (Payload tx) of
        None \<Rightarrow> Err ErrDecode
      | Some action \<Rightarrow>
          if ca_Ty action = 1 then Ret (''Transfer'', PTransfer (GetTransfer action))
          else if ca_Ty action = 10 then Ret (''TransferToExec'', PTransferToExec (GetTransferToExec action))
          else if ca_Ty action = 3 then Ret (''Withdraw'', PWithdraw (GetWithdraw action))
          else if ca_Ty action = 2 then Ret (''Genesis'', PGenesis (GetGenesis action))
          else Err ErrActionNotSupport)"

definition getTo :: "CoinsPtr \<Rightarrow> string option" where
  "getTo payload =
     (case payload of
        PTransfer p \<Rightarrow> Some (case p of None \<Rightarrow> [] | Some v \<Rightarrow> at_To v)
      | PWithdraw p \<Rightarrow> Some (case p of None \<Rightarrow> [] | Some v \<Rightarrow> aw_To v)
      | PTransferToExec p \<Rightarrow> Some (case p of None \<Rightarrow> [] | Some v \<Rightarrow> ae_To v)
      | PGenesis p \<Rightarrow> None)"

definition coins_GetRealToAddr :: "'a coins_env_scheme \<Rightarrow> Transaction \<Rightarrow> string outcome" where
  "coins_GetRealToAddr e tx =
     (if \<not> isPara (conf e) then Ret (To tx)
      else case coins_decode e tx of
             Ret (_, payload) \<Rightarrow> Ret (case getTo payload of Some to \<Rightarrow> to | None \<Rightarrow> To tx)
           | Err _ \<Rightarrow> Ret (To tx)
           | Panic p \<Rightarrow> Panic p)"

definition coins_Amount :: "'a coins_env_scheme \<Rightarrow> Transaction \<Rightarrow> int outcome" where
  "coins_Amount e tx =
     obind (coins_decode e tx) (\<lambda>(_, payload).
       Ret (case payload of
              PTransfer (Some v) \<Rightarrow> at_Amount v
            | PTransferToExec (Some v) \<Rightarrow> ae_Amount v
            | PWithdraw (Some v) \<Rightarrow> aw_Amount v
            | PGenesis (Some v) \<Rightarrow> ag_Amount v
            | _ \<Rightarrow> 0))"

definition coins_ActionName :: "'a coins_env_scheme \<Rightarrow> Transaction \<Rightarrow> string" where
  "coins_ActionName e tx =
     (case DecodeCoins e (Payload tx) of
        None \<Rightarrow> ''unknown-err''
      | Some action \<Rightarrow>
          if ca_Ty action = 1 then ''transfer''
          else if ca_Ty action = 10 then ''transferToExec''
          else if ca_Ty action = 3 then ''withdraw''
          else if ca_Ty action = 2 then ''genesis''
          else ''unknown'')"

definition CoinsType :: "'a coins_env_scheme \<Rightarrow> ExecutorType" where
  "CoinsType e = \<lparr>ety_GetRealToAddr = coins_GetRealToAddr e, ety_ActionName = coins_ActionName e\<rparr>"

subsection \<open>The state (exec.go)\<close>

definition isExecAddrMatch :: "'a dapp_env_scheme \<Rightarrow> string \<Rightarrow> string \<Rightarrow> bool outcome" where
  "isExecAddrMatch e name to = obind (address_ExecAddress e name) (\<lambda>toaddr. Ret (toaddr = to))"

text \<open>A method on the coins account: a receipt or an error.\<close>

definition coins_run :: "(StateDB, Receipt) prog \<Rightarrow> (DrvSt, Receipt option) prog" where
  "coins_run m = bind (on_state m) (\<lambda>r. ret (Some r))"

definition Exec_Transfer ::
  "'a coins_env_scheme \<Rightarrow> DriverBase \<Rightarrow> AssetsTransfer option \<Rightarrow> Transaction \<Rightarrow> int \<Rightarrow> (DrvSt, Receipt option) prog" where
  "Exec_Transfer e d transfer tx index =
     bind (liftO (GetRealToAddr e tx)) (\<lambda>to.
       case transfer of
         None \<Rightarrow> panic ''nil pointer''
       | Some t \<Rightarrow>
           if IsDriverAddress e to (d_height d)
           then coins_run (TransferToExec (coinsAccount e) (Tx_From e tx) to (at_Amount t))
           else coins_run (Transfer (coinsAccount e) (Tx_From e tx) to (at_Amount t)))"

definition Exec_TransferToExec ::
  "'a coins_env_scheme \<Rightarrow> DriverBase \<Rightarrow> AssetsTransferToExec option \<Rightarrow> Transaction \<Rightarrow> int \<Rightarrow> (DrvSt, Receipt option) prog" where
  "Exec_TransferToExec e d transfer tx index =
     bind (liftO (isFork e (d_height d) ''ForkTransferExec'')) (\<lambda>fork.
       if \<not> fork then fail ErrActionNotSupport
       else case transfer of
              None \<Rightarrow> panic ''nil pointer''
            | Some t \<Rightarrow>
                bind (liftO (GetRealToAddr e tx)) (\<lambda>to.
                bind (liftO (isExecAddrMatch e (ae_ExecName t) to)) (\<lambda>match.
                  if \<not> match then fail ErrToAddrNotSameToExecAddr
                  else coins_run (TransferToExec (coinsAccount e) (Tx_From e tx) to (ae_Amount t)))))"

text \<open>The test of the address is evaluated left to right.\<close>

definition Exec_Withdraw ::
  "'a coins_env_scheme \<Rightarrow> DriverBase \<Rightarrow> AssetsWithdraw option \<Rightarrow> Transaction \<Rightarrow> int \<Rightarrow> (DrvSt, Receipt option) prog" where
  "Exec_Withdraw e d withdraw tx index =
     bind (liftO (isFork e (d_height d) ''ForkWithdraw'')) (\<lambda>fork.
       case withdraw of
         None \<Rightarrow> panic ''nil pointer''
       | Some w \<Rightarrow>
           (let w1 = (if \<not> fork then w\<lparr>aw_ExecName := []\<rparr> else w) in
            bind (liftO (GetRealToAddr e tx)) (\<lambda>to.
            bind (liftO (if IsDriverAddress e to (d_height d) then Ret True
                         else isExecAddrMatch e (aw_ExecName w1) to)) (\<lambda>ok.
              if ok then coins_run (TransferWithdraw (coinsAccount e) (Tx_From e tx) to (aw_Amount w1))
              else fail ErrActionNotSupport))))"

definition Exec_Genesis ::
  "'a coins_env_scheme \<Rightarrow> DriverBase \<Rightarrow> AssetsGenesis option \<Rightarrow> Transaction \<Rightarrow> int \<Rightarrow> (DrvSt, Receipt option) prog" where
  "Exec_Genesis e d genesis tx index =
     (if d_height d = 0 then
        bind (liftO (GetRealToAddr e tx)) (\<lambda>to.
          case genesis of
            None \<Rightarrow> panic ''nil pointer''
          | Some g \<Rightarrow>
              if IsDriverAddress e to (d_height d)
              then coins_run (GenesisInitExec (coinsAccount e) (ag_ReturnAddress g) (ag_Amount g) to)
              else coins_run (GenesisInit (coinsAccount e) to (ag_Amount g)))
      else fail ErrReRunGenesis)"

subsection \<open>Received amounts in the local database (coinsdb.go)\<close>

definition calcAddrKey :: "string \<Rightarrow> bytes" where
  "calcAddrKey addr = ''LODB-coins-Addr:'' @ addr"

definition geAddrReciverKV :: "'a coins_env_scheme \<Rightarrow> string \<Rightarrow> int \<Rightarrow> KeyValue" where
  "geAddrReciverKV e addr reciverAmount =
     \<lparr>Key = calcAddrKey addr, Val = Some (EncodeInt64 e reciverAmount)\<rparr>"

definition getAddrReciver :: "'a coins_env_scheme \<Rightarrow> string \<Rightarrow> (LocalDB, int) prog" where
  "getAddrReciver e addr =
     bind (attempt (l_Get (calcAddrKey addr))) (\<lambda>r.
       case r of
         Inl er \<Rightarrow> if er \<noteq> ErrNotFound then fail er else ret 0
       | Inr addrReciver \<Rightarrow>
           if length addrReciver = 0 then ret 0
           else (case DecodeInt64 e addrReciver of None \<Rightarrow> fail ErrDecode | Some reciver \<Rightarrow> ret reciver))"

definition setAddrReciver :: "'a coins_env_scheme \<Rightarrow> string \<Rightarrow> int \<Rightarrow> (LocalDB, unit) prog" where
  "setAddrReciver e addr reciverAmount =
     (let kv = geAddrReciverKV e addr reciverAmount in l_Set (Key kv) (Val kv))"

definition updateAddrReciver :: "'a coins_env_scheme \<Rightarrow> string \<Rightarrow> int \<Rightarrow> bool \<Rightarrow> (LocalDB, KeyValue) prog" where
  "updateAddrReciver e addr amount isadd =
     bind (attempt (getAddrReciver e addr)) (\<lambda>r.
       case r of
         Inl er \<Rightarrow>
           if er \<noteq> ErrNotFound then fail er
           else (let recv = (if isadd then i64 amount else i64 (- amount))
                 in bind (setAddrReciver e addr recv) (\<lambda>_. ret (geAddrReciverKV e addr recv)))
       | Inr recv0 \<Rightarrow>
           (let recv = (if isadd then i64 (recv0 + amount) else i64 (recv0 - amount))
            in bind (setAddrReciver e addr recv) (\<lambda>_. ret (geAddrReciverKV e addr recv))))"

text \<open>\<^verbatim>\<open>ExecLocal_*\<close> and \<^verbatim>\<open>ExecDelLocal_*\<close>; \<open>amount\<close> is the amount behind the pointer of the action.\<close>

definition local_update :: "'a coins_env_scheme \<Rightarrow> string outcome \<Rightarrow> int option \<Rightarrow> bool \<Rightarrow> (DrvSt, LocalDBSet) prog" where
  "local_update e addr amount isadd =
     bind (liftO addr) (\<lambda>a.
       case amount of
         None \<Rightarrow> panic ''nil pointer''
       | Some n \<Rightarrow> bind (on_local (updateAddrReciver e a n isadd)) (\<lambda>kv. ret (Some [kv])))"

definition ExecLocal_Transfer ::
  "'a coins_env_scheme \<Rightarrow> AssetsTransfer option \<Rightarrow> Transaction \<Rightarrow> (DrvSt, LocalDBSet) prog" where
  "ExecLocal_Transfer e transfer tx =
     local_update e (GetRealToAddr e tx) (map_option at_Amount transfer) True"

definition ExecLocal_TransferToExec ::
  "'a coins_env_scheme \<Rightarrow> AssetsTransferToExec option \<Rightarrow> Transaction \<Rightarrow> (DrvSt, LocalDBSet) prog" where
  "ExecLocal_TransferToExec e transfer tx =
     local_update e (GetRealToAddr e tx) (map_option ae_Amount transfer) True"

definition ExecLocal_Withdraw ::
  "'a coins_env_scheme \<Rightarrow> AssetsWithdraw option \<Rightarrow> Transaction \<Rightarrow> (DrvSt, LocalDBSet) prog" where
  "ExecLocal_Withdraw e withdraw tx =
     local_update e (Ret (Tx_From e tx)) (map_option aw_Amount withdraw) True"

definition ExecLocal_Genesis ::
  "'a coins_env_scheme \<Rightarrow> AssetsGenesis option \<Rightarrow> Transaction \<Rightarrow> (DrvSt, LocalDBSet) prog" where
  "ExecLocal_Genesis e gen tx =
     local_update e (GetRealToAddr e tx) (map_option ag_Amount gen) True"

definition ExecDelLocal_Transfer ::
  "'a coins_env_scheme \<Rightarrow> AssetsTransfer option \<Rightarrow> Transaction \<Rightarrow> (DrvSt, LocalDBSet) prog" where
  "ExecDelLocal_Transfer e transfer tx =
     local_update e (GetRealToAddr e tx) (map_option at_Amount transfer) False"

definition ExecDelLocal_TransferToExec ::
  "'a coins_env_scheme \<Rightarrow> AssetsTransferToExec option \<Rightarrow> Transaction \<Rightarrow> (DrvSt, LocalDBSet) prog" where
  "ExecDelLocal_TransferToExec e transfer tx =
     local_update e (GetRealToAddr e tx) (map_option ae_Amount transfer) False"

definition ExecDelLocal_Withdraw ::
  "'a coins_env_scheme \<Rightarrow> AssetsWithdraw option \<Rightarrow> Transaction \<Rightarrow> (DrvSt, LocalDBSet) prog" where
  "ExecDelLocal_Withdraw e withdraw tx =
     local_update e (Ret (Tx_From e tx)) (map_option aw_Amount withdraw) False"

subsection \<open>The driver (coins.go)\<close>

definition coins_CheckTx :: "'a coins_env_scheme \<Rightarrow> Transaction \<Rightarrow> (DrvSt, unit) prog" where
  "coins_CheckTx e tx =
     bind (liftO (coins_Amount e tx)) (\<lambda>amount. if amount < 0 then fail ErrAmount else ret ())"

definition coins_IsFriend :: "'a dapp_env_scheme \<Rightarrow> bytes \<Rightarrow> bytes \<Rightarrow> Transaction \<Rightarrow> bool" where
  "coins_IsFriend e myexec writekey othertx =
     (if \<not> AllowIsSame e ''coins'' myexec then False
      else if ActionName e othertx = ''miner''
      then \<exists>exec \<in> set (minerExecs e). types_ExecName (conf e) exec = Execer othertx
      else False)"

text \<open>The methods the dispatch finds by name, applied to the pointer of their type.\<close>

definition coins_exec :: "'a coins_env_scheme \<Rightarrow> DriverBase \<Rightarrow> string \<rightharpoonup>
    (CoinsPtr \<Rightarrow> Transaction \<Rightarrow> int \<Rightarrow> (DrvSt, Receipt option) prog)" where
  "coins_exec e d =
     [''Exec_Transfer'' \<mapsto> (\<lambda>v. case v of PTransfer p \<Rightarrow> Exec_Transfer e d p | _ \<Rightarrow> (\<lambda>_ _. panic ''reflect'')),
      ''Exec_TransferToExec'' \<mapsto> (\<lambda>v. case v of PTransferToExec p \<Rightarrow> Exec_TransferToExec e d p | _ \<Rightarrow> (\<lambda>_ _. panic ''reflect'')),
      ''Exec_Withdraw'' \<mapsto> (\<lambda>v. case v of PWithdraw p \<Rightarrow> Exec_Withdraw e d p | _ \<Rightarrow> (\<lambda>_ _. panic ''reflect'')),
      ''Exec_Genesis'' \<mapsto> (\<lambda>v. case v of PGenesis p \<Rightarrow> Exec_Genesis e d p | _ \<Rightarrow> (\<lambda>_ _. panic ''reflect''))]"

definition coins_local :: "'a coins_env_scheme \<Rightarrow> string \<rightharpoonup>
    (CoinsPtr \<Rightarrow> Transaction \<Rightarrow> ReceiptData \<Rightarrow> int \<Rightarrow> (DrvSt, LocalDBSet) prog)" where
  "coins_local e =
     [''ExecLocal_Transfer'' \<mapsto> (\<lambda>v tx _ _. case v of PTransfer p \<Rightarrow> ExecLocal_Transfer e p tx | _ \<Rightarrow> panic ''reflect''),
      ''ExecLocal_TransferToExec'' \<mapsto> (\<lambda>v tx _ _. case v of PTransferToExec p \<Rightarrow> ExecLocal_TransferToExec e p tx | _ \<Rightarrow> panic ''reflect''),
      ''ExecLocal_Withdraw'' \<mapsto> (\<lambda>v tx _ _. case v of PWithdraw p \<Rightarrow> ExecLocal_Withdraw e p tx | _ \<Rightarrow> panic ''reflect''),
      ''ExecLocal_Genesis'' \<mapsto> (\<lambda>v tx _ _. case v of PGenesis p \<Rightarrow> ExecLocal_Genesis e p tx | _ \<Rightarrow> panic ''reflect''),
      ''ExecDelLocal_Transfer'' \<mapsto> (\<lambda>v tx _ _. case v of PTransfer p \<Rightarrow> ExecDelLocal_Transfer e p tx | _ \<Rightarrow> panic ''reflect''),
      ''ExecDelLocal_TransferToExec'' \<mapsto> (\<lambda>v tx _ _. case v of PTransferToExec p \<Rightarrow> ExecDelLocal_TransferToExec e p tx | _ \<Rightarrow> panic ''reflect''),
      ''ExecDelLocal_Withdraw'' \<mapsto> (\<lambda>v tx _ _. case v of PWithdraw p \<Rightarrow> ExecDelLocal_Withdraw e p tx | _ \<Rightarrow> panic ''reflect'')]"

definition coins_ety :: "'a coins_env_scheme \<Rightarrow> CoinsPtr ExecType" where
  "coins_ety e = \<lparr>ety_payload = True, ety_decode = coins_decode e\<rparr>"

definition newCoins :: "'a coins_env_scheme \<Rightarrow> Driver \<times> DriverBase" where
  "newCoins e =
     (\<lparr>GetDriverName = ''coins'',
       drvAllow = (\<lambda>d tx index. base_Allow e ''coins'' tx),
       drvIsFriend = (\<lambda>d. coins_IsFriend e),
       drvCheckTx = (\<lambda>d tx index. coins_CheckTx e tx),
       drvExec = (\<lambda>d. base_Exec (Some (coins_ety e)) (coins_exec e d)),
       drvExecLocal = (\<lambda>d. base_ExecLocal (Some (coins_ety e)) True (coins_local e)),
       drvExecDelLocal = (\<lambda>d. base_ExecDelLocal (Some (coins_ety e)) True (coins_local e)),
       drvExecutorOrder = (\<lambda>d. 0)\<rparr>, newBase)"

end
