(* ===== verification/Manage.thy ===== *)
theory Manage
  imports Coins
begin

text \<open>
  The contract \<^verbatim>\<open>manage\<close>, \<^verbatim>\<open>src/system/dapp/manage\<close>: a super manager adds values to and removes them
  from the lists of the chain's configuration (\<^verbatim>\<open>executor/exec.go\<close>, \<^verbatim>\<open>executor/managedb.go\<close>), and the
  contract indexes the changes in the local database (\<^verbatim>\<open>exec_local.go\<close>, \<^verbatim>\<open>exec_del_local.go\<close>).
\<close>

record ModifyConfig =
  mc_Key :: string
  mc_Value :: string
  mc_Op :: string
  mc_Addr :: string

text \<open>An item of the configuration; \<open>ci_Arr\<close> is \<open>None\<close> when its value is not an array.\<close>

record ConfigItem =
  ci_Key :: string
  ci_Addr :: string
  ci_Arr :: "string list option"
  ci_Ty :: int

record ReceiptConfig =
  rc_Prev :: "ConfigItem option"
  rc_Current :: "ConfigItem option"

text \<open>
  \<open>DecodeManage\<close> is \<^verbatim>\<open>DecodePayloadValue\<close> of the executor type: the value of the one action, a nil
  pointer when the message has none.
\<close>

record manage_env = coins_env +
  DecodeManage :: "bytes \<Rightarrow> (ModifyConfig option) option"
  EncodeItem :: "ConfigItem option \<Rightarrow> bytes"
  DecodeItem :: "bytes \<Rightarrow> ConfigItem option"
  EncodeReceiptConfig :: "ReceiptConfig \<Rightarrow> bytes"
  DecodeReceiptConfig :: "bytes \<Rightarrow> ReceiptConfig option"
  superManager :: "string list"

definition ManageActionModifyConfig :: int where
  "ManageActionModifyConfig = 0"

definition TyLogModifyConfig :: int where
  "TyLogModifyConfig = 410"

definition ConfigItemArrayConfig :: int where
  "ConfigItemArrayConfig = 0"

definition manage_decode :: "'a manage_env_scheme \<Rightarrow> Transaction \<Rightarrow> (string \<times> ModifyConfig option) outcome" where
  "manage_decode e tx =
     (case DecodeManage e (Payload tx) of None \<Rightarrow> Err ErrDecode | Some v \<Rightarrow> Ret (''Modify'', v))"

definition manage_GetRealToAddr :: "'a dapp_env_scheme \<Rightarrow> Transaction \<Rightarrow> string outcome" where
  "manage_GetRealToAddr e tx =
     (if length (To tx) = 0 then address_ExecAddress e (Execer tx) else Ret (To tx))"

definition ManageType :: "'a dapp_env_scheme \<Rightarrow> ExecutorType" where
  "ManageType e = \<lparr>ety_GetRealToAddr = manage_GetRealToAddr e, ety_ActionName = (\<lambda>tx. ''config'')\<rparr>"

definition IsSuperManager :: "'a manage_env_scheme \<Rightarrow> string \<Rightarrow> bool" where
  "IsSuperManager e addr = (addr \<in> set (superManager e))"

definition manage_checkAddress :: "'a manage_env_scheme \<Rightarrow> DriverBase \<Rightarrow> string \<Rightarrow> unit outcome" where
  "manage_checkAddress e d addr =
     (if IsDriverAddress e addr (d_height d) then Ret ()
      else case address_CheckAddress e addr of None \<Rightarrow> Ret () | Some er \<Rightarrow> Err er)"

definition checkTxToAddress :: "'a manage_env_scheme \<Rightarrow> DriverBase \<Rightarrow> Transaction \<Rightarrow> unit outcome" where
  "checkTxToAddress e d tx = obind (GetRealToAddr e tx) (manage_checkAddress e d)"

subsection \<open>The state\<close>

text \<open>An error of a read is a value nil.\<close>

definition read_config :: "string \<Rightarrow> (StateDB, bytes option) prog" where
  "read_config key =
     bind (attempt (sdb_Get (ManageKey key))) (\<lambda>r.
       case r of
         Inr value \<Rightarrow> ret (Some value)
       | Inl _ \<Rightarrow>
           bind (attempt (sdb_Get (ConfigKey key))) (\<lambda>r2.
             ret (case r2 of Inr value \<Rightarrow> Some value | Inl _ \<Rightarrow> None)))"

definition edit_list :: "ModifyConfig \<Rightarrow> string list \<Rightarrow> string list" where
  "edit_list m arr =
     (if mc_Op m = ''add'' then arr @ [mc_Value m]
      else filter (\<lambda>value. value \<noteq> mc_Value m) arr)"

definition modifyConfig :: "'a manage_env_scheme \<Rightarrow> string \<Rightarrow> int \<Rightarrow> ModifyConfig \<Rightarrow> (StateDB, Receipt) prog" where
  "modifyConfig e fromaddr height modify =
     (if \<not> IsSuperManager e fromaddr then fail ErrNoPrivilege
      else if length (mc_Key modify) = 0 then fail ErrBadConfigKey
      else if mc_Op modify \<noteq> ''add'' \<and> mc_Op modify \<noteq> ''delete'' then fail ErrBadConfigOp
      else
        bind (read_config (mc_Key modify)) (\<lambda>value.
        bind (liftO (case value of
                Some v \<Rightarrow> (case DecodeItem e v of None \<Rightarrow> Err ErrDecode | Some item \<Rightarrow> Ret item)
              | None \<Rightarrow> Ret \<lparr>ci_Key = mc_Key modify, ci_Addr = mc_Addr modify, ci_Arr = Some [],
                             ci_Ty = ConfigItemArrayConfig\<rparr>)) (\<lambda>copyItem.
        case ci_Arr copyItem of
          None \<Rightarrow> panic ''nil pointer''
        | Some arr \<Rightarrow>
            (let item = copyItem\<lparr>ci_Arr := Some (edit_list modify arr), ci_Addr := mc_Addr modify\<rparr> in
             bind (liftO (ManaeKeyWithHeigh (conf e) (mc_Key modify) height)) (\<lambda>key.
               let valueSave = EncodeItem e (Some item) in
               bind (sdb_Set key (Some valueSave)) (\<lambda>_.
                 ret \<lparr>Ty = ExecOk, KV = [\<lparr>Key = key, Val = Some valueSave\<rparr>],
                      Logs = [\<lparr>LogTy = TyLogModifyConfig,
                               Log = EncodeReceiptConfig e \<lparr>rc_Prev = Some copyItem, rc_Current = Some item\<rparr>\<rparr>]\<rparr>))))))"

definition Exec_Modify ::
  "'a manage_env_scheme \<Rightarrow> DriverBase \<Rightarrow> ModifyConfig option \<Rightarrow> Transaction \<Rightarrow> int \<Rightarrow> (DrvSt, Receipt option) prog" where
  "Exec_Modify e d manageAction tx index =
     bind (liftO (types_IsDappFork (conf e) (d_height d) ''manage'' ''ForkManageExec'')) (\<lambda>fork.
     bind (liftO (if fork then checkTxToAddress e d tx else Ret ())) (\<lambda>_.
       case manageAction of
         None \<Rightarrow> on_state (if \<not> IsSuperManager e (Tx_From e tx) then fail ErrNoPrivilege else panic ''nil pointer'')
       | Some m \<Rightarrow> coins_run (modifyConfig e (Tx_From e tx) (d_height d) m)))"

subsection \<open>The local database\<close>

definition manage_localKey :: "string \<Rightarrow> bytes" where
  "manage_localKey key = ''LODB-manage-'' @ key"

text \<open>The loop over the logs of a receipt; \<open>pick\<close> selects the item that is stored.\<close>

fun index_logs :: "'a manage_env_scheme \<Rightarrow> (ReceiptConfig \<Rightarrow> ConfigItem option) \<Rightarrow> ReceiptLog list \<Rightarrow> KeyValue list outcome" where
  "index_logs e pick [] = Ret []"
| "index_logs e pick (item # logs) =
     (if LogTy item = ManageActionModifyConfig then
        (case DecodeReceiptConfig e (Log item) of
           None \<Rightarrow> Panic ''err''
         | Some receipt \<Rightarrow>
             (case rc_Current receipt of
                None \<Rightarrow> Panic ''nil pointer''
              | Some cur \<Rightarrow>
                  obind (index_logs e pick logs) (\<lambda>kvs.
                    Ret (\<lparr>Key = manage_localKey (ci_Key cur), Val = Some (EncodeItem e (pick receipt))\<rparr> # kvs))))
      else index_logs e pick logs)"

definition ExecLocal_Modify :: "'a manage_env_scheme \<Rightarrow> ReceiptData \<Rightarrow> (DrvSt, LocalDBSet) prog" where
  "ExecLocal_Modify e receipt =
     bind (liftO (index_logs e rc_Current (rdLogs receipt))) (\<lambda>kvs. ret (Some kvs))"

definition ExecDelLocal_Modify :: "'a manage_env_scheme \<Rightarrow> ReceiptData \<Rightarrow> (DrvSt, LocalDBSet) prog" where
  "ExecDelLocal_Modify e receipt =
     bind (liftO (index_logs e rc_Prev (rdLogs receipt))) (\<lambda>kvs. ret (Some kvs))"

subsection \<open>The driver\<close>

definition manage_exec :: "'a manage_env_scheme \<Rightarrow> DriverBase \<Rightarrow> string \<rightharpoonup>
    (ModifyConfig option \<Rightarrow> Transaction \<Rightarrow> int \<Rightarrow> (DrvSt, Receipt option) prog)" where
  "manage_exec e d = [''Exec_Modify'' \<mapsto> Exec_Modify e d]"

definition manage_local :: "'a manage_env_scheme \<Rightarrow> string \<rightharpoonup>
    (ModifyConfig option \<Rightarrow> Transaction \<Rightarrow> ReceiptData \<Rightarrow> int \<Rightarrow> (DrvSt, LocalDBSet) prog)" where
  "manage_local e =
     [''ExecLocal_Modify'' \<mapsto> (\<lambda>_ _ receipt _. ExecLocal_Modify e receipt),
      ''ExecDelLocal_Modify'' \<mapsto> (\<lambda>_ _ receipt _. ExecDelLocal_Modify e receipt)]"

definition manage_ety :: "'a manage_env_scheme \<Rightarrow> (ModifyConfig option) ExecType" where
  "manage_ety e = \<lparr>ety_payload = True, ety_decode = manage_decode e\<rparr>"

definition newManage :: "'a manage_env_scheme \<Rightarrow> Driver \<times> DriverBase" where
  "newManage e =
     (\<lparr>GetDriverName = ''manage'',
       drvAllow = (\<lambda>d tx index. base_Allow e ''manage'' tx),
       drvIsFriend = (\<lambda>d. base_IsFriend),
       drvCheckTx = (\<lambda>d tx index. ret ()),
       drvExec = (\<lambda>d. base_Exec (Some (manage_ety e)) (manage_exec e d)),
       drvExecLocal = (\<lambda>d. base_ExecLocal (Some (manage_ety e)) True (manage_local e)),
       drvExecDelLocal = (\<lambda>d. base_ExecDelLocal (Some (manage_ety e)) True (manage_local e)),
       drvExecutorOrder = (\<lambda>d. 0)\<rparr>, newBase)"

subsection \<open>Registering the drivers of the system\<close>

definition none_Init :: "'a dapp_env_scheme \<Rightarrow> (string \<Rightarrow> string) \<Rightarrow> string \<Rightarrow> (Registry, unit) prog" where
  "none_Init e addrOf name =
     (if name \<noteq> ''none'' then panic ''system dapp can't be rename''
      else Register addrOf name (Some (newNone e)) 0)"

definition coins_Init :: "'a coins_env_scheme \<Rightarrow> (string \<Rightarrow> string) \<Rightarrow> string \<Rightarrow> (Registry, unit) prog" where
  "coins_Init e addrOf name =
     (if name \<noteq> ''coins'' then panic ''system dapp can't be rename''
      else bind (liftO (types_GetDappFork (conf e) ''coins'' ''Enable'')) (\<lambda>height.
        Register addrOf ''coins'' (Some (newCoins e)) height))"

definition manage_Init :: "'a manage_env_scheme \<Rightarrow> (string \<Rightarrow> string) \<Rightarrow> string \<Rightarrow> (Registry, unit) prog" where
  "manage_Init e addrOf name =
     bind (liftO (types_GetDappFork (conf e) ''manage'' ''Enable'')) (\<lambda>height.
       Register addrOf (drv_GetName (newManage e)) (Some (newManage e)) height)"

definition no_registry :: Registry where
  "no_registry = \<lparr>reg_drivers = Map.empty, reg_names = Map.empty, registedExecDriver = Map.empty\<rparr>"

definition sys_init :: "'a manage_env_scheme \<Rightarrow> (string \<Rightarrow> string) \<Rightarrow> (Registry, unit) prog" where
  "sys_init e addrOf =
     bind (none_Init e addrOf ''none'') (\<lambda>_. bind (coins_Init e addrOf ''coins'') (\<lambda>_. manage_Init e addrOf ''manage''))"

end
