(* ===== verification/DriverContract.thy ===== *)
theory DriverContract
  imports Manage
begin

text \<open>
  What the executor relies on of a driver: its methods change the state only through \<^verbatim>\<open>Get\<close> and \<^verbatim>\<open>Set\<close> of
  the state database, inside the memory transaction, and keep the pointer of the local database. The
  contract is the locale \<open>driver\<close>; the drivers none, coins and manage are shown to satisfy it.
  Programs are checked against it by the rules in \<open>client_intros\<close>.
\<close>

named_theorems client_intros \<open>programs that use the databases through their interface\<close>

subsection \<open>The state database\<close>

definition sdb_ready :: "StateDB \<Rightarrow> bool" where
  "sdb_ready s \<longleftrightarrow> store_answers s \<and> sdb_intx s"

text \<open>A step inside a transaction: only keys it records in \<^verbatim>\<open>keys\<close> may show another value.\<close>

definition sdb_step :: "StateDB \<Rightarrow> StateDB \<Rightarrow> bool" where
  "sdb_step s s' \<longleftrightarrow> sdb_ready s' \<and> sdb_height s' = sdb_height s \<and> sdb_base s' = sdb_base s \<and>
     (\<exists>ks. sdb_keys s' = sdb_keys s @ ks \<and> (\<forall>k. k \<notin> set ks \<longrightarrow> sdb_view s' k = sdb_view s k))"

lemma sdb_step_refl: "sdb_ready s \<Longrightarrow> sdb_step s s"
  by (simp add: sdb_step_def)

lemma sdb_step_trans:
  assumes "sdb_step s s'" and "sdb_step s' s''"
  shows "sdb_step s s''"
proof -
  from assms obtain ks ks' where k: "sdb_keys s' = sdb_keys s @ ks"
      "\<And>k. k \<notin> set ks \<Longrightarrow> sdb_view s' k = sdb_view s k"
      "sdb_keys s'' = sdb_keys s' @ ks'"
      "\<And>k. k \<notin> set ks' \<Longrightarrow> sdb_view s'' k = sdb_view s' k"
    unfolding sdb_step_def by blast
  then have "sdb_keys s'' = sdb_keys s @ (ks @ ks')"
      "\<And>k. k \<notin> set (ks @ ks') \<Longrightarrow> sdb_view s'' k = sdb_view s k" by simp_all
  with assms show ?thesis unfolding sdb_step_def by metis
qed

definition sclient :: "(StateDB, 'r) prog \<Rightarrow> bool" where
  "sclient m \<longleftrightarrow> (\<forall>s. sdb_ready s \<longrightarrow> sdb_step s (snd (m s)))"

lemma sdb_Get_frame: "sdb_keys (snd (sdb_Get k s)) = sdb_keys s"
  by (auto simp: sdb_Get_def sdb_fallback_def sdb_store_get_def
      split: option.splits sum.splits store_reply.splits list.splits)

lemma sclient_Get [client_intros]: "sclient (sdb_Get k)"
  unfolding sclient_def
proof (intro allI impI)
  fix s assume "sdb_ready s"
  then have "store_answers s" "sdb_intx s" by (simp_all add: sdb_ready_def)
  with sdb_Get_run [of s k] sdb_Get_frame [of k s] show "sdb_step s (snd (sdb_Get k s))"
    by (auto simp: sdb_step_def sdb_ready_def split: option.splits)
qed

lemma sclient_Set [client_intros]: "sclient (sdb_Set k v)"
  by (auto simp: sclient_def sdb_step_def sdb_ready_def sdb_Set_def setmap_def sdb_defs Let_def
      fun_eq_iff split: option.splits)

subsection \<open>The local database\<close>

definition l_ok :: "LocalDB \<Rightarrow> bool" where
  "l_ok l \<longleftrightarrow> l_txid l \<noteq> 0 \<and> map_of (svcPtrs (l_svc l)) (l_txid l) \<noteq> None"

definition lclient :: "(LocalDB, 'r) prog \<Rightarrow> bool" where
  "lclient m \<longleftrightarrow> (\<forall>l. l_ok l \<longrightarrow> l_ok (snd (m l)))"

lemma map_of_update:
  "map_of (map (\<lambda>(i, q). if i = j then (i, p) else (i, q)) ps) =
     (\<lambda>i. if i = j then map_option (\<lambda>_. p) (map_of ps i) else map_of ps i)"
  by (induction ps) (auto simp: fun_eq_iff)

lemma with_ptr_dom [simp]:
  "map_of (svcPtrs (snd (with_ptr j m s))) i = None \<longleftrightarrow> map_of (svcPtrs s) i = None"
  by (auto simp: with_ptr_def map_of_update split: sum.split prod.split)

lemma lclient_api: "(\<And>s i. map_of (svcPtrs (snd (m s))) i = None \<longleftrightarrow> map_of (svcPtrs s) i = None) \<Longrightarrow> lclient (l_api m)"
  by (auto simp: lclient_def l_ok_def l_api_def case_prod_unfold)

lemma localGet_dom [simp]:
  "map_of (svcPtrs (snd (localGet j ks s))) i = None \<longleftrightarrow> map_of (svcPtrs s) i = None"
  by (simp add: localGet_def)

lemma localSet_dom [simp]:
  "map_of (svcPtrs (snd (localSet j kvs s))) i = None \<longleftrightarrow> map_of (svcPtrs s) i = None"
  by (simp add: localSet_def)

lemma l_ok_upd [simp]:
  "l_ok (l\<lparr>l_cache := c\<rparr>) = l_ok l" "l_ok (l\<lparr>l_txcache := t\<rparr>) = l_ok l" "l_ok (l\<lparr>l_keys := ks\<rparr>) = l_ok l"
  "l_ok (l\<lparr>l_intx := b\<rparr>) = l_ok l" "l_ok (l\<lparr>l_hasbegin := b\<rparr>) = l_ok l" "l_ok (l\<lparr>l_kvs := kvs\<rparr>) = l_ok l"
  "l_ok (l\<lparr>l_disableread := b\<rparr>) = l_ok l" "l_ok (l\<lparr>l_disablewrite := b\<rparr>) = l_ok l"
  by (simp_all add: l_ok_def)

lemma lclient_Get [client_intros]: "lclient (l_Get k)"
  unfolding lclient_def
proof (intro allI impI)
  fix l assume ok: "l_ok l"
  have "l_ok (snd (l_api (localGet (l_txid l) [k]) l))"
    using lclient_api [of "localGet (l_txid l) [k]"] ok by (simp add: lclient_def)
  then have "l_ok (snd (must (l_api (localGet (l_txid l) [k])) l))"
    by (auto simp: must_def split: prod.splits outcome.splits)
  then show "l_ok (snd (l_Get k l))"
    using ok by (auto simp: l_Get_def bind_def split: prod.splits outcome.splits option.splits list.splits)
qed

lemma lclient_Set [client_intros]: "lclient (l_Set k v)"
  by (auto simp: lclient_def l_Set_def Let_def)

subsection \<open>Programs over both\<close>

definition dgood :: "DrvSt \<Rightarrow> bool" where
  "dgood st \<longleftrightarrow> sdb_ready (dsState st) \<and> (\<forall>l. dsLocal st = Some l \<longrightarrow> l_ok l)"

definition dstep :: "DrvSt \<Rightarrow> DrvSt \<Rightarrow> bool" where
  "dstep st st' \<longleftrightarrow> sdb_step (dsState st) (dsState st') \<and>
     rel_option (\<lambda>_ l'. l_ok l') (dsLocal st) (dsLocal st')"

definition client :: "(DrvSt, 'r) prog \<Rightarrow> bool" where
  "client m \<longleftrightarrow> (\<forall>st. dgood st \<longrightarrow> dstep st (snd (m st)))"

lemma dstep_refl: "dgood st \<Longrightarrow> dstep st st"
  by (cases "dsLocal st") (auto simp: dstep_def dgood_def sdb_step_refl)

lemma dstep_good: "dstep st st' \<Longrightarrow> dgood st'"
  by (auto simp: dstep_def dgood_def sdb_step_def option_rel_Some2)

lemma dstep_trans: "dstep st st' \<Longrightarrow> dstep st' st'' \<Longrightarrow> dstep st st''"
  by (auto simp: dstep_def elim!: option.rel_cases intro: sdb_step_trans)

lemma client_on_state [client_intros]: "sclient m \<Longrightarrow> client (on_state m)"
  by (auto simp: client_def sclient_def on_state_def dgood_def dstep_def case_prod_unfold option.rel_sel)

lemma client_on_local [client_intros]: "lclient m \<Longrightarrow> client (on_local m)"
  by (auto simp: client_def lclient_def on_local_def dgood_def dstep_def case_prod_unfold
      sdb_step_refl split: option.split)

lemma client_basic [client_intros]: "client (ret a)" "client (fail er)" "client (panic p)" "client (liftO r)"
  by (simp_all add: client_def dstep_refl liftO_def)

lemma client_bind [client_intros]:
  assumes "client m" and "\<And>a. client (f a)"
  shows "client (bind m f)"
  unfolding client_def
proof (intro allI impI)
  fix st assume "dgood st"
  with assms(1) have s: "dstep st (snd (m st))" by (simp add: client_def)
  moreover have "dstep (snd (m st)) (snd (f a (snd (m st))))" for a
    using assms(2) dstep_good [OF s] by (simp add: client_def)
  ultimately show "dstep st (snd (bind m f st))"
    by (auto simp: bind_def split: prod.splits outcome.splits intro: dstep_trans)
qed

lemma snd_attempt [simp]: "snd (attempt m st) = snd (m st)"
  by (auto simp: attempt_def split: prod.splits outcome.splits)

lemma snd_must [simp]: "snd (must m st) = snd (m st)"
  by (auto simp: must_def split: prod.splits outcome.splits)

lemma snd_recover [simp]: "snd (recover_err er m st) = snd (m st)"
  by (auto simp: recover_err_def split: prod.splits outcome.splits)

lemma client_wrap [client_intros]:
  "client m \<Longrightarrow> client (attempt m)" "client m \<Longrightarrow> client (must m)" "client m \<Longrightarrow> client (recover_err er m)"
  by (simp_all add: client_def)

lemma sclient_basic [client_intros]: "sclient (ret a)" "sclient (fail er)" "sclient (panic p)" "sclient (liftO r)"
  by (simp_all add: sclient_def sdb_step_refl liftO_def)

lemma sclient_bind [client_intros]:
  assumes "sclient m" and "\<And>a. sclient (f a)"
  shows "sclient (bind m f)"
  unfolding sclient_def
proof (intro allI impI)
  fix s assume "sdb_ready s"
  with assms(1) have s: "sdb_step s (snd (m s))" by (simp add: sclient_def)
  moreover have "sdb_step (snd (m s)) (snd (f a (snd (m s))))" for a
    using assms(2) s by (simp add: sclient_def sdb_step_def)
  ultimately show "sdb_step s (snd (bind m f s))"
    by (auto simp: bind_def split: prod.splits outcome.splits intro: sdb_step_trans)
qed

lemma sclient_wrap [client_intros]: "sclient m \<Longrightarrow> sclient (attempt m)" "sclient m \<Longrightarrow> sclient (must m)"
  by (simp_all add: sclient_def)

lemma sclient_forM [client_intros]: "(\<And>x. sclient (f x)) \<Longrightarrow> sclient (forM xs f)"
  by (induction xs) (auto intro: client_intros)

lemma lclient_basic [client_intros]: "lclient (ret a)" "lclient (fail er)" "lclient (panic p)" "lclient (liftO r)"
  by (simp_all add: lclient_def liftO_def)

lemma lclient_bind [client_intros]: "lclient m \<Longrightarrow> (\<And>a. lclient (f a)) \<Longrightarrow> lclient (bind m f)"
  by (auto simp: lclient_def bind_def split: prod.splits outcome.splits)

lemma lclient_wrap [client_intros]: "lclient m \<Longrightarrow> lclient (attempt m)" "lclient m \<Longrightarrow> lclient (must m)"
  by (simp_all add: lclient_def)

subsection \<open>Programs that only read the state\<close>

definition sdb_same :: "StateDB \<Rightarrow> StateDB \<Rightarrow> bool" where
  "sdb_same s s' \<longleftrightarrow> store_answers s' \<and> sdb_view s' = sdb_view s \<and> sdb_base s' = sdb_base s \<and>
     sdb_intx s' = sdb_intx s \<and> sdb_height s' = sdb_height s \<and> sdb_keys s' = sdb_keys s"

definition dopen :: "DrvSt \<Rightarrow> bool" where
  "dopen st \<longleftrightarrow> store_answers (dsState st) \<and> (\<forall>l. dsLocal st = Some l \<longrightarrow> l_ok l)"

definition dsame :: "DrvSt \<Rightarrow> DrvSt \<Rightarrow> bool" where
  "dsame st st' \<longleftrightarrow> sdb_same (dsState st) (dsState st') \<and> rel_option (\<lambda>_ l'. l_ok l') (dsLocal st) (dsLocal st')"

definition reader :: "(DrvSt, 'r) prog \<Rightarrow> bool" where
  "reader m \<longleftrightarrow> (\<forall>st. dopen st \<longrightarrow> dsame st (snd (m st)))"

lemma dsame_refl: "dopen st \<Longrightarrow> dsame st st"
  by (cases "dsLocal st") (auto simp: dsame_def dopen_def sdb_same_def)

lemma dsame_open: "dsame st st' \<Longrightarrow> dopen st'"
  by (auto simp: dsame_def dopen_def sdb_same_def option_rel_Some2)

lemma dsame_trans: "dsame st st' \<Longrightarrow> dsame st' st'' \<Longrightarrow> dsame st st''"
  by (auto simp: dsame_def sdb_same_def elim!: option.rel_cases)

lemma reader_basic [client_intros]: "reader (ret a)" "reader (fail er)" "reader (panic p)" "reader (liftO r)"
  by (simp_all add: reader_def dsame_refl liftO_def)

lemma reader_bind [client_intros]:
  assumes "reader m" and "\<And>a. reader (f a)"
  shows "reader (bind m f)"
  unfolding reader_def
proof (intro allI impI)
  fix st assume "dopen st"
  with assms(1) have s: "dsame st (snd (m st))" by (simp add: reader_def)
  moreover have "dsame (snd (m st)) (snd (f a (snd (m st))))" for a
    using assms(2) dsame_open [OF s] by (simp add: reader_def)
  ultimately show "dsame st (snd (bind m f st))"
    by (auto simp: bind_def split: prod.splits outcome.splits intro: dsame_trans)
qed

lemma reader_wrap [client_intros]:
  "reader m \<Longrightarrow> reader (attempt m)" "reader m \<Longrightarrow> reader (must m)" "reader m \<Longrightarrow> reader (recover_err er m)"
  by (simp_all add: reader_def)

lemma reader_on_local [client_intros]: "lclient m \<Longrightarrow> reader (on_local m)"
  by (auto simp: reader_def lclient_def on_local_def dopen_def dsame_def case_prod_unfold
      sdb_same_def split: option.split)

lemma sdb_Get_same: "store_answers s \<Longrightarrow> sdb_same s (snd (sdb_Get k s))"
  using sdb_Get_run [of s k] sdb_Get_frame [of k s] by (auto simp: sdb_same_def split: option.splits)

lemma reader_Get [client_intros]: "reader (on_state (sdb_Get k))"
  using sdb_Get_same
  by (auto simp: reader_def on_state_def dopen_def dsame_def case_prod_unfold option.rel_sel)

lemma reader_client: "reader m \<Longrightarrow> client m"
  by (auto simp: reader_def client_def dopen_def dgood_def sdb_ready_def dsame_def dstep_def sdb_same_def sdb_step_def)

subsection \<open>Accounts\<close>

lemma coins_kv: "db (coinsAccount e) = StateDB_KV (systemFork (conf e)) (title (conf e))"
  by (simp add: coinsAccount_def NewCoinsAccount_def newAccountDB_def)

lemma sclient_kv [client_intros]:
  "sclient (kvGet (db (coinsAccount e)) k)" "sclient (kvSet (db (coinsAccount e)) k v)"
  by (simp_all add: coins_kv StateDB_KV_def client_intros)

lemma sclient_load [client_intros]:
  "sclient (LoadAccount (coinsAccount e) addr)" "sclient (LoadExecAccount (coinsAccount e) addr ea)"
  unfolding LoadAccount_def LoadExecAccount_def
  by (auto intro!: client_intros split: sum.splits option.splits)

lemma sclient_save [client_intros]:
  "sclient (SaveKVSet (coinsAccount e) kvs)" "sclient (SaveAccount (coinsAccount e) a)"
  "sclient (SaveExecAccount (coinsAccount e) ea a)"
  unfolding SaveKVSet_def SaveAccount_def SaveExecAccount_def
  by (auto intro!: client_intros)

lemma sclient_Transfer [client_intros]: "sclient (Transfer (coinsAccount e) from to amount)"
  unfolding Transfer_def Let_def by (auto intro!: client_intros)

lemma sclient_CheckTransfer [client_intros]: "sclient (CheckTransfer (coinsAccount e) from to amount)"
  unfolding CheckTransfer_def by (auto intro!: client_intros)

lemma sclient_ExecDeposit [client_intros]: "sclient (ExecDeposit (coinsAccount e) addr ea amount)"
  unfolding ExecDeposit_def Let_def by (auto intro!: client_intros)

lemma sclient_ExecWithdraw [client_intros]: "sclient (ExecWithdraw (coinsAccount e) ea addr amount)"
  unfolding ExecWithdraw_def Let_def by (auto intro!: client_intros)

lemma sclient_TransferToExec [client_intros]: "sclient (TransferToExec (coinsAccount e) from to amount)"
  unfolding TransferToExec_def by (auto intro!: client_intros)

lemma sclient_TransferWithdraw [client_intros]: "sclient (TransferWithdraw (coinsAccount e) from to amount)"
  unfolding TransferWithdraw_def by (auto intro!: client_intros)

lemma sclient_Genesis [client_intros]:
  "sclient (GenesisInit (coinsAccount e) addr amount)"
  "sclient (GenesisInitExec (coinsAccount e) addr amount ea)"
  unfolding GenesisInit_def GenesisInitExec_def Let_def
  by (auto intro!: client_intros split: sum.splits)

subsection \<open>The contract and the drivers of the system\<close>

locale driver =
  fixes drv :: Driver
  assumes CheckTx_reads: "reader (drvCheckTx drv d tx i)"
    and Exec_client: "client (drvExec drv d tx i)"
    and ExecLocal_reads: "reader (drvExecLocal drv d tx r i)"
begin

text \<open>What the executor runs of a driver between \<^verbatim>\<open>StartTx\<close> and the check of the keys.\<close>

lemma run_client: "client (bind (drvCheckTx drv d tx i) (\<lambda>_. drvExec drv d tx i))"
  by (intro client_bind reader_client CheckTx_reads Exec_client)

end

lemma client_base_Exec:
  "(\<And>n f v. funcmap n = Some f \<Longrightarrow> client (f v tx i)) \<Longrightarrow> client (base_Exec ety funcmap tx i)"
  unfolding base_Exec_def by (auto intro!: client_intros split: option.splits)

lemma reader_base_ExecLocal:
  "(\<And>n f v. funcmap n = Some f \<Longrightarrow> reader (f v tx r i)) \<Longrightarrow> reader (base_ExecLocal ety ok funcmap tx r i)"
  unfolding base_ExecLocal_def callLocal_def by (auto intro!: client_intros split: option.splits)

lemma reader_base_CheckTx [client_intros]: "reader (base_CheckTx e tx)"
  unfolding base_CheckTx_def by (auto intro!: client_intros)

lemma client_coins_run [client_intros]: "sclient m \<Longrightarrow> client (coins_run m)"
  unfolding coins_run_def by (auto intro!: client_intros)

lemma client_coins_exec:
  "client (Exec_Transfer e d p1 tx i)" "client (Exec_TransferToExec e d p2 tx i)"
  "client (Exec_Withdraw e d p3 tx i)" "client (Exec_Genesis e d p4 tx i)"
  unfolding Exec_Transfer_def Exec_TransferToExec_def Exec_Withdraw_def Exec_Genesis_def Let_def
  by (auto intro!: client_intros split: option.splits)

lemma lclient_updateAddrReciver [client_intros]: "lclient (updateAddrReciver e a n isadd)"
  unfolding updateAddrReciver_def getAddrReciver_def setAddrReciver_def Let_def
  by (auto intro!: client_intros split: sum.splits option.splits)

lemma reader_local_update [client_intros]: "reader (local_update e a n isadd)"
  unfolding local_update_def by (auto intro!: client_intros split: option.splits)

lemma client_modify [client_intros]:
  "sclient (modifyConfig e addr h m)" "client (Exec_Modify e d p tx i)"
  "reader (ExecLocal_Modify e r)" "reader (ExecDelLocal_Modify e r)"
  unfolding modifyConfig_def read_config_def Exec_Modify_def ExecLocal_Modify_def ExecDelLocal_Modify_def Let_def
  by (auto intro!: client_intros split: sum.splits option.splits)

interpretation none: driver "fst (newNone e)" for e
  by unfold_locales
    (auto simp: newNone_def intro!: client_intros client_base_Exec reader_base_ExecLocal)

interpretation coins: driver "fst (newCoins e)" for e
  by unfold_locales
    (auto simp: newCoins_def coins_CheckTx_def coins_exec_def coins_local_def client_coins_exec
      ExecLocal_Transfer_def ExecLocal_TransferToExec_def ExecLocal_Withdraw_def ExecLocal_Genesis_def
      ExecDelLocal_Transfer_def ExecDelLocal_TransferToExec_def ExecDelLocal_Withdraw_def
      intro!: client_intros client_base_Exec reader_base_ExecLocal split: if_splits CoinsPtr.splits)

interpretation manage: driver "fst (newManage e)" for e
  by unfold_locales
    (auto simp: newManage_def manage_exec_def manage_local_def
      intro!: client_intros client_base_Exec reader_base_ExecLocal split: if_splits)

end
