(* ===== verification/Executor.thy ===== *)
theory Executor
  imports DriverContract
begin

text \<open>
  The executor module, \<^verbatim>\<open>src/executor/execenv.go\<close>, \<^verbatim>\<open>allow.go\<close> and \<^verbatim>\<open>executor.go\<close>: how a list of
  transactions, each alone or in a group, is run against the state, what it pays, which keys it may
  write, and what its receipts are. The struct \<^verbatim>\<open>executor\<close> is the state of the programs; \<open>e\<close> holds the
  tables and settings of the node and \<open>reg\<close> the registered drivers. Logging has no counterpart.
\<close>

record executorCtx =
  cx_stateHash :: bytes
  cx_height :: int
  cx_blocktime :: int
  cx_difficulty :: int
  cx_parentHash :: bytes
  cx_mainHash :: bytes
  cx_mainHeight :: int

record executor =
  x_db :: DrvSt
  x_execCache :: "string \<rightharpoonup> Driver \<times> DriverBase"
  x_ctx :: executorCtx
  x_txs :: "Transaction list"
  x_receipts :: "ReceiptData list"

abbreviation x_height :: "executor \<Rightarrow> int" where
  "x_height x \<equiv> cx_height (x_ctx x)"

text \<open>The settings of \<^verbatim>\<open>Executor\<close> and the modules it reaches: the store and the table of versions.\<close>

record Executor =
  disableLocal :: bool
  ex_store :: "(bytes \<Rightarrow> bytes \<Rightarrow> store_reply) option"
  ex_mvcc :: bool
  ex_GetVersion :: "bytes \<Rightarrow> error + int"
  ex_GetV :: "bytes \<Rightarrow> int \<Rightarrow> error + bytes"

definition newExecutor ::
  "executorCtx \<Rightarrow> Executor \<Rightarrow> LocalDB option \<Rightarrow> Transaction list \<Rightarrow> ReceiptData list \<Rightarrow> executor" where
  "newExecutor ctx exec localdb txs receipts =
     \<lparr>x_db = \<lparr>dsState = NewStateDB (ex_store exec) (cx_stateHash ctx) (ex_GetVersion exec) (ex_GetV exec)
                           (Some (ex_mvcc exec, cx_height ctx)),
               dsLocal = localdb\<rparr>,
      x_execCache = Map.empty, x_ctx = ctx, x_txs = txs, x_receipts = receipts\<rparr>"

definition on_db :: "(DrvSt, 'r) prog \<Rightarrow> (executor, 'r) prog" where
  "on_db m x = (case m (x_db x) of (r, st) \<Rightarrow> (r, x\<lparr>x_db := st\<rparr>))"

definition with_x :: "(executor \<Rightarrow> (executor, 'r) prog) \<Rightarrow> (executor, 'r) prog" where
  "with_x f x = f x x"

abbreviation (input) TyLogErr :: int where "TyLogErr \<equiv> 1"
abbreviation (input) TyLogFee :: int where "TyLogFee \<equiv> 2"
abbreviation (input) ExecErr :: int where "ExecErr \<equiv> 0"
abbreviation (input) ExecPack :: int where "ExecPack \<equiv> 1"

definition IsGrpcError :: "error option \<Rightarrow> bool" where
  "IsGrpcError er =
     (case er of
        None \<Rightarrow> False
      | Some ErrAPIEnv \<Rightarrow> True
      | Some (ErrGrpc _) \<Rightarrow> True
      | _ \<Rightarrow> False)"

definition IsQueueError :: "error option \<Rightarrow> bool" where
  "IsQueueError er \<longleftrightarrow>
     er = Some ErrAPIEnv \<or> er = Some ErrQueueTimeout \<or> er = Some ErrQueueChannelFull \<or> er = Some ErrIsQueueClosed"

definition IsAPIEnvError :: "error option \<Rightarrow> bool" where
  "IsAPIEnvError er \<longleftrightarrow> IsGrpcError er \<or> IsQueueError er"

definition NewErrReceipt :: "'a dapp_env_scheme \<Rightarrow> error \<Rightarrow> Receipt" where
  "NewErrReceipt e er = \<lparr>Ty = ExecErr, KV = [], Logs = [\<lparr>LogTy = TyLogErr, Log = errText e er\<rparr>]\<rparr>"

subsection \<open>Drivers of an executor\<close>

definition setEnv :: "executor \<Rightarrow> DriverBase \<Rightarrow> DriverBase" where
  "setEnv x d =
     (let c = x_ctx x;
          d1 = SetBlockInfo (cx_parentHash c) (cx_mainHash c) (cx_mainHeight c)
                 (SetEnv (cx_height c) (cx_blocktime c) (cx_difficulty c) d)
      in d1\<lparr>d_txs := x_txs x, d_receipts := x_receipts x\<rparr>)"

definition loadDriver :: "Registry \<Rightarrow> Transaction \<Rightarrow> int \<Rightarrow> (executor, Driver \<times> DriverBase) prog" where
  "loadDriver reg tx index x =
     (case x_execCache x (Execer tx) of
        Some exec \<Rightarrow> ret exec x
      | None \<Rightarrow>
          bind (liftO (LoadDriverAllow reg tx index (x_height x)))
            (\<lambda>(exec, d) x. let inst = (exec, setEnv x d)
                           in ret inst (x\<lparr>x_execCache := (x_execCache x)(Execer tx \<mapsto> inst)\<rparr>)) x)"

definition getRealExecName :: "Registry \<Rightarrow> Transaction \<Rightarrow> int \<Rightarrow> (executor, bytes) prog" where
  "getRealExecName reg tx index =
     bind (loadDriver reg tx index) (\<lambda>(exec, d).
       ret (if GetDriverName exec \<noteq> ''none'' then GetDriverName exec else Execer tx))"

subsection \<open>Checks\<close>

definition MinFee :: "'a dapp_env_scheme \<Rightarrow> int" where
  "MinFee e = GInt (conf e) ''MinFee''"

definition exec_checkTx :: "'a dapp_env_scheme \<Rightarrow> Registry \<Rightarrow> Transaction \<Rightarrow> int \<Rightarrow> (executor, unit) prog" where
  "exec_checkTx e reg tx index = with_x (\<lambda>x.
     bind (liftO (if x_height x > 0 \<and> cx_blocktime (x_ctx x) > 0
                  then Tx_IsExpire e tx (x_height x) (cx_blocktime (x_ctx x)) else Ret False)) (\<lambda>expired.
     if expired then fail ErrTxExpire
     else bind (liftO (Tx_Check e (x_height x) (MinFee e) (GInt (conf e) ''MaxFee'') tx)) (\<lambda>_.
       bind (getRealExecName reg tx index) (\<lambda>name.
         if \<not> IsAllowExecName (AllowUserExec e) name (Execer tx) then fail ErrExecNameNotAllow else ret ()))))"

definition checkTxGroup :: "'a dapp_env_scheme \<Rightarrow> Transaction list \<Rightarrow> (executor, unit) prog" where
  "checkTxGroup e txs = with_x (\<lambda>x.
     bind (liftO (if x_height x > 0 \<and> cx_blocktime (x_ctx x) > 0
                  then Group_IsExpire e txs (x_height x) (cx_blocktime (x_ctx x)) else Ret False)) (\<lambda>expired.
     if expired then fail ErrTxExpire
     else liftO (Group_Check e (x_height x) (MinFee e) (GInt (conf e) ''MaxFee'') (map Some txs))))"

definition LoadCoins :: "'a dapp_env_scheme \<Rightarrow> string \<Rightarrow> (executor, Account) prog" where
  "LoadCoins e addr = on_db (on_state (LoadAccount (coinsAccount e) addr))"

definition execCheckTx :: "'a dapp_env_scheme \<Rightarrow> Registry \<Rightarrow> Transaction \<Rightarrow> int \<Rightarrow> (executor, unit) prog" where
  "execCheckTx e reg tx index =
     bind (exec_checkTx e reg tx index) (\<lambda>_.
       case address_CheckAddress e (To tx) of
         Some er \<Rightarrow> fail er
       | None \<Rightarrow>
           bind (loadDriver reg tx index) (\<lambda>(exec, d).
           bind (if \<not> d_isFree d \<and> MinFee e > 0 then
                   bind (LoadCoins e (Tx_From e tx)) (\<lambda>accFrom.
                   bind (liftO (GetTxFee e tx)) (\<lambda>fee.
                     if Balance accFrom < fee then fail ErrNoBalance
                     else if Balance accFrom < GInt (conf e) ''MinBalanceTransfer'' then fail ErrBalanceLessThanTenTimesFee
                     else ret ()))
                 else ret ()) (\<lambda>_.
             on_db (drvCheckTx exec d tx index))))"

subsection \<open>Fees\<close>

definition cutFeeReceipt :: "'a dapp_env_scheme \<Rightarrow> KeyValue list \<Rightarrow> LogMsg \<Rightarrow> Receipt" where
  "cutFeeReceipt e kvset receiptBalance =
     \<lparr>Ty = ExecPack, KV = kvset, Logs = [\<lparr>LogTy = TyLogFee, Log = EncodeLog (accPb e) receiptBalance\<rparr>]\<rparr>"

definition processFee :: "'a dapp_env_scheme \<Rightarrow> Transaction \<Rightarrow> (executor, Receipt) prog" where
  "processFee e tx =
     bind (LoadCoins e (Tx_From e tx)) (\<lambda>copyfrom.
       if i64 (Balance copyfrom - Fee tx) \<ge> 0 then
         (let accFrom = copyfrom\<lparr>Balance := i64 (Balance copyfrom - Fee tx)\<rparr>;
              kvset = GetKVSet (coinsAccount e) accFrom
          in bind (on_db (on_state (SaveKVSet (coinsAccount e) kvset))) (\<lambda>_.
               ret (cutFeeReceipt e kvset (ReceiptAccountTransfer copyfrom accFrom))))
       else fail ErrNoBalance)"

definition execFee :: "'a dapp_env_scheme \<Rightarrow> Registry \<Rightarrow> Transaction \<Rightarrow> int \<Rightarrow> (executor, Receipt) prog" where
  "execFee e reg tx index =
     bind (loadDriver reg tx index) (\<lambda>(ex, d).
     bind (liftO (ExecPubkey (addr_env.truncate e) (Execer tx))) (\<lambda>pub.
     bind (if pub = (case txSignature tx of None \<Rightarrow> [] | Some sg \<Rightarrow> sigPubkey sg)
           then on_db (drvCheckTx ex d tx index) else ret ()) (\<lambda>_.
       if \<not> isPara (conf e) \<and> MinFee e > 0 \<and> \<not> d_isFree d then processFee e tx
       else ret \<lparr>Ty = ExecPack, KV = [], Logs = []\<rparr>)))"

subsection \<open>Memory transactions\<close>

definition if_local :: "(LocalDB, unit) prog \<Rightarrow> (DrvSt, unit) prog" where
  "if_local m st = (case dsLocal st of None \<Rightarrow> ret () st | Some _ \<Rightarrow> on_local m st)"

definition if_rollback_fork :: "'a dapp_env_scheme \<Rightarrow> (executor, unit) prog \<Rightarrow> (executor, unit) prog" where
  "if_rollback_fork e m = with_x (\<lambda>x.
     bind (liftO (isFork e (x_height x) ''ForkExecRollback'')) (\<lambda>fork. if fork then m else ret ()))"

definition x_begin :: "'a dapp_env_scheme \<Rightarrow> (executor, unit) prog" where
  "x_begin e = if_rollback_fork e (on_db
     (bind (on_state (sdb_Begin (systemFork (conf e)) (title (conf e)))) (\<lambda>_.
        if_local (\<lambda>l. ret () (l_Begin l)))))"

definition x_commit :: "'a dapp_env_scheme \<Rightarrow> (executor, unit) prog" where
  "x_commit e = if_rollback_fork e (on_db
     (bind (on_state (sdb_Commit (systemFork (conf e)) (title (conf e)))) (\<lambda>_. if_local l_Commit)))"

definition x_rollback :: "'a dapp_env_scheme \<Rightarrow> (executor, unit) prog" where
  "x_rollback e = if_rollback_fork e (on_db (bind (on_state sdb_Rollback) (\<lambda>_. if_local l_Rollback)))"

definition x_startTx :: "(executor, unit) prog" where
  "x_startTx = on_db (bind (on_state (\<lambda>s. ret () (sdb_StartTx s))) (\<lambda>_. if_local (\<lambda>l. ret () (l_StartTx l))))"

subsection \<open>Running one transaction\<close>

definition set_access :: "bool \<Rightarrow> bool \<Rightarrow> LocalDB \<Rightarrow> LocalDB" where
  "set_access disable order l =
     (if disable then (if order then DisableRead (DisableWrite l) else DisableWrite l)
      else (if order then EnableRead (EnableWrite l) else EnableWrite l))"

text \<open>The local database is closed to the driver while it runs; the deferred call opens it again.\<close>

definition guard_local :: "bool \<Rightarrow> bool \<Rightarrow> (DrvSt, 'r) prog \<Rightarrow> (DrvSt, 'r) prog" where
  "guard_local on order body st =
     (if on then
        (case body (st\<lparr>dsLocal := map_option (set_access True order) (dsLocal st)\<rparr>) of
           (r, st') \<Rightarrow> (r, st'\<lparr>dsLocal := map_option (set_access False order) (dsLocal st')\<rparr>))
      else body st)"

definition x_Exec :: "'a dapp_env_scheme \<Rightarrow> Registry \<Rightarrow> Transaction \<Rightarrow> int \<Rightarrow> (executor, Receipt option) prog" where
  "x_Exec e reg tx index =
     bind (loadDriver reg tx index) (\<lambda>(exec, d). with_x (\<lambda>x.
     bind (liftO (obind (GetRealToAddr e tx) (\<lambda>to. dapp_CheckAddress e to (x_height x)))) (\<lambda>_.
     bind (liftO (if dsLocal (x_db x) \<noteq> None then isFork e (x_height x) ''ForkLocalDBAccess'' else Ret False)) (\<lambda>access.
       on_db (guard_local access (drvExecutorOrder exec d \<noteq> ExecLocalSameTime)
         (bind (drvCheckTx exec d tx index) (\<lambda>_. drvExec exec d tx index)))))))"

definition checkKV :: "bytes list \<Rightarrow> KeyValue list \<Rightarrow> error option" where
  "checkKV memset kvs =
     (if \<exists>key \<in> set memset. key \<notin> Key ` set kvs then Some ErrNotAllowMemSetKey else None)"

definition isAllowKeyWrite ::
  "'a dapp_env_scheme \<Rightarrow> Registry \<Rightarrow> bytes \<Rightarrow> bytes \<Rightarrow> Transaction \<Rightarrow> int \<Rightarrow> (executor, bool) prog" where
  "isAllowKeyWrite e reg key realExecer tx index =
     (case FindExecer key of
        Inl _ \<Rightarrow> ret False
      | Inr keyExecer \<Rightarrow>
          (let exec = GetParaExec (conf e) (Execer tx) in
           if keyExecer = exec then ret True
           else with_x (\<lambda>x.
             bind (liftO (isFork e (x_height x) ''ForkExecKey'')) (\<lambda>fork.
             if \<not> fork \<and> exec = ''manage'' \<and> keyExecer = ''config'' then ret True
             else if \<not> fork \<and> exec = ''token'' \<and> HasPrefix key ''mavl-create-token-'' then ret True
             else
               bind (liftO (case GetExecKey key of
                              None \<Rightarrow> Ret False
                            | Some a \<Rightarrow> obind (dapp_ExecAddress e (Execer tx)) (\<lambda>b. Ret (a = b)))) (\<lambda>own.
               if own then ret True
               else
                 bind (liftO (case GetExecKey key of
                                None \<Rightarrow> Ret False
                              | Some a \<Rightarrow> obind (dapp_ExecAddress e realExecer) (\<lambda>b. Ret (a = b)))) (\<lambda>real.
                 let execdriver = (if real then realExecer else keyExecer) in
                 bind (loadDriver reg \<lparr>Execer = execdriver, Payload = [], txSignature = None, Fee = 0, Expire = 0,
                         Nonce = 0, To = [], GroupCount = 0, Header = None, Next = None\<rparr> index) (\<lambda>(c, d).
                   ret (drvIsFriend c d execdriver key tx))))))))"

definition isAllowExec :: "'a dapp_env_scheme \<Rightarrow> Registry \<Rightarrow> bytes \<Rightarrow> Transaction \<Rightarrow> int \<Rightarrow> (executor, bool) prog" where
  "isAllowExec e reg key tx index =
     bind (getRealExecName reg tx index) (\<lambda>realExecer. isAllowKeyWrite e reg key realExecer tx index)"

definition add_errlog :: "'a dapp_env_scheme \<Rightarrow> Receipt \<Rightarrow> error \<Rightarrow> Receipt" where
  "add_errlog e feelog er = feelog\<lparr>Logs := Logs feelog @ [\<lparr>LogTy = TyLogErr, Log = errText e er\<rparr>]\<rparr>"

fun checkKeyAllow ::
  "'a dapp_env_scheme \<Rightarrow> Registry \<Rightarrow> Receipt \<Rightarrow> Transaction \<Rightarrow> int \<Rightarrow> KeyValue list \<Rightarrow>
   (executor, Receipt \<times> error option) prog" where
  "checkKeyAllow e reg feelog tx index [] = ret (feelog, None)"
| "checkKeyAllow e reg feelog tx index (kv # kvs) =
     bind (isAllowExec e reg (Key kv) tx index) (\<lambda>allow.
       if \<not> allow then ret (add_errlog e feelog ErrNotAllowKey, Some ErrNotAllowKey)
       else checkKeyAllow e reg feelog tx index kvs)"

fun checkPrefix :: "bytes \<Rightarrow> KeyValue list \<Rightarrow> unit outcome" where
  "checkPrefix ex [] = Ret ()"
| "checkPrefix ex (kv # kvs) = (if isAllowLocalKey ex (Key kv) \<noteq> None then Panic ''err'' else checkPrefix ex kvs)"

definition execLocal :: "Registry \<Rightarrow> Transaction \<Rightarrow> ReceiptData \<Rightarrow> int \<Rightarrow> (executor, LocalDBSet) prog" where
  "execLocal reg tx r index = bind (loadDriver reg tx index) (\<lambda>(exec, d). on_db (drvExecLocal exec d tx r index))"

definition execDelLocal :: "Registry \<Rightarrow> Transaction \<Rightarrow> ReceiptData \<Rightarrow> int \<Rightarrow> (executor, LocalDBSet) prog" where
  "execDelLocal reg tx r index = bind (loadDriver reg tx index) (\<lambda>(exec, d). on_db (drvExecDelLocal exec d tx r index))"

definition execLocalTx :: "Registry \<Rightarrow> Transaction \<Rightarrow> ReceiptData \<Rightarrow> int \<Rightarrow> (executor, LocalDBSet) prog" where
  "execLocalTx reg tx r index =
     bind (attempt (execLocal reg tx r index)) (\<lambda>res.
       case res of
         Inl er \<Rightarrow> if er = ErrActionNotSupport then ret None else fail er
       | Inr kv \<Rightarrow>
           bind (on_db (on_local (\<lambda>l. ret (l_GetSetKeys l) l))) (\<lambda>memkvset.
             case kv of
               Some kvs \<Rightarrow>
                 if checkKV memkvset kvs \<noteq> None then fail ErrNotAllowMemSetLocalKey
                 else bind (liftO (checkPrefix (Execer tx) kvs)) (\<lambda>_.
                   bind (on_db (on_local (forM kvs (\<lambda>kv. must (l_Set (Key kv) (Val kv)))))) (\<lambda>_. ret kv))
             | None \<Rightarrow> if length memkvset > 0 then fail ErrNotAllowMemSetLocalKey else ret kv))"

definition execLocalSameTime :: "Registry \<Rightarrow> Transaction \<Rightarrow> Receipt \<Rightarrow> int \<Rightarrow> (executor, unit) prog" where
  "execLocalSameTime reg tx receipt index =
     bind (loadDriver reg tx index) (\<lambda>(exec, d).
       if drvExecutorOrder exec d = ExecLocalSameTime
       then bind (execLocalTx reg tx \<lparr>rdTy = Ty receipt, rdLogs = Logs receipt\<rparr> index) (\<lambda>_. ret ())
       else ret ())"

definition merge_fee :: "Receipt \<Rightarrow> Receipt option \<Rightarrow> Receipt" where
  "merge_fee feelog receipt =
     (case receipt of
        None \<Rightarrow> feelog
      | Some r \<Rightarrow> \<lparr>Ty = Ty r, KV = KV feelog @ KV r, Logs = Logs feelog @ Logs r\<rparr>)"

definition receipt_kvs :: "Receipt option \<Rightarrow> KeyValue list" where
  "receipt_kvs receipt = (case receipt of None \<Rightarrow> [] | Some r \<Rightarrow> KV r)"

definition set_all :: "'a dapp_env_scheme \<Rightarrow> KeyValue list \<Rightarrow> (executor, unit) prog" where
  "set_all e kvs = with_x (\<lambda>x.
     bind (liftO (isFork e (x_height x) ''ForkStateDBSet'')) (\<lambda>fork.
       if fork then on_db (on_state (forM kvs (\<lambda>v. must (sdb_Set (Key v) (Val v))))) else ret ()))"

text \<open>The value of \<^verbatim>\<open>execTxOne\<close> is the receipt and the error; its errors are values.\<close>

definition execTxOne ::
  "'a dapp_env_scheme \<Rightarrow> Registry \<Rightarrow> Receipt \<Rightarrow> Transaction \<Rightarrow> int \<Rightarrow> (executor, Receipt \<times> error option) prog" where
  "execTxOne e reg feelog tx index =
     bind x_startTx (\<lambda>_.
     bind (attempt (x_Exec e reg tx index)) (\<lambda>res.
       case res of
         Inl er \<Rightarrow> ret (add_errlog e feelog er, Some er)
       | Inr receipt \<Rightarrow>
           bind (on_db (on_state (\<lambda>s. ret (sdb_GetSetKeys s) s))) (\<lambda>memkvset.
             case checkKV memkvset (receipt_kvs receipt) of
               Some er \<Rightarrow> ret (add_errlog e feelog er, Some er)
             | None \<Rightarrow>
                 bind (checkKeyAllow e reg feelog tx index (receipt_kvs receipt)) (\<lambda>(feelog1, err).
                   case err of
                     Some er \<Rightarrow> ret (feelog1, Some er)
                   | None \<Rightarrow>
                       bind (attempt (execLocalSameTime reg tx feelog1 index)) (\<lambda>res2.
                         case res2 of
                           Inl er \<Rightarrow> ret (add_errlog e feelog1 er, Some er)
                         | Inr _ \<Rightarrow>
                             bind (set_all e (KV (merge_fee feelog1 receipt))) (\<lambda>_.
                               ret (merge_fee feelog1 receipt, None)))))))"

definition execTx :: "'a dapp_env_scheme \<Rightarrow> Registry \<Rightarrow> Transaction \<Rightarrow> int \<Rightarrow> (executor, Receipt) prog" where
  "execTx e reg tx index = with_x (\<lambda>x.
     if x_height x = 0 then
       bind (must (x_Exec e reg tx index)) (\<lambda>receipt.
         case receipt of None \<Rightarrow> panic ''genesis block: executor not exist'' | Some r \<Rightarrow> ret r)
     else
       bind (exec_checkTx e reg tx index) (\<lambda>_.
       bind (execFee e reg tx index) (\<lambda>feelog.
       bind (x_begin e) (\<lambda>_.
       bind (execTxOne e reg feelog tx index) (\<lambda>(feelog1, err).
       bind (if err \<noteq> None then x_rollback e else x_commit e) (\<lambda>_.
         case err of
           Some er \<Rightarrow> if IsAPIEnvError (Some er) then fail er else ret feelog1
         | None \<Rightarrow> ret feelog1))))))"

subsection \<open>Running a group\<close>

definition packed :: Receipt where
  "packed = \<lparr>Ty = ExecPack, KV = [], Logs = []\<rparr>"

text \<open>
  The loop over \<^verbatim>\<open>txs[1:]\<close>: the receipts of the transactions run so far and, when one failed, its
  error. The receipts of those that are not reached stay \<open>packed\<close>.
\<close>

fun exec_rest ::
  "'a dapp_env_scheme \<Rightarrow> Registry \<Rightarrow> int \<Rightarrow> Transaction list \<Rightarrow> (executor, Receipt list \<times> (Receipt \<times> error) option) prog" where
  "exec_rest e reg index [] = ret ([], None)"
| "exec_rest e reg index (tx # txs) =
     bind (execTxOne e reg packed tx index) (\<lambda>(r, err).
       case err of
         Some er \<Rightarrow> ret ([], Some (r, er))
       | None \<Rightarrow> bind (exec_rest e reg (index + 1) txs) (\<lambda>(rs, failed). ret (r # rs, failed)))"

definition execTxGroup :: "'a dapp_env_scheme \<Rightarrow> Registry \<Rightarrow> Transaction list \<Rightarrow> int \<Rightarrow> (executor, Receipt list) prog" where
  "execTxGroup e reg txs index =
     bind (checkTxGroup e txs) (\<lambda>_.
     bind (execFee e reg (txs ! 0) index) (\<lambda>feelog.
     bind (x_begin e) (\<lambda>_.
     bind (execTxOne e reg feelog (txs ! 0) index) (\<lambda>(r0, err). with_x (\<lambda>x.
       case err of
         Some er \<Rightarrow>
           if IsAPIEnvError (Some er) then fail er
           else bind (liftO (isFork e (x_height x) ''ForkExecRollback'')) (\<lambda>fork.
             bind (if fork then x_rollback e else ret ()) (\<lambda>_.
               ret (r0 # replicate (length txs - 1) packed)))
       | None \<Rightarrow>
           bind (exec_rest e reg (index + 1) (tl txs)) (\<lambda>(rs, failed).
             case failed of
               Some (rf, er) \<Rightarrow>
                 if IsAPIEnvError (Some er) then fail er
                 else bind (liftO (isFork e (x_height x) ''ForkResetTx0'')) (\<lambda>fork.
                   bind (x_rollback e) (\<lambda>_.
                     ret ((if fork then feelog else r0) # replicate (length rs) packed @ rf #
                            replicate (length txs - 2 - length rs) packed)))
             | None \<Rightarrow> bind (x_commit e) (\<lambda>_. ret (r0 # rs))))))))"

subsection \<open>Lists of transactions (executor.go)\<close>

text \<open>
  The loop of \<^verbatim>\<open>procExecTxList\<close> over the transactions that are left. An error ends the list: it is
  the reply instead of the receipts.
\<close>

function exec_list ::
  "'a dapp_env_scheme \<Rightarrow> Registry \<Rightarrow> int \<Rightarrow> Transaction list \<Rightarrow> (executor, Receipt list) prog" where
  "exec_list e reg index [] = ret []"
| "exec_list e reg index (tx # txs) =
     (if GroupCount tx < 0 \<or> GroupCount tx = 1 \<or> GroupCount tx > 20 then
        bind (exec_list e reg index txs) (\<lambda>rs. ret (NewErrReceipt e ErrTxGroupCount # rs))
      else if GroupCount tx = 0 then
        bind (attempt (execTx e reg tx index)) (\<lambda>res.
          case res of
            Inl er \<Rightarrow>
              if IsAPIEnvError (Some er) then fail er
              else bind (exec_list e reg index txs) (\<lambda>rs. ret (NewErrReceipt e er # rs))
          | Inr receipt \<Rightarrow> bind (exec_list e reg (index + 1) txs) (\<lambda>rs. ret (receipt # rs)))
      else with_x (\<lambda>x. bind (liftO (isFork e (x_height x) ''ForkTxGroup'')) (\<lambda>fork.
        if \<not> fork then
          bind (exec_list e reg index txs) (\<lambda>rs. ret (NewErrReceipt e ErrTxGroupNotSupport # rs))
        else if nat (GroupCount tx) > Suc (length txs) then
          bind (exec_list e reg index txs) (\<lambda>rs. ret (NewErrReceipt e ErrTxGroupCount # rs))
        else
          (let n = nat (GroupCount tx); group1 = tx # take (n - 1) txs; rest = drop (n - 1) txs in
           bind (attempt (execTxGroup e reg group1 index)) (\<lambda>res.
             case res of
               Inl er \<Rightarrow>
                 if IsAPIEnvError (Some er) then fail er
                 else bind (exec_list e reg index rest) (\<lambda>rs. ret (replicate n (NewErrReceipt e er) @ rs))
             | Inr receiptlist \<Rightarrow>
                 if length receiptlist > 0 \<and> length receiptlist \<noteq> n
                 then panic ''len(receiptlist) must be equal tx.GroupCount''
                 else bind (exec_list e reg (index + int n) rest) (\<lambda>rs. ret (receiptlist @ rs)))))))"
  by pat_completeness auto
termination by (relation "measure (\<lambda>(e, reg, index, txs). length txs)") auto

datatype 'r exec_reply = Reply 'r | ReplyErr error

text \<open>A handler: its own local database, closed at the end, and the deferred \<^verbatim>\<open>recover\<close>.\<close>

definition with_executor ::
  "executorCtx \<Rightarrow> Executor \<Rightarrow> Transaction list \<Rightarrow> ReceiptData list \<Rightarrow> (executor, 'r) prog \<Rightarrow>
   LocalSvc \<Rightarrow> 'r exec_reply \<times> LocalSvc" where
  "with_executor ctx exec txs receipts body svc =
     (case (if disableLocal exec then Ret None
            else case NewLocalDB svc of Ret l \<Rightarrow> Ret (Some l) | Err er \<Rightarrow> Err er | Panic p \<Rightarrow> Panic p) of
        Ret localdb \<Rightarrow>
          (case body (newExecutor ctx exec localdb txs receipts) of
             (r, x) \<Rightarrow>
               ((case r of Ret a \<Rightarrow> Reply a | Err er \<Rightarrow> ReplyErr er | Panic _ \<Rightarrow> ReplyErr ErrExecPanic),
                (case dsLocal (x_db x) of None \<Rightarrow> svc | Some l \<Rightarrow> l_svc (snd (l_Close l)))))
      | _ \<Rightarrow> (ReplyErr ErrExecPanic, svc))"

record ExecTxList =
  xl_ctx :: executorCtx
  xl_Txs :: "Transaction list"
  xl_IsMempool :: bool

definition procExecTxList ::
  "'a dapp_env_scheme \<Rightarrow> Registry \<Rightarrow> Executor \<Rightarrow> ExecTxList \<Rightarrow> LocalSvc \<Rightarrow> Receipt list exec_reply \<times> LocalSvc" where
  "procExecTxList e reg exec datas =
     with_executor (xl_ctx datas) exec (xl_Txs datas) []
       (bind (on_db (on_state (enableMVCC None))) (\<lambda>_. exec_list e reg 0 (xl_Txs datas)))"

fun check_list :: "'a dapp_env_scheme \<Rightarrow> Registry \<Rightarrow> bool \<Rightarrow> int \<Rightarrow> Transaction list \<Rightarrow> (executor, bytes list) prog" where
  "check_list e reg mempool i [] = ret []"
| "check_list e reg mempool i (tx # txs) =
     bind (attempt (execCheckTx e reg tx (if mempool then -1 else i))) (\<lambda>res.
     bind (check_list e reg mempool (i + 1) txs) (\<lambda>errs.
       ret ((case res of Inl er \<Rightarrow> errText e er | Inr _ \<Rightarrow> []) # errs)))"

definition procExecCheckTx ::
  "'a dapp_env_scheme \<Rightarrow> Registry \<Rightarrow> Executor \<Rightarrow> ExecTxList \<Rightarrow> LocalSvc \<Rightarrow> bytes list exec_reply \<times> LocalSvc" where
  "procExecCheckTx e reg exec datas =
     with_executor (xl_ctx datas) exec (xl_Txs datas) []
       (bind (on_db (on_state (enableMVCC None))) (\<lambda>_. check_list e reg (xl_IsMempool datas) 0 (xl_Txs datas)))"

end
