(* ===== verification/ExecutorRun.thy ===== *)
theory ExecutorRun
  imports Executor
begin

text \<open>
  How the executor's programs move its state: which only read the state database, which write it
  inside a memory transaction, and what a transaction leaves behind. The drivers are known only by
  the locale \<open>driver\<close>.
\<close>

named_theorems xreader_intros \<open>executor programs that leave what the state shows unchanged\<close>

subsection \<open>Executors whose drivers keep the contract\<close>

definition reg_drvs :: "Registry \<Rightarrow> Driver set" where
  "reg_drvs reg = (fst \<circ> create) ` ran (registedExecDriver reg)"

text \<open>Whether some registered driver lets its transactions pay nothing.\<close>

definition reg_free :: "Registry \<Rightarrow> bool" where
  "reg_free reg \<longleftrightarrow> (\<exists>c \<in> ran (registedExecDriver reg). d_isFree (snd (create c)))"

definition reg_ok :: "Registry \<Rightarrow> bool" where
  "reg_ok reg \<longleftrightarrow> (\<forall>c \<in> reg_drvs reg. driver c)"

definition cache_ok :: "Registry \<Rightarrow> executor \<Rightarrow> bool" where
  "cache_ok reg x \<longleftrightarrow>
     (\<forall>i \<in> ran (x_execCache x). fst i \<in> reg_drvs reg \<and> (d_isFree (snd i) \<longrightarrow> reg_free reg))"

definition xopen :: "Registry \<Rightarrow> executor \<Rightarrow> bool" where
  "xopen reg x \<longleftrightarrow> dopen (x_db x) \<and> cache_ok reg x"

definition xsame :: "Registry \<Rightarrow> executor \<Rightarrow> executor \<Rightarrow> bool" where
  "xsame reg x x' \<longleftrightarrow> dsame (x_db x) (x_db x') \<and> cache_ok reg x' \<and> x_ctx x' = x_ctx x"

definition xreader :: "Registry \<Rightarrow> (executor, 'r) prog \<Rightarrow> bool" where
  "xreader reg m \<longleftrightarrow> (\<forall>x. xopen reg x \<longrightarrow> xsame reg x (snd (m x)))"

lemma cache_ok_upd [simp]: "cache_ok reg (x\<lparr>x_db := st\<rparr>) = cache_ok reg x"
  by (simp add: cache_ok_def)

lemma xsame_refl: "xopen reg x \<Longrightarrow> xsame reg x x"
  by (simp add: xsame_def xopen_def dsame_refl)

lemma xsame_open: "xsame reg x x' \<Longrightarrow> xopen reg x'"
  by (auto simp: xsame_def xopen_def intro: dsame_open)

lemma xsame_trans: "xsame reg x x' \<Longrightarrow> xsame reg x' x'' \<Longrightarrow> xsame reg x x''"
  by (auto simp: xsame_def intro: dsame_trans)

lemma xreader_basic [xreader_intros]: "xreader reg (ret a)" "xreader reg (fail er)" "xreader reg (panic p)" "xreader reg (liftO r)"
  "xreader reg (Pair r)"
  by (simp_all add: xreader_def xsame_refl liftO_def)

lemma xreader_bind [xreader_intros]:
  assumes "xreader reg m" and "\<And>a. xreader reg (f a)"
  shows "xreader reg (bind m f)"
  unfolding xreader_def
proof (intro allI impI)
  fix x assume "xopen reg x"
  with assms(1) have s: "xsame reg x (snd (m x))" by (simp add: xreader_def)
  moreover have "xsame reg (snd (m x)) (snd (f a (snd (m x))))" for a
    using assms(2) xsame_open [OF s] by (simp add: xreader_def)
  ultimately show "xsame reg x (snd (bind m f x))"
    by (auto simp: bind_def split: prod.splits outcome.splits intro: xsame_trans)
qed

lemma xreader_wrap [xreader_intros]: "xreader reg m \<Longrightarrow> xreader reg (attempt m)" "xreader reg m \<Longrightarrow> xreader reg (must m)"
  by (simp_all add: xreader_def)

lemma xreader_with [xreader_intros]: "(\<And>x. xreader reg (f x)) \<Longrightarrow> xreader reg (with_x f)"
  by (simp add: xreader_def with_x_def)

lemma xreader_on_db [xreader_intros]: "reader m \<Longrightarrow> xreader reg (on_db m)"
  by (auto simp: xreader_def reader_def on_db_def xopen_def xsame_def cache_ok_def case_prod_unfold)

subsection \<open>Loading a driver\<close>

lemma LoadDriver_ok:
  "LoadDriver reg n h = Inr i \<Longrightarrow> fst i \<in> reg_drvs reg \<and> (d_isFree (snd i) \<longrightarrow> reg_free reg)"
  by (auto simp: LoadDriver_def reg_drvs_def reg_free_def Let_def intro!: image_eqI ranI bexI split: option.splits if_splits)

lemma LoadDriverAllow_ok:
  "LoadDriverAllow reg tx i h = Ret inst \<Longrightarrow> fst inst \<in> reg_drvs reg \<and> (d_isFree (snd inst) \<longrightarrow> reg_free reg)"
  by (auto simp: LoadDriverAllow_def Let_def obind_def SetEnv_def
      split: sum.splits outcome.splits option.splits prod.splits dest: LoadDriver_ok)

lemma loadDriver_run:
  assumes "xopen reg x" and "loadDriver reg tx i x = (r, x')"
  shows "xsame reg x x' \<and> x_db x' = x_db x \<and>
     (\<forall>inst. r = Ret inst \<longrightarrow> fst inst \<in> reg_drvs reg \<and> (d_isFree (snd inst) \<longrightarrow> reg_free reg))"
proof (cases "x_execCache x (Execer tx)")
  case (Some exec)
  then have "fst exec \<in> reg_drvs reg \<and> (d_isFree (snd exec) \<longrightarrow> reg_free reg)"
    using assms(1) by (auto simp: xopen_def cache_ok_def dest: bspec [OF _ ranI])
  with Some assms show ?thesis by (auto simp: loadDriver_def xsame_refl)
next
  case None
  show ?thesis
  proof (cases "LoadDriverAllow reg tx i (x_height x)")
    case (Ret inst)
    then have d: "fst inst \<in> reg_drvs reg \<and> (d_isFree (snd inst) \<longrightarrow> reg_free reg)" by (rule LoadDriverAllow_ok)
    obtain exec d where inst: "inst = (exec, d)" by (cases inst)
    have free: "d_isFree (setEnv x d) = d_isFree d" by (simp add: setEnv_def SetBlockInfo_def SetEnv_def Let_def)
    have "cache_ok reg (x\<lparr>x_execCache := (x_execCache x)(Execer tx \<mapsto> (exec, setEnv x d))\<rparr>)"
      using assms(1) d inst free by (auto simp: xopen_def cache_ok_def ran_def split: if_splits)
    with assms Ret None inst d free show ?thesis
      by (auto simp: loadDriver_def liftO_def bind_def xsame_def xopen_def dsame_refl Let_def)
  qed (use assms None in \<open>auto simp: loadDriver_def liftO_def bind_def xsame_refl\<close>)
qed

lemma xreader_load [xreader_intros]:
  assumes "\<And>exec d. exec \<in> reg_drvs reg \<Longrightarrow> xreader reg (f (exec, d))"
  shows "xreader reg (bind (loadDriver reg tx i) f)"
  unfolding xreader_def
proof (intro allI impI)
  fix x assume x: "xopen reg x"
  obtain r x1 where run: "loadDriver reg tx i x = (r, x1)" by force
  from loadDriver_run [OF x run] have s: "xsame reg x x1"
    and d: "\<And>inst. r = Ret inst \<Longrightarrow> fst inst \<in> reg_drvs reg" by blast+
  show "xsame reg x (snd (bind (loadDriver reg tx i) f x))"
  proof (cases r)
    case (Ret inst)
    then have "xreader reg (f inst)" using assms d by (cases inst) auto
    then have "xsame reg x1 (snd (f inst x1))" using xsame_open [OF s] by (simp add: xreader_def)
    with s Ret run show ?thesis by (auto simp: bind_def intro: xsame_trans)
  qed (use s run in \<open>simp_all add: bind_def\<close>)
qed

lemma xreader_loadDriver: "xreader reg (loadDriver reg tx i)"
  unfolding xreader_def using loadDriver_run by (metis prod.collapse)

lemma xreader_RealName [xreader_intros]: "xreader reg (getRealExecName reg tx i)"
  unfolding getRealExecName_def by (auto intro!: xreader_intros)

lemma xreader_checkTx [xreader_intros]: "xreader reg (exec_checkTx e reg tx i)"
  unfolding exec_checkTx_def by (auto intro!: xreader_intros)

lemma xreader_checkGroup [xreader_intros]: "xreader reg (checkTxGroup e txs)"
  unfolding checkTxGroup_def by (auto intro!: xreader_intros)

lemma xreader_isAllowExec [xreader_intros]: "xreader reg (isAllowExec e reg k tx i)"
  unfolding isAllowExec_def isAllowKeyWrite_def Let_def
  by (auto intro!: xreader_intros split: sum.splits)

lemma xreader_checkKeyAllow [xreader_intros]: "xreader reg (checkKeyAllow e reg f tx i kvs)"
  by (induction kvs) (auto intro!: xreader_intros)

lemma reader_forM_local [xreader_intros]: "(\<And>x. lclient (f x)) \<Longrightarrow> lclient (forM xs f)"
  by (induction xs) (auto intro: client_intros)

lemma xreader_execLocal [xreader_intros]: "reg_ok reg \<Longrightarrow> xreader reg (execLocal reg tx r i)"
  unfolding execLocal_def by (auto intro!: xreader_intros driver.ExecLocal_reads simp: reg_ok_def)

lemma xreader_execLocalTx [xreader_intros]: "reg_ok reg \<Longrightarrow> xreader reg (execLocalTx reg tx r i)"
  unfolding execLocalTx_def
  by (auto intro!: xreader_intros client_intros simp: lclient_def split: sum.splits option.splits)

lemma xreader_execLocalSameTime [xreader_intros]: "reg_ok reg \<Longrightarrow> xreader reg (execLocalSameTime reg tx r i)"
  unfolding execLocalSameTime_def by (auto intro!: xreader_intros)

subsection \<open>What writing key by key shows\<close>

definition kv_replay :: "KeyValue list \<Rightarrow> (bytes \<Rightarrow> bytes option) \<Rightarrow> bytes \<Rightarrow> bytes option" where
  "kv_replay kvs m = fold (\<lambda>kv m. m(Key kv := Val kv)) kvs m"

definition valued :: "KeyValue list \<Rightarrow> bool" where
  "valued kvs \<longleftrightarrow> (\<forall>kv \<in> set kvs. Val kv \<noteq> None)"

lemma kv_replay_simps [simp]:
  "kv_replay [] m = m"
  "kv_replay (kv # kvs) m = kv_replay kvs (m(Key kv := Val kv))"
  "kv_replay (kvs @ kvs') m = kv_replay kvs' (kv_replay kvs m)"
  by (simp_all add: kv_replay_def)

lemma kv_replay_out: "k \<notin> Key ` set kvs \<Longrightarrow> kv_replay kvs m k = m k"
  by (induction kvs arbitrary: m) auto

lemma kv_replay_in: "k \<in> Key ` set kvs \<Longrightarrow> kv_replay kvs m k = kv_replay kvs m' k"
proof (induction kvs arbitrary: m m')
  case (Cons kv kvs)
  show ?case
  proof (cases "k \<in> Key ` set kvs")
    case True
    then show ?thesis using Cons.IH by simp
  next
    case False
    with Cons.prems show ?thesis by (auto simp: kv_replay_out)
  qed
qed simp

lemma kv_replay_cong: "(\<And>k. k \<notin> Key ` set kvs \<Longrightarrow> m k = m' k) \<Longrightarrow> kv_replay kvs m = kv_replay kvs m'"
  by (rule ext) (metis kv_replay_in kv_replay_out)

lemma valued_Nil [simp]: "valued []"
  by (simp add: valued_def)

lemma valued_append [simp]: "valued (a @ b) \<longleftrightarrow> valued a \<and> valued b"
  by (auto simp: valued_def)

lemma forM_Set_run:
  assumes "store_answers s" and "valued kvs"
  shows "\<exists>s'. forM kvs (\<lambda>v. must (sdb_Set (Key v) (Val v))) s = (Ret (), s') \<and>
     store_answers s' \<and> sdb_view s' = kv_replay kvs (sdb_view s) \<and> sdb_intx s' = sdb_intx s \<and>
     (sdb_intx s \<longrightarrow> sdb_base s' = sdb_base s) \<and> sdb_height s' = sdb_height s"
  using assms
proof (induction kvs arbitrary: s)
  case (Cons kv kvs)
  then obtain v where v: "Val kv = Some v" by (auto simp: valued_def)
  obtain s1 where s1: "sdb_Set (Key kv) (Some v) s = (Ret (), s1)" "sdb_view s1 = (sdb_view s)(Key kv \<mapsto> v)"
      "sdb_intx s \<longrightarrow> sdb_base s1 = sdb_base s" "sdb_intx s1 = sdb_intx s" "store_answers s1"
      "sdb_height s1 = sdb_height s"
    using sdb_Set_run [of "Key kv" v s] Cons.prems by auto
  obtain s' where s': "forM kvs (\<lambda>v. must (sdb_Set (Key v) (Val v))) s1 = (Ret (), s')" "store_answers s'"
      "sdb_view s' = kv_replay kvs (sdb_view s1)" "sdb_intx s' = sdb_intx s1"
      "sdb_intx s1 \<longrightarrow> sdb_base s' = sdb_base s1" "sdb_height s' = sdb_height s1"
    using Cons.IH [of s1] s1(5) Cons.prems by (auto simp: valued_def)
  have "forM (kv # kvs) (\<lambda>v. must (sdb_Set (Key v) (Val v))) s = (Ret (), s')"
    using s1(1) s'(1) v by (simp add: prog_simps)
  with s1 s' v show ?case by auto
qed simp

subsection \<open>One transaction inside the memory transaction\<close>

definition xin :: "Registry \<Rightarrow> executor \<Rightarrow> bool" where
  "xin reg x \<longleftrightarrow> xopen reg x \<and> sdb_intx (dsState (x_db x)) \<and> sdb_height (dsState (x_db x)) = x_height x"

abbreviation x_view :: "executor \<Rightarrow> bytes \<Rightarrow> bytes option" where
  "x_view x \<equiv> sdb_view (dsState (x_db x))"

abbreviation x_base :: "executor \<Rightarrow> bytes \<Rightarrow> bytes option" where
  "x_base x \<equiv> sdb_base (dsState (x_db x))"

abbreviation x_keys :: "executor \<Rightarrow> bytes list" where
  "x_keys x \<equiv> sdb_keys (dsState (x_db x))"

text \<open>What holds after any of the executor's steps inside a transaction.\<close>

definition xkeep :: "Registry \<Rightarrow> executor \<Rightarrow> executor \<Rightarrow> bool" where
  "xkeep reg x x' \<longleftrightarrow> xin reg x' \<and> x_base x' = x_base x \<and> x_ctx x' = x_ctx x \<and>
     (dsLocal (x_db x') = None \<longleftrightarrow> dsLocal (x_db x) = None)"

lemma xkeep_refl: "xin reg x \<Longrightarrow> xkeep reg x x"
  by (simp add: xkeep_def)

lemma xkeep_trans: "xkeep reg x x' \<Longrightarrow> xkeep reg x' x'' \<Longrightarrow> xkeep reg x x''"
  by (simp add: xkeep_def)

lemma xsame_keep: "xsame reg x x' \<Longrightarrow> xin reg x \<Longrightarrow> xkeep reg x x' \<and> x_view x' = x_view x \<and> x_keys x' = x_keys x"
  by (auto simp: xkeep_def xin_def xsame_def xopen_def dsame_def sdb_same_def dopen_def elim!: option.rel_cases)

lemma x_startTx_run:
  assumes "xin reg x"
  shows "\<exists>x'. x_startTx x = (Ret (), x') \<and> xkeep reg x x' \<and> x_view x' = x_view x \<and> x_keys x' = []"
proof -
  have v: "sdb_view (s\<lparr>sdb_keys := []\<rparr>) = sdb_view s" "sdb_base (s\<lparr>sdb_keys := []\<rparr>) = sdb_base s" for s
    by (simp_all add: sdb_defs fun_eq_iff split: option.split)
  show ?thesis
    using assms v
    by (auto simp: x_startTx_def on_db_def on_state_def bind_def if_local_def on_local_def sdb_StartTx_def
        l_StartTx_def xkeep_def xin_def xopen_def dopen_def cache_ok_def split: option.split)
qed

lemma guard_local_client: "client m \<Longrightarrow> client (guard_local on order m)"
  unfolding client_def
proof (intro allI impI)
  fix st assume m: "\<forall>st. dgood st \<longrightarrow> dstep st (snd (m st))" and st: "dgood st"
  let ?st = "st\<lparr>dsLocal := map_option (set_access True order) (dsLocal st)\<rparr>"
  have acc: "l_ok (set_access b order l) = l_ok l" for b l
    by (simp add: set_access_def DisableRead_def DisableWrite_def EnableRead_def EnableWrite_def)
  have "dgood ?st" using st by (auto simp: dgood_def acc)
  with m have "dstep ?st (snd (m ?st))" by blast
  then have "dstep st ((snd (m ?st))\<lparr>dsLocal := map_option (set_access False order) (dsLocal (snd (m ?st)))\<rparr>)"
    by (auto simp: dstep_def acc option.rel_sel)
  with m st show "dstep st (snd (guard_local on order m st))"
    by (simp add: guard_local_def case_prod_unfold)
qed

lemma on_db_client_run:
  assumes "client m" and "xin reg x" and "on_db m x = (r, x')"
  shows "xkeep reg x x' \<and> (\<exists>ks. x_keys x' = x_keys x @ ks \<and> (\<forall>k. k \<notin> set ks \<longrightarrow> x_view x' k = x_view x k))"
proof -
  have "dgood (x_db x)" using assms(2) by (simp add: xin_def xopen_def dopen_def dgood_def sdb_ready_def)
  with assms(1) have d: "dstep (x_db x) (snd (m (x_db x)))" by (simp add: client_def)
  have x': "x' = x\<lparr>x_db := snd (m (x_db x))\<rparr>" using assms(3) by (simp add: on_db_def case_prod_unfold)
  have "dsLocal (snd (m (x_db x))) = None \<longleftrightarrow> dsLocal (x_db x) = None"
    using d by (auto simp: dstep_def elim: option.rel_cases)
  moreover have "dgood (snd (m (x_db x)))" using d by (rule dstep_good)
  ultimately show ?thesis
    using d assms(2) x'
    by (auto simp: dstep_def sdb_step_def xkeep_def xin_def xopen_def dopen_def dgood_def sdb_ready_def cache_ok_def)
qed

lemma x_Exec_run:
  assumes "reg_ok reg" and "xin reg x" and "x_Exec e reg tx i x = (r, x')"
  shows "xkeep reg x x' \<and> (\<exists>ks. x_keys x' = x_keys x @ ks \<and> (\<forall>k. k \<notin> set ks \<longrightarrow> x_view x' k = x_view x k))"
proof -
  obtain r1 x1 where l: "loadDriver reg tx i x = (r1, x1)" by force
  have o: "xopen reg x" using assms(2) by (simp add: xin_def)
  from loadDriver_run [OF o l] have s: "xsame reg x x1"
    and d: "\<And>inst. r1 = Ret inst \<Longrightarrow> driver (fst inst)" using assms(1) by (auto simp: reg_ok_def)
  from xsame_keep [OF s assms(2)] have k1: "xkeep reg x x1" "x_view x1 = x_view x" "x_keys x1 = x_keys x" by blast+
  then have in1: "xin reg x1" by (simp add: xkeep_def)
  show ?thesis
  proof (cases r1)
    case (Ret inst)
    then obtain exec d1 where inst: "r1 = Ret (exec, d1)" by (cases inst) auto
    with d have "driver exec" by auto
    then have c: "client (guard_local a b (bind (drvCheckTx exec d1 tx i) (\<lambda>_. drvExec exec d1 tx i)))" for a b
      by (intro guard_local_client driver.run_client)
    define run where "run a b = on_db (guard_local a b (bind (drvCheckTx exec d1 tx i) (\<lambda>_. drvExec exec d1 tx i)))" for a b
    have "x_Exec e reg tx i x =
        bind (liftO (obind (GetRealToAddr e tx) (\<lambda>to. dapp_CheckAddress e to (x_height x1)))) (\<lambda>_.
        bind (liftO (if dsLocal (x_db x1) \<noteq> None then isFork e (x_height x1) ''ForkLocalDBAccess'' else Ret False))
          (\<lambda>access. run access (drvExecutorOrder exec d1 \<noteq> ExecLocalSameTime))) x1"
      using l inst by (simp add: x_Exec_def bind_Ret with_x_def run_def)
    then have "(\<exists>a b. run a b x1 = (r, x')) \<or> x' = x1"
      using assms(3) by (auto simp: bind_def liftO_def split: outcome.splits)
    then show ?thesis
    proof
      assume "\<exists>a b. run a b x1 = (r, x')"
      then obtain a b where "run a b x1 = (r, x')" by blast
      from on_db_client_run [OF c in1 this [unfolded run_def]] k1 show ?thesis
        by (auto intro: xkeep_trans)
    next
      assume "x' = x1"
      with k1 show ?thesis by (intro conjI exI [of _ "[]"]) auto
    qed
  next
    case (Err er)
    then have "x' = x1" using assms(3) l by (simp add: x_Exec_def bind_def)
    with k1 show ?thesis by (intro conjI exI [of _ "[]"]) auto
  next
    case (Panic p)
    then have "x' = x1" using assms(3) l by (simp add: x_Exec_def bind_def)
    with k1 show ?thesis by (intro conjI exI [of _ "[]"]) auto
  qed
qed

subsection \<open>Programs that return no error\<close>

named_theorems noerr_intros \<open>programs that end in a value or a panic\<close>

definition noerr :: "('s, 'r) prog \<Rightarrow> bool" where
  "noerr m \<longleftrightarrow> (\<forall>s er. fst (m s) \<noteq> Err er)"

lemma noerr_basic [noerr_intros]:
  "noerr (ret a)" "noerr (panic p)" "noerr (Pair (Ret a))" "noerr (\<lambda>s. (Ret (g s), h s))"
  by (simp_all add: noerr_def)

lemma noerr_bind [noerr_intros]: "noerr m \<Longrightarrow> (\<And>a. noerr (f a)) \<Longrightarrow> noerr (bind m f)"
  by (auto simp: noerr_def bind_def split: prod.splits outcome.splits) (metis fst_conv)+

lemma noerr_wrap [noerr_intros]: "noerr (attempt m)" "noerr (must m)"
  by (auto simp: noerr_def attempt_def must_def split: prod.splits outcome.splits)

lemma noerr_with [noerr_intros]: "(\<And>x. noerr (f x)) \<Longrightarrow> noerr (with_x f)"
  by (simp add: noerr_def with_x_def)

lemma noerr_lift [noerr_intros]: "(\<And>er. r \<noteq> Err er) \<Longrightarrow> noerr (liftO r)"
  by (simp add: noerr_def liftO_def)

lemma noerr_on [noerr_intros]: "noerr m \<Longrightarrow> noerr (on_db m)" "noerr m' \<Longrightarrow> noerr (on_state m')"
  by (auto simp: noerr_def on_db_def on_state_def case_prod_unfold)

lemma noerr_forM [noerr_intros]: "(\<And>y. noerr (f y)) \<Longrightarrow> noerr (forM ys f)"
  by (induction ys) (auto intro: noerr_intros)

lemma isFork_noerr [noerr_intros]: "isFork e h k \<noteq> Err er"
  by (simp add: isFork_def types_IsFork_def IsFork_def GetFork_def Let_def split: option.splits)

lemma ExecAddress_noerr [noerr_intros]: "dapp_ExecAddress e n \<noteq> Err er"
  by (auto simp: dapp_ExecAddress_def address_ExecAddress_def ExecAddress_text_def no_caches_def
      GetExecAddress_def ExecPubkey_def Let_def split: option.splits)

lemma obind_noerr [noerr_intros]: "(\<And>er. r \<noteq> Err er) \<Longrightarrow> obind r (\<lambda>b. Ret (f b)) \<noteq> Err er"
  by (cases r) auto

lemma noerr_loadDriver [noerr_intros]: "noerr (loadDriver reg tx i)"
  by (auto simp: noerr_def loadDriver_def bind_def liftO_def LoadDriverAllow_def obind_def Let_def
      split: option.splits outcome.splits sum.splits prod.splits)

lemma noerr_isAllowExec [noerr_intros]: "noerr (isAllowExec e reg k tx i)"
  unfolding isAllowExec_def isAllowKeyWrite_def getRealExecName_def Let_def
  by (auto intro!: noerr_intros split: sum.splits option.splits)

lemma noerr_checkKeyAllow [noerr_intros]: "noerr (checkKeyAllow e reg f tx i kvs)"
  by (induction kvs) (auto intro!: noerr_intros)

lemma noerr_set_all [noerr_intros]: "noerr (set_all e kvs)"
  unfolding set_all_def by (auto intro!: noerr_intros)

lemma noerr_startTx [noerr_intros]: "noerr x_startTx"
  by (auto simp: noerr_def x_startTx_def on_db_def on_state_def bind_def if_local_def on_local_def
      split: option.splits)

lemma noerr_execTxOne [noerr_intros]: "noerr (execTxOne e reg f tx i)"
  unfolding execTxOne_def by (auto intro!: noerr_intros split: sum.splits option.splits)

subsection \<open>Keys a transaction may write\<close>

text \<open>
  The rule of \<^verbatim>\<open>isAllowKeyWrite\<close> after the fork \<^verbatim>\<open>ForkExecKey\<close>: the key belongs to the executor of the
  transaction, or to the part of another contract that is keyed by its address, or a registered driver
  accepts it as a friend.
\<close>

definition may_write :: "'a dapp_env_scheme \<Rightarrow> Driver set \<Rightarrow> Transaction \<Rightarrow> bytes \<Rightarrow> bool" where
  "may_write e drvs tx key \<longleftrightarrow>
     FindExecer key = Inr (GetParaExec (conf e) (Execer tx)) \<or>
     (\<exists>addr. GetExecKey key = Some addr \<and> dapp_ExecAddress e (Execer tx) = Ret addr) \<or>
     (\<exists>c \<in> drvs. \<exists>d myexec. drvIsFriend c d myexec key tx)"

lemma isAllowKeyWrite_sound:
  assumes "isFork e (x_height x) ''ForkExecKey'' = Ret True" and "xopen reg x"
    and "isAllowKeyWrite e reg k re tx i x = (Ret True, x')"
  shows "may_write e (reg_drvs reg) tx k"
proof (cases "may_write e (reg_drvs reg) tx k")
  case False
  from assms(3) obtain ke where ke: "FindExecer k = Inr ke"
    by (auto simp: isAllowKeyWrite_def split: sum.splits)
  with False have n: "ke \<noteq> GetParaExec (conf e) (Execer tx)" by (simp add: may_write_def)
  define own where "own = (case GetExecKey k of None \<Rightarrow> Ret False
      | Some a \<Rightarrow> obind (dapp_ExecAddress e (Execer tx)) (\<lambda>b. Ret (a = b)))"
  have "own \<noteq> Ret True"
    using False by (auto simp: own_def may_write_def obind_def split: option.splits outcome.splits)
  then obtain re2 tx2 where "bind (loadDriver reg tx2 i) (\<lambda>(c, d). ret (drvIsFriend c d re2 k tx)) x = (Ret True, x')"
    using assms(1,3) ke n unfolding isAllowKeyWrite_def own_def [symmetric]
    by (auto simp: with_x_def bind_def liftO_def Let_def split: outcome.splits)
  then obtain c d x1 where "loadDriver reg tx2 i x = (Ret (c, d), x1)" "drvIsFriend c d re2 k tx"
    by (auto simp: bind_def split: prod.splits outcome.splits)
  with loadDriver_run [OF assms(2)] have "may_write e (reg_drvs reg) tx k"
    unfolding may_write_def by (metis fst_conv)
  then show ?thesis .
qed

lemma isAllowExec_sound:
  assumes "isFork e (x_height x) ''ForkExecKey'' = Ret True" and "xopen reg x"
    and "isAllowExec e reg k tx i x = (Ret True, x')"
  shows "may_write e (reg_drvs reg) tx k"
proof -
  obtain re x1 where "getRealExecName reg tx i x = (Ret re, x1)"
    and run: "isAllowKeyWrite e reg k re tx i x1 = (Ret True, x')"
    using assms(3) by (auto simp: isAllowExec_def bind_eq_Ret)
  with assms(2) xreader_RealName [of reg tx i] have "xsame reg x x1"
    unfolding xreader_def by (metis snd_conv)
  with isAllowKeyWrite_sound [OF _ xsame_open run] assms(1) show ?thesis
    by (simp add: xsame_def)
qed

lemma checkKeyAllow_run:
  assumes "xopen reg x" and "checkKeyAllow e reg f tx i kvs x = (Ret (f', err), x')"
  shows "(err = None \<longrightarrow> f' = f \<and> (isFork e (x_height x) ''ForkExecKey'' = Ret True \<longrightarrow>
            (\<forall>kv \<in> set kvs. may_write e (reg_drvs reg) tx (Key kv)))) \<and>
         (\<forall>er. err = Some er \<longrightarrow> f' = add_errlog e f er \<and> er = ErrNotAllowKey)"
  using assms
proof (induction kvs arbitrary: x)
  case (Cons kv kvs)
  then obtain allow x1 where a: "isAllowExec e reg (Key kv) tx i x = (Ret allow, x1)"
    by (auto simp: bind_eq_Ret)
  have s: "xsame reg x x1"
    using xreader_isAllowExec [of reg e "Key kv" tx i] Cons.prems(1) a unfolding xreader_def by (metis snd_conv)
  show ?case
  proof (cases allow)
    case True
    with Cons.prems a have "checkKeyAllow e reg f tx i kvs x1 = (Ret (f', err), x')" by (simp add: bind_Ret)
    with Cons.IH [OF xsame_open [OF s]] s isAllowExec_sound [OF _ Cons.prems(1), of e "Key kv" tx i x1] a True
    show ?thesis by (auto simp: xsame_def)
  next
    case False
    with Cons.prems a show ?thesis by (auto simp: bind_Ret)
  qed
qed simp

end
