(* ===== verification/ExecutorTx.thy ===== *)
theory ExecutorTx
  imports ExecutorRun
begin

text \<open>
  What one transaction and one group leave behind: the memory transaction of the executor around
  them, the receipts, and the state they show.
\<close>

subsection \<open>The outcome of one transaction\<close>

definition one_ok :: "'a dapp_env_scheme \<Rightarrow> Registry \<Rightarrow> Receipt \<Rightarrow> Transaction \<Rightarrow> executor \<Rightarrow> Receipt \<Rightarrow> executor \<Rightarrow> bool" where
  "one_ok e reg feelog tx x f x' \<longleftrightarrow>
     (\<exists>receipt. f = merge_fee feelog receipt \<and>
        (valued (KV f) \<longrightarrow> x_view x' = kv_replay (KV f) (x_view x)) \<and>
        (isFork e (x_height x) ''ForkExecKey'' = Ret True \<longrightarrow>
           (\<forall>kv \<in> set (receipt_kvs receipt). may_write e (reg_drvs reg) tx (Key kv))))"

lemma KV_merge_fee: "KV (merge_fee f r) = KV f @ receipt_kvs r"
  by (simp add: merge_fee_def receipt_kvs_def split: option.split)

definition one_failed :: "'a dapp_env_scheme \<Rightarrow> Receipt \<Rightarrow> Receipt \<Rightarrow> error \<Rightarrow> bool" where
  "one_failed e feelog f er \<longleftrightarrow> f = add_errlog e feelog er"

lemma set_all_run:
  assumes "xin reg x" and "isFork e (x_height x) ''ForkStateDBSet'' = Ret True" and "set_all e kvs x = (r, x')"
  shows "xkeep reg x x' \<and> (valued kvs \<longrightarrow> x_view x' = kv_replay kvs (x_view x))"
proof -
  let ?m = "forM kvs (\<lambda>v. must (sdb_Set (Key v) (Val v)))"
  have run: "on_db (on_state ?m) x = (r, x')"
    using assms(2,3) by (simp add: set_all_def with_x_def bind_def liftO_def)
  have "client (on_state ?m)" by (intro client_intros)
  from on_db_client_run [OF this assms(1) run] have "xkeep reg x x'" by blast
  moreover have "x_view x' = kv_replay kvs (x_view x)" if "valued kvs"
  proof -
    have "store_answers (dsState (x_db x))" using assms(1) by (simp add: xin_def xopen_def dopen_def)
    from forM_Set_run [OF this that] obtain s' where "?m (dsState (x_db x)) = (Ret (), s')"
      "sdb_view s' = kv_replay kvs (x_view x)" by blast
    with run show ?thesis by (auto simp: on_db_def on_state_def)
  qed
  ultimately show ?thesis by blast
qed

lemma xreader_run: "xreader reg m \<Longrightarrow> m x = (r, x') \<Longrightarrow> xin reg x \<Longrightarrow> xkeep reg x x' \<and> x_view x' = x_view x"
  using xsame_keep unfolding xreader_def xin_def by (metis snd_conv)

text \<open>The part of \<^verbatim>\<open>execTxOne\<close> after the keys have been compared.\<close>

lemma execTxOne_tail:
  assumes "reg_ok reg" and "xin reg x" and fork: "isFork e (x_height x) ''ForkStateDBSet'' = Ret True"
    and run: "bind (checkKeyAllow e reg feelog tx i kvs) (\<lambda>(feelog1, err).
                   case err of
                     Some er \<Rightarrow> ret (feelog1, Some er)
                   | None \<Rightarrow>
                       bind (attempt (execLocalSameTime reg tx feelog1 i)) (\<lambda>res2.
                         case res2 of
                           Inl er \<Rightarrow> ret (add_errlog e feelog1 er, Some er)
                         | Inr _ \<Rightarrow>
                             bind (set_all e (KV (merge_fee feelog1 receipt))) (\<lambda>_.
                               ret (merge_fee feelog1 receipt, None)))) x = (r, x')"
  shows "xkeep reg x x' \<and>
     (\<forall>f er. r = Ret (f, Some er) \<longrightarrow> f = add_errlog e feelog er) \<and>
     (\<forall>f. r = Ret (f, None) \<longrightarrow> f = merge_fee feelog receipt \<and>
        (valued (KV f) \<longrightarrow> x_view x' = kv_replay (KV f) (x_view x)) \<and>
        (isFork e (x_height x) ''ForkExecKey'' = Ret True \<longrightarrow>
           (\<forall>kv \<in> set kvs. may_write e (reg_drvs reg) tx (Key kv))))"
proof -
  have o: "xopen reg x" using assms(2) by (simp add: xin_def)
  obtain r1 x1 where c: "checkKeyAllow e reg feelog tx i kvs x = (r1, x1)" by force
  from xreader_run [OF xreader_checkKeyAllow c assms(2)] have k1: "xkeep reg x x1" "x_view x1 = x_view x" by blast+
  show ?thesis
  proof (cases r1)
    case (Ret p)
    obtain f1 err where p: "p = (f1, err)" by (cases p)
    note ck = checkKeyAllow_run [OF o c [unfolded Ret p]]
    show ?thesis
    proof (cases err)
      case (Some er)
      with run c Ret p k1 ck show ?thesis by (auto simp: bind_Ret)
    next
      case None
      obtain r2 x2 where l: "execLocalSameTime reg tx f1 i x1 = (r2, x2)" by force
      have in1: "xin reg x1" using k1 by (simp add: xkeep_def)
      from xreader_run [OF xreader_execLocalSameTime [OF assms(1)] l in1] have k2: "xkeep reg x1 x2" "x_view x2 = x_view x1"
        by blast+
      then have k12: "xkeep reg x x2" "x_view x2 = x_view x" using k1 by (auto intro: xkeep_trans)
      show ?thesis
      proof (cases r2)
        case (Ret u)
        obtain r3 x3 where s: "set_all e (KV (merge_fee f1 receipt)) x2 = (r3, x3)" by force
        have in2: "xin reg x2" and f2: "isFork e (x_height x2) ''ForkStateDBSet'' = Ret True"
          using k12 fork by (simp_all add: xkeep_def)
        from set_all_run [OF in2 f2 s] have k3: "xkeep reg x2 x3"
          "valued (KV (merge_fee f1 receipt)) \<longrightarrow> x_view x3 = kv_replay (KV (merge_fee f1 receipt)) (x_view x)"
          using k12 by auto
        have "x' = x3" "r = (case r3 of Ret _ \<Rightarrow> Ret (merge_fee f1 receipt, None) | Err er \<Rightarrow> Err er | Panic p \<Rightarrow> Panic p)"
          using run c \<open>r1 = Ret p\<close> p None l Ret s by (auto simp: bind_def attempt_def split: outcome.splits)
        with k3 k12 ck None show ?thesis by (auto intro: xkeep_trans split: outcome.splits)
      qed (use run c Ret p None l k12 ck in \<open>auto simp: bind_def attempt_def\<close>)
    qed
  qed (use run c k1 in \<open>auto simp: bind_def\<close>)
qed

lemma execTxOne_run:
  assumes "reg_ok reg" and "xin reg x" and fork: "isFork e (x_height x) ''ForkStateDBSet'' = Ret True"
    and run: "execTxOne e reg feelog tx i x = (r, x')"
  shows "xkeep reg x x' \<and>
     (\<forall>f er. r = Ret (f, Some er) \<longrightarrow> one_failed e feelog f er) \<and>
     (\<forall>f. r = Ret (f, None) \<longrightarrow> one_ok e reg feelog tx x f x')"
proof -
  obtain x1 where s: "x_startTx x = (Ret (), x1)" "xkeep reg x x1" "x_view x1 = x_view x" "x_keys x1 = []"
    using x_startTx_run [OF assms(2)] by blast
  then have in1: "xin reg x1" by (simp add: xkeep_def)
  obtain r2 x2 where ex: "x_Exec e reg tx i x1 = (r2, x2)" by force
  obtain ks where ks: "xkeep reg x1 x2" "x_keys x2 = ks" "\<And>k. k \<notin> set ks \<Longrightarrow> x_view x2 k = x_view x k"
    using x_Exec_run [OF assms(1) in1 ex] s(3,4) by auto
  then have k2: "xkeep reg x x2" using s(2) by (auto intro: xkeep_trans)
  show ?thesis
  proof (cases r2)
    case (Ret receipt)
    let ?kvs = "receipt_kvs receipt"
    have keys: "on_db (on_state (\<lambda>s. ret (sdb_GetSetKeys s) s)) x2 = (Ret ks, x2)"
      using ks(2) by (simp add: on_db_def on_state_def sdb_GetSetKeys_def)
    show ?thesis
    proof (cases "checkKV ks ?kvs")
      case (Some er)
      with run s(1) ex Ret keys k2 show ?thesis
        by (auto simp: execTxOne_def bind_Ret attempt_Ret one_failed_def)
    next
      case None
      then have sub: "set ks \<subseteq> Key ` set ?kvs" by (auto simp: checkKV_def split: if_splits)
      have in2: "xin reg x2" and f2: "isFork e (x_height x2) ''ForkStateDBSet'' = Ret True"
        using k2 fork by (simp_all add: xkeep_def)
      note t = execTxOne_tail [OF assms(1) in2 f2, of feelog tx i ?kvs receipt r x']
      have tail: "xkeep reg x2 x' \<and>
         (\<forall>f er. r = Ret (f, Some er) \<longrightarrow> f = add_errlog e feelog er) \<and>
         (\<forall>f. r = Ret (f, None) \<longrightarrow> f = merge_fee feelog receipt \<and>
            (valued (KV f) \<longrightarrow> x_view x' = kv_replay (KV f) (x_view x2)) \<and>
            (isFork e (x_height x2) ''ForkExecKey'' = Ret True \<longrightarrow>
               (\<forall>kv \<in> set ?kvs. may_write e (reg_drvs reg) tx (Key kv))))"
        by (rule t) (use run s(1) ex Ret keys None in \<open>simp add: execTxOne_def bind_Ret attempt_Ret\<close>)
      have "kv_replay (KV (merge_fee feelog receipt)) (x_view x2) = kv_replay (KV (merge_fee feelog receipt)) (x_view x)"
        by (rule kv_replay_cong) (use ks(3) sub in \<open>auto simp: merge_fee_def receipt_kvs_def split: option.splits\<close>)
      moreover have "x_ctx x2 = x_ctx x" using k2 by (simp add: xkeep_def)
      ultimately show ?thesis
        using tail k2 by (auto simp: one_ok_def one_failed_def intro: xkeep_trans)
    qed
  qed (use run s(1) ex k2 in \<open>auto simp: execTxOne_def bind_def attempt_def one_failed_def\<close>)
qed

subsection \<open>The memory transaction around it\<close>

definition xout :: "Registry \<Rightarrow> executor \<Rightarrow> bool" where
  "xout reg x \<longleftrightarrow> xopen reg x \<and> \<not> sdb_intx (dsState (x_db x)) \<and> sdb_height (dsState (x_db x)) = x_height x"

lemma l_api_ptr:
  assumes "l_ok l" and "\<And>p. \<exists>a p'. m p = (Ret a, p')"
  shows "\<exists>a l'. l_api (with_ptr (l_txid l) m) l = (Ret a, l') \<and> l_ok l' \<and> l_txid l' = l_txid l"
proof -
  obtain p where p: "map_of (svcPtrs (l_svc l)) (l_txid l) = Some p" using assms(1) by (auto simp: l_ok_def)
  obtain a p' where "m p = (Ret a, p')" using assms(2) by blast
  with p assms(1) show ?thesis
    by (auto simp: l_api_def with_ptr_def GetPointer_def l_ok_def map_of_update)
qed

lemma forM_db_Set: "\<exists>p'. forM kvs (\<lambda>(k, v). db_Set k v) p = (Ret (), p')"
  by (induction kvs arbitrary: p) (auto simp: bind_def db_Set_def Let_def split: prod.splits)

lemma l_save_run: "l_ok l \<Longrightarrow> \<exists>l'. l_save l = (Ret (), l') \<and> l_ok l' \<and> l_txid l' = l_txid l"
proof -
  assume ok: "l_ok l"
  have b: "\<exists>l'. l_begin l = (Ret (), l') \<and> l_ok l' \<and> l_txid l' = l_txid l" if "l_ok l" for l
    using l_api_ptr [OF that, of "\<lambda>p. ret () (db_Begin p)"]
    by (auto simp: l_begin_def localBegin_def must_def)
  have s: "\<exists>l'. l_api (localSet (l_txid l) (l_kvs l)) l = (Ret (), l') \<and> l_ok l' \<and> l_txid l' = l_txid l" if "l_ok l" for l
  proof -
    have "localSet (l_txid l) (l_kvs l) = with_ptr (l_txid l) (forM (l_kvs l) (\<lambda>(k, v). db_Set k v))"
      using that by (simp add: localSet_def l_ok_def fun_eq_iff)
    moreover have "\<And>p. \<exists>a p'. forM (l_kvs l) (\<lambda>(k, v). db_Set k v) p = (Ret a, p')"
      using forM_db_Set by blast
    ultimately show ?thesis using l_api_ptr [OF that, of "forM (l_kvs l) (\<lambda>(k, v). db_Set k v)"] by auto
  qed
  obtain l1 where l1: "(if \<not> l_hasbegin l then bind l_begin (\<lambda>_ l. ret () (l\<lparr>l_hasbegin := True\<rparr>)) l else ret () l) = (Ret (), l1)"
      "l_ok l1" "l_txid l1 = l_txid l"
    using b [OF ok] ok by (cases "l_hasbegin l") (auto simp: bind_def)
  obtain l2 where "l_api (localSet (l_txid l1) (l_kvs l1)) l1 = (Ret (), l2)" "l_ok l2" "l_txid l2 = l_txid l1"
    using s [OF l1(2)] by blast
  with l1 ok show ?thesis by (auto simp: l_save_def bind_def)
qed

lemma l_Commit_run: "l_ok l \<Longrightarrow> \<exists>l'. l_Commit l = (Ret (), l') \<and> l_ok l'"
proof -
  assume ok: "l_ok l"
  define l1 where "l1 = l\<lparr>l_cache := (case l_txcache l of None \<Rightarrow> l_cache l
                              | Some tx \<Rightarrow> l_cache l ++ (\<lambda>k. map_option Some (tx k)))\<rparr>"
  have "l_ok l1" using ok by (simp add: l1_def)
  from l_save_run [OF this] obtain l2 where l2: "l_save l1 = (Ret (), l2)" "l_ok l2" by blast
  have "\<exists>a p'. db_Commit p = (Ret a, p')" for p by (simp add: db_Commit_def split: option.split)
  then obtain a l3 where "l_api (localCommit (l_txid l2)) l2 = (Ret a, l3)" "l_ok l3"
    using l_api_ptr [OF l2(2), of db_Commit] by (auto simp: localCommit_def)
  with l2 show ?thesis
    by (auto simp: l_Commit_def l1_def [symmetric] bind_Ret l_resetTx_def)
qed

lemma l_Rollback_run: "l_ok l \<Longrightarrow> \<exists>l'. l_Rollback l = (Ret (), l') \<and> l_ok l'"
  using l_api_ptr [of l "\<lambda>p. ret () (db_Rollback p)"]
  by (auto simp: l_Rollback_def localRollback_def bind_def must_def l_resetTx_def)

lemma if_local_run:
  assumes "\<And>l. l_ok l \<Longrightarrow> \<exists>l'. m l = (Ret (), l') \<and> l_ok l'" and "dopen st"
  shows "\<exists>st'. if_local m st = (Ret (), st') \<and> dopen st' \<and> dsState st' = dsState st"
  using assms by (cases "dsLocal st") (force simp: if_local_def on_local_def dopen_def)+

lemma around_run:
  assumes "xopen reg x" and "isFork e (x_height x) ''ForkExecRollback'' = Ret True"
    and "m (dsState (x_db x)) = (Ret (), s1)" and "store_answers s1"
    and "\<And>l. l_ok l \<Longrightarrow> \<exists>l'. ml l = (Ret (), l') \<and> l_ok l'"
  shows "\<exists>x'. if_rollback_fork e (on_db (bind (on_state m) (\<lambda>_. if_local ml))) x = (Ret (), x') \<and>
           xopen reg x' \<and> dsState (x_db x') = s1 \<and> x_ctx x' = x_ctx x"
proof -
  let ?st = "(x_db x)\<lparr>dsState := s1\<rparr>"
  have "dopen ?st" using assms(1,4) by (simp add: xopen_def dopen_def)
  from if_local_run [of ml, OF assms(5) this] obtain st' where "if_local ml ?st = (Ret (), st')" "dopen st'"
      "dsState st' = s1" by auto
  with assms show ?thesis
    by (auto simp: if_rollback_fork_def with_x_def bind_def liftO_def on_db_def on_state_def xopen_def cache_ok_def)
qed

lemma x_begin_run:
  assumes "xout reg x" and "isFork e (x_height x) ''ForkExecRollback'' = Ret True"
  shows "\<exists>x'. x_begin e x = (Ret (), x') \<and> xin reg x' \<and> x_view x' = x_view x \<and> x_base x' = x_view x \<and> x_ctx x' = x_ctx x"
proof -
  let ?f = "systemFork (conf e)" and ?t = "title (conf e)" and ?s = "dsState (x_db x)"
  have inv: "sdb_inv ?f ?t ?s"
    using assms by (simp add: xout_def xopen_def dopen_def sdb_inv_def isFork_def types_IsFork_def)
  from sdb.begin_tx [OF this] obtain s1 where s1: "sdb_Begin ?f ?t ?s = (Ret (), s1)" "sdb_inv ?f ?t s1" "sdb_intx s1"
      "sdb_view s1 = sdb_base ?s" "sdb_base s1 = sdb_base ?s" by (auto simp: StateDB_KV_def)
  have h: "sdb_height s1 = sdb_height ?s"
    using s1(1) by (auto simp: sdb_Begin_def isForkExecRollback_def bind_def Let_def split: outcome.splits if_splits)
  have v: "sdb_base ?s = x_view x" using sdb.outside [OF inv] assms(1) by (simp add: xout_def)
  from around_run [of reg x e "sdb_Begin ?f ?t" s1 "\<lambda>l. ret () (l_Begin l)"] assms s1 obtain x'
    where "x_begin e x = (Ret (), x')" "xopen reg x'" "dsState (x_db x') = s1" "x_ctx x' = x_ctx x"
    unfolding x_begin_def by (auto simp: xout_def l_Begin_def sdb_inv_def)
  with s1 h v assms(1) show ?thesis by (auto simp: xin_def xout_def)
qed

lemma x_commit_run:
  assumes "xin reg x" and "isFork e (x_height x) ''ForkExecRollback'' = Ret True"
  shows "\<exists>x'. x_commit e x = (Ret (), x') \<and> xout reg x' \<and> x_view x' = x_view x \<and> x_ctx x' = x_ctx x"
proof -
  let ?f = "systemFork (conf e)" and ?t = "title (conf e)" and ?s = "dsState (x_db x)"
  have inv: "sdb_inv ?f ?t ?s"
    using assms by (simp add: xin_def xopen_def dopen_def sdb_inv_def isFork_def types_IsFork_def)
  from sdb.commit_tx [OF this] assms(1) obtain s1 where s1: "sdb_Commit ?f ?t ?s = (Ret (), s1)"
      "sdb_inv ?f ?t s1" "\<not> sdb_intx s1" "sdb_view s1 = x_view x" by (auto simp: StateDB_KV_def xin_def)
  have h: "sdb_height s1 = sdb_height ?s"
    using s1(1) by (auto simp: sdb_Commit_def isForkExecRollback_def bind_def sdb_resetTx_def Let_def split: outcome.splits if_splits)
  from around_run [of reg x e "sdb_Commit ?f ?t" s1 l_Commit] assms s1 l_Commit_run obtain x'
    where "x_commit e x = (Ret (), x')" "xopen reg x'" "dsState (x_db x') = s1" "x_ctx x' = x_ctx x"
    unfolding x_commit_def by (auto simp: xin_def sdb_inv_def)
  with s1 h assms(1) show ?thesis by (auto simp: xin_def xout_def)
qed

lemma x_rollback_run:
  assumes "xin reg x" and "isFork e (x_height x) ''ForkExecRollback'' = Ret True"
  shows "\<exists>x'. x_rollback e x = (Ret (), x') \<and> xout reg x' \<and> x_view x' = x_base x \<and> x_ctx x' = x_ctx x"
proof -
  let ?f = "systemFork (conf e)" and ?t = "title (conf e)" and ?s = "dsState (x_db x)"
  have inv: "sdb_inv ?f ?t ?s"
    using assms by (simp add: xin_def xopen_def dopen_def sdb_inv_def isFork_def types_IsFork_def)
  from sdb.rollback_tx [OF this] obtain s1 where s1: "sdb_Rollback ?s = (Ret (), s1)"
      "sdb_inv ?f ?t s1" "\<not> sdb_intx s1" "sdb_view s1 = x_base x" by (auto simp: StateDB_KV_def)
  have h: "sdb_height s1 = sdb_height ?s"
    using s1(1) by (auto simp: sdb_Rollback_def sdb_resetTx_def)
  from around_run [of reg x e sdb_Rollback s1 l_Rollback] assms s1 l_Rollback_run obtain x'
    where "x_rollback e x = (Ret (), x')" "xopen reg x'" "dsState (x_db x') = s1" "x_ctx x' = x_ctx x"
    unfolding x_rollback_def by (auto simp: xin_def sdb_inv_def)
  with s1 h assms(1) show ?thesis by (auto simp: xin_def xout_def)
qed

subsection \<open>The fee\<close>

definition acct_at :: "'a dapp_env_scheme \<Rightarrow> (bytes \<Rightarrow> bytes option) \<Rightarrow> string \<Rightarrow> Account option" where
  "acct_at e m addr =
     (case m (accountReadKey (coinsAccount e) addr) of
        None \<Rightarrow> Some (newAccount addr)
      | Some v \<Rightarrow> Decode (accPb e) v)"

text \<open>
  The receipt of the fee of a transaction run where the state is \<open>m\<close>: the payer's account, or nothing on a
  parallel chain, without a minimal fee, or for a driver that is free.
\<close>

definition fee_charged :: "'a dapp_env_scheme \<Rightarrow> Transaction \<Rightarrow> (bytes \<Rightarrow> bytes option) \<Rightarrow> Receipt \<Rightarrow> bool" where
  "fee_charged e tx m f \<longleftrightarrow>
     (\<exists>a. acct_at e m (Tx_From e tx) = Some a \<and> i64 (Balance a - Fee tx) \<ge> 0 \<and>
        f = cutFeeReceipt e (GetKVSet (coinsAccount e) (a\<lparr>Balance := i64 (Balance a - Fee tx)\<rparr>))
              (ReceiptAccountTransfer a (a\<lparr>Balance := i64 (Balance a - Fee tx)\<rparr>)))"

definition fee_of :: "'a dapp_env_scheme \<Rightarrow> Registry \<Rightarrow> Transaction \<Rightarrow> (bytes \<Rightarrow> bytes option) \<Rightarrow> Receipt \<Rightarrow> bool" where
  "fee_of e reg tx m f \<longleftrightarrow>
     f = packed \<and> (isPara (conf e) \<or> MinFee e \<le> 0 \<or> reg_free reg) \<or> fee_charged e tx m f"

lemma xsame_out: "xsame reg x x' \<Longrightarrow> xout reg x \<Longrightarrow> xout reg x' \<and> x_view x' = x_view x \<and> x_ctx x' = x_ctx x"
  by (auto simp: xout_def xsame_def xopen_def dsame_def sdb_same_def dopen_def option_rel_Some2)

lemma xreader_out: "xreader reg m \<Longrightarrow> m x = (r, x') \<Longrightarrow> xout reg x \<Longrightarrow>
    xout reg x' \<and> x_view x' = x_view x \<and> x_ctx x' = x_ctx x"
  using xsame_out unfolding xreader_def xout_def by (metis snd_conv)

lemma accPb_coins [simp]: "pb (coinsAccount e) = accPb e"
  by (simp add: coinsAccount_def NewCoinsAccount_def newAccountDB_def)

lemma LoadAccount_state:
  assumes "store_answers s" and "LoadAccount (coinsAccount e) addr s = (r, s')"
  shows "sdb_same s s' \<and> (\<forall>a. r = Ret a \<longrightarrow> acct_at e (sdb_view s) addr = Some a) \<and> (\<forall>er. r \<noteq> Err er)"
proof -
  let ?k = "accountReadKey (coinsAccount e) addr"
  obtain r1 s1 where g: "sdb_Get ?k s = (r1, s1)" by force
  have same: "sdb_same s s1" using sdb_Get_same [OF assms(1), of ?k] g by simp
  have "case sdb_view s ?k of Some v \<Rightarrow> r1 = Ret v | None \<Rightarrow> \<exists>er. r1 = Err er"
    using sdb_Get_run [OF assms(1), of ?k] g by (auto split: option.splits)
  with g same assms(2) show ?thesis
    by (auto simp: LoadAccount_def coins_kv StateDB_KV_def bind_def attempt_def acct_at_def split: option.splits)
qed

lemma LoadCoins_run:
  assumes "xopen reg x" and "LoadCoins e addr x = (r, x')"
  shows "xsame reg x x' \<and> (\<forall>a. r = Ret a \<longrightarrow> acct_at e (x_view x) addr = Some a) \<and> (\<forall>er. r \<noteq> Err er)"
proof -
  obtain r1 s1 where l: "LoadAccount (coinsAccount e) addr (dsState (x_db x)) = (r1, s1)" by force
  have "store_answers (dsState (x_db x))" using assms(1) by (simp add: xopen_def dopen_def)
  from LoadAccount_state [OF this l] l assms show ?thesis
    by (auto simp: LoadCoins_def on_db_def on_state_def xsame_def xopen_def dsame_def dopen_def option.rel_sel)
qed

lemma save_out:
  assumes "xout reg x" and "valued kvs"
  shows "\<exists>x'. on_db (on_state (SaveKVSet (coinsAccount e) kvs)) x = (Ret (), x') \<and> xout reg x' \<and>
           x_view x' = kv_replay kvs (x_view x) \<and> x_ctx x' = x_ctx x"
proof -
  have "store_answers (dsState (x_db x))" using assms(1) by (simp add: xout_def xopen_def dopen_def)
  from forM_Set_run [OF this assms(2)] assms(1) show ?thesis
    by (auto simp: SaveKVSet_def coins_kv StateDB_KV_def on_db_def on_state_def xout_def xopen_def dopen_def cache_ok_def)
qed

lemma valued_GetKVSet [simp]: "valued (GetKVSet acc a)"
  by (simp add: valued_def GetKVSet_def)

lemma processFee_run:
  assumes "xout reg x" and "processFee e tx x = (r, x')"
  shows "xout reg x' \<and> x_ctx x' = x_ctx x \<and>
     (\<forall>f. r = Ret f \<longrightarrow> fee_charged e tx (x_view x) f \<and> x_view x' = kv_replay (KV f) (x_view x)) \<and>
     (\<forall>er. r = Err er \<longrightarrow> er = ErrNoBalance \<and> x_view x' = x_view x)"
proof -
  obtain r1 x1 where l: "LoadCoins e (Tx_From e tx) x = (r1, x1)" by force
  have o: "xopen reg x" using assms(1) by (simp add: xout_def)
  note lr = LoadCoins_run [OF o l]
  then have x1: "xout reg x1" "x_view x1 = x_view x" "x_ctx x1 = x_ctx x" using xsame_out assms(1) by blast+
  show ?thesis
  proof (cases r1)
    case (Ret a)
    let ?kvs = "GetKVSet (coinsAccount e) (a\<lparr>Balance := i64 (Balance a - Fee tx)\<rparr>)"
    obtain x2 where "on_db (on_state (SaveKVSet (coinsAccount e) ?kvs)) x1 = (Ret (), x2)" "xout reg x2"
        "x_view x2 = kv_replay ?kvs (x_view x)" "x_ctx x2 = x_ctx x"
      using save_out [OF x1(1) valued_GetKVSet, of e] x1(2,3) by (metis (no_types))
    with assms(2) l Ret lr x1 show ?thesis
      by (auto simp: processFee_def bind_Ret Let_def fee_charged_def cutFeeReceipt_def split: if_splits)
  qed (use assms(2) l lr x1 in \<open>auto simp: processFee_def bind_def\<close>)
qed

lemma execFee_run:
  assumes "reg_ok reg" and "xout reg x" and "execFee e reg tx i x = (r, x')"
  shows "xout reg x' \<and> x_ctx x' = x_ctx x \<and>
     (\<forall>f. r = Ret f \<longrightarrow> fee_of e reg tx (x_view x) f \<and> x_view x' = kv_replay (KV f) (x_view x)) \<and>
     (\<forall>er. r = Err er \<longrightarrow> x_view x' = x_view x)"
proof -
  have o: "xopen reg x" using assms(2) by (simp add: xout_def)
  obtain r0 x0 where l: "loadDriver reg tx i x = (r0, x0)" by force
  note ld = loadDriver_run [OF o l]
  then have x0: "xout reg x0" "x_view x0 = x_view x" "x_ctx x0 = x_ctx x" using xsame_out assms(2) by blast+
  show ?thesis
  proof (cases r0)
    case (Ret inst)
    obtain ex d where inst: "inst = (ex, d)" by (cases inst)
    define m where "m = bind (liftO (ExecPubkey (addr_env.truncate e) (Execer tx))) (\<lambda>pub.
       if pub = (case txSignature tx of None \<Rightarrow> [] | Some sg \<Rightarrow> sigPubkey sg)
       then on_db (drvCheckTx ex d tx i) else ret ())"
    have "driver ex" using ld Ret inst assms(1) by (simp add: reg_ok_def)
    then have "xreader reg m" unfolding m_def by (auto intro!: xreader_intros driver.CheckTx_reads)
    moreover obtain r1 x1 where m: "m x0 = (r1, x1)" by force
    ultimately have x1: "xout reg x1" "x_view x1 = x_view x" "x_ctx x1 = x_ctx x"
      using xreader_out x0 by (blast, metis, metis)
    have run: "bind m (\<lambda>_. if \<not> isPara (conf e) \<and> MinFee e > 0 \<and> \<not> d_isFree d then processFee e tx else ret packed) x0 = (r, x')"
      using assms(3) l Ret inst unfolding execFee_def m_def packed_def by (simp add: bind_Ret bind_assoc)
    show ?thesis
    proof (cases r1)
      case (Ret u)
      with run m have "(if \<not> isPara (conf e) \<and> MinFee e > 0 \<and> \<not> d_isFree d then processFee e tx else ret packed) x1 = (r, x')"
        by (simp add: bind_Ret)
      with processFee_run [OF x1(1)] x1 ld \<open>r0 = Ret inst\<close> inst show ?thesis
        by (auto simp: fee_of_def packed_def split: if_splits)
    qed (use run m x1 in \<open>auto simp: bind_def\<close>)
  qed (use assms(3) l x0 in \<open>auto simp: execFee_def bind_def\<close>)
qed

subsection \<open>A transaction and a group\<close>

definition forks_on :: "'a dapp_env_scheme \<Rightarrow> int \<Rightarrow> bool" where
  "forks_on e h \<longleftrightarrow> isFork e h ''ForkExecRollback'' = Ret True \<and> isFork e h ''ForkStateDBSet'' = Ret True \<and>
     isFork e h ''ForkResetTx0'' = Ret True"

text \<open>What a run that returns receipts has done to the state.\<close>

definition replayed :: "Registry \<Rightarrow> executor \<Rightarrow> Receipt list \<Rightarrow> executor \<Rightarrow> bool" where
  "replayed reg x rs x' \<longleftrightarrow> xout reg x' \<and> x_ctx x' = x_ctx x \<and>
     (valued (concat (map KV rs)) \<longrightarrow> x_view x' = kv_replay (concat (map KV rs)) (x_view x))"

definition ran_ok :: "'a dapp_env_scheme \<Rightarrow> Registry \<Rightarrow> Transaction \<Rightarrow> executor \<Rightarrow> Receipt \<Rightarrow> Receipt \<Rightarrow> bool" where
  "ran_ok e reg tx x fee f \<longleftrightarrow> (\<exists>receipt. f = merge_fee fee receipt \<and>
     (isFork e (x_height x) ''ForkExecKey'' = Ret True \<longrightarrow>
        (\<forall>kv \<in> set (receipt_kvs receipt). may_write e (reg_drvs reg) tx (Key kv))))"

lemma kv_replay_twice: "kv_replay (a @ b) (kv_replay a m) = kv_replay (a @ b) m"
  by (rule kv_replay_cong) (auto simp: image_Un kv_replay_out)

lemma fee_of_valued: "fee_of e reg tx m f \<Longrightarrow> valued (KV f)"
  by (auto simp: fee_of_def fee_charged_def packed_def cutFeeReceipt_def)

text \<open>The common start of a transaction and of a group: the fee, then \<^verbatim>\<open>begin\<close>.\<close>

lemma fee_begin_run:
  assumes "reg_ok reg" and "xout reg x" and forks: "forks_on e (x_height x)"
    and run: "bind (execFee e reg tx i) (\<lambda>fee. bind (x_begin e) (\<lambda>_. k fee)) x = (r, x')"
  shows "(\<exists>fee x1. k fee x1 = (r, x') \<and> fee_of e reg tx (x_view x) fee \<and> xin reg x1 \<and>
             x_view x1 = kv_replay (KV fee) (x_view x) \<and> x_base x1 = kv_replay (KV fee) (x_view x) \<and> x_ctx x1 = x_ctx x) \<or>
         (\<exists>er. r = Err er \<and> replayed reg x [] x') \<or> (\<exists>p. r = Panic p)"
proof -
  obtain r2 x2 where f: "execFee e reg tx i x = (r2, x2)" by force
  note fr = execFee_run [OF assms(1,2) f]
  show ?thesis
  proof (cases r2)
    case (Ret fee)
    have roll: "isFork e (x_height x2) ''ForkExecRollback'' = Ret True" using forks fr by (simp add: forks_on_def)
    from x_begin_run [of reg, OF _ roll] fr obtain x3 where "x_begin e x2 = (Ret (), x3)" "xin reg x3"
        "x_view x3 = x_view x2" "x_base x3 = x_view x2" "x_ctx x3 = x_ctx x" by auto
    with run f fr Ret show ?thesis by (auto simp: bind_Ret)
  qed (use run f fr in \<open>auto simp: bind_def replayed_def\<close>)
qed

text \<open>The end: \<^verbatim>\<open>rollback\<close> after an error, \<^verbatim>\<open>commit\<close> otherwise.\<close>

lemma end_run:
  assumes "xin reg x" and "forks_on e (x_height x)"
  shows "\<exists>x'. (if b then x_rollback e else x_commit e) x = (Ret (), x') \<and> xout reg x' \<and>
           x_view x' = (if b then x_base x else x_view x) \<and> x_ctx x' = x_ctx x"
  using x_rollback_run [OF assms(1), of e] x_commit_run [OF assms(1), of e] assms(2) by (auto simp: forks_on_def)

lemma execTxOne_value: "execTxOne e reg f tx i x = (r, x') \<Longrightarrow> (\<exists>f1 err. r = Ret (f1, err)) \<or> (\<exists>p. r = Panic p)"
  using noerr_execTxOne [of e reg f tx i] unfolding noerr_def by (cases r) (auto dest: spec [of _ x])

lemma execTx_run:
  assumes "reg_ok reg" and "xout reg x" and "x_height x \<noteq> 0" and forks: "forks_on e (x_height x)"
    and run: "execTx e reg tx i x = (r, x')"
  shows "(\<forall>f. r = Ret f \<longrightarrow> replayed reg x [f] x' \<and>
            (\<exists>fee. fee_of e reg tx (x_view x) fee \<and> ((\<exists>er. f = add_errlog e fee er) \<or> ran_ok e reg tx x fee f))) \<and>
         (\<forall>er. r = Err er \<longrightarrow> \<not> IsAPIEnvError (Some er) \<longrightarrow> replayed reg x [] x')"
proof -
  define k where "k fee = bind (execTxOne e reg fee tx i) (\<lambda>(feelog1, err).
       bind (if err \<noteq> None then x_rollback e else x_commit e) (\<lambda>_.
         case err of
           Some er \<Rightarrow> if IsAPIEnvError (Some er) then fail er else ret feelog1
         | None \<Rightarrow> ret feelog1))" for fee
  have eq: "execTx e reg tx i x =
      bind (exec_checkTx e reg tx i) (\<lambda>_. bind (execFee e reg tx i) (\<lambda>fee. bind (x_begin e) (\<lambda>_. k fee))) x"
    using assms(3) by (simp add: execTx_def with_x_def k_def)
  obtain r1 x1 where c: "exec_checkTx e reg tx i x = (r1, x1)" by force
  from xreader_out [OF xreader_checkTx c assms(2)] have x1: "xout reg x1" "x_view x1 = x_view x" "x_ctx x1 = x_ctx x" by blast+
  show ?thesis
  proof (cases r1)
    case (Ret u)
    with run eq c have "bind (execFee e reg tx i) (\<lambda>fee. bind (x_begin e) (\<lambda>_. k fee)) x1 = (r, x')"
      by (simp add: bind_Ret)
    from fee_begin_run [OF assms(1) x1(1) _ this] forks x1 consider
        (run) fee x3 where "k fee x3 = (r, x')" "fee_of e reg tx (x_view x) fee" "xin reg x3"
          "x_view x3 = kv_replay (KV fee) (x_view x)" "x_base x3 = kv_replay (KV fee) (x_view x)" "x_ctx x3 = x_ctx x"
      | (err) "\<exists>er. r = Err er" "replayed reg x [] x'" | (panic) "\<exists>p. r = Panic p"
      by (auto simp: replayed_def)
    then show ?thesis
    proof cases
      case run
      obtain r4 x4 where o: "execTxOne e reg fee tx i x3 = (r4, x4)" by force
      have "isFork e (x_height x3) ''ForkStateDBSet'' = Ret True" using forks run(6) by (simp add: forks_on_def)
      note one = execTxOne_run [OF assms(1) run(3) this o]
      then have x4: "xin reg x4" "x_base x4 = x_base x3" "x_ctx x4 = x_ctx x" using run(6) by (auto simp: xkeep_def)
      from execTxOne_value [OF o] consider (Ret) f1 err where "r4 = Ret (f1, err)" | (Panic) p where "r4 = Panic p" by blast
      then show ?thesis
      proof cases
        case Ret
        obtain x5 where x5: "(if err \<noteq> None then x_rollback e else x_commit e) x4 = (Ret (), x5)" "xout reg x5"
            "x_view x5 = (if err \<noteq> None then x_base x4 else x_view x4)" "x_ctx x5 = x_ctx x"
          using end_run [OF x4(1), of e "err \<noteq> None"] forks x4(3) by auto
        have r: "x' = x5 \<and> r = (case err of None \<Rightarrow> Ret f1 | Some er \<Rightarrow> if IsAPIEnvError (Some er) then Err er else Ret f1)"
          using run(1) o Ret x5(1) by (auto simp: k_def bind_Ret split: option.splits if_splits)
        show ?thesis
          using r x5 x4 one Ret run kv_replay_twice [of "KV fee" _ "x_view x"]
          by (auto simp: replayed_def ran_ok_def one_ok_def one_failed_def add_errlog_def KV_merge_fee
              simp del: kv_replay_simps(3) split: option.splits if_splits)
      qed (use run o in \<open>auto simp: k_def bind_def\<close>)
    qed auto
  qed (use run eq c x1 in \<open>auto simp: bind_def replayed_def\<close>)
qed

lemma exec_rest_run:
  assumes "reg_ok reg" and "xin reg x" and fork: "isFork e (x_height x) ''ForkStateDBSet'' = Ret True"
    and run: "exec_rest e reg i txs x = (r, x')"
  shows "xkeep reg x x' \<and> (\<forall>er. r \<noteq> Err er) \<and>
     (\<forall>rs. r = Ret (rs, None) \<longrightarrow> (\<exists>receipts. length receipts = length txs \<and> rs = map (merge_fee packed) receipts) \<and>
        (valued (concat (map KV rs)) \<longrightarrow> x_view x' = kv_replay (concat (map KV rs)) (x_view x))) \<and>
     (\<forall>rs rf er. r = Ret (rs, Some (rf, er)) \<longrightarrow> length rs < length txs \<and> KV rf = [])"
  using assms(2-)
proof (induction txs arbitrary: i x r x')
  case Nil
  then show ?case by (auto simp: xkeep_refl)
next
  case (Cons tx txs)
  obtain r1 x1 where o: "execTxOne e reg packed tx i x = (r1, x1)" by force
  note one = execTxOne_run [OF assms(1) Cons.prems(1,2) o]
  from execTxOne_value [OF o] consider (ok) f1 where "r1 = Ret (f1, None)"
    | (failed) f1 er where "r1 = Ret (f1, Some er)" | (panic) p where "r1 = Panic p" by (metis not_None_eq)
  then show ?case
  proof cases
    case ok
    obtain r2 x2 where rest: "exec_rest e reg (i + 1) txs x1 = (r2, x2)" by force
    have "xin reg x1" "isFork e (x_height x1) ''ForkStateDBSet'' = Ret True"
      using one Cons.prems(2) by (auto simp: xkeep_def)
    note ih = Cons.IH [OF this rest]
    have "x' = x2 \<and> r = (case r2 of Ret (rs, fl) \<Rightarrow> Ret (f1 # rs, fl) | Err er \<Rightarrow> Err er | Panic p \<Rightarrow> Panic p)"
      using Cons.prems(3) o ok rest by (auto simp: bind_def split: outcome.splits prod.splits)
    moreover obtain receipt where f1: "f1 = merge_fee packed receipt" "valued (KV f1) \<longrightarrow> x_view x1 = kv_replay (KV f1) (x_view x)"
      using one ok by (auto simp: one_ok_def)
    moreover have "\<exists>receipts'. length receipts' = length (tx # txs) \<and> f1 # map (merge_fee packed) receipts = map (merge_fee packed) receipts'"
      if "length receipts = length txs" for receipts
      using f1(1) that by (intro exI [of _ "receipt # receipts"]) simp
    ultimately show ?thesis
      using ih one by (auto intro: xkeep_trans split: outcome.splits)
  next
    case failed
    with Cons.prems(3) o one show ?thesis
      by (auto simp: bind_Ret one_failed_def add_errlog_def packed_def)
  next
    case panic
    with Cons.prems(3) o one show ?thesis by (auto simp: bind_def)
  qed
qed

lemma concat_packed [simp]: "concat (map KV (replicate n packed)) = []"
  by (induction n) (auto simp: packed_def)

text \<open>The receipts of a group: every transaction's own, or the fee of the first and empty ones.\<close>

definition group_done :: "'a dapp_env_scheme \<Rightarrow> Registry \<Rightarrow> Transaction \<Rightarrow> executor \<Rightarrow> Receipt list \<Rightarrow> bool" where
  "group_done e reg tx x rs \<longleftrightarrow> (\<exists>fee receipt receipts. fee_of e reg tx (x_view x) fee \<and>
     rs = merge_fee fee receipt # map (merge_fee packed) receipts)"

definition group_undone :: "'a dapp_env_scheme \<Rightarrow> Registry \<Rightarrow> Transaction \<Rightarrow> executor \<Rightarrow> Receipt list \<Rightarrow> bool" where
  "group_undone e reg tx x rs \<longleftrightarrow> (\<exists>fee. fee_of e reg tx (x_view x) fee \<and> KV (rs ! 0) = KV fee \<and>
     (\<forall>r \<in> set (tl rs). KV r = []))"

text \<open>The part of \<^verbatim>\<open>execTxGroup\<close> after \<^verbatim>\<open>begin\<close>.\<close>

definition group_body :: "'a dapp_env_scheme \<Rightarrow> Registry \<Rightarrow> Transaction list \<Rightarrow> int \<Rightarrow> Receipt \<Rightarrow> (executor, Receipt list) prog" where
  "group_body e reg txs i feelog =
     bind (execTxOne e reg feelog (txs ! 0) i) (\<lambda>(r0, err). with_x (\<lambda>x.
       case err of
         Some er \<Rightarrow>
           if IsAPIEnvError (Some er) then fail er
           else bind (liftO (isFork e (x_height x) ''ForkExecRollback'')) (\<lambda>fork.
             bind (if fork then x_rollback e else ret ()) (\<lambda>_.
               ret (r0 # replicate (length txs - 1) packed)))
       | None \<Rightarrow>
           bind (exec_rest e reg (i + 1) (tl txs)) (\<lambda>(rs, failed).
             case failed of
               Some (rf, er) \<Rightarrow>
                 if IsAPIEnvError (Some er) then fail er
                 else bind (liftO (isFork e (x_height x) ''ForkResetTx0'')) (\<lambda>fork.
                   bind (x_rollback e) (\<lambda>_.
                     ret ((if fork then feelog else r0) # replicate (length rs) packed @ rf #
                            replicate (length txs - 2 - length rs) packed)))
             | None \<Rightarrow> bind (x_commit e) (\<lambda>_. ret (r0 # rs)))))"

lemma execTxGroup_body:
  "execTxGroup e reg txs i =
     bind (checkTxGroup e txs) (\<lambda>_. bind (execFee e reg (txs ! 0) i) (\<lambda>fee. bind (x_begin e) (\<lambda>_. group_body e reg txs i fee)))"
  by (simp add: execTxGroup_def group_body_def)

lemma group_body_rest:
  assumes "reg_ok reg" and x: "xin reg x" "forks_on e (x_height x)" and ne: "txs \<noteq> []"
    and run: "bind (exec_rest e reg (i + 1) (tl txs)) (\<lambda>(rs, failed).
             case failed of
               Some (rf, er) \<Rightarrow>
                 if IsAPIEnvError (Some er) then fail er
                 else bind (liftO (isFork e (x_height x) ''ForkResetTx0'')) (\<lambda>fork.
                   bind (x_rollback e) (\<lambda>_.
                     ret ((if fork then feelog else r0) # replicate (length rs) packed @ rf #
                            replicate (length txs - 2 - length rs) packed)))
             | None \<Rightarrow> bind (x_commit e) (\<lambda>_. ret (r0 # rs))) x = (r, x')"
  shows "(\<forall>rs. r = Ret rs \<longrightarrow> length rs = length txs \<and> xout reg x' \<and> x_ctx x' = x_ctx x \<and>
            ((\<exists>receipts. rs = r0 # map (merge_fee packed) receipts \<and> (valued (concat (map KV (tl rs))) \<longrightarrow>
                 x_view x' = kv_replay (concat (map KV (tl rs))) (x_view x))) \<or>
             (\<exists>rs'. rs = feelog # rs' \<and> (\<forall>f \<in> set rs'. KV f = []) \<and> x_view x' = x_base x))) \<and>
         (\<forall>er. r = Err er \<longrightarrow> IsAPIEnvError (Some er))"
proof -
  obtain r1 x1 where rest: "exec_rest e reg (i + 1) (tl txs) x = (r1, x1)" by force
  have fork: "isFork e (x_height x) ''ForkStateDBSet'' = Ret True" using x(2) by (simp add: forks_on_def)
  note rr = exec_rest_run [OF assms(1) x(1) fork rest]
  then have x1: "xin reg x1" "x_base x1 = x_base x" "x_ctx x1 = x_ctx x" by (auto simp: xkeep_def)
  obtain xc where xc: "x_commit e x1 = (Ret (), xc)" "xout reg xc" "x_view xc = x_view x1" "x_ctx xc = x_ctx x"
    using end_run [OF x1(1), of e False] x(2) x1(3) by auto
  obtain xr where xr: "x_rollback e x1 = (Ret (), xr)" "xout reg xr" "x_view xr = x_base x" "x_ctx xr = x_ctx x"
    using end_run [OF x1(1), of e True] x(2) x1(2,3) by auto
  have reset: "isFork e (x_height x) ''ForkResetTx0'' = Ret True" using x(2) by (simp add: forks_on_def)
  consider (ok) rs where "r1 = Ret (rs, None)" | (failed) rs rf er where "r1 = Ret (rs, Some (rf, er))"
    | (panic) p where "r1 = Panic p"
  proof (cases r1)
    case (Ret p)
    obtain rs fl where "p = (rs, fl)" by (cases p)
    with Ret ok failed show thesis by (cases fl) auto
  qed (use rr panic in auto)
  then show ?thesis
  proof cases
    case ok
    with rr ne have rs: "length rs = length txs - 1" "\<exists>receipts. rs = map (merge_fee packed) receipts"
      and v: "valued (concat (map KV rs)) \<longrightarrow> x_view x1 = kv_replay (concat (map KV rs)) (x_view x)" by auto
    have "r = Ret (r0 # rs) \<and> x' = xc" using run rest xc(1) ok by (simp add: bind_Ret)
    moreover have "length (r0 # rs) = length txs" using rs(1) ne by (cases txs) auto
    ultimately show ?thesis using xc rs(2) v by simp
  next
    case failed
    with rr have len: "length rs < length txs - 1" "KV rf = []" by auto
    then have "length (feelog # replicate (length rs) packed @ rf # replicate (length txs - 2 - length rs) packed) = length txs"
      by simp
    with failed run rest xr reset len show ?thesis
      by (auto simp: bind_def liftO_def packed_def split: if_splits)
  next
    case panic
    with run rest show ?thesis by (auto simp: bind_def)
  qed
qed

lemma group_body_run:
  assumes "reg_ok reg" and x: "xin reg x" "forks_on e (x_height x)" and ne: "txs \<noteq> []"
    and run: "group_body e reg txs i fee x = (r, x')"
  shows "(\<forall>rs. r = Ret rs \<longrightarrow> length rs = length txs \<and> xout reg x' \<and> x_ctx x' = x_ctx x \<and>
            ((\<exists>receipt receipts. rs = merge_fee fee receipt # map (merge_fee packed) receipts \<and> (valued (concat (map KV rs)) \<longrightarrow>
                 x_view x' = kv_replay (concat (map KV rs)) (x_view x))) \<or>
             (\<exists>r0 rs'. rs = r0 # rs' \<and> KV r0 = KV fee \<and> (\<forall>f \<in> set rs'. KV f = []) \<and> x_view x' = x_base x))) \<and>
         (\<forall>er. r = Err er \<longrightarrow> IsAPIEnvError (Some er))"
proof -
  obtain r1 x1 where o: "execTxOne e reg fee (txs ! 0) i x = (r1, x1)" by force
  have fork: "isFork e (x_height x) ''ForkStateDBSet'' = Ret True" using x(2) by (simp add: forks_on_def)
  note one = execTxOne_run [OF assms(1) x(1) fork o]
  then have x1: "xin reg x1" "x_base x1 = x_base x" "x_ctx x1 = x_ctx x" by (auto simp: xkeep_def)
  then have f1: "forks_on e (x_height x1)" using x(2) by simp
  from execTxOne_value [OF o] consider (ok) r0 where "r1 = Ret (r0, None)"
    | (failed) r0 er where "r1 = Ret (r0, Some er)" | (panic) p where "r1 = Panic p" by (metis not_None_eq)
  then show ?thesis
  proof cases
    case ok
    obtain receipt where r0: "r0 = merge_fee fee receipt" "valued (KV r0) \<longrightarrow> x_view x1 = kv_replay (KV r0) (x_view x)"
      using one ok by (auto simp: one_ok_def)
    have "bind (exec_rest e reg (i + 1) (tl txs)) (\<lambda>(rs, failed).
             case failed of
               Some (rf, er) \<Rightarrow>
                 if IsAPIEnvError (Some er) then fail er
                 else bind (liftO (isFork e (x_height x1) ''ForkResetTx0'')) (\<lambda>fork.
                   bind (x_rollback e) (\<lambda>_.
                     ret ((if fork then fee else r0) # replicate (length rs) packed @ rf #
                            replicate (length txs - 2 - length rs) packed)))
             | None \<Rightarrow> bind (x_commit e) (\<lambda>_. ret (r0 # rs))) x1 = (r, x')"
      using run o ok by (simp add: group_body_def bind_Ret with_x_def)
    note rest = group_body_rest [OF assms(1) x1(1) f1 ne this]
    with r0 x1 rest show ?thesis by fastforce
  next
    case failed
    obtain xr where xr: "x_rollback e x1 = (Ret (), xr)" "xout reg xr" "x_view xr = x_base x" "x_ctx xr = x_ctx x"
      using end_run [OF x1(1) f1, of True] x1 by auto
    have "KV r0 = KV fee" using one failed by (auto simp: one_failed_def add_errlog_def)
    with run o failed xr f1 ne show ?thesis
      by (auto simp: group_body_def bind_Ret bind_def with_x_def liftO_def forks_on_def packed_def split: if_splits)
  next
    case panic
    with run o show ?thesis by (auto simp: group_body_def bind_def)
  qed
qed

lemma concat_KV_empty: "(\<forall>f \<in> set rs. KV f = []) \<Longrightarrow> concat (map KV rs) = []"
  by simp

lemma execTxGroup_run:
  assumes "reg_ok reg" and "xout reg x" and forks: "forks_on e (x_height x)" and ne: "txs \<noteq> []"
    and run: "execTxGroup e reg txs i x = (r, x')"
  shows "(\<forall>rs. r = Ret rs \<longrightarrow> replayed reg x rs x' \<and> length rs = length txs \<and>
            (group_done e reg (txs ! 0) x rs \<or> group_undone e reg (txs ! 0) x rs)) \<and>
         (\<forall>er. r = Err er \<longrightarrow> \<not> IsAPIEnvError (Some er) \<longrightarrow> replayed reg x [] x')"
proof -
  obtain r1 x1 where c: "checkTxGroup e txs x = (r1, x1)" by force
  from xreader_out [OF xreader_checkGroup c assms(2)] have x1: "xout reg x1" "x_view x1 = x_view x" "x_ctx x1 = x_ctx x" by blast+
  show ?thesis
  proof (cases r1)
    case (Ret u)
    with run c have "bind (execFee e reg (txs ! 0) i) (\<lambda>fee. bind (x_begin e) (\<lambda>_. group_body e reg txs i fee)) x1 = (r, x')"
      by (simp add: execTxGroup_body bind_Ret)
    from fee_begin_run [OF assms(1) x1(1) _ this] forks x1 consider
        (run) fee x3 where "group_body e reg txs i fee x3 = (r, x')" "fee_of e reg (txs ! 0) (x_view x) fee" "xin reg x3"
          "x_view x3 = kv_replay (KV fee) (x_view x)" "x_base x3 = kv_replay (KV fee) (x_view x)" "x_ctx x3 = x_ctx x"
      | (err) "\<exists>er. r = Err er" "replayed reg x [] x'" | (panic) "\<exists>p. r = Panic p"
      by (auto simp: replayed_def)
    then show ?thesis
    proof cases
      case run
      have "forks_on e (x_height x3)" using forks run(6) by simp
      note gb = group_body_run [OF assms(1) run(3) this ne run(1)]
      have tw: "kv_replay ((KV fee @ kvs) @ rest) (kv_replay (KV fee) (x_view x)) = kv_replay ((KV fee @ kvs) @ rest) (x_view x)" for kvs rest
        using kv_replay_twice [of "KV fee" "kvs @ rest" "x_view x"] by simp
      show ?thesis
      proof (intro conjI allI impI)
        fix rs assume r: "r = Ret rs"
        with gb run have "length rs = length txs" "xout reg x'" "x_ctx x' = x_ctx x" by auto
        moreover from gb r consider (done1) receipt receipts where "rs = merge_fee fee receipt # map (merge_fee packed) receipts"
            "valued (concat (map KV rs)) \<longrightarrow> x_view x' = kv_replay (concat (map KV rs)) (x_view x3)"
          | (undone) r0 rs' where "rs = r0 # rs'" "KV r0 = KV fee" "\<forall>f \<in> set rs'. KV f = []" "x_view x' = x_base x3"
          by blast
        then have "(valued (concat (map KV rs)) \<longrightarrow> x_view x' = kv_replay (concat (map KV rs)) (x_view x)) \<and>
            (group_done e reg (txs ! 0) x rs \<or> group_undone e reg (txs ! 0) x rs)"
        proof cases
          case done1
          then have "group_done e reg (txs ! 0) x rs" using run(2) by (auto simp: group_done_def)
          moreover have "kv_replay (concat (map KV rs)) (x_view x3) = kv_replay (concat (map KV rs)) (x_view x)"
            using done1(1) tw [of "receipt_kvs receipt" "concat (map KV (map (merge_fee packed) receipts))"] run(4)
            by (simp add: KV_merge_fee)
          ultimately show ?thesis using done1(2) by simp
        next
          case undone
          then have "group_undone e reg (txs ! 0) x rs" using run(2) by (auto simp: group_undone_def)
          moreover have "concat (map KV rs) = KV fee"
            using undone(1,2) concat_KV_empty [OF undone(3)] by simp
          ultimately show ?thesis using undone(4) run(5) by simp
        qed
        ultimately show "replayed reg x rs x'" "length rs = length txs"
            "group_done e reg (txs ! 0) x rs \<or> group_undone e reg (txs ! 0) x rs"
          by (simp_all add: replayed_def)
      qed (use gb in auto)
    qed auto
  qed (use run c x1 in \<open>auto simp: execTxGroup_body bind_def replayed_def\<close>)
qed

end
