(* ===== verification/ExecutorProps.thy ===== *)
theory ExecutorProps
  imports ExecutorTx
begin

text \<open>
  The properties of the executor: the receipts of a list describe the state it leaves, a transaction
  that fails costs its fee and nothing else, a transaction writes only keys it may write, and a group
  is run as a whole or not at all.
\<close>

subsection \<open>Lists\<close>

lemma replayed_append:
  "replayed reg x rs x' \<Longrightarrow> replayed reg x' rs' x'' \<Longrightarrow> replayed reg x (rs @ rs') x''"
  by (auto simp: replayed_def)

lemma replayed_refl: "xout reg x \<Longrightarrow> replayed reg x [] x"
  by (simp add: replayed_def)

lemma replayed_err: "replayed reg x [] x' \<Longrightarrow> replayed reg x (replicate n (NewErrReceipt e er)) x'"
  by (induction n) (auto simp: replayed_def NewErrReceipt_def)

lemma replayed_out: "replayed reg x rs x' \<Longrightarrow> xout reg x' \<and> x_height x' = x_height x"
  by (simp add: replayed_def)

declare exec_list.simps(2) [simp del]

text \<open>One round of the loop: what it replies for the transactions it takes, and what is left.\<close>

definition took :: "'a dapp_env_scheme \<Rightarrow> Registry \<Rightarrow> nat \<Rightarrow> executor \<Rightarrow> Receipt list \<Rightarrow> executor \<Rightarrow> bool" where
  "took e reg n x rs x' \<longleftrightarrow> (\<exists>rs1 x1 i1 txs1 rs2. replayed reg x rs1 x1 \<and> length rs1 + length txs1 = n \<and> rs1 \<noteq> [] \<and>
     exec_list e reg i1 txs1 x1 = (Ret rs2, x') \<and> rs = rs1 @ rs2)"

lemma tookI:
  "replayed reg x rs1 x1 \<Longrightarrow> length rs1 + length txs1 = n \<Longrightarrow> rs1 \<noteq> [] \<Longrightarrow>
     bind (exec_list e reg i1 txs1) (\<lambda>rs2. ret (rs1 @ rs2)) x1 = (Ret rs, x') \<Longrightarrow> took e reg n x rs x'"
  unfolding took_def by (auto simp: bind_eq_Ret) metis

lemma took_err:
  assumes "replayed reg x [] x1" and "bind (exec_list e reg i txs) (\<lambda>rs. ret (NewErrReceipt e er # rs)) x1 = (Ret rs, x')"
  shows "took e reg (Suc (length txs)) x rs x'"
  using tookI [OF replayed_err [OF assms(1), of 1 e er], of txs "Suc (length txs)" e i rs x'] assms(2) by simp

lemma exec_group_step:
  assumes "reg_ok reg" and x: "xout reg x" "forks_on e (x_height x)"
    and n: "GroupCount tx = int n" "2 \<le> n" "n \<le> 20"
    and run: "exec_list e reg i (tx # txs) x = (Ret rs, x')"
  shows "took e reg (Suc (length txs)) x rs x'"
proof -
  let ?g = "tx # take (n - 1) txs" and ?rest = "drop (n - 1) txs"
  define k where "k res =
     (case res of
        Inl er \<Rightarrow>
          if IsAPIEnvError (Some er) then fail er
          else bind (exec_list e reg i ?rest) (\<lambda>rs. ret (replicate n (NewErrReceipt e er) @ rs))
      | Inr receiptlist \<Rightarrow>
          if length receiptlist > 0 \<and> length receiptlist \<noteq> n
          then panic ''len(receiptlist) must be equal tx.GroupCount''
          else bind (exec_list e reg (i + int n) ?rest) (\<lambda>rs. ret (receiptlist @ rs)))" for res
  have nat_n: "nat (GroupCount tx) = n" using n(1) by simp
  have "exec_list e reg i (tx # txs) x = bind (liftO (isFork e (x_height x) ''ForkTxGroup'')) (\<lambda>fork.
      if \<not> fork then
        bind (exec_list e reg i txs) (\<lambda>rs. ret (NewErrReceipt e ErrTxGroupNotSupport # rs))
      else if n > Suc (length txs) then
        bind (exec_list e reg i txs) (\<lambda>rs. ret (NewErrReceipt e ErrTxGroupCount # rs))
      else bind (attempt (execTxGroup e reg ?g i)) k) x"
    unfolding exec_list.simps(2) Let_def with_x_def k_def nat_n using n by simp
  with run obtain fork where run1: "(if \<not> fork then
        bind (exec_list e reg i txs) (\<lambda>rs. ret (NewErrReceipt e ErrTxGroupNotSupport # rs))
      else if n > Suc (length txs) then
        bind (exec_list e reg i txs) (\<lambda>rs. ret (NewErrReceipt e ErrTxGroupCount # rs))
      else bind (attempt (execTxGroup e reg ?g i)) k) x = (Ret rs, x')"
    by (auto simp: bind_eq_Ret liftO_def)
  show ?thesis
  proof (cases "fork \<and> n \<le> Suc (length txs)")
    case False
    with run1 took_err [OF replayed_refl [OF x(1)]] show ?thesis by (auto split: if_splits)
  next
    case True
    obtain r1 x1 where t: "execTxGroup e reg ?g i x = (r1, x1)" by force
    note tr = execTxGroup_run [OF assms(1) x _ t]
    have len: "length ?g = n" "n + length ?rest = Suc (length txs)" "0 < n" using True n by auto
    have "k (case r1 of Ret rl \<Rightarrow> Inr rl | Err er \<Rightarrow> Inl er | Panic p \<Rightarrow> Inl ErrNotFound) x1 = (Ret rs, x')" "\<forall>p. r1 \<noteq> Panic p"
      using run1 True t by (auto simp: bind_def attempt_def split: outcome.splits)
    then consider (Ret) rl where "r1 = Ret rl" "k (Inr rl) x1 = (Ret rs, x')"
      | (Err) er where "r1 = Err er" "k (Inl er) x1 = (Ret rs, x')" by (cases r1) auto
    then show ?thesis
    proof cases
      case Ret
      with tr len have "replayed reg x rl x1" "length rl = n" by auto
      with Ret len show ?thesis by (intro tookI [of reg x rl x1 ?rest]) (auto simp: k_def)
    next
      case Err
      with tr have "replayed reg x [] x1" by (auto simp: k_def split: if_splits)
      from replayed_err [OF this, of n e er] Err len show ?thesis
        by (intro tookI [of reg x "replicate n (NewErrReceipt e er)" x1 ?rest]) (auto simp: k_def split: if_splits)
    qed
  qed
qed

lemma exec_list_step:
  assumes "reg_ok reg" and x: "xout reg x" "x_height x \<noteq> 0" "forks_on e (x_height x)"
    and run: "exec_list e reg i (tx # txs) x = (Ret rs, x')"
  shows "took e reg (Suc (length txs)) x rs x'"
proof -
  consider (bad) "GroupCount tx < 0 \<or> GroupCount tx = 1 \<or> GroupCount tx > 20" | (single) "GroupCount tx = 0"
    | (group1) "GroupCount tx > 1" "GroupCount tx \<le> 20" by linarith
  then show ?thesis
  proof cases
    case bad
    with run took_err [OF replayed_refl [OF x(1)]] show ?thesis by (simp add: exec_list.simps(2))
  next
    case single
    obtain r1 x1 where t: "execTx e reg tx i x = (r1, x1)" by force
    note tr = execTx_run [OF assms(1) x t]
    show ?thesis
    proof (cases r1)
      case (Ret f)
      with run t single tr show ?thesis
        by (intro tookI [of reg x "[f]" x1 txs]) (auto simp: exec_list.simps(2) bind_Ret attempt_Ret)
    next
      case (Err er)
      with run t single tr took_err [of reg x x1] show ?thesis
        by (auto simp: exec_list.simps(2) bind_Ret attempt_Err split: if_splits)
    qed (use run t single in \<open>auto simp: exec_list.simps(2) bind_def attempt_def\<close>)
  next
    case group1
    then have "GroupCount tx = int (nat (GroupCount tx))" "2 \<le> nat (GroupCount tx)" "nat (GroupCount tx) \<le> 20" by auto
    from exec_group_step [OF assms(1) x(1,3) this run] show ?thesis .
  qed
qed

lemma exec_list_run:
  assumes "reg_ok reg" and "xout reg x" and "x_height x \<noteq> 0" and "forks_on e (x_height x)"
    and "exec_list e reg i txs x = (Ret rs, x')"
  shows "replayed reg x rs x' \<and> length rs = length txs"
  using assms(2-)
proof (induction "length txs" arbitrary: txs i x rs rule: less_induct)
  case less
  show ?case
  proof (cases txs)
    case Nil
    with less show ?thesis by (simp add: replayed_refl)
  next
    case (Cons tx rest)
    with less.prems exec_list_step [OF assms(1), of x e i tx rest rs x'] obtain rs1 x1 i1 txs1 rs2
      where s: "replayed reg x rs1 x1" "length rs1 + length txs1 = Suc (length rest)" "rs1 \<noteq> []"
        "exec_list e reg i1 txs1 x1 = (Ret rs2, x')" "rs = rs1 @ rs2" unfolding took_def by blast
    moreover have "length txs1 < length txs" using s(2,3) Cons by (cases rs1) auto
    ultimately have "replayed reg x1 rs2 x' \<and> length rs2 = length txs1"
      using less.hyps [of txs1 x1 i1 rs2] replayed_out [OF s(1)] less.prems by simp
    with s Cons show ?thesis by (auto intro: replayed_append)
  qed
qed

end
