(* ===== verification/ExecutorToy.thy ===== *)
theory ExecutorToy
  imports ExecutorProps
begin

text \<open>
  An example of a node for the witnesses: a chain with every fork active, the three drivers of the
  system, texts of addresses of one byte, the first one of the key, and one payer with a balance.
\<close>

definition toy_addrs :: addr_env where
  "toy_addrs = \<lparr>Sum256 = (\<lambda>b. take 1 b @ zeros 31), Ripemd160 = take 20, b58Encode = (\<lambda>b. [b ! 1]),
     b58Decode = (\<lambda>a. Some (CHR 0x00 # a @ zeros 23)), lruStr = (\<lambda>c k v. c), lruErr = (\<lambda>c k v. c)\<rparr>"

definition toy_acc :: codec where
  "toy_acc = \<lparr>Encode = (\<lambda>a. char_of (Balance a) # Addr a),
     Decode = (\<lambda>b. case b of [] \<Rightarrow> None | c # a \<Rightarrow> Some \<lparr>Currency = 0, Balance = of_char c, Frozen = 0, Addr = a\<rparr>),
     EncodeLog = (\<lambda>_. [])\<rparr>"

definition toy_chain :: ChainConf where
  "toy_chain = \<lparr>chainConfig = [''MinFee'' \<mapsto> CInt 1], title = ''t'', systemFork = \<lparr>forks = [''t'' \<mapsto> (\<lambda>_. Some 0)]\<rparr>\<rparr>"

definition toy_coins :: "bytes \<Rightarrow> CoinsAction option" where
  "toy_coins b = (case b of
     [t, c] \<Rightarrow> Some \<lparr>ca_Value = Some (ActTransfer \<lparr>at_Amount = of_char c, at_To = []\<rparr>), ca_Ty = of_char t\<rparr>
   | _ \<Rightarrow> None)"

text \<open>The parts of the node that do not depend on the table of executor types.\<close>

definition toy_base :: "(string \<rightharpoonup> ExecutorType) \<Rightarrow> manage_env" where
  "toy_base types = addr_env.extend toy_addrs
     \<lparr>EncodeTx = Payload, SizeTx = (\<lambda>_. 100), EncodeTxs = (\<lambda>_. []), DecodeTxs = (\<lambda>_. None),
      VerifySign = (\<lambda>_ _ _. True), conf = toy_chain,
      executorMap = types, execDrivers = Map.empty, execAddressNameMap = Map.empty,
      accPb = toy_acc, coinSymbol = ''bty'', minerExecs = [], AllowUserExec = [''none'', ''coins'', ''manage''],
      errText = (\<lambda>_. ''err''),
      DecodeCoins = toy_coins, EncodeInt64 = (\<lambda>n. [char_of n]), DecodeInt64 = (\<lambda>b. Some (of_char (hd b))),
      DecodeManage = (\<lambda>_. None), EncodeItem = (\<lambda>_. []), DecodeItem = (\<lambda>_. None),
      EncodeReceiptConfig = (\<lambda>_. []), DecodeReceiptConfig = (\<lambda>_. None), superManager = []\<rparr>"

definition toy_node :: manage_env where
  "toy_node = toy_base [''coins'' \<mapsto> CoinsType (toy_base Map.empty), ''manage'' \<mapsto> ManageType (toy_base Map.empty)]"

definition toy_reg :: Registry where
  "toy_reg = snd (sys_init toy_node (\<lambda>n. n) no_registry)"

text \<open>A transfer of \<open>n\<close> coins, signed with the key \<open>p\<close>.\<close>

definition toy_transfer :: "bytes \<Rightarrow> nat \<Rightarrow> string \<Rightarrow> Transaction" where
  "toy_transfer p n to = \<lparr>Execer = ''coins'', Payload = [char_of (1::nat), char_of n],
     txSignature = Some \<lparr>sigTy = 1, sigPubkey = p, sigSignature = []\<rparr>, Fee = 1, Expire = 0, Nonce = 0,
     To = to, GroupCount = 0, Header = None, Next = None\<rparr>"

definition toy_payer :: string where
  "toy_payer = ''p''"

definition toy_receiver :: string where
  "toy_receiver = ''q''"

definition toy_store :: "bytes \<Rightarrow> bytes \<Rightarrow> store_reply" where
  "toy_store h k = StoreReplyValue (Some [if k = AccountKey (coinsAccount toy_node) toy_payer
     then Some (char_of (100::nat) # toy_payer) else None])"

definition toy_ctx :: executorCtx where
  "toy_ctx = \<lparr>cx_stateHash = [], cx_height = 1, cx_blocktime = 1, cx_difficulty = 0, cx_parentHash = [],
     cx_mainHash = [], cx_mainHeight = 1\<rparr>"

definition toy_exec :: Executor where
  "toy_exec = \<lparr>disableLocal = True, ex_store = Some toy_store, ex_mvcc = False, ex_GetVersion = (\<lambda>_. Inl ErrNotFound),
     ex_GetV = (\<lambda>_ _. Inl ErrNotFound)\<rparr>"

definition toy_x :: executor where
  "toy_x = newExecutor toy_ctx toy_exec None [] []"

end
