(* ===== verification/ExecutorSafety.thy ===== *)
theory ExecutorSafety
  imports ExecutorToy
begin

text \<open>
  The executor's promises to the rest of the chain, each with an example on the node of \<open>ExecutorToy\<close>.
\<close>

subsection \<open>The example node\<close>

lemma sys_init_run:
  assumes "types_GetDappFork (conf e) ''coins'' ''Enable'' = Ret hc" and "types_GetDappFork (conf e) ''manage'' ''Enable'' = Ret hm"
  shows "\<exists>reg. sys_init e addrOf no_registry = (Ret (), reg) \<and>
     registedExecDriver reg = [''none'' \<mapsto> \<lparr>create = newNone e, dh_height = 0\<rparr>,
       ''coins'' \<mapsto> \<lparr>create = newCoins e, dh_height = hc\<rparr>, ''manage'' \<mapsto> \<lparr>create = newManage e, dh_height = hm\<rparr>]"
  using assms
  by (simp add: sys_init_def none_Init_def coins_Init_def manage_Init_def Register_def registerAddress_def
      bind_def liftO_def no_registry_def drv_GetName_def newManage_def newBase_def Let_def)

lemma sys_reg_ok:
  assumes "registedExecDriver reg = [''none'' \<mapsto> \<lparr>create = newNone e, dh_height = 0\<rparr>,
       ''coins'' \<mapsto> \<lparr>create = newCoins e, dh_height = hc\<rparr>, ''manage'' \<mapsto> \<lparr>create = newManage e, dh_height = hm\<rparr>]"
  shows "reg_ok reg \<and> \<not> reg_free reg"
  using assms none.driver_axioms [of e] coins.driver_axioms [of e] manage.driver_axioms [of e]
  by (auto simp: reg_ok_def reg_drvs_def reg_free_def ran_def newNone_def newCoins_def newManage_def newBase_def
      split: if_splits)

lemma toy_conf_node [simp]: "conf toy_node = toy_chain" "conf (toy_base t) = toy_chain"
  by (simp_all add: toy_node_def toy_base_def addr_env.defs)

lemma toy_fork [simp]: "isFork toy_node 1 k = Ret True"
  by (simp add: isFork_def types_IsFork_def IsFork_def GetFork_def toy_chain_def)

lemma toy_reg_ok: "reg_ok toy_reg" "\<not> reg_free toy_reg"
proof -
  have "\<exists>h. types_GetDappFork (conf toy_node) d k = Ret h" for d k
    by (simp add: types_GetDappFork_def GetDappFork_def GetFork_def toy_chain_def)
  then obtain hc hm where "types_GetDappFork (conf toy_node) ''coins'' ''Enable'' = Ret hc"
    "types_GetDappFork (conf toy_node) ''manage'' ''Enable'' = Ret hm" by blast
  from sys_init_run [OF this, of "\<lambda>n. n"] sys_reg_ok show "reg_ok toy_reg" "\<not> reg_free toy_reg"
    unfolding toy_reg_def by (metis snd_conv)+
qed

lemma toy_transfer_simps: "GroupCount (toy_transfer p n a) = 0"
  by (simp add: toy_transfer_def)

lemma toy_forks: "forks_on toy_node 1"
  by (simp add: forks_on_def)

lemma toy_x_height [simp]: "x_height toy_x = 1"
  by (simp add: toy_x_def newExecutor_def toy_ctx_def)

lemma toy_out: "xout toy_reg toy_x"
  by (simp add: xout_def xopen_def dopen_def cache_ok_def toy_x_def newExecutor_def NewStateDB_def toy_ctx_def
      toy_exec_def toy_store_def store_answers_def)

definition ret_list :: "Receipt list outcome \<Rightarrow> (int \<times> bytes list \<times> bool) list option" where
  "ret_list r = (case r of Ret rs \<Rightarrow> Some (map (\<lambda>r. (Ty r, map Key (KV r), list_all (\<lambda>kv. Val kv \<noteq> None) (KV r))) rs)
     | _ \<Rightarrow> None)"

lemma ret_list_Some:
  assumes "ret_list (fst p) = Some l"
  obtains rs x' where "p = (Ret rs, x')" and "l = map (\<lambda>r. (Ty r, map Key (KV r), list_all (\<lambda>kv. Val kv \<noteq> None) (KV r))) rs"
  using assms by (cases p) (auto simp: ret_list_def split: outcome.splits)

lemma toy_receiver_new: "x_view toy_x ''mavl-coins-bty-q'' = None"
  by code_simp

lemma toy_tx_run: "ret_list (fst (bind (execTx toy_node toy_reg (toy_transfer ''p'' 7 toy_receiver) 0) (\<lambda>f. ret [f]) toy_x)) =
    Some [(2, [''mavl-coins-bty-p'', ''mavl-coins-bty-p'', ''mavl-coins-bty-q''], True)]"
  by code_simp

lemma toy_tx:
  obtains f x' where "execTx toy_node toy_reg (toy_transfer ''p'' 7 toy_receiver) 0 toy_x = (Ret f, x')"
    "Ty f = 2" "map Key (KV f) = [''mavl-coins-bty-p'', ''mavl-coins-bty-p'', ''mavl-coins-bty-q'']" "valued (KV f)"
proof -
  obtain rs x' where run: "bind (execTx toy_node toy_reg (toy_transfer ''p'' 7 toy_receiver) 0) (\<lambda>f. ret [f]) toy_x = (Ret rs, x')"
    and l: "[(2, [''mavl-coins-bty-p'', ''mavl-coins-bty-p'', ''mavl-coins-bty-q''], True)] = map (\<lambda>r. (Ty r, map Key (KV r), list_all (\<lambda>kv. Val kv \<noteq> None) (KV r))) rs"
    by (rule ret_list_Some [OF toy_tx_run])
  from run obtain f where "execTx toy_node toy_reg (toy_transfer ''p'' 7 toy_receiver) 0 toy_x = (Ret f, x')" "rs = [f]"
    by (auto simp: bind_eq_Ret)
  moreover from this l have "Ty f = 2" "map Key (KV f) = [''mavl-coins-bty-p'', ''mavl-coins-bty-p'', ''mavl-coins-bty-q'']"
      "list_all (\<lambda>kv. Val kv \<noteq> None) (KV f)" by simp_all
  ultimately show thesis using that by (simp add: valued_def list_all_iff)
qed

subsection \<open>Receipts describe the state\<close>

text \<open>
  C6. Running a list of transactions, alone and in groups, at a height above 0 after the forks of the
  executor: there is one receipt per transaction, and the state the executor then shows is exactly the
  old one with the key-value pairs of all receipts written in their order. The drivers are arbitrary
  ones that keep the contract of the interface; the values of the pairs are not nil.
\<close>

theorem exec_receipts_replay:
  assumes "reg_ok reg" and "xout reg x" and "x_height x \<noteq> 0" and "forks_on e (x_height x)"
    and "exec_list e reg i txs x = (Ret rs, x')" and "\<forall>r \<in> set rs. valued (KV r)"
  shows "length rs = length txs \<and> x_view x' = kv_replay (concat (map KV rs)) (x_view x) \<and>
         \<not> sdb_intx (dsState (x_db x'))"
proof -
  have "valued (concat (map KV rs))" using assms(6) by (auto simp: valued_def)
  with exec_list_run [OF assms(1-5)] show ?thesis by (auto simp: replayed_def xout_def)
qed

theorem exec_receipts_replay_witness:
  "\<exists>f x'. exec_list toy_node toy_reg 0 [toy_transfer ''p'' 7 toy_receiver] toy_x = (Ret [f], x') \<and> Ty f = 2 \<and>
     map Key (KV f) = [''mavl-coins-bty-p'', ''mavl-coins-bty-p'', ''mavl-coins-bty-q''] \<and> x_view x' = kv_replay (KV f) (x_view toy_x)"
proof -
  obtain f x' where run: "execTx toy_node toy_reg (toy_transfer ''p'' 7 toy_receiver) 0 toy_x = (Ret f, x')"
    and f: "Ty f = 2" "map Key (KV f) = [''mavl-coins-bty-p'', ''mavl-coins-bty-p'', ''mavl-coins-bty-q'']" "valued (KV f)"
    by (rule toy_tx)
  have l: "exec_list toy_node toy_reg 0 [toy_transfer ''p'' 7 toy_receiver] toy_x = (Ret [f], x')"
    using run by (simp add: exec_list.simps bind_def attempt_def toy_transfer_simps)
  have "x_view x' = kv_replay (KV f) (x_view toy_x)"
    using exec_receipts_replay [OF toy_reg_ok(1) toy_out _ _ l] toy_forks f(3) by simp
  with l f(1,2) show ?thesis by (intro exI conjI)
qed

subsection \<open>One transaction\<close>





subsection \<open>Groups\<close>


text \<open>Two transfers of one payer; the second one is more than the account holds.\<close>

definition toy_group :: "Transaction list" where
  "toy_group = (let a = toy_transfer ''p'' 5 toy_receiver; b = toy_transfer ''p'' 200 toy_receiver;
       h = (\<lambda>tx. Some (Tx_Hash toy_node tx))
     in [a\<lparr>Fee := 2, GroupCount := 2, Header := h a, Next := h b\<rparr>, b\<lparr>Fee := 0, GroupCount := 2, Header := h a\<rparr>])"

lemma toy_group_run: "ret_list (fst (execTxGroup toy_node toy_reg toy_group 0 toy_x)) = Some [(1, [''mavl-coins-bty-p''], True), (1, [], True)]"
  by code_simp


end
