(* ===== verification/LocalProps.thy ===== *)
theory LocalProps
  imports LocalStore
begin

text \<open>
  What the local database of the executor keeps over a transaction, and what it does not keep.
\<close>

declare free_id.simps [simp del]

definition l_batch :: "(bytes \<times> bytes) list \<Rightarrow> (LocalDB, unit) prog" where
  "l_batch kvs = forM kvs (\<lambda>(k, v). l_Set k (Some v))"

lemma l_batch_run:
  "l_intx l \<Longrightarrow> \<not> l_disablewrite l \<Longrightarrow> \<exists>tx ks. l_batch kvs l = (Ret (),
     l\<lparr>l_txcache := tx, l_keys := ks, l_kvs := l_kvs l @ map (\<lambda>(k, v). (k, Some v)) kvs\<rparr>) \<and>
     (case tx of None \<Rightarrow> kvs = [] \<and> l_txcache l = None | Some t \<Rightarrow> t = (case l_txcache l of None \<Rightarrow> Map.empty | Some t \<Rightarrow> t) ++ map_of (rev kvs))"
proof (induction kvs arbitrary: l)
  case Nil
  show ?case
    by (rule exI [of _ "l_txcache l"], rule exI [of _ "l_keys l"]) (simp add: l_batch_def split: option.split)
next
  case (Cons kv kvs)
  obtain k v where kv: "kv = (k, v)" by force
  define l1 where "l1 = snd (l_Set k (Some v) l)"
  have l1: "l_Set k (Some v) l = (Ret (), l1)" "l_intx l1" "\<not> l_disablewrite l1"
    "l_kvs l1 = l_kvs l @ [(k, Some v)]" "l_txcache l1 = Some ((case l_txcache l of None \<Rightarrow> Map.empty | Some t \<Rightarrow> t)(k \<mapsto> v))"
    "\<And>tx ks q. l1\<lparr>l_txcache := tx, l_keys := ks, l_kvs := q\<rparr> = l\<lparr>l_txcache := tx, l_keys := ks, l_kvs := q\<rparr>"
    using Cons.prems by (simp_all add: l1_def l_Set_def Let_def setmap_def)
  obtain tx ks where r: "l_batch kvs l1 = (Ret (),
     l1\<lparr>l_txcache := tx, l_keys := ks, l_kvs := l_kvs l1 @ map (\<lambda>(k, v). (k, Some v)) kvs\<rparr>)"
    and tx: "case tx of None \<Rightarrow> kvs = [] \<and> l_txcache l1 = None | Some t \<Rightarrow> t = (case l_txcache l1 of None \<Rightarrow> Map.empty | Some t \<Rightarrow> t) ++ map_of (rev kvs)"
    using Cons.IH [OF l1(2,3)] by blast
  have "l_batch (kv # kvs) l = l_batch kvs l1"
    using l1(1) by (simp add: l_batch_def kv bind_def)
  moreover have "\<exists>t. tx = Some t \<and> t = (case l_txcache l of None \<Rightarrow> Map.empty | Some t \<Rightarrow> t) ++ map_of (rev (kv # kvs))"
    using tx l1(5) by (auto simp: kv map_add_assoc split: option.splits)
  ultimately show ?case using r l1(4,6) by (auto simp: kv)
qed

text \<open>What a reader sees: the value \<^verbatim>\<open>Get\<close> returns.\<close>

definition l_reads :: "LocalDB \<Rightarrow> bytes \<Rightarrow> bytes outcome" where
  "l_reads l k = fst (l_Get k l)"

lemma l_reads_cong:
  "l_cache l' = l_cache l \<Longrightarrow> l_svc l' = l_svc l \<Longrightarrow> l_txid l' = l_txid l \<Longrightarrow> l_disableread l' = l_disableread l \<Longrightarrow>
   \<not> l_intx l \<Longrightarrow> \<not> l_intx l' \<Longrightarrow> l_reads l' k = l_reads l k"
  by (auto simp: l_reads_def l_Get_def bind_def must_def l_api_def split: option.splits prod.splits outcome.splits list.splits)

text \<open>
  A transaction of the local database that is rolled back is not seen by the reads that follow: after
  \<^verbatim>\<open>Begin\<close>, any writes and \<^verbatim>\<open>Rollback\<close>, every key reads as before. Inside the transaction a read returns the last write.
\<close>

theorem localdb_rollback_reads:
  assumes "\<not> l_intx l" and "\<not> l_disablewrite l" and "\<not> l_disableread l"
  shows "(case bind (l_batch kvs) (\<lambda>_. l_Get k) (l_Begin l) of
            (r, _) \<Rightarrow> (\<forall>v. map_of (rev kvs) k = Some v \<longrightarrow> r = Ret v)) \<and>
         (case bind (l_batch kvs) (\<lambda>_. l_Rollback) (l_Begin l) of
            (r, l') \<Rightarrow> r = Ret () \<and> l_reads l' k = l_reads l k)"
proof -
  let ?l = "l_Begin l"
  have b: "l_intx ?l" "\<not> l_disablewrite ?l" using assms by (simp_all add: l_Begin_def)
  obtain tx ks where r: "l_batch kvs ?l = (Ret (),
     ?l\<lparr>l_txcache := tx, l_keys := ks, l_kvs := l_kvs ?l @ map (\<lambda>(k, v). (k, Some v)) kvs\<rparr>)"
    and tx: "case tx of None \<Rightarrow> kvs = [] \<and> l_txcache ?l = None | Some t \<Rightarrow> t = (case l_txcache ?l of None \<Rightarrow> Map.empty | Some t \<Rightarrow> t) ++ map_of (rev kvs)"
    using l_batch_run [OF b] by blast
  have "bind (l_batch kvs) (\<lambda>_. l_Get k) ?l = (Ret v, snd (bind (l_batch kvs) (\<lambda>_. l_Get k) ?l))"
    if v: "map_of (rev kvs) k = Some v" for v
    using tx v r assms(3) by (cases tx) (auto simp: bind_def l_Get_def l_Begin_def)
  moreover have "\<exists>l'. bind (l_batch kvs) (\<lambda>_. l_Rollback) ?l = (Ret (), l') \<and> l_reads l' k = l_reads l k"
    using r assms by (auto simp: bind_def l_Rollback_def l_Begin_def l_resetTx_def intro!: l_reads_cong)
  ultimately show ?thesis by (auto split: prod.split)
qed

definition toy_local :: LocalDB where
  "toy_local = (case NewLocalDB \<lparr>svcPtrs = [], svcId = 0, svcMain = [''a'' \<mapsto> ''1'']\<rparr> of Ret l \<Rightarrow> l)"

theorem localdb_rollback_reads_witness:
  "l_reads toy_local ''a'' = Ret ''1'' \<and>
   (case bind (l_batch [(''a'', ''2'')]) (\<lambda>_. l_Rollback) (l_Begin toy_local) of
      (r, l') \<Rightarrow> r = Ret () \<and> l_reads l' ''a'' = Ret ''1'')"
proof -
  have i: "\<not> l_intx toy_local" "\<not> l_disablewrite toy_local" "\<not> l_disableread toy_local" by code_simp+
  have "l_reads toy_local ''a'' = Ret ''1''" by code_simp
  with localdb_rollback_reads [OF i, of "[(''a'', ''2'')]" "''a''"] show ?thesis by auto
qed

lemma free_id_ge: "id1 \<le> free_id ids id1"
proof (induction ids id1 rule: free_id.induct)
  case (1 ids id1)
  then show ?case by (cases "id1 \<in> set ids") (simp_all add: free_id.simps [of ids id1])
qed

text \<open>
  C39. A rollback does not take the writes back for good: \<^verbatim>\<open>Rollback\<close> keeps the list of pending pairs, so the
  next transaction that commits sends them to the block store as well. After a rolled-back write of \<open>k\<close> and a committed
  write of another key, \<open>k\<close> reads as the value that was rolled back.
\<close>

definition leak_run :: "bytes \<Rightarrow> bytes \<Rightarrow> bytes \<Rightarrow> bytes \<Rightarrow> (LocalDB, bytes) prog" where
  "leak_run k v k2 v2 =
     bind (\<lambda>l. ret () (l_Begin l)) (\<lambda>_. bind (l_Set k (Some v)) (\<lambda>_. bind l_Rollback (\<lambda>_.
     bind (\<lambda>l. ret () (l_Begin l)) (\<lambda>_. bind (l_Set k2 (Some v2)) (\<lambda>_. bind l_Commit (\<lambda>_. l_Get k))))))"

theorem localdb_rollback_leaks:
  assumes "NewLocalDB s = Ret l" and "0 \<le> svcId s" and "k \<noteq> k2"
  shows "fst (leak_run k v k2 v2 l) = Ret v"
proof -
  define i where "i = free_id (map fst (svcPtrs s)) (svcId s + 1)"
  have i: "i \<noteq> 0" using free_id_ge [of "svcId s + 1" "map fst (svcPtrs s)"] assms(2) by (simp add: i_def)
  have l: "l = \<lparr>l_cache = Map.empty, l_txcache = None, l_keys = [], l_intx = False, l_hasbegin = False,
               l_kvs = [], l_txid = i, l_disableread = False, l_disablewrite = False,
               l_svc = s\<lparr>svcId := i, svcPtrs := (i, db_NewLocalDB (svcMain s)) # svcPtrs s\<rparr>\<rparr>"
    using assms(1) by (simp add: NewLocalDB_def localNew_def StorePointer_def Let_def i_def)
  show ?thesis
    using i assms(3)
    by (simp add: leak_run_def l bind_def l_Begin_def l_Set_def l_Rollback_def l_Commit_def l_save_def l_begin_def l_resetTx_def
        l_Get_def l_api_def localBegin_def localSet_def localCommit_def localGet_def with_ptr_def GetPointer_def must_def
        db_Begin_def db_Set_def db_Commit_def db_resetTx_def db_get_def db_NewLocalDB_def setdb_def setmap_def attempt_def Let_def)
qed

theorem localdb_rollback_leaks_witness: "fst (leak_run ''b'' ''2'' ''c'' ''3'' toy_local) = Ret ''2''"
proof -
  let ?s = "\<lparr>svcPtrs = [], svcId = 0, svcMain = [''a'' \<mapsto> ''1'']\<rparr>"
  have "NewLocalDB ?s = Ret toy_local"
    by (simp add: toy_local_def NewLocalDB_def localNew_def StorePointer_def Let_def free_id.simps)
  from localdb_rollback_leaks [OF this] show ?thesis by simp
qed

end
