(* ===== verification/DappProps.thy ===== *)
theory DappProps
  imports ExecutorToy LocalProps
begin

text \<open>
  The indexes the drivers of the system keep in the local database.
\<close>

subsection \<open>Received amounts\<close>

lemma l_Get_Set:
  assumes "\<not> l_disableread l" and "\<not> l_disablewrite l"
  shows "\<exists>l'. l_Set k (Some v) l = (Ret (), l') \<and> l_Get k l' = (Ret v, l') \<and> \<not> l_disableread l' \<and> \<not> l_disablewrite l'"
  using assms by (auto simp: l_Set_def l_Get_def Let_def setmap_def)

lemma l_api_flags: "l_api m l = (r, l') \<Longrightarrow> l_disableread l' = l_disableread l \<and> l_disablewrite l' = l_disablewrite l"
  by (auto simp: l_api_def split: prod.splits)

lemma l_Get_flags:
  assumes "l_Get k l = (r, l')"
  shows "l_disableread l' = l_disableread l \<and> l_disablewrite l' = l_disablewrite l"
proof -
  obtain r0 l0 where "must (l_api (localGet (l_txid l) [k])) l = (r0, l0)" by force
  moreover from this have "l_disableread l0 = l_disableread l \<and> l_disablewrite l0 = l_disablewrite l"
    by (auto simp: must_def dest!: l_api_flags split: prod.splits outcome.splits)
  ultimately show ?thesis
    using assms by (auto simp: l_Get_def bind_def split: if_splits option.splits outcome.splits list.splits)
qed

lemma getAddrReciver_flags:
  assumes "getAddrReciver e a l = (r, l')"
  shows "l_disableread l' = l_disableread l \<and> l_disablewrite l' = l_disablewrite l"
proof -
  obtain r0 l0 where g: "l_Get (calcAddrKey a) l = (r0, l0)" by force
  have "l' = l0" using assms g by (cases r0) (auto simp: getAddrReciver_def bind_def attempt_def split: if_splits option.splits)
  with l_Get_flags [OF g] show ?thesis by simp
qed

text \<open>What the code relies on of the encoding of \<^verbatim>\<open>types.Int64\<close>: it is decoded again, and only 0 may be encoded as no bytes.\<close>

definition int64_codec :: "'a coins_env_scheme \<Rightarrow> bool" where
  "int64_codec e \<longleftrightarrow> (\<forall>v. if EncodeInt64 e (i64 v) = [] then i64 v = 0 else DecodeInt64 e (EncodeInt64 e (i64 v)) = Some (i64 v))"

lemma set_then_get:
  assumes "int64_codec e" and "\<not> l_disableread l" and "\<not> l_disablewrite l"
  shows "\<exists>l'. setAddrReciver e a (i64 v) l = (Ret (), l') \<and> getAddrReciver e a l' = (Ret (i64 v), l') \<and>
     \<not> l_disableread l' \<and> \<not> l_disablewrite l'"
proof -
  obtain l' where l': "l_Set (calcAddrKey a) (Some (EncodeInt64 e (i64 v))) l = (Ret (), l')"
    "l_Get (calcAddrKey a) l' = (Ret (EncodeInt64 e (i64 v)), l')" "\<not> l_disableread l'" "\<not> l_disablewrite l'"
    using l_Get_Set [OF assms(2,3)] by blast
  moreover have "getAddrReciver e a l' = (Ret (i64 v), l')"
    using l'(2) spec [OF assms(1) [unfolded int64_codec_def], of v]
    by (auto simp: getAddrReciver_def bind_def attempt_def split: if_splits)
  ultimately show ?thesis by (auto simp: setAddrReciver_def geAddrReciverKV_def Let_def)
qed

lemma updateAddrReciver_run:
  assumes "int64_codec e" and "\<not> l_disableread l" and "\<not> l_disablewrite l" and "getAddrReciver e a l = (Ret r, l0)"
  shows "\<exists>l'. updateAddrReciver e a n isadd l =
        (Ret (geAddrReciverKV e a (i64 (if isadd then r + n else r - n))), l') \<and>
     getAddrReciver e a l' = (Ret (i64 (if isadd then r + n else r - n)), l') \<and> \<not> l_disableread l' \<and> \<not> l_disablewrite l'"
proof -
  have "\<not> l_disableread l0" "\<not> l_disablewrite l0" using getAddrReciver_flags [OF assms(4)] assms(2,3) by simp_all
  from set_then_get [OF assms(1) this, of a "if isadd then r + n else r - n"] assms(4) show ?thesis
    by (auto simp: updateAddrReciver_def bind_def attempt_def Let_def)
qed

text \<open>
  C38. Undoing a block restores the amount an address has received: when the driver of the coins adds an amount to
  the index of an address and later subtracts it, with the wrap-around of 64 bits, the pair written last holds the old amount
  and a read returns it.
\<close>

theorem coins_received_roundtrip:
  assumes "int64_codec e" and "\<not> l_disableread l" and "\<not> l_disablewrite l"
    and "getAddrReciver e a l = (Ret r, l0)" and "i64 r = r"
  shows "\<exists>l'. bind (updateAddrReciver e a n True) (\<lambda>_. updateAddrReciver e a n False) l =
       (Ret (geAddrReciverKV e a r), l') \<and> fst (getAddrReciver e a l') = Ret r"
proof -
  from updateAddrReciver_run [OF assms(1-4), of n True] obtain l1 where l1:
    "updateAddrReciver e a n True l = (Ret (geAddrReciverKV e a (i64 (r + n))), l1)"
    "getAddrReciver e a l1 = (Ret (i64 (r + n)), l1)" "\<not> l_disableread l1" "\<not> l_disablewrite l1" by auto
  have undo: "i64 (i64 (r + n) - n) = r" using i64_add_left [of "r + n" "- n"] assms(5) by simp
  from updateAddrReciver_run [OF assms(1) l1(3,4,2), of n False] obtain l2 where
    "updateAddrReciver e a n False l1 = (Ret (geAddrReciverKV e a r), l2)" "getAddrReciver e a l2 = (Ret r, l2)"
    using undo by auto
  with l1(1) show ?thesis by (simp add: bind_def)
qed

definition toy_int :: "manage_env" where
  "toy_int = toy_node\<lparr>EncodeInt64 := (\<lambda>v. (if v < 0 then CHR ''-'' else CHR ''+'') # replicate (nat \<bar>v\<bar>) CHR ''1''),
     DecodeInt64 := (\<lambda>b. case b of [] \<Rightarrow> None | c # u \<Rightarrow> Some (if c = CHR ''-'' then - int (length u) else int (length u)))\<rparr>"

theorem coins_received_roundtrip_witness:
  "\<exists>l'. bind (updateAddrReciver toy_int ''p'' 3 True) (\<lambda>_. updateAddrReciver toy_int ''p'' 3 False) toy_local =
       (Ret (geAddrReciverKV toy_int ''p'' 0), l') \<and> fst (getAddrReciver toy_int ''p'' l') = Ret 0"
proof -
  have c: "int64_codec toy_int" by (auto simp: int64_codec_def toy_int_def)
  have l: "\<not> l_disableread toy_local" "\<not> l_disablewrite toy_local" by code_simp+
  have "fst (getAddrReciver toy_int ''p'' toy_local) = Ret 0" by code_simp
  then obtain l0 where "getAddrReciver toy_int ''p'' toy_local = (Ret 0, l0)" by (metis prod.collapse)
  from coins_received_roundtrip [OF c l this] show ?thesis by (simp add: i64_def)
qed

subsection \<open>The index of the configuration\<close>

definition rets :: "('r \<Rightarrow> bool) \<Rightarrow> ('s, 'r) prog \<Rightarrow> bool" where
  "rets P m \<longleftrightarrow> (\<forall>s r s'. m s = (Ret r, s') \<longrightarrow> P r)"

lemma rets_intros:
  "P r \<Longrightarrow> rets P (ret r)" "rets P (fail er)" "rets P (panic w)"
  "(\<And>x. rets P (k x)) \<Longrightarrow> rets P (bind m k)"
  by (auto simp: rets_def bind_def split: prod.splits outcome.splits)

lemma modifyConfig_logs: "rets (\<lambda>r. \<forall>l \<in> set (Logs r). LogTy l = TyLogModifyConfig) (modifyConfig e from h m)"
  unfolding modifyConfig_def Let_def by (auto intro!: rets_intros split: option.split)

lemma index_logs_skip: "\<forall>l \<in> set logs. LogTy l \<noteq> ManageActionModifyConfig \<Longrightarrow> index_logs e pick logs = Ret []"
  by (induction logs) auto

text \<open>
  C40. The index of the configuration in the local database is never written: the logs of a configuration
  change have the type \<^verbatim>\<open>TyLogModifyConfig\<close>, while \<^verbatim>\<open>ExecLocal_Modify\<close> and \<^verbatim>\<open>ExecDelLocal_Modify\<close> look
  for the number of the action \<^verbatim>\<open>ManageActionModifyConfig\<close>, so both return no pairs for the receipt of every successful change.
\<close>

theorem manage_index_never_written:
  assumes "modifyConfig e from h m s = (Ret r, s')"
  shows "ExecLocal_Modify e \<lparr>rdTy = Ty r, rdLogs = Logs r\<rparr> d = (Ret (Some []), d) \<and>
         ExecDelLocal_Modify e \<lparr>rdTy = Ty r, rdLogs = Logs r\<rparr> d = (Ret (Some []), d)"
proof -
  have "\<forall>l \<in> set (Logs r). LogTy l = TyLogModifyConfig"
    using modifyConfig_logs [of e "from" h m] assms unfolding rets_def by blast
  then have "index_logs e pick (Logs r) = Ret []" for pick
    by (intro index_logs_skip) (auto simp: TyLogModifyConfig_def ManageActionModifyConfig_def)
  then show ?thesis by (simp add: ExecLocal_Modify_def ExecDelLocal_Modify_def bind_def liftO_def)
qed

definition toy_modify :: ModifyConfig where
  "toy_modify = \<lparr>mc_Key = ''k'', mc_Value = ''v'', mc_Op = ''add'', mc_Addr = ''p''\<rparr>"

definition toy_manager :: manage_env where
  "toy_manager = toy_node\<lparr>superManager := [''p'']\<rparr>"

theorem manage_index_never_written_witness:
  "\<exists>r s'. modifyConfig toy_manager ''p'' 1 toy_modify (dsState (x_db toy_x)) = (Ret r, s') \<and> Logs r \<noteq> [] \<and>
     fst (ExecLocal_Modify toy_manager \<lparr>rdTy = Ty r, rdLogs = Logs r\<rparr> (x_db toy_x)) = Ret (Some [])"
proof -
  let ?run = "modifyConfig toy_manager ''p'' 1 toy_modify (dsState (x_db toy_x))"
  have "(case fst ?run of Ret r \<Rightarrow> length (Logs r) | _ \<Rightarrow> 0) = 1" by code_simp
  then obtain r s' where run: "?run = (Ret r, s')" and "length (Logs r) = 1" by (cases ?run) (auto split: outcome.splits)
  then have "Logs r \<noteq> []" by auto
  with run manage_index_never_written [OF run] show ?thesis by auto
qed

end
