(* ===== verification/Spec2Isabelle.thy ===== *)
theory Spec2Isabelle
  imports AccountQuery MavlVersions Forks MerkleBranch MempoolQueue ExecutorSafety DappProps
begin

text \<open>header\<close>

section \<open>Queries on the state store\<close>

text \<open>The table of a tree as the range queries see it; a nil value reads as an empty one.\<close>

definition table_of :: "mtree option \<Rightarrow> (bytes \<times> bytes) list" where
  "table_of mt = map (\<lambda>(k, v). (k, bytes_of v)) (entries mt)"

definition go_callback :: "('r \<Rightarrow> bytes \<Rightarrow> bytes \<Rightarrow> bool \<times> 'r) \<Rightarrow> bytes \<Rightarrow> bytes option \<Rightarrow> 'r \<Rightarrow> bool \<times> 'r" where
  "go_callback fn k v r = fn r k (bytes_of v)"

lemma walk_iterate: "snd (walk (go_callback fn) xs r) = iterate fn (map (\<lambda>(k, v). (k, bytes_of v)) xs) r"
  by (induction xs arbitrary: r) (auto simp: go_callback_def split: prod.splits)

lemma selected_range:
  "map (\<lambda>(k, v). (k, bytes_of v)) (selected (Some start) (Some stop) True False (entries mt)) = range_of (table_of mt) start stop"
  by (simp add: selected_def in_range_def range_of_def table_of_def filter_map o_def case_prod_beta)

lemma wp_query:
  assumes p: "plain env" and u: "universe env U" and d: "mdb_ok env U d" and v: "version env U (db_data d) h mt"
    and P: "\<And>d'. mdb_ok env U d' \<Longrightarrow> db_data d' = db_data d \<Longrightarrow> P (Ret (iterate fn (range_of (table_of mt) start stop) r)) d'"
  shows "wp (mavl_IterateRangeByStateHash env h (Some start) (Some stop) True (go_callback fn) r) P d"
proof -
  have ev: "evicts_only env" using p by (simp add: plain_def)
  have di: "db_inv env U (db_data d)" using d by (simp add: mdb_ok_def)
  let ?c = "Some (db_data d, Some [])"
  have load: "wp (Load env h) Q T" if "holds env ?c 0 None T"
    "\<And>T'. holds env ?c 0 mt T' \<Longrightarrow> Q (Ret ()) T'" for Q T
    using that(2) v di by (intro wp_Load [OF p u that(1)]) (auto simp: core_db_def)
  have fin: "P (Ret r') (detach d T')" if h: "holds env ?c 0 mt T'"
    "walk (go_callback fn) (selected (Some start) (Some stop) True False (entries mt)) r = (halt, r')" for T' halt r'
  proof -
    have "r' = iterate fn (range_of (table_of mt) start stop) r"
      unfolding selected_range [symmetric] walk_iterate [symmetric] h(2) by simp
    with detach_ok [OF h(1) di, of d] P show ?thesis by simp
  qed
  have iter: "wp (bind (IterateRange env (Some start) (Some stop) True (go_callback fn) r) (\<lambda>(_, a). ret a)) (\<lambda>r T'. P r (detach d T')) T"
    if "holds env ?c 0 mt T" for T
    by (subst wp_bind, rule wp_IterateRange [OF ev that]) (auto simp: wp_ret fin split: prod.splits)
  show ?thesis
    unfolding mavl_IterateRangeByStateHash_def
    by (rule wp_new_tree [OF d], subst wp_bind)
      (auto simp: wp_attempt intro!: load iter)
qed

lemma query_result:
  assumes "plain env" "universe env U" "mdb_ok env U d" "version env U (db_data d) h mt"
  shows "\<exists>d'. mavl_IterateRangeByStateHash env h (Some start) (Some stop) True (go_callback fn) r d =
      (Ret (iterate fn (range_of (table_of mt) start stop) r), d')"
  by (rule wp_ex0, rule wp_query [OF assms]) simp

text \<open>
  C21. The state store serves the range queries. Run over a version of the MAVL store, the callbacks of
  \<^verbatim>\<open>StoreListQuery\<close> and of \<^verbatim>\<open>GetTotalCoins\<close> give the replies their models give on the sorted table of the
  version: what was shown of pages and totals over such a table holds of the store.
\<close>

theorem mavl_serves_queries:
  assumes p: "plain env" "universe env U" "mdb_ok env U d" and v: "version env U (db_data d) h mt"
  shows "sorted_wrt (<) (map fst (table_of mt)) \<and>
    (\<exists>d'. mavl_IterateRangeByStateHash env h (Some (slStart req)) (Some (slEnd req)) True (go_callback IterateCallBack)
        (NewStoreListQuery req) d = (Ret (Run (\<lambda>_. range_of (table_of mt)) req), d')) \<and>
    (\<exists>d'. mavl_IterateRangeByStateHash env h (Some start) (Some stop) True (go_callback (IterateRangeByStateHash c))
        \<lparr>tcCount = n, tcNum = 0, tcAmount = 0, tcNextKey = None\<rparr> d =
        (Ret (StoreGetTotalCoins c (\<lambda>_. range_of (table_of mt)) hash start stop n), d'))"
proof -
  have "wf_tree mt" using v by (auto simp: version_def split: option.splits)
  from entries_sorted [OF this] have "sorted_wrt (<) (map fst (table_of mt))"
    by (simp add: table_of_def o_def case_prod_beta)
  then show ?thesis by (simp add: Run_def StoreGetTotalCoins_def query_result [OF p v])
qed

theorem mavl_serves_queries_witness:
  "\<exists>d'. mavl_IterateRangeByStateHash (go_env toy_hash) (Some (mhash (go_env toy_hash) tree_a)) (Some ''a'') (Some ''z'') True
      (go_callback IterateCallBack)
      (NewStoreListQuery \<lparr>slStateHash = [], slStart = ''a'', slEnd = ''z'', slSuffix = [], slCount = 5, slMode = 1\<rparr>) toy_db =
    (Ret (Run (\<lambda>_. range_of [(''a'', ''1'')]) \<lparr>slStateHash = [], slStart = ''a'', slEnd = ''z'', slSuffix = [], slCount = 5, slMode = 1\<rparr>), d')"
proof -
  have "table_of (Some tree_a) = [(''a'', ''1'')]" by code_simp
  with mavl_serves_queries [OF toy_plain(1) toy_universe toy_db_ok toy_version,
      of "\<lparr>slStateHash = [], slStart = ''a'', slEnd = ''z'', slSuffix = [], slCount = 5, slMode = 1\<rparr>"]
  show ?thesis by simp
qed

end
